(* ===== verification/PyBase.thy ===== *)
theory PyBase
  imports Main
begin

text \<open>
  The prelude of the development: Python exceptions as values, the result type of code that
  may raise, its sequencing operators, and the generic facts on lists the components share.
  Facts that decompose a successful run are collected in \<open>res_simps\<close>.
\<close>

named_theorems res_simps \<open>decomposition of runs in the result type\<close>

section \<open>Exceptions and results\<close>

text \<open>
  One constructor per exception class the modelled code raises or handles. \<open>DavError\<close> stands
  for any failure of a request to the CalDAV server (network, authorisation, server error),
  \<open>DavNotFound\<close> for the client library's \<open>NotFoundError\<close>,
  \<open>HTTPException\<close> for the web framework's error response with its status and detail,
  \<open>CryptoError\<close> for a failed authenticated decryption.
\<close>

datatype exn =
    ValueError
  | TypeError
  | KeyError
  | IndexError
  | OverflowError
  | AttributeError
  | AssertionError
  | UnicodeError
  | ZoneInfoNotFoundError
  | CryptoError
  | DavError
  | DavNotFound
  | EventNotFoundError string
  | UnsafeURLError string
  | ToolError string
  | HTTPException int string

type_synonym 'a res = "exn + 'a"

text \<open>\<open>bindr m f\<close>: run \<open>m\<close>; an exception ends the computation, a value is passed on.\<close>

definition bindr :: "'a res \<Rightarrow> ('a \<Rightarrow> 'b res) \<Rightarrow> 'b res" where
  "bindr m f = (case m of Inl e \<Rightarrow> Inl e | Inr x \<Rightarrow> f x)"

lemma bindr_simps [simp]:
  "bindr (Inl e) f = Inl e"
  "bindr (Inr x) f = f x"
  by (simp_all add: bindr_def)

lemma bindr_eq_Inr [res_simps]:
  "bindr m f = Inr y \<longleftrightarrow> (\<exists>x. m = Inr x \<and> f x = Inr y)"
  by (cases m) simp_all

lemma bindr_eq_Inl [res_simps]:
  "bindr m f = Inl e \<longleftrightarrow> m = Inl e \<or> (\<exists>x. m = Inr x \<and> f x = Inl e)"
  by (cases m) simp_all

lemma bindr_assoc: "bindr (bindr m f) g = bindr m (\<lambda>x. bindr (f x) g)"
  by (cases m) simp_all

lemma bindr_cong [fundef_cong]:
  "m = n \<Longrightarrow> (\<And>x. n = Inr x \<Longrightarrow> f x = g x) \<Longrightarrow> bindr m f = bindr n g"
  by (cases n) simp_all

text \<open>\<open>tryr m h\<close>: Python's \<open>try: m except Exception: h\<close>.\<close>

definition tryr :: "'a res \<Rightarrow> 'a res \<Rightarrow> 'a res" where
  "tryr m h = (case m of Inl _ \<Rightarrow> h | Inr x \<Rightarrow> Inr x)"

lemma tryr_simps [simp]:
  "tryr (Inl e) h = h"
  "tryr (Inr x) h = Inr x"
  by (simp_all add: tryr_def)

definition ok_or :: "'a \<Rightarrow> 'a res \<Rightarrow> 'a" where
  "ok_or d m = (case m of Inl _ \<Rightarrow> d | Inr x \<Rightarrow> x)"

lemma ok_or_simps [simp]:
  "ok_or d (Inl e) = d"
  "ok_or d (Inr x) = x"
  by (simp_all add: ok_or_def)

definition option_res :: "exn \<Rightarrow> 'a option \<Rightarrow> 'a res" where
  "option_res e x = (case x of None \<Rightarrow> Inl e | Some y \<Rightarrow> Inr y)"

lemma option_res_simps [simp]:
  "option_res e None = Inl e"
  "option_res e (Some y) = Inr y"
  by (simp_all add: option_res_def)

lemma option_res_eq_Inr [res_simps]: "option_res e x = Inr y \<longleftrightarrow> x = Some y"
  by (cases x) simp_all

text \<open>A loop whose body may raise, collecting the results (a list comprehension).\<close>

fun mapr :: "('a \<Rightarrow> 'b res) \<Rightarrow> 'a list \<Rightarrow> 'b list res" where
  "mapr f [] = Inr []"
| "mapr f (x # xs) = bindr (f x) (\<lambda>y. bindr (mapr f xs) (\<lambda>ys. Inr (y # ys)))"

lemma mapr_cong [fundef_cong]:
  "xs = ys \<Longrightarrow> (\<And>x. x \<in> set ys \<Longrightarrow> f x = g x) \<Longrightarrow> mapr f xs = mapr g ys"
proof (induction ys arbitrary: xs)
  case Nil
  then show ?case by simp
next
  case (Cons y ys)
  then have "f y = g y" and "mapr f ys = mapr g ys" by simp_all
  with Cons.prems show ?case by simp
qed

lemma mapr_eq_Inr [res_simps]:
  "mapr f xs = Inr ys \<longleftrightarrow> list_all2 (\<lambda>x y. f x = Inr y) xs ys"
  by (induction xs arbitrary: ys) (auto simp: bindr_eq_Inr list_all2_Cons1)

lemma mapr_total: "(\<And>x. x \<in> set xs \<Longrightarrow> f x = Inr (g x)) \<Longrightarrow> mapr f xs = Inr (map g xs)"
  by (induction xs) auto

lemma mapr_length: "mapr f xs = Inr ys \<Longrightarrow> length ys = length xs"
  by (simp add: mapr_eq_Inr list_all2_lengthD)

lemma mapr_in: "mapr f xs = Inr ys \<Longrightarrow> y \<in> set ys \<Longrightarrow> \<exists>x \<in> set xs. f x = Inr y"
  by (induction xs arbitrary: ys) (auto simp: bindr_eq_Inr)

lemma mapr_Inr [simp]: "mapr Inr xs = Inr xs"
  by (induction xs) simp_all

lemma mapr_append:
  "mapr f (xs @ ys) = bindr (mapr f xs) (\<lambda>as. bindr (mapr f ys) (\<lambda>bs. Inr (as @ bs)))"
  by (induction xs) (simp_all add: bindr_assoc bindr_def split: sum.splits)

text \<open>A comprehension whose filter may raise.\<close>

fun filterr :: "('a \<Rightarrow> bool res) \<Rightarrow> 'a list \<Rightarrow> 'a list res" where
  "filterr P [] = Inr []"
| "filterr P (x # xs) =
     bindr (P x) (\<lambda>b. bindr (filterr P xs) (\<lambda>ys. Inr (if b then x # ys else ys)))"

lemma filterr_eq_Inr:
  "filterr P xs = Inr ys \<Longrightarrow> ys = filter (\<lambda>x. P x = Inr True) xs \<and> (\<forall>x \<in> set xs. \<exists>b. P x = Inr b)"
proof (induction xs arbitrary: ys)
  case (Cons x xs)
  then obtain b zs where "P x = Inr b" "filterr P xs = Inr zs" "ys = (if b then x # zs else zs)"
    by (auto simp: bindr_eq_Inr)
  with Cons.IH [of zs] show ?case by auto
qed simp

section \<open>Stateful computations\<close>

text \<open>A computation that acts on a state of type \<open>'w\<close> and may raise; the state survives the
  exception, as the effects of a Python call do.\<close>

type_synonym ('w, 'a) io = "'w \<Rightarrow> 'a res \<times> 'w"

definition reti :: "'a \<Rightarrow> ('w, 'a) io" where
  "reti x = (\<lambda>w. (Inr x, w))"

definition raisei :: "exn \<Rightarrow> ('w, 'a) io" where
  "raisei e = (\<lambda>w. (Inl e, w))"

definition liftr :: "'a res \<Rightarrow> ('w, 'a) io" where
  "liftr r = (\<lambda>w. (r, w))"

definition bindi :: "('w, 'a) io \<Rightarrow> ('a \<Rightarrow> ('w, 'b) io) \<Rightarrow> ('w, 'b) io" where
  "bindi m f = (\<lambda>w. case m w of (Inl e, w') \<Rightarrow> (Inl e, w') | (Inr x, w') \<Rightarrow> f x w')"

lemma io_simps [simp]:
  "reti x w = (Inr x, w)" "raisei e w = (Inl e, w)" "liftr r w = (r, w)"
  by (simp_all add: reti_def raisei_def liftr_def)

lemma bindi_simps [simp]:
  "m w = (Inr x, w') \<Longrightarrow> bindi m f w = f x w'"
  "m w = (Inl e, w') \<Longrightarrow> bindi m f w = (Inl e, w')"
  by (simp_all add: bindi_def)

lemma bindi_reti [simp]: "bindi (reti x) f = f x" and bindi_raisei [simp]: "bindi (raisei e) f = raisei e"
  by (simp_all add: bindi_def reti_def raisei_def)

lemma bindi_liftr [simp]: "bindi (liftr (Inr x)) f = f x" "bindi (liftr (Inl e)) f = raisei e"
  by (simp_all add: bindi_def liftr_def raisei_def)

text \<open>A loop over a list.\<close>

fun mapi :: "('a \<Rightarrow> ('w, 'b) io) \<Rightarrow> 'a list \<Rightarrow> ('w, 'b list) io" where
  "mapi f [] = reti []"
| "mapi f (x # xs) = bindi (f x) (\<lambda>y. bindi (mapi f xs) (\<lambda>ys. reti (y # ys)))"

text \<open>Evaluation unfolds the sequencing operators to their case analysis.\<close>

declare bindr_def [code_unfold]
declare bindi_def [code_unfold]

section \<open>Lists\<close>

text \<open>Update, removal and lookup of the first element that satisfies a predicate.\<close>

fun update_first :: "('a \<Rightarrow> bool) \<Rightarrow> ('a \<Rightarrow> 'a) \<Rightarrow> 'a list \<Rightarrow> 'a list" where
  "update_first P f [] = []"
| "update_first P f (x # xs) = (if P x then f x # xs else x # update_first P f xs)"

fun remove_first :: "('a \<Rightarrow> bool) \<Rightarrow> 'a list \<Rightarrow> 'a list" where
  "remove_first P [] = []"
| "remove_first P (x # xs) = (if P x then xs else x # remove_first P xs)"

lemma length_update_first [simp]: "length (update_first P f xs) = length xs"
  by (induction xs) simp_all

lemma find_Some_iff_ex: "(\<exists>x. find P xs = Some x) \<longleftrightarrow> (\<exists>x \<in> set xs. P x)"
  by (induction xs) auto

lemma find_SomeD: "find P xs = Some x \<Longrightarrow> x \<in> set xs \<and> P x"
  by (induction xs) (auto split: if_splits)

lemma find_update_first:
  "find P xs = Some x \<Longrightarrow> P (f x) \<Longrightarrow> find P (update_first P f xs) = Some (f x)"
  by (induction xs) (auto split: if_splits)

lemma filter_update_first_neg:
  "(\<And>x. x \<in> set xs \<Longrightarrow> P x \<Longrightarrow> \<not> Q x \<and> \<not> Q (f x)) \<Longrightarrow>
   filter Q (update_first P f xs) = filter Q xs"
  by (induction xs) auto

lemma update_first_none: "(\<And>x. x \<in> set xs \<Longrightarrow> \<not> P x) \<Longrightarrow> update_first P f xs = xs"
  by (induction xs) auto

lemma set_update_first:
  "y \<in> set (update_first P f xs) \<Longrightarrow> y \<in> set xs \<or> (\<exists>x \<in> set xs. P x \<and> y = f x)"
  by (induction xs) (auto split: if_splits)

lemma find_filter_keep:
  "(\<And>x. x \<in> set xs \<Longrightarrow> P x \<Longrightarrow> Q x) \<Longrightarrow> find P (filter Q xs) = find P xs"
  by (induction xs) auto

lemma filter_none: "(\<And>x. x \<in> set xs \<Longrightarrow> \<not> P x) \<Longrightarrow> filter P xs = []"
  by (induction xs) auto

end
