(* ===== verification/PyStr.thy ===== *)
theory PyStr
  imports PyBase
begin

text \<open>
  Python strings as \<open>string\<close> (lists of ASCII characters; case mapping and white space are those
  of ASCII), with the operations the modelled code applies to them: case mapping, \<open>strip\<close>,
  \<open>split\<close>, \<open>startswith\<close>, decimal printing and \<open>int(...)\<close> parsing.
\<close>

section \<open>Characters\<close>

definition ccode :: "char \<Rightarrow> nat" where
  "ccode c = of_char c"

definition is_space :: "char \<Rightarrow> bool" where
  "is_space c \<longleftrightarrow> ccode c = 32 \<or> (9 \<le> ccode c \<and> ccode c \<le> 13) \<or> (28 \<le> ccode c \<and> ccode c \<le> 31)"

definition is_digit :: "char \<Rightarrow> bool" where
  "is_digit c \<longleftrightarrow> 48 \<le> ccode c \<and> ccode c \<le> 57"

definition digit_val :: "char \<Rightarrow> int" where
  "digit_val c = int (ccode c) - 48"

definition digit_char :: "int \<Rightarrow> char" where
  "digit_char n = char_of (nat n + 48)"

definition to_upper :: "char \<Rightarrow> char" where
  "to_upper c = (if 97 \<le> ccode c \<and> ccode c \<le> 122 then char_of (ccode c - 32) else c)"

definition to_lower :: "char \<Rightarrow> char" where
  "to_lower c = (if 65 \<le> ccode c \<and> ccode c \<le> 90 then char_of (ccode c + 32) else c)"

lemma ccode_digit_char: "0 \<le> n \<Longrightarrow> n < 10 \<Longrightarrow> ccode (digit_char n) = nat n + 48"
  by (simp add: ccode_def digit_char_def of_char_of)

lemma is_digit_digit_char [simp]: "0 \<le> n \<Longrightarrow> n < 10 \<Longrightarrow> is_digit (digit_char n)"
  by (simp add: is_digit_def ccode_digit_char)

lemma digit_val_digit_char [simp]: "0 \<le> n \<Longrightarrow> n < 10 \<Longrightarrow> digit_val (digit_char n) = n"
  by (simp add: digit_val_def ccode_digit_char)

lemma digit_val_range: "is_digit c \<Longrightarrow> 0 \<le> digit_val c \<and> digit_val c < 10"
  by (auto simp: is_digit_def digit_val_def)

section \<open>Strings\<close>

definition upper :: "string \<Rightarrow> string" where "upper s = map to_upper s"
definition lower :: "string \<Rightarrow> string" where "lower s = map to_lower s"

definition lstrip :: "string \<Rightarrow> string" where "lstrip s = dropWhile is_space s"
definition rstrip :: "string \<Rightarrow> string" where "rstrip s = rev (dropWhile is_space (rev s))"
definition strip :: "string \<Rightarrow> string" where "strip s = rstrip (lstrip s)"

definition startswith :: "string \<Rightarrow> string \<Rightarrow> bool" where
  "startswith p s \<longleftrightarrow> take (length p) s = p"

text \<open>\<open>s.split(c)\<close> for a one-character separator: always at least one part.\<close>

fun split_on :: "char \<Rightarrow> string \<Rightarrow> string list" where
  "split_on c [] = [[]]"
| "split_on c (x # xs) =
     (if x = c then [] # split_on c xs
      else case split_on c xs of [] \<Rightarrow> [[x]] | y # ys \<Rightarrow> (x # y) # ys)"

text \<open>\<open>s.rstrip(c)\<close> for one character.\<close>

definition rstrip_char :: "char \<Rightarrow> string \<Rightarrow> string" where
  "rstrip_char c s = rev (dropWhile (\<lambda>x. x = c) (rev s))"

text \<open>\<open>sep.join(parts)\<close>.\<close>

fun join :: "string \<Rightarrow> string list \<Rightarrow> string" where
  "join sep [] = []"
| "join sep [x] = x"
| "join sep (x # y # ys) = x @ sep @ join sep (y # ys)"

lemma split_on_nonempty [simp]: "split_on c s \<noteq> []"
  by (cases s) (auto split: list.splits)

lemma startswith_append [simp]: "startswith p (p @ s)"
  by (simp add: startswith_def)

lemma join_split_on: "join [c] (split_on c s) = s"
proof (induction s)
  case Nil
  then show ?case by simp
next
  case (Cons x xs)
  then show ?case
  proof (cases "split_on c xs")
    case (Cons y ys)
    with \<open>join [c] (split_on c xs) = xs\<close> show ?thesis by (cases ys) auto
  qed simp
qed

section \<open>Integers in decimal\<close>

fun str_nat :: "nat \<Rightarrow> string" where
  "str_nat n = (if n < 10 then [digit_char (int n)]
                else str_nat (n div 10) @ [digit_char (int (n mod 10))])"

declare str_nat.simps [simp del]

definition str_int :: "int \<Rightarrow> string" where
  "str_int i = (if i < 0 then CHR ''-'' # str_nat (nat (- i)) else str_nat (nat i))"

text \<open>\<open>f"{n:02d}"\<close> and \<open>f"{n:04d}"\<close> for the ranges the code prints.\<close>

definition pad2 :: "int \<Rightarrow> string" where
  "pad2 n = [digit_char (n div 10 mod 10), digit_char (n mod 10)]"

definition pad4 :: "int \<Rightarrow> string" where
  "pad4 n = [digit_char (n div 1000 mod 10), digit_char (n div 100 mod 10),
             digit_char (n div 10 mod 10), digit_char (n mod 10)]"

text \<open>A run of digits, and Python's \<open>int(s)\<close>: surrounding white space, one sign, digits with
  single underscores between them.\<close>

definition digits_val :: "string \<Rightarrow> int" where
  "digits_val s = foldl (\<lambda>a c. 10 * a + digit_val c) 0 s"

definition all_digits :: "string \<Rightarrow> bool" where
  "all_digits s \<longleftrightarrow> s \<noteq> [] \<and> list_all is_digit s"

definition uint_of :: "string \<Rightarrow> int res" where
  "uint_of s = (if all_digits s then Inr (digits_val s) else Inl ValueError)"

definition py_int :: "string \<Rightarrow> int res" where
  "py_int s =
     (let t = strip s;
          neg = (case t of c # _ \<Rightarrow> c = CHR ''-'' | [] \<Rightarrow> False);
          body = (case t of c # r \<Rightarrow> if c = CHR ''-'' \<or> c = CHR ''+'' then r else t | [] \<Rightarrow> t);
          parts = split_on (CHR ''_'') body
      in if list_all all_digits parts
         then Inr ((if neg then -1 else 1) * digits_val (concat parts))
         else Inl ValueError)"

lemma digits_val_snoc: "digits_val (s @ [c]) = 10 * digits_val s + digit_val c"
  by (simp add: digits_val_def)

lemma digits_val_Nil [simp]: "digits_val [] = 0"
  by (simp add: digits_val_def)

lemma digits_val_nonneg: "list_all is_digit s \<Longrightarrow> 0 \<le> digits_val s"
proof (induction s rule: rev_induct)
  case (snoc c s)
  then show ?case using digit_val_range [of c] by (simp add: digits_val_snoc)
qed simp

lemma all_digits_str_nat: "all_digits (str_nat n)"
proof (induction n rule: str_nat.induct)
  case (1 n)
  show ?case
  proof (cases "n < 10")
    case True
    then show ?thesis by (simp add: all_digits_def str_nat.simps [of n])
  next
    case False
    with 1 have "all_digits (str_nat (n div 10))" by simp
    with False show ?thesis by (simp add: all_digits_def str_nat.simps [of n])
  qed
qed

lemma digits_val_str_nat: "digits_val (str_nat n) = int n"
proof (induction n rule: str_nat.induct)
  case (1 n)
  show ?case
  proof (cases "n < 10")
    case True
    then show ?thesis by (simp add: str_nat.simps [of n] digits_val_def)
  next
    case False
    with 1 have "digits_val (str_nat (n div 10)) = int (n div 10)" by simp
    with False show ?thesis
      by (simp add: str_nat.simps [of n] digits_val_snoc zdiv_int zmod_int)
  qed
qed

lemma pad2_simps [simp]: "length (pad2 n) = 2"
  by (simp add: pad2_def)

lemma pad4_simps [simp]: "length (pad4 n) = 4"
  by (simp add: pad4_def)

lemma uint_of_pad2: "0 \<le> n \<Longrightarrow> n < 100 \<Longrightarrow> uint_of (pad2 n) = Inr n"
  by (simp add: uint_of_def all_digits_def pad2_def digits_val_def)

lemma horner4:
  "n = 10 * a + d0 \<Longrightarrow> a = 10 * b + d1 \<Longrightarrow> b = 10 * c + d2 \<Longrightarrow> c' = c \<Longrightarrow>
   10 * (10 * (10 * c' + d2) + d1) + d0 = (n::int)"
  by simp

lemma uint_of_pad4: "0 \<le> n \<Longrightarrow> n < 10000 \<Longrightarrow> uint_of (pad4 n) = Inr n"
proof -
  assume "0 \<le> n" and "n < 10000"
  have "n = 10 * (n div 10) + n mod 10"
    and "n div 10 = 10 * (n div 100) + n div 10 mod 10"
    and "n div 100 = 10 * (n div 1000) + n div 100 mod 10"
    using mult_div_mod_eq [of 10 n] mult_div_mod_eq [of 10 "n div 10"]
      mult_div_mod_eq [of 10 "n div 100"]
    by (simp_all add: zdiv_zmult2_eq [symmetric])
  moreover from \<open>0 \<le> n\<close> \<open>n < 10000\<close> have "n div 1000 mod 10 = n div 1000" by simp
  ultimately
  have v: "10 * (10 * (10 * (n div 1000 mod 10) + n div 100 mod 10) + n div 10 mod 10) + n mod 10 = n"
    by (rule horner4)
  have "digits_val (pad4 n) =
    10 * (10 * (10 * (n div 1000 mod 10) + n div 100 mod 10) + n div 10 mod 10) + n mod 10"
    by (simp add: pad4_def digits_val_def)
  from this v have "digits_val (pad4 n) = n" by (rule trans)
  moreover have "all_digits (pad4 n)" by (simp add: all_digits_def pad4_def)
  ultimately show ?thesis by (simp add: uint_of_def)
qed

lemma not_space_digit: "is_digit c \<Longrightarrow> \<not> is_space c"
  by (auto simp: is_digit_def is_space_def)

lemma split_on_absent: "c \<notin> set s \<Longrightarrow> split_on c s = [s]"
  by (induction s) auto

lemma split_on_append: "c \<notin> set s \<Longrightarrow> split_on c (s @ c # r) = s # split_on c r"
  by (induction s) auto

lemma digit_not_special:
  "is_digit c \<Longrightarrow> c \<noteq> CHR ''-'' \<and> c \<noteq> CHR ''+'' \<and> c \<noteq> CHR ''_''"
  by (auto simp: is_digit_def ccode_def)

lemma strip_no_space: "(\<And>c. c \<in> set s \<Longrightarrow> \<not> is_space c) \<Longrightarrow> strip s = s"
proof -
  assume a: "\<And>c. c \<in> set s \<Longrightarrow> \<not> is_space c"
  have d: "dropWhile is_space t = t" if "\<And>c. c \<in> set t \<Longrightarrow> \<not> is_space c" for t
    using that by (cases t) auto
  have "dropWhile is_space s = s" and "dropWhile is_space (rev s) = rev s"
    using a by (auto intro!: d)
  then show "strip s = s" by (simp add: strip_def lstrip_def rstrip_def)
qed

lemma py_int_all_digits: "all_digits s \<Longrightarrow> py_int s = Inr (digits_val s)"
proof -
  assume a: "all_digits s"
  then have dig: "\<And>c. c \<in> set s \<Longrightarrow> is_digit c"
    by (auto simp: all_digits_def list_all_iff)
  then have st: "strip s = s" using not_space_digit strip_no_space by blast
  have us: "CHR ''_'' \<notin> set s" using dig digit_not_special by blast
  from a obtain c r where s: "s = c # r" by (cases s) (auto simp: all_digits_def)
  with dig digit_not_special have "c \<noteq> CHR ''-''" and "c \<noteq> CHR ''+''" by auto
  with s st a split_on_absent [OF us] show "py_int s = Inr (digits_val s)"
    by (simp add: py_int_def Let_def del: split_on.simps)
qed


lemma py_int_neg_digits: "all_digits s \<Longrightarrow> py_int (CHR ''-'' # s) = Inr (- digits_val s)"
proof -
  assume a: "all_digits s"
  then have dig: "\<And>c. c \<in> set s \<Longrightarrow> is_digit c"
    by (auto simp: all_digits_def list_all_iff)
  have "\<not> is_space (CHR ''-'')" by (simp add: is_space_def ccode_def)
  then have st: "strip (CHR ''-'' # s) = CHR ''-'' # s"
    using dig not_space_digit by (auto intro!: strip_no_space)
  have us: "CHR ''_'' \<notin> set s" using dig digit_not_special by blast
  with st a split_on_absent [OF us] show ?thesis
    by (simp add: py_int_def Let_def del: split_on.simps)
qed

lemma py_int_str_int: "py_int (str_int i) = Inr i"
proof (cases "i < 0")
  case True
  then show ?thesis
    using py_int_neg_digits [OF all_digits_str_nat, of "nat (- i)"]
    by (simp add: str_int_def digits_val_str_nat)
next
  case False
  then show ?thesis
    using py_int_all_digits [OF all_digits_str_nat, of "nat i"]
    by (simp add: str_int_def digits_val_str_nat)
qed

end
