(* ===== verification/Json.thy ===== *)
theory Json
  imports PyStr
begin

text \<open>
  The serialisation the sealed blobs travel in: \<open>json.dumps\<close> (default separators, ASCII escapes) and
  \<open>json.loads\<close> of Python's standard library, and base64. Strings of the model are eight-bit, so a
  string escape beyond that has no value here and is an error; numbers with a fraction or exponent
  keep their literal. Reading back what was written is the theorem the tokens and shares rest on.
\<close>

section \<open>Writing JSON\<close>

datatype json = JNull | JBool bool | JInt int | JFloat string | JStr string | JArr "json list"
  | JObj "(string \<times> json) list"

definition hexc :: "nat \<Rightarrow> char" where
  "hexc n = (if n < 10 then char_of (n + 48) else char_of (n + 87))"

definition esc_char :: "char \<Rightarrow> string" where
  "esc_char c =
     (if c = CHR 0x22 then [CHR 0x5c, CHR 0x22]
      else if c = CHR 0x5c then [CHR 0x5c, CHR 0x5c]
      else if ccode c = 10 then [CHR 0x5c, CHR ''n'']
      else if ccode c = 13 then [CHR 0x5c, CHR ''r'']
      else if ccode c = 9 then [CHR 0x5c, CHR ''t'']
      else if ccode c = 8 then [CHR 0x5c, CHR ''b'']
      else if ccode c = 12 then [CHR 0x5c, CHR ''f'']
      else if 32 \<le> ccode c \<and> ccode c < 127 then [c]
      else [CHR 0x5c, CHR ''u'', CHR ''0'', CHR ''0'', hexc (ccode c div 16), hexc (ccode c mod 16)])"

definition quote :: "string \<Rightarrow> string" where
  "quote s = CHR 0x22 # concat (map esc_char s) @ [CHR 0x22]"

fun dumps :: "json \<Rightarrow> string" where
  "dumps JNull = ''null''"
| "dumps (JBool b) = (if b then ''true'' else ''false'')"
| "dumps (JInt i) = str_int i"
| "dumps (JFloat s) = s"
| "dumps (JStr s) = quote s"
| "dumps (JArr xs) = CHR ''['' # join '', '' (map dumps xs) @ '']''"
| "dumps (JObj kvs) = CHR ''{'' # join '', '' (map (\<lambda>kv. quote (fst kv) @ '': '' @ dumps (snd kv)) kvs) @ ''}''"

section \<open>Reading JSON\<close>

definition json_ws :: "char \<Rightarrow> bool" where
  "json_ws c \<longleftrightarrow> ccode c \<in> {32, 9, 10, 13}"

definition skip :: "string \<Rightarrow> string" where
  "skip s = dropWhile json_ws s"

definition hexv :: "char \<Rightarrow> nat option" where
  "hexv c =
     (if is_digit c then Some (ccode c - 48)
      else if 97 \<le> ccode c \<and> ccode c \<le> 102 then Some (ccode c - 87)
      else if 65 \<le> ccode c \<and> ccode c \<le> 70 then Some (ccode c - 55) else None)"

definition hex4 :: "char \<Rightarrow> char \<Rightarrow> char \<Rightarrow> char \<Rightarrow> char res" where
  "hex4 a b c d =
     (case (hexv a, hexv b, hexv c, hexv d) of
        (Some w, Some x, Some y, Some z) \<Rightarrow>
          let n = ((w * 16 + x) * 16 + y) * 16 + z in
          if n < 256 then Inr (char_of n) else Inl UnicodeError
      | _ \<Rightarrow> Inl ValueError)"

definition unesc :: "char \<Rightarrow> char option" where
  "unesc c =
     (if c = CHR 0x22 \<or> c = CHR 0x5c \<or> c = CHR ''/'' then Some c
      else if c = CHR ''n'' then Some (CHR 10) else if c = CHR ''r'' then Some (CHR 13)
      else if c = CHR ''t'' then Some (CHR 9) else if c = CHR ''b'' then Some (CHR 8)
      else if c = CHR ''f'' then Some (CHR 12) else None)"

text \<open>The rest of a string literal, after its opening quote.\<close>

fun pstr :: "nat \<Rightarrow> string \<Rightarrow> (string \<times> string) res" where
  "pstr 0 s = Inl ValueError"
| "pstr (Suc n) s =
     (case s of
        [] \<Rightarrow> Inl ValueError
      | c # r \<Rightarrow>
          if c = CHR 0x22 then Inr ([], r)
          else if c = CHR 0x5c then
            (case r of
               [] \<Rightarrow> Inl ValueError
             | e # r' \<Rightarrow>
                 if e = CHR ''u'' then
                   (case r' of
                      h1 # h2 # h3 # h4 # r'' \<Rightarrow>
                        bindr (hex4 h1 h2 h3 h4) (\<lambda>x. bindr (pstr n r'') (\<lambda>(t, z). Inr (x # t, z)))
                    | _ \<Rightarrow> Inl ValueError)
                 else (case unesc e of
                         None \<Rightarrow> Inl ValueError
                       | Some x \<Rightarrow> bindr (pstr n r') (\<lambda>(t, z). Inr (x # t, z))))
          else if ccode c < 32 then Inl ValueError
          else bindr (pstr n r) (\<lambda>(t, z). Inr (c # t, z)))"

definition pstring :: "string \<Rightarrow> (string \<times> string) res" where
  "pstring s = pstr (Suc (length s)) s"

text \<open>Numbers: an integer part without leading zeros, then a fraction and an exponent if they are
  complete.\<close>

definition int_part :: "string \<Rightarrow> string \<times> string" where
  "int_part s =
     (case s of
        c # r \<Rightarrow> if c = CHR ''0'' then ([c], r) else (takeWhile is_digit s, dropWhile is_digit s)
      | [] \<Rightarrow> ([], []))"

definition frac_part :: "string \<Rightarrow> string \<times> string" where
  "frac_part s =
     (case s of
        c # r \<Rightarrow> if c = CHR ''.'' \<and> takeWhile is_digit r \<noteq> [] then (c # takeWhile is_digit r, dropWhile is_digit r) else ([], s)
      | [] \<Rightarrow> ([], []))"

definition exp_part :: "string \<Rightarrow> string \<times> string" where
  "exp_part s =
     (case s of
        c # r \<Rightarrow>
          let sg = (case r of d # _ \<Rightarrow> if d = CHR ''+'' \<or> d = CHR ''-'' then [d] else [] | [] \<Rightarrow> []);
              r' = drop (length sg) r in
          if (c = CHR ''e'' \<or> c = CHR ''E'') \<and> takeWhile is_digit r' \<noteq> []
          then (c # sg @ takeWhile is_digit r', dropWhile is_digit r') else ([], s)
      | [] \<Rightarrow> ([], []))"

definition pnumber :: "string \<Rightarrow> (json \<times> string) res" where
  "pnumber s0 =
     (let neg = (case s0 of c # _ \<Rightarrow> c = CHR ''-'' | [] \<Rightarrow> False);
          s = (if neg then drop 1 s0 else s0);
          (i, s1) = int_part s in
      if i = [] then Inl ValueError
      else
        let (f, s2) = frac_part s1; (e, s3) = exp_part s2 in
        if f = [] \<and> e = [] then Inr (JInt ((if neg then -1 else 1) * digits_val i), s1)
        else Inr (JFloat ((if neg then ''-'' else []) @ i @ f @ e), s3))"

text \<open>An object is a dict: a repeated key keeps its place and takes the last value.\<close>

definition put_key :: "string \<Rightarrow> json \<Rightarrow> (string \<times> json) list \<Rightarrow> (string \<times> json) list" where
  "put_key k v kvs =
     (if k \<in> fst ` set kvs then map (\<lambda>kv. if fst kv = k then (k, v) else kv) kvs else kvs @ [(k, v)])"

definition dict_of :: "(string \<times> json) list \<Rightarrow> (string \<times> json) list" where
  "dict_of kvs = fold (\<lambda>kv acc. put_key (fst kv) (snd kv) acc) kvs []"

definition literal :: "string \<Rightarrow> json \<Rightarrow> string \<Rightarrow> (json \<times> string) option" where
  "literal word v s = (if startswith word s then Some (v, drop (length word) s) else None)"

text \<open>A value, the elements of an array after its bracket, the pairs of an object after a brace; fuel
  bounds the nesting.\<close>

fun pval :: "nat \<Rightarrow> string \<Rightarrow> (json \<times> string) res"
  and pelems :: "nat \<Rightarrow> string \<Rightarrow> (json list \<times> string) res"
  and ppairs :: "nat \<Rightarrow> string \<Rightarrow> ((string \<times> json) list \<times> string) res" where
  "pval 0 s = Inl ValueError"
| "pval (Suc n) s =
     (case s of
        [] \<Rightarrow> Inl ValueError
      | c # r \<Rightarrow>
          if c = CHR 0x22 then bindr (pstring r) (\<lambda>(t, z). Inr (JStr t, z))
          else if c = CHR ''['' then
            (case skip r of
               d # z \<Rightarrow> if d = CHR '']'' then Inr (JArr [], z)
                        else bindr (pelems n (d # z)) (\<lambda>(xs, z). Inr (JArr xs, z))
             | [] \<Rightarrow> Inl ValueError)
          else if c = CHR ''{'' then
            (case skip r of
               d # z \<Rightarrow> if d = CHR ''}'' then Inr (JObj [], z)
                        else bindr (ppairs n (d # z)) (\<lambda>(kvs, z). Inr (JObj (dict_of kvs), z))
             | [] \<Rightarrow> Inl ValueError)
          else (case literal ''null'' JNull s of Some y \<Rightarrow> Inr y | None \<Rightarrow>
               (case literal ''true'' (JBool True) s of Some y \<Rightarrow> Inr y | None \<Rightarrow>
               (case literal ''false'' (JBool False) s of Some y \<Rightarrow> Inr y | None \<Rightarrow>
               (case literal ''NaN'' (JFloat ''NaN'') s of Some y \<Rightarrow> Inr y | None \<Rightarrow>
               (case literal ''Infinity'' (JFloat ''Infinity'') s of Some y \<Rightarrow> Inr y | None \<Rightarrow>
               (case literal ''-Infinity'' (JFloat ''-Infinity'') s of Some y \<Rightarrow> Inr y | None \<Rightarrow> pnumber s)))))))"
| "pelems 0 s = Inl ValueError"
| "pelems (Suc n) s =
     bindr (pval n s) (\<lambda>(x, r).
       case skip r of
         d # z \<Rightarrow>
           if d = CHR '']'' then Inr ([x], z)
           else if d = CHR '','' then bindr (pelems n (skip z)) (\<lambda>(xs, z'). Inr (x # xs, z'))
           else Inl ValueError
       | [] \<Rightarrow> Inl ValueError)"
| "ppairs 0 s = Inl ValueError"
| "ppairs (Suc n) s =
     (case s of
        [] \<Rightarrow> Inl ValueError
      | c # r \<Rightarrow>
          if c \<noteq> CHR 0x22 then Inl ValueError
          else bindr (pstring r) (\<lambda>(k, r1).
            case skip r1 of
              [] \<Rightarrow> Inl ValueError
            | d # r2 \<Rightarrow>
                if d \<noteq> CHR '':'' then Inl ValueError
                else bindr (pval n (skip r2)) (\<lambda>(v, r3).
                  case skip r3 of
                    e # z \<Rightarrow>
                      if e = CHR ''}'' then Inr ([(k, v)], z)
                      else if e = CHR '','' then bindr (ppairs n (skip z)) (\<lambda>(kvs, z'). Inr ((k, v) # kvs, z'))
                      else Inl ValueError
                  | [] \<Rightarrow> Inl ValueError)))"

definition loads :: "string \<Rightarrow> json res" where
  "loads s =
     bindr (pval (Suc (length s)) (skip s)) (\<lambda>(j, r). if skip r = [] then Inr j else Inl ValueError)"

section \<open>Round trip\<close>

lemma char_of_ccode [simp]: "char_of (ccode c) = c"
  by (simp add: ccode_def)

lemma ccode_less: "ccode c < 256"
  by (simp add: ccode_def)

lemma hexv_hexc: "n < 16 \<Longrightarrow> hexv (hexc n) = Some n"
  by (simp add: hexv_def hexc_def is_digit_def ccode_def of_char_of)

lemma pstr_esc:
  "pstr (Suc n) (esc_char c @ r) = bindr (pstr n r) (\<lambda>(t, z). Inr (c # t, z))"
proof -
  have code: "ccode c = k \<Longrightarrow> c = char_of k" for k using char_of_ccode [of c] by metis
  have control: "char_of (10 :: nat) = CHR 10" "char_of (13 :: nat) = CHR 13" "char_of (9 :: nat) = CHR 9"
      "char_of (8 :: nat) = CHR 8" "char_of (12 :: nat) = CHR 12"
    by code_simp+
  have zero: "hexv (CHR ''0'') = Some 0" by (simp add: hexv_def is_digit_def ccode_def)
  have hex: "hex4 (CHR ''0'') (CHR ''0'') (hexc (ccode c div 16)) (hexc (ccode c mod 16)) = Inr c"
  proof -
    have "ccode c div 16 < 16" "ccode c mod 16 < 16" using ccode_less [of c] by simp_all
    moreover have "ccode c div 16 * 16 + ccode c mod 16 = ccode c" by simp
    ultimately show ?thesis using ccode_less [of c] by (simp add: hex4_def zero hexv_hexc Let_def)
  qed
  consider "c = CHR 0x22" | "c = CHR 0x5c" | "ccode c = 10" | "ccode c = 13" | "ccode c = 9" | "ccode c = 8" | "ccode c = 12"
    | "c \<noteq> CHR 0x22" "c \<noteq> CHR 0x5c" "32 \<le> ccode c" "ccode c < 127"
    | "esc_char c = [CHR 0x5c, CHR ''u'', CHR ''0'', CHR ''0'', hexc (ccode c div 16), hexc (ccode c mod 16)]"
    by (metis esc_char_def)
  then show ?thesis
  proof cases
    case 8
    then have "esc_char c = [c]" by (auto simp: esc_char_def)
    then show ?thesis using 8 by simp
  next
    case 9
    then show ?thesis by (simp add: hex)
  qed (auto simp: esc_char_def unesc_def ccode_def control dest!: code [unfolded ccode_def])
qed

lemma pstr_quoted: "length s < n \<Longrightarrow> pstr n (concat (map esc_char s) @ CHR 0x22 # rest) = Inr (s, rest)"
proof (induction s arbitrary: n)
  case Nil
  then show ?case by (cases n) simp_all
next
  case (Cons c s)
  then obtain m where "n = Suc m" "length s < m" by (cases n) auto
  then show ?case using Cons.IH [of m] by (simp add: pstr_esc del: pstr.simps)
qed

lemma esc_char_nonempty: "1 \<le> length (esc_char c)"
  by (simp add: esc_char_def)

lemma length_escaped: "length s \<le> length (concat (map esc_char s))"
proof (induction s)
  case (Cons c s)
  then show ?case using esc_char_nonempty [of c] by simp
qed simp

lemma pstring_quoted: "pstring (concat (map esc_char s) @ CHR 0x22 # rest) = Inr (s, rest)"
  unfolding pstring_def by (rule pstr_quoted) (use length_escaped [of s] in simp)

text \<open>What may follow a value without changing how it reads.\<close>

definition stops :: "string \<Rightarrow> bool" where
  "stops r \<longleftrightarrow> (case r of [] \<Rightarrow> True | c # _ \<Rightarrow> \<not> is_digit c \<and> c \<notin> {CHR ''.'', CHR ''e'', CHR ''E''})"

lemma digits_split:
  "all_digits d \<Longrightarrow> stops r \<Longrightarrow> takeWhile is_digit (d @ r) = d \<and> dropWhile is_digit (d @ r) = r"
  by (cases r) (auto simp: all_digits_def stops_def list_all_iff takeWhile_append dropWhile_append takeWhile_eq_all_conv
      dropWhile_eq_Nil_conv)

lemma str_nat_lead: "n \<noteq> 0 \<Longrightarrow> hd (str_nat n) \<noteq> CHR ''0''"
proof (induction n rule: str_nat.induct)
  case (1 n)
  have h: "str_nat m \<noteq> []" for m using all_digits_str_nat [of m] by (simp add: all_digits_def)
  show ?case
  proof (cases "n < 10")
    case True
    then have "ccode (digit_char (int n)) \<noteq> 48" using 1(2) by (simp add: ccode_digit_char)
    then have "digit_char (int n) \<noteq> CHR ''0''" by (auto simp: ccode_def)
    then show ?thesis using True by (simp add: str_nat.simps [of n])
  next
    case False
    then have "hd (str_nat (n div 10)) \<noteq> CHR ''0''" using 1 by simp
    then show ?thesis using False h by (simp add: str_nat.simps [of n] hd_append)
  qed
qed

lemma int_part_str_nat: "stops r \<Longrightarrow> int_part (str_nat n @ r) = (str_nat n, r)"
proof (cases "n = 0")
  case True
  moreover assume "stops r"
  moreover have "str_nat 0 = ''0''" by code_simp
  ultimately show ?thesis by (simp add: int_part_def)
next
  case False
  moreover assume "stops r"
  moreover obtain c s where "str_nat n = c # s" using all_digits_str_nat [of n] by (cases "str_nat n") (auto simp: all_digits_def)
  ultimately show ?thesis
    using str_nat_lead [of n] digits_split [OF all_digits_str_nat [of n], of r] by (simp add: int_part_def)
qed

lemma stops_parts: "stops r \<Longrightarrow> frac_part r = ([], r) \<and> exp_part r = ([], r)"
  by (cases r) (auto simp: stops_def frac_part_def exp_part_def Let_def)

lemma str_nat_first: 
  obtains c s where "str_nat n = c # s" and "is_digit c"
  using all_digits_str_nat [of n] by (cases "str_nat n") (auto simp: all_digits_def)

lemma pnumber_str_int: "stops r \<Longrightarrow> pnumber (str_int i @ r) = Inr (JInt i, r)"
proof -
  assume r: "stops r"
  obtain c s where c: "str_nat (nat (if i < 0 then - i else i)) = c # s" "is_digit c" by (rule str_nat_first)
  have ne: "str_nat m \<noteq> []" for m using all_digits_str_nat [of m] by (simp add: all_digits_def)
  show ?thesis
  proof (cases "i < 0")
    case True
    then show ?thesis
      using stops_parts [OF r] int_part_str_nat [OF r] ne
      by (simp add: pnumber_def str_int_def digits_val_str_nat)
  next
    case False
    then have "c \<noteq> CHR ''-''" using c(2) digit_not_special by blast
    then show ?thesis
      using False c stops_parts [OF r] int_part_str_nat [OF r, of "nat i"] ne digits_val_str_nat [of "nat i"]
      by (auto simp: pnumber_def str_int_def)
  qed
qed

text \<open>The values the application writes: no fractions, and the keys of an object are distinct.\<close>

fun json_ok :: "json \<Rightarrow> bool" where
  "json_ok (JFloat s) = False"
| "json_ok (JArr xs) = (\<forall>x \<in> set xs. json_ok x)"
| "json_ok (JObj kvs) = (distinct (map fst kvs) \<and> (\<forall>kv \<in> set kvs. json_ok (snd kv)))"
| "json_ok _ = True"

fun jsize :: "json \<Rightarrow> nat" where
  "jsize (JArr xs) = Suc (sum_list (map (\<lambda>x. Suc (jsize x)) xs))"
| "jsize (JObj kvs) = Suc (sum_list (map (\<lambda>kv. Suc (jsize (snd kv))) kvs))"
| "jsize _ = 1"

lemma put_key_fresh: "k \<notin> fst ` set kvs \<Longrightarrow> put_key k v kvs = kvs @ [(k, v)]"
  by (simp add: put_key_def)

lemma dict_of_distinct: "distinct (map fst kvs) \<Longrightarrow> dict_of kvs = kvs"
proof -
  have "distinct (map fst (acc @ kvs)) \<Longrightarrow> fold (\<lambda>kv acc. put_key (fst kv) (snd kv) acc) kvs acc = acc @ kvs" for acc
  proof (induction kvs arbitrary: acc)
    case (Cons kv kvs)
    then have "fst kv \<notin> fst ` set acc" by auto
    then show ?case using Cons.IH [of "acc @ [kv]"] Cons.prems by (simp add: put_key_fresh)
  qed simp
  from this [of "[]"] show "distinct (map fst kvs) \<Longrightarrow> dict_of kvs = kvs" by (simp add: dict_of_def)
qed

text \<open>A written value starts with a character that is no white space and no closing bracket.\<close>

lemma dumps_first:
  assumes "json_ok j"
  obtains c s where "dumps j = c # s" and "\<not> json_ws c" and "c \<noteq> CHR '']''"
proof (cases j)
  case (JInt i)
  obtain c s where c: "str_nat (nat (if i < 0 then - i else i)) = c # s" "is_digit c" by (rule str_nat_first)
  then have "\<not> json_ws c \<and> c \<noteq> CHR '']''" by (auto simp: json_ws_def is_digit_def ccode_def)
  then show ?thesis
    using that c JInt by (cases "i < 0") (auto simp: str_int_def json_ws_def ccode_def)
next
  case (JBool b)
  then show ?thesis using that by (cases b) (auto simp: json_ws_def ccode_def)
qed (use that assms in \<open>auto simp: json_ws_def ccode_def quote_def\<close>)

lemma skip_dumps: "json_ok j \<Longrightarrow> skip (dumps j @ r) = dumps j @ r"
  by (rule dumps_first [of j]) (auto simp: skip_def)

lemma skip_sep: "skip ('' '' @ r) = skip r" "skip (CHR '','' # r) = CHR '','' # r" "skip (CHR '']'' # r) = CHR '']'' # r"
    "skip (CHR ''}'' # r) = CHR ''}'' # r" "skip (CHR '':'' # r) = CHR '':'' # r" "skip (CHR 0x22 # r) = CHR 0x22 # r"
    "skip (CHR '' '' # r) = skip r"
  by (simp_all add: skip_def json_ws_def ccode_def)

lemma stops_sep [simp]: "stops (CHR '','' # r)" "stops (CHR '']'' # r)" "stops (CHR ''}'' # r)" "stops []"
  by (simp_all add: stops_def is_digit_def ccode_def)

lemma pval_int: 
  assumes "stops r"
  shows "pval (Suc n) (str_int i @ r) = Inr (JInt i, r)"
proof -
  obtain c s where c: "str_nat (nat (if i < 0 then - i else i)) = c # s" "is_digit c" by (rule str_nat_first)
  have d: "d \<notin> {CHR 0x22, CHR ''['', CHR ''{'', CHR ''n'', CHR ''t'', CHR ''f'', CHR ''N'', CHR ''I'', CHR ''-''}"
    if "is_digit d" for d
    using that by (auto simp: is_digit_def ccode_def)
  show ?thesis
  proof (cases "i < 0")
    case True
    then have s: "str_int i @ r = CHR ''-'' # c # s @ r" using c by (simp add: str_int_def)
    show ?thesis using pnumber_str_int [OF assms, of i] d [OF c(2)] unfolding s
      by (simp add: literal_def startswith_def)
  next
    case False
    then have s: "str_int i @ r = c # s @ r" using c by (simp add: str_int_def)
    show ?thesis using pnumber_str_int [OF assms, of i] d [OF c(2)] unfolding s
      by (simp add: literal_def startswith_def)
  qed
qed


text \<open>One more step of fuel reads one more level: a value over its parts, an element over the rest of
  the list, a pair over the rest of the object.\<close>

lemma reads_value:
  assumes E: "\<And>xs r. xs \<noteq> [] \<Longrightarrow> \<forall>x \<in> set xs. json_ok x \<Longrightarrow> sum_list (map (\<lambda>x. Suc (jsize x)) xs) \<le> n \<Longrightarrow>
      pelems n (join '', '' (map dumps xs) @ CHR '']'' # r) = Inr (xs, r)"
    and P: "\<And>kvs r. kvs \<noteq> [] \<Longrightarrow> \<forall>kv \<in> set kvs. json_ok (snd kv) \<Longrightarrow> sum_list (map (\<lambda>kv. Suc (jsize (snd kv))) kvs) \<le> n \<Longrightarrow>
      ppairs n (join '', '' (map (\<lambda>kv. quote (fst kv) @ '': '' @ dumps (snd kv)) kvs) @ CHR ''}'' # r) = Inr (kvs, r)"
    and ok3: "json_ok j" "jsize j \<le> Suc n" "stops r"
  shows "pval (Suc n) (dumps j @ r) = Inr (j, r)"
proof (cases j)
  case JNull
  then show ?thesis by (simp add: literal_def startswith_def)
next
  case (JBool b)
  then show ?thesis by (cases b) (simp_all add: literal_def startswith_def)
next
  case (JInt i)
  then show ?thesis using pval_int [OF ok3(3)] by simp
next
  case (JFloat s)
  then show ?thesis using ok3(1) by simp
next
  case (JStr s)
  then show ?thesis by (simp add: quote_def pstring_quoted)
next
  case (JArr xs)
  show ?thesis
  proof (cases xs)
    case Nil
    then show ?thesis using JArr by (simp add: skip_sep)
  next
    case (Cons x ys)
    have ok: "\<forall>x \<in> set xs. json_ok x" and sz: "sum_list (map (\<lambda>x. Suc (jsize x)) xs) \<le> n"
      using ok3 JArr by simp_all
    obtain c s where c: "dumps x = c # s" "\<not> json_ws c" "c \<noteq> CHR '']''"
      using ok Cons dumps_first by (metis list.set_intros(1))
    then obtain t where t: "join '', '' (map dumps xs) = c # t" by (cases ys) (simp_all add: Cons)
    have "pelems n ((c # t) @ CHR '']'' # r) = Inr (xs, r)"
      unfolding t [symmetric] by (rule E) (use ok sz Cons in auto)
    then show ?thesis using JArr c t by (simp add: skip_def)
  qed
next
  case (JObj kvs)
  show ?thesis
  proof (cases kvs)
    case Nil
    then show ?thesis using JObj by (simp add: skip_sep dict_of_def)
  next
    case (Cons kv ys)
    have ok: "\<forall>kv \<in> set kvs. json_ok (snd kv)" and sz: "sum_list (map (\<lambda>kv. Suc (jsize (snd kv))) kvs) \<le> n"
      and d: "distinct (map fst kvs)"
      using ok3 JObj by simp_all
    obtain t where t: "join '', '' (map (\<lambda>kv. quote (fst kv) @ '': '' @ dumps (snd kv)) kvs) = CHR 0x22 # t"
      by (cases ys) (simp_all add: Cons quote_def)
    have "ppairs n ((CHR 0x22 # t) @ CHR ''}'' # r) = Inr (kvs, r)"
      unfolding t [symmetric] by (rule P) (use ok sz Cons in auto)
    then show ?thesis using JObj t d by (simp add: skip_sep dict_of_distinct)
  qed
qed

lemma reads_elems:
  assumes V: "\<And>j r. json_ok j \<Longrightarrow> jsize j \<le> n \<Longrightarrow> stops r \<Longrightarrow> pval n (dumps j @ r) = Inr (j, r)"
    and E: "\<And>xs r. xs \<noteq> [] \<Longrightarrow> \<forall>x \<in> set xs. json_ok x \<Longrightarrow> sum_list (map (\<lambda>x. Suc (jsize x)) xs) \<le> n \<Longrightarrow>
      pelems n (join '', '' (map dumps xs) @ CHR '']'' # r) = Inr (xs, r)"
    and ok3: "xs \<noteq> []" "\<forall>x \<in> set xs. json_ok x" "sum_list (map (\<lambda>x. Suc (jsize x)) xs) \<le> Suc n"
  shows "pelems (Suc n) (join '', '' (map dumps xs) @ CHR '']'' # r) = Inr (xs, r)"
proof -
  obtain x ys where x: "xs = x # ys" using ok3(1) by (cases xs) auto
  show ?thesis
  proof (cases ys)
    case Nil
    then show ?thesis using V [of x "CHR '']'' # r"] ok3 x by (simp add: skip_sep)
  next
    case (Cons y zs)
    let ?rest = "join '', '' (map dumps ys) @ CHR '']'' # r"
    have j: "join '', '' (map dumps xs) @ CHR '']'' # r = dumps x @ CHR '','' # CHR '' '' # ?rest"
      by (simp add: x Cons)
    have v: "pval n (dumps x @ CHR '','' # CHR '' '' # ?rest) = Inr (x, CHR '','' # CHR '' '' # ?rest)"
      using ok3 x by (intro V) simp_all
    have s: "skip ?rest = ?rest"
      using skip_dumps [of y] ok3 x Cons by (cases zs) simp_all
    have e: "pelems n ?rest = Inr (ys, r)" using ok3 x Cons by (intro E) auto
    show ?thesis unfolding j using v s e by (simp add: skip_sep x)
  qed
qed

lemma reads_pairs:
  assumes V: "\<And>j r. json_ok j \<Longrightarrow> jsize j \<le> n \<Longrightarrow> stops r \<Longrightarrow> pval n (dumps j @ r) = Inr (j, r)"
    and P: "\<And>kvs r. kvs \<noteq> [] \<Longrightarrow> \<forall>kv \<in> set kvs. json_ok (snd kv) \<Longrightarrow> sum_list (map (\<lambda>kv. Suc (jsize (snd kv))) kvs) \<le> n \<Longrightarrow>
      ppairs n (join '', '' (map (\<lambda>kv. quote (fst kv) @ '': '' @ dumps (snd kv)) kvs) @ CHR ''}'' # r) = Inr (kvs, r)"
    and ok3: "kvs \<noteq> []" "\<forall>kv \<in> set kvs. json_ok (snd kv)" "sum_list (map (\<lambda>kv. Suc (jsize (snd kv))) kvs) \<le> Suc n"
  shows "ppairs (Suc n) (join '', '' (map (\<lambda>kv. quote (fst kv) @ '': '' @ dumps (snd kv)) kvs) @ CHR ''}'' # r) = Inr (kvs, r)"
proof -
  let ?p = "\<lambda>kv. quote (fst kv) @ '': '' @ dumps (snd kv)"
  obtain k v ys where x: "kvs = (k, v) # ys" using ok3(1) by (cases kvs) auto
  show ?thesis
  proof (cases ys)
    case Nil
    then show ?thesis using V [of v "CHR ''}'' # r"] ok3 x skip_dumps [of v]
      by (simp add: quote_def pstring_quoted skip_sep)
  next
    case (Cons y zs)
    let ?rest = "join '', '' (map ?p ys) @ CHR ''}'' # r"
    have j: "join '', '' (map ?p kvs) @ CHR ''}'' # r =
        quote k @ CHR '':'' # CHR '' '' # dumps v @ CHR '','' # CHR '' '' # ?rest"
      by (simp add: x Cons)
    have v: "pval n (dumps v @ CHR '','' # CHR '' '' # ?rest) = Inr (v, CHR '','' # CHR '' '' # ?rest)"
      using ok3 x by (intro V) simp_all
    have s: "skip ?rest = ?rest"
      by (cases zs) (simp_all add: Cons quote_def skip_sep)
    have e: "ppairs n ?rest = Inr (ys, r)" using ok3 x Cons by (intro P) auto
    have sv: "skip (dumps v @ CHR '','' # CHR '' '' # ?rest) = dumps v @ CHR '','' # CHR '' '' # ?rest"
      using skip_dumps [of v] ok3 x by simp
    show ?thesis unfolding j using v s e sv by (simp add: quote_def pstring_quoted skip_sep x)
  qed
qed

lemma reads_back:
  "(\<forall>j r. json_ok j \<longrightarrow> jsize j \<le> n \<longrightarrow> stops r \<longrightarrow> pval n (dumps j @ r) = Inr (j, r))
   \<and> (\<forall>xs r. xs \<noteq> [] \<longrightarrow> (\<forall>x \<in> set xs. json_ok x) \<longrightarrow> sum_list (map (\<lambda>x. Suc (jsize x)) xs) \<le> n \<longrightarrow>
        pelems n (join '', '' (map dumps xs) @ CHR '']'' # r) = Inr (xs, r))
   \<and> (\<forall>kvs r. kvs \<noteq> [] \<longrightarrow> (\<forall>kv \<in> set kvs. json_ok (snd kv)) \<longrightarrow> sum_list (map (\<lambda>kv. Suc (jsize (snd kv))) kvs) \<le> n \<longrightarrow>
        ppairs n (join '', '' (map (\<lambda>kv. quote (fst kv) @ '': '' @ dumps (snd kv)) kvs) @ CHR ''}'' # r) = Inr (kvs, r))"
proof (induction n)
  case 0
  have z: "jsize j \<noteq> 0" for j by (cases j) simp_all
  have "pval 0 (dumps j @ r) = Inr (j, r)" if "jsize j \<le> 0" for j r using that z [of j] by simp
  moreover have "xs = []" if "sum_list (map (\<lambda>x. Suc (jsize x)) xs) \<le> 0" for xs
    using that by (cases xs) simp_all
  moreover have "xs = []" if "sum_list (map (\<lambda>kv. Suc (jsize (snd kv))) xs) \<le> 0" for xs :: "(string \<times> json) list"
    using that by (cases xs) simp_all
  ultimately show ?case by blast
next
  case (Suc n)
  have V: "pval n (dumps j @ r) = Inr (j, r)" if "json_ok j" "jsize j \<le> n" "stops r" for j r
    using Suc.IH that by blast
  have E: "pelems n (join '', '' (map dumps xs) @ CHR '']'' # r) = Inr (xs, r)"
    if "xs \<noteq> []" "\<forall>x \<in> set xs. json_ok x" "sum_list (map (\<lambda>x. Suc (jsize x)) xs) \<le> n" for xs r
    using Suc.IH that by blast
  have P: "ppairs n (join '', '' (map (\<lambda>kv. quote (fst kv) @ '': '' @ dumps (snd kv)) kvs) @ CHR ''}'' # r) = Inr (kvs, r)"
    if "kvs \<noteq> []" "\<forall>kv \<in> set kvs. json_ok (snd kv)" "sum_list (map (\<lambda>kv. Suc (jsize (snd kv))) kvs) \<le> n" for kvs r
    using Suc.IH that by blast
  show ?case
    using reads_value [of n, OF E P] reads_elems [of n, OF V E] reads_pairs [of n, OF V P] by blast
qed

lemma join_length: "xs \<noteq> [] \<Longrightarrow> length (join '', '' xs) + 2 = sum_list (map (\<lambda>x. length x + 2) xs)"
proof (induction xs)
  case (Cons x xs)
  then show ?case by (cases xs) auto
qed simp

lemma joined_bound:
  assumes "\<And>x. x \<in> set xs \<Longrightarrow> f x \<le> length (g x)"
  shows "Suc (sum_list (map (\<lambda>x. Suc (f x)) xs)) \<le> length (join '', '' (map g xs)) + 2"
proof (cases "xs = []")
  case False
  have "sum_list (map (\<lambda>x. Suc (f x)) xs) + length xs \<le> sum_list (map (\<lambda>x. length (g x) + 2) xs)"
    using assms by (induction xs) fastforce+
  moreover have "length (join '', '' (map g xs)) + 2 = sum_list (map (\<lambda>x. length (g x) + 2) xs)"
    using False join_length [of "map g xs"] by (simp add: comp_def)
  ultimately show ?thesis using False by (cases xs) auto
qed simp

lemma jsize_dumps: "json_ok j \<Longrightarrow> jsize j \<le> length (dumps j)"
proof (induction j)
  case (JInt i)
  show ?case using all_digits_str_nat [of "nat i"] all_digits_str_nat [of "nat (- i)"]
    by (auto simp: str_int_def all_digits_def neq_Nil_conv Suc_le_eq)
next
  case (JArr xs)
  then show ?case using joined_bound [of xs jsize dumps] by simp
next
  case (JObj kvs)
  have "jsize (snd kv) \<le> length (quote (fst kv) @ '': '' @ dumps (snd kv))" if "kv \<in> set kvs" for kv
    using JObj.IH [of kv "snd kv"] JObj.prems that by (cases kv) (auto simp: trans_le_add2)
  then show ?case
    using joined_bound [of kvs "\<lambda>kv. jsize (snd kv)" "\<lambda>kv. quote (fst kv) @ '': '' @ dumps (snd kv)"] by simp
qed (simp_all add: quote_def)

theorem loads_dumps: "json_ok j \<Longrightarrow> loads (dumps j) = Inr j"
proof -
  assume ok: "json_ok j"
  have "jsize j \<le> Suc (length (dumps j))" using jsize_dumps [OF ok] by simp
  then have "pval (Suc (length (dumps j))) (dumps j @ []) = Inr (j, [])"
    using reads_back [of "Suc (length (dumps j))"] ok stops_sep(4) by blast
  then show ?thesis using skip_dumps [OF ok, of "[]"] by (simp add: loads_def skip_def)
qed

section \<open>Base64\<close>

definition b64_alphabet :: string where
  "b64_alphabet = ''ABCDEFGHIJKLMNOPQRSTUVWXYZabcdefghijklmnopqrstuvwxyz0123456789+/''"

definition b64c :: "int \<Rightarrow> char" where
  "b64c n = b64_alphabet ! nat n"

definition b64v :: "char \<Rightarrow> int option" where
  "b64v c = (case find (\<lambda>i. b64_alphabet ! i = c) [0..<64] of None \<Rightarrow> None | Some i \<Rightarrow> Some (int i))"

fun b64encode :: "int list \<Rightarrow> string" where
  "b64encode [] = []"
| "b64encode [a] = [b64c (a div 4), b64c (a mod 4 * 16), CHR ''='', CHR ''='']"
| "b64encode [a, b] = [b64c (a div 4), b64c (a mod 4 * 16 + b div 16), b64c (b mod 16 * 4), CHR ''='']"
| "b64encode (a # b # c # r) =
     b64c (a div 4) # b64c (a mod 4 * 16 + b div 16) # b64c (b mod 16 * 4 + c div 64) # b64c (c mod 64) # b64encode r"

text \<open>\<open>b64decode\<close> without validation: characters outside the alphabet are skipped, padding ends the
  data where it completes a quantum. The state is the position in the quantum, the bits left over
  and the run of padding seen.\<close>

fun a2b :: "nat \<Rightarrow> int \<Rightarrow> nat \<Rightarrow> string \<Rightarrow> int list res" where
  "a2b q l p [] = (if q = 0 then Inr [] else Inl ValueError)"
| "a2b q l p (c # r) =
     (if c = CHR ''='' then
        (if 2 \<le> q \<and> 4 \<le> q + Suc p then Inr [] else a2b q l (Suc p) r)
      else (case b64v c of
         None \<Rightarrow> a2b q l p r
       | Some v \<Rightarrow>
           if q = 0 then a2b 1 v 0 r
           else if q = 1 then bindr (a2b 2 (v mod 16) 0 r) (\<lambda>bs. Inr ((l * 4 + v div 16) # bs))
           else if q = 2 then bindr (a2b 3 (v mod 4) 0 r) (\<lambda>bs. Inr ((l * 16 + v div 4) # bs))
           else bindr (a2b 0 0 0 r) (\<lambda>bs. Inr ((l * 64 + v) # bs))))"

definition b64decode :: "string \<Rightarrow> int list res" where
  "b64decode s = a2b 0 0 0 s"

definition bytes_ok :: "int list \<Rightarrow> bool" where
  "bytes_ok bs \<longleftrightarrow> list_all (\<lambda>b. 0 \<le> b \<and> b < 256) bs"

lemma b64v_b64c:
  assumes "0 \<le> n" and "n < 64"
  shows "b64v (b64c n) = Some n" and "b64c n \<noteq> CHR ''=''"
proof -
  have "\<forall>i \<in> set [0..<64]. b64v (b64c (int i)) = Some (int i) \<and> b64c (int i) \<noteq> CHR ''=''" by code_simp
  moreover have "nat n \<in> set [0..<64]" using assms by auto
  ultimately have "b64v (b64c (int (nat n))) = Some (int (nat n)) \<and> b64c (int (nat n)) \<noteq> CHR ''=''" by (rule bspec)
  then show "b64v (b64c n) = Some n" and "b64c n \<noteq> CHR ''=''" using assms by simp_all
qed

lemma place:
  fixes x y d :: int
  assumes "0 \<le> y" and "y < d"
  shows "(x * d + y) div d = x" and "(x * d + y) mod d = y"
  using assms by auto

lemma quantum:
  fixes a b :: int
  assumes "0 \<le> a" and "a < 256" and "0 \<le> b" and "b < 256"
  shows "0 \<le> a mod 4 * 16 + b div 16" "a mod 4 * 16 + b div 16 < 64"
    "(a mod 4 * 16 + b div 16) div 16 = a mod 4" "(a mod 4 * 16 + b div 16) mod 16 = b div 16"
    "0 \<le> b mod 16 * 4 + a div 64" "b mod 16 * 4 + a div 64 < 64"
    "(b mod 16 * 4 + a div 64) div 4 = b mod 16" "(b mod 16 * 4 + a div 64) mod 4 = a div 64"
proof -
  have b: "0 \<le> b div 16" "b div 16 < 16" and a: "0 \<le> a div 64" "a div 64 < 4" using assms by simp_all
  have m: "0 \<le> a mod 4" "a mod 4 < 4" "0 \<le> b mod 16" "b mod 16 < 16" by simp_all
  show "0 \<le> a mod 4 * 16 + b div 16" "a mod 4 * 16 + b div 16 < 64" using b m by linarith+
  show "0 \<le> b mod 16 * 4 + a div 64" "b mod 16 * 4 + a div 64 < 64" using a m by linarith+
  show "(a mod 4 * 16 + b div 16) div 16 = a mod 4" "(a mod 4 * 16 + b div 16) mod 16 = b div 16"
    by (rule place [OF b])+
  show "(b mod 16 * 4 + a div 64) div 4 = b mod 16" "(b mod 16 * 4 + a div 64) mod 4 = a div 64"
    by (rule place [OF a])+
qed

lemma a2b_quantum:
  assumes "b64v c0 = Some v0" "b64v c1 = Some v1" "b64v c2 = Some v2" "b64v c3 = Some v3"
    and "c0 \<noteq> CHR ''=''" "c1 \<noteq> CHR ''=''" "c2 \<noteq> CHR ''=''" "c3 \<noteq> CHR ''=''"
    and "a2b 0 0 0 r = Inr bs"
  shows "a2b 0 0 0 (c0 # c1 # c2 # c3 # r) =
     Inr ((v0 * 4 + v1 div 16) # (v1 mod 16 * 16 + v2 div 4) # (v2 mod 4 * 64 + v3) # bs)"
  using assms by simp

lemma b64c_ascii: "0 \<le> n \<Longrightarrow> n < 64 \<Longrightarrow> ccode (b64c n) < 128"
proof -
  assume n: "0 \<le> n" "n < 64"
  have "\<forall>i \<in> set [0..<64]. ccode (b64c (int i)) < 128" by code_simp
  moreover have "nat n \<in> set [0..<64]" using n by auto
  ultimately have "ccode (b64c (int (nat n))) < 128" by (rule bspec)
  then show ?thesis using n by simp
qed

lemma pad_ascii: "ccode (CHR ''='') = 61"
  by (simp add: ccode_def)

lemma b64encode_ascii: "bytes_ok bs \<Longrightarrow> list_all (\<lambda>c. ccode c < 128) (b64encode bs)"
proof (induction bs rule: b64encode.induct)
  case (2 a)
  then have "0 \<le> a" "a < 256" by (simp_all add: bytes_ok_def)
  then have "0 \<le> a div 4" "a div 4 < 64" by simp_all
  then show ?case by (simp add: b64c_ascii pad_ascii)
next
  case (3 a b)
  then have r: "0 \<le> a" "a < 256" "0 \<le> b" "b < 256" by (simp_all add: bytes_ok_def)
  show ?case using r by (simp add: b64c_ascii quantum(1,2) [OF r] pad_ascii)
next
  case (4 a b c r)
  then have r: "0 \<le> a" "a < 256" "0 \<le> b" "b < 256" "0 \<le> c" "c < 256" "bytes_ok r" by (simp_all add: bytes_ok_def)
  show ?case using r 4 by (simp add: b64c_ascii quantum(1,2) [OF r(1-4)] quantum(5,6) [OF r(5,6,3,4)])
qed simp

theorem b64_roundtrip: "bytes_ok bs \<Longrightarrow> b64decode (b64encode bs) = Inr bs"
proof -
  have "bytes_ok bs \<Longrightarrow> a2b 0 0 0 (b64encode bs) = Inr bs"
  proof (induction bs rule: b64encode.induct)
    case (2 a)
    then have "0 \<le> a" "a < 256" by (simp_all add: bytes_ok_def)
    then show ?case by (simp add: b64v_b64c)
  next
    case (3 a b)
    then have r: "0 \<le> a" "a < 256" "0 \<le> b" "b < 256" by (simp_all add: bytes_ok_def)
    have l: "0 \<le> b mod 16 * 4" "b mod 16 * 4 < 64" "b mod 16 * 4 mod 4 = 0" "b mod 16 * 4 div 4 = b mod 16" by simp_all
    show ?case using r quantum(1-4) [OF r] l by (simp add: b64v_b64c)
  next
    case (4 a b c r)
    then have r: "0 \<le> a" "a < 256" "0 \<le> b" "b < 256" "0 \<le> c" "c < 256" "bytes_ok r" by (simp_all add: bytes_ok_def)
    note 1 = quantum(1-4) [OF r(1-4)] quantum(5-8) [OF r(5,6,3,4)]
    have c: "0 \<le> c mod 64" "c mod 64 < 64" "0 \<le> a div 4" "a div 4 < 64" using r by simp_all
    have "a2b 0 0 0 (b64encode (a # b # c # r)) =
        Inr ((a div 4 * 4 + (a mod 4 * 16 + b div 16) div 16)
           # ((a mod 4 * 16 + b div 16) mod 16 * 16 + (b mod 16 * 4 + c div 64) div 4)
           # ((b mod 16 * 4 + c div 64) mod 4 * 64 + c mod 64) # r)"
      unfolding b64encode.simps
      by (rule a2b_quantum [OF b64v_b64c(1) [OF c(3,4)] b64v_b64c(1) [OF 1(1,2)] b64v_b64c(1) [OF 1(5,6)] b64v_b64c(1) [OF c(1,2)]
            b64v_b64c(2) [OF c(3,4)] b64v_b64c(2) [OF 1(1,2)] b64v_b64c(2) [OF 1(5,6)] b64v_b64c(2) [OF c(1,2)] 4(1) [OF r(7)]])
    then show ?case unfolding 1(3,4,7,8) by (simp only: div_mult_mod_eq)
  qed simp
  then show "bytes_ok bs \<Longrightarrow> b64decode (b64encode bs) = Inr bs" by (simp add: b64decode_def)
qed

end
