(* ===== verification/PyTime.thy ===== *)
theory PyTime
  imports PyBase
begin

text \<open>
  Python's \<open>date\<close>, \<open>datetime\<close> and \<open>timedelta\<close>, as \<open>caldav_client.py\<close>, \<open>shares.py\<close> and
  the routers use them. A date is its proleptic Gregorian ordinal (1 = 0001-01-01), a
  \<open>timedelta\<close> is a number of microseconds, and a \<open>datetime\<close> is a wall clock reading
  (microseconds since ordinal 0) with its \<open>fold\<close> and its \<open>tzinfo\<close>, if any. Ranges are kept:
  arithmetic that leaves year 1 to 9999 raises \<open>OverflowError\<close>, and mixing dates, naive and
  aware datetimes raises \<open>TypeError\<close> where Python does. The IANA time zone database behind
  \<open>ZoneInfo\<close> is a parameter (\<open>tzdb\<close>).
\<close>

section \<open>Values\<close>

datatype tzi =
    Utc                \<comment> \<open>\<open>datetime.UTC\<close>\<close>
  | FixedOff int       \<comment> \<open>\<open>timezone(offset)\<close>, microseconds east\<close>
  | Zone string        \<comment> \<open>\<open>ZoneInfo(key)\<close>\<close>

datatype tm =
    Day int                        \<comment> \<open>a \<open>date\<close>, by ordinal\<close>
  | Stamp int nat "tzi option"     \<comment> \<open>a \<open>datetime\<close>: wall clock, fold, tzinfo\<close>

type_synonym delta = int   \<comment> \<open>a \<open>timedelta\<close> in microseconds\<close>

definition SEC :: int where "SEC = 1000000"
definition MINUTE :: int where "MINUTE = 60000000"
definition HOUR :: int where "HOUR = 3600000000"
definition DAY :: int where "DAY = 86400000000"

lemmas unit_defs = SEC_def MINUTE_def HOUR_def DAY_def

lemma DAY_pos [simp]: "0 < DAY" "DAY \<noteq> 0" "0 \<le> DAY"
  by (simp_all add: DAY_def)

definition MAXORD :: int where "MAXORD = 3652059"   \<comment> \<open>9999-12-31\<close>

record tzdb =
  tz_known :: "string \<Rightarrow> bool"
  tz_off :: "string \<Rightarrow> int \<Rightarrow> nat \<Rightarrow> int"           \<comment> \<open>zone, wall clock, fold: utcoffset\<close>
  tz_from_utc :: "string \<Rightarrow> int \<Rightarrow> int \<times> nat"        \<comment> \<open>zone, UTC: wall clock and fold\<close>
  tz_system :: tzi                                  \<comment> \<open>the process's local zone\<close>

text \<open>What the code relies on in the database: converting from UTC is inverted by the offset.\<close>

definition tzdb_ok :: "tzdb \<Rightarrow> bool" where
  "tzdb_ok db \<longleftrightarrow> (\<forall>z u w f. tz_from_utc db z u = (w, f) \<longrightarrow> w - tz_off db z w f = u)"

lemma tzdb_okD: "tzdb_ok db \<Longrightarrow> tz_from_utc db z u = (w, f) \<Longrightarrow> w - tz_off db z w f = u"
  by (simp add: tzdb_ok_def)

definition utcoffset :: "tzdb \<Rightarrow> tzi \<Rightarrow> int \<Rightarrow> nat \<Rightarrow> int" where
  "utcoffset db z w f = (case z of Utc \<Rightarrow> 0 | FixedOff d \<Rightarrow> d | Zone k \<Rightarrow> tz_off db k w f)"

definition fromutc :: "tzdb \<Rightarrow> tzi \<Rightarrow> int \<Rightarrow> int \<times> nat" where
  "fromutc db z u = (case z of Utc \<Rightarrow> (u, 0) | FixedOff d \<Rightarrow> (u + d, 0) | Zone k \<Rightarrow> tz_from_utc db k u)"

definition zoneinfo :: "tzdb \<Rightarrow> string \<Rightarrow> tzi res" where
  "zoneinfo db k = (if tz_known db k then Inr (Zone k) else Inl ZoneInfoNotFoundError)"

lemma fromutc_utcoffset:
  "tzdb_ok db \<Longrightarrow> fromutc db z u = (w, f) \<Longrightarrow> w - utcoffset db z w f = u"
  by (cases z) (auto simp: fromutc_def utcoffset_def dest: tzdb_okD)

section \<open>Ranges and accessors\<close>

definition ord_ok :: "int \<Rightarrow> bool" where
  "ord_ok n \<longleftrightarrow> 1 \<le> n \<and> n \<le> MAXORD"

definition wall_ok :: "int \<Rightarrow> bool" where
  "wall_ok w \<longleftrightarrow> ord_ok (w div DAY)"

fun tm_ok :: "tm \<Rightarrow> bool" where
  "tm_ok (Day n) = ord_ok n"
| "tm_ok (Stamp w f z) = wall_ok w"

fun is_datetime :: "tm \<Rightarrow> bool" where
  "is_datetime (Stamp w f z) = True"
| "is_datetime (Day n) = False"

fun tzinfo :: "tm \<Rightarrow> tzi option" where
  "tzinfo (Stamp w f z) = z"
| "tzinfo (Day n) = None"

text \<open>\<open>d.date()\<close> as an ordinal, and the \<open>weekday()\<close> (Monday = 0).\<close>

fun ordinal :: "tm \<Rightarrow> int" where
  "ordinal (Day n) = n"
| "ordinal (Stamp w f z) = w div DAY"

definition weekday :: "int \<Rightarrow> int" where
  "weekday n = (n + 6) mod 7"

fun replace_tz :: "tm \<Rightarrow> tzi \<Rightarrow> tm" where
  "replace_tz (Stamp w f z) z' = Stamp w f (Some z')"
| "replace_tz (Day n) z' = Day n"

text \<open>The instant an aware datetime denotes, in UTC microseconds.\<close>

fun instant :: "tzdb \<Rightarrow> tm \<Rightarrow> int option" where
  "instant db (Stamp w f (Some z)) = Some (w - utcoffset db z w f)"
| "instant db (Stamp w f None) = None"
| "instant db (Day n) = None"

section \<open>Arithmetic\<close>

text \<open>\<open>d + timedelta\<close>: a date moves by the whole days of the delta, a datetime's wall clock by
  all of it, with the fold reset.\<close>

fun tm_add :: "tm \<Rightarrow> delta \<Rightarrow> tm res" where
  "tm_add (Day n) d =
     (if ord_ok (n + d div DAY) then Inr (Day (n + d div DAY)) else Inl OverflowError)"
| "tm_add (Stamp w f z) d =
     (if wall_ok (w + d) then Inr (Stamp (w + d) 0 z) else Inl OverflowError)"

text \<open>\<open>a - b\<close>. Datetimes with the same tzinfo subtract their wall clocks, others their instants.\<close>

fun tm_sub :: "tzdb \<Rightarrow> tm \<Rightarrow> tm \<Rightarrow> delta res" where
  "tm_sub db (Day a) (Day b) = Inr ((a - b) * DAY)"
| "tm_sub db (Stamp a f None) (Stamp b g None) = Inr (a - b)"
| "tm_sub db (Stamp a f (Some x)) (Stamp b g (Some y)) =
     (if x = y then Inr (a - b)
      else Inr ((a - utcoffset db x a f) - (b - utcoffset db y b g)))"
| "tm_sub db _ _ = Inl TypeError"

text \<open>\<open>a < b\<close> and \<open>a <= b\<close>.\<close>

definition tm_less :: "tzdb \<Rightarrow> tm \<Rightarrow> tm \<Rightarrow> bool res" where
  "tm_less db a b = bindr (tm_sub db a b) (\<lambda>d. Inr (d < 0))"

definition tm_leq :: "tzdb \<Rightarrow> tm \<Rightarrow> tm \<Rightarrow> bool res" where
  "tm_leq db a b = bindr (tm_sub db a b) (\<lambda>d. Inr (d \<le> 0))"

text \<open>\<open>a == b\<close> never raises. Between different time zones a reading whose offset depends on the
  fold is equal to nothing.\<close>

fun tm_eq :: "tzdb \<Rightarrow> tm \<Rightarrow> tm \<Rightarrow> bool" where
  "tm_eq db (Day a) (Day b) = (a = b)"
| "tm_eq db (Stamp a f None) (Stamp b g None) = (a = b)"
| "tm_eq db (Stamp a f (Some x)) (Stamp b g (Some y)) =
     (if x = y then a = b
      else utcoffset db x a 0 = utcoffset db x a 1 \<and> utcoffset db y b 0 = utcoffset db y b 1
           \<and> a - utcoffset db x a f = b - utcoffset db y b g)"
| "tm_eq db _ _ = False"

text \<open>\<open>d.astimezone(z)\<close>. A naive datetime is read in the system's zone.\<close>

definition astimezone :: "tzdb \<Rightarrow> tm \<Rightarrow> tzi \<Rightarrow> tm res" where
  "astimezone db t z =
     (case t of
        Day n \<Rightarrow> Inl AttributeError
      | Stamp w f mz \<Rightarrow>
          (let own = (case mz of None \<Rightarrow> tz_system db | Some x \<Rightarrow> x) in
           if mz = Some z then Inr t
           else let u = w - utcoffset db own w f; (w', f') = fromutc db z u
                in if wall_ok u \<and> wall_ok w' then Inr (Stamp w' f' (Some z))
                   else Inl OverflowError))"

section \<open>Coercions\<close>

text \<open>\<open>_as_dt\<close>: midnight of a date; and \<open>_is_all_day\<close>.\<close>

fun as_dt :: "tm \<Rightarrow> tm" where
  "as_dt (Stamp w f z) = Stamp w f z"
| "as_dt (Day n) = Stamp (n * DAY) 0 None"

definition is_all_day :: "tm \<Rightarrow> bool" where
  "is_all_day d = (\<not> is_datetime d)"

section \<open>Facts\<close>

lemma is_all_day_simps [simp]: "is_all_day (Day n)" "\<not> is_all_day (Stamp w f z)"
  by (simp_all add: is_all_day_def)

lemma as_dt_idem [simp]: "as_dt (as_dt t) = as_dt t"
  by (cases t) simp_all

lemma as_dt_ordinal [simp]: "ordinal (as_dt t) = ordinal t"
  by (cases t) simp_all

lemma tzinfo_as_dt [simp]: "tzinfo (as_dt t) = tzinfo t"
  by (cases t) simp_all

lemma tm_sub_same_tz [simp]: "tm_sub db (Stamp a f z) (Stamp b g z) = Inr (a - b)"
  by (cases z) simp_all

lemma tm_sub_self [simp]: "tm_sub db a a = Inr 0"
  by (cases a) simp_all

lemma tm_less_self [simp]: "tm_less db a a = Inr False" and tm_leq_self [simp]: "tm_leq db a a = Inr True"
  by (simp_all add: tm_less_def tm_leq_def)

lemma tm_less_same_tz [simp]: "tm_less db (Stamp a f z) (Stamp b g z) = Inr (a < b)"
  by (simp add: tm_less_def)

lemma tm_leq_same_tz [simp]: "tm_leq db (Stamp a f z) (Stamp b g z) = Inr (a \<le> b)"
  by (simp add: tm_leq_def)

lemma tm_eq_same_tz [simp]: "tm_eq db (Stamp a f z) (Stamp b g z) = (a = b)"
  by (cases z) simp_all

lemma tm_eq_refl [simp]: "tm_eq db a a"
  by (cases a) simp_all

text \<open>Two values of one series (same value type and time zone): subtraction and comparison of
  their datetimes never raise.\<close>

definition same_line :: "tm \<Rightarrow> tm \<Rightarrow> bool" where
  "same_line a b \<longleftrightarrow> is_datetime a = is_datetime b \<and> tzinfo a = tzinfo b"

lemma same_line_refl [simp]: "same_line a a"
  by (simp add: same_line_def)

lemma same_line_sym: "same_line a b \<Longrightarrow> same_line b a"
  by (simp add: same_line_def)

lemma same_line_trans: "same_line a b \<Longrightarrow> same_line b c \<Longrightarrow> same_line a c"
  by (simp add: same_line_def)

text \<open>The wall clock a value stands for after \<open>_as_dt\<close>.\<close>

fun wall :: "tm \<Rightarrow> int" where
  "wall (Day n) = n * DAY"
| "wall (Stamp w f z) = w"

lemma as_dt_sub_same_line:
  "same_line a b \<Longrightarrow> tm_sub db (as_dt a) (as_dt b) = Inr (wall a - wall b)"
  by (cases a; cases b) (auto simp: same_line_def)

lemma as_dt_less_same_line:
  "same_line a b \<Longrightarrow> tm_less db (as_dt a) (as_dt b) = Inr (wall a < wall b)"
  by (simp add: tm_less_def as_dt_sub_same_line)

lemma as_dt_leq_same_line:
  "same_line a b \<Longrightarrow> tm_leq db (as_dt a) (as_dt b) = Inr (wall a \<le> wall b)"
  by (simp add: tm_leq_def as_dt_sub_same_line)

lemma as_dt_eq_same_line:
  "same_line a b \<Longrightarrow> tm_eq db (as_dt a) (as_dt b) = (wall a = wall b)"
  by (cases a; cases b) (auto simp: same_line_def)

lemma tm_eq_same_line: "same_line a b \<Longrightarrow> tm_eq db a b = (wall a = wall b)"
  by (cases a; cases b) (auto simp: same_line_def)

text \<open>Moving by a delta keeps the line; a delta of whole days moves a date exactly.\<close>

lemma tm_add_same_line: "tm_add t d = Inr t' \<Longrightarrow> same_line t' t"
  by (cases t) (auto simp: same_line_def split: if_splits)

lemma tm_add_wall_stamp: "tm_add t d = Inr t' \<Longrightarrow> is_datetime t \<Longrightarrow> wall t' = wall t + d"
  by (cases t) (auto split: if_splits)

lemma tm_add_wall_days: "tm_add t d = Inr t' \<Longrightarrow> d mod DAY = 0 \<Longrightarrow> wall t' = wall t + d"
  by (cases t) (auto split: if_splits simp: algebra_simps mod_0_imp_dvd)

lemma wall_day_mod [simp]: "wall (Day n) mod DAY = 0"
  by simp

lemma tm_add_wall:
  "tm_add t d = Inr t' \<Longrightarrow> is_datetime t \<or> d mod DAY = 0 \<Longrightarrow> wall t' = wall t + d"
  by (auto intro: tm_add_wall_stamp tm_add_wall_days)

lemma tm_add_zero: "tm_ok t \<Longrightarrow> \<exists>t'. tm_add t 0 = Inr t' \<and> wall t' = wall t"
  by (cases t) auto

text \<open>Converting to another zone keeps the instant.\<close>

lemma astimezone_instant:
  assumes "tzdb_ok db" and "astimezone db t z = Inr t'" and "instant db t = Some u"
  shows "instant db t' = Some u" and "tzinfo t' = Some z"
proof -
  from assms(3) obtain w f mz where t: "t = Stamp w f (Some mz)" and u: "u = w - utcoffset db mz w f"
    by (cases "(db, t)" rule: instant.cases) auto
  show "instant db t' = Some u"
    using assms(2) t u fromutc_utcoffset [OF assms(1)]
    by (auto simp: astimezone_def Let_def split: if_splits prod.splits)
  show "tzinfo t' = Some z"
    using assms(2) t by (auto simp: astimezone_def Let_def split: if_splits prod.splits)
qed

text \<open>Division brackets its argument.\<close>

lemma div_bracket:
  fixes a b :: int
  assumes "0 < b"
  shows "(a div b) * b \<le> a" and "a < (a div b + 1) * b"
proof -
  have e: "a = (a div b) * b + a mod b" by simp
  have "0 \<le> a mod b" "a mod b < b" using assms by simp_all
  then show "(a div b) * b \<le> a" and "a < (a div b + 1) * b"
    unfolding distrib_right using e by linarith+
qed

end
