(* ===== verification/Session.thy ===== *)
theory Session
  imports PyTime "HOL-Library.AList"
begin

text \<open>
  The session store (\<open>session.py\<close>): sessions in memory, each with an idle timeout, expired lazily
  when they are looked up. Clock readings are instants in microseconds, passed to the operations;
  the fresh session id is the caller's. The lock makes every operation atomic.
\<close>

section \<open>The store\<close>

type_synonym bytes = "int list"

datatype idle = UseDefault | Never | Seconds int

record entry =
  s_user :: int
  s_dek :: bytes
  s_last_seen :: int
  s_restricted :: bool
  s_idle :: idle

record store =
  st_sessions :: "(string \<times> entry) list"
  st_default :: int

record status =
  ss_enabled :: bool
  ss_timeout :: "int option"
  ss_remaining :: "int option"

definition effective_timeout :: "store \<Rightarrow> entry \<Rightarrow> int option" where
  "effective_timeout st e =
     (case s_idle e of UseDefault \<Rightarrow> Some (st_default st) | Never \<Rightarrow> None | Seconds n \<Rightarrow> Some n)"

definition idled_out :: "store \<Rightarrow> entry \<Rightarrow> int \<Rightarrow> bool" where
  "idled_out st e now =
     (case effective_timeout st e of None \<Rightarrow> False | Some t \<Rightarrow> now - s_last_seen e > t * SEC)"

definition drop_session :: "string \<Rightarrow> store \<Rightarrow> store" where
  "drop_session sid st = st\<lparr>st_sessions := AList.delete sid (st_sessions st)\<rparr>"

definition put_session :: "string \<Rightarrow> entry \<Rightarrow> store \<Rightarrow> store" where
  "put_session sid e st = st\<lparr>st_sessions := AList.update sid e (st_sessions st)\<rparr>"

definition create_session ::
  "string \<Rightarrow> int \<Rightarrow> int \<Rightarrow> bytes \<Rightarrow> bool \<Rightarrow> idle \<Rightarrow> store \<Rightarrow> store"
where
  "create_session sid now user dek restricted idle st =
     put_session sid \<lparr>s_user = user, s_dek = dek, s_last_seen = now, s_restricted = restricted, s_idle = idle\<rparr> st"

definition get_session :: "string \<Rightarrow> int \<Rightarrow> store \<Rightarrow> entry option \<times> store" where
  "get_session sid now st =
     (case map_of (st_sessions st) sid of
        None \<Rightarrow> (None, st)
      | Some e \<Rightarrow>
          if idled_out st e now then (None, drop_session sid st)
          else (Some (e\<lparr>s_last_seen := now\<rparr>), put_session sid (e\<lparr>s_last_seen := now\<rparr>) st))"

definition peek_session :: "string \<Rightarrow> int \<Rightarrow> store \<Rightarrow> entry option \<times> store" where
  "peek_session sid now st =
     (case map_of (st_sessions st) sid of
        None \<Rightarrow> (None, st)
      | Some e \<Rightarrow> if idled_out st e now then (None, drop_session sid st) else (Some e, st))"

text \<open>The countdown; \<open>int(timeout - elapsed)\<close> rounds down, elapsed being at most the timeout here.\<close>

definition session_status :: "string \<Rightarrow> int \<Rightarrow> store \<Rightarrow> status option \<times> store" where
  "session_status sid now st =
     (case map_of (st_sessions st) sid of
        None \<Rightarrow> (None, st)
      | Some e \<Rightarrow>
          (case effective_timeout st e of
             None \<Rightarrow> (Some \<lparr>ss_enabled = False, ss_timeout = None, ss_remaining = None\<rparr>, st)
           | Some t \<Rightarrow>
               let elapsed = now - s_last_seen e in
               if elapsed > t * SEC then (None, drop_session sid st)
               else (Some \<lparr>ss_enabled = True, ss_timeout = Some t,
                       ss_remaining = Some (max 0 ((t * SEC - elapsed) div SEC))\<rparr>, st)))"

definition update_session :: "string \<Rightarrow> (entry \<Rightarrow> entry) \<Rightarrow> store \<Rightarrow> store" where
  "update_session sid f st =
     (case map_of (st_sessions st) sid of None \<Rightarrow> st | Some e \<Rightarrow> put_session sid (f e) st)"

definition delete_session :: "string \<Rightarrow> store \<Rightarrow> store" where
  "delete_session sid st = drop_session sid st"

definition active_count :: "store \<Rightarrow> nat" where
  "active_count st = length (st_sessions st)"

section \<open>The sessions alive\<close>

text \<open>The abstract view: at a given time, the map of the sessions that have not idled out. Expiry is
  eager there; the store may still hold dead entries.\<close>

definition alive :: "int \<Rightarrow> store \<Rightarrow> string \<Rightarrow> entry option" where
  "alive now st sid =
     (case map_of (st_sessions st) sid of
        None \<Rightarrow> None | Some e \<Rightarrow> if idled_out st e now then None else Some e)"

lemma idled_out_default:
  assumes "st_default st = st_default st'"
  shows "idled_out st = idled_out st'"
proof -
  have "effective_timeout st = effective_timeout st'"
    using assms by (simp add: effective_timeout_def fun_eq_iff split: idle.split)
  then show ?thesis by (simp add: idled_out_def fun_eq_iff)
qed

lemma store_frame [simp]:
  "st_default (drop_session sid st) = st_default st" "st_default (put_session sid e st) = st_default st"
  "idled_out (drop_session sid st) = idled_out st" "idled_out (put_session sid e st) = idled_out st"
  by (auto simp: drop_session_def put_session_def intro!: idled_out_default)

lemma store_lookup [simp]:
  "map_of (st_sessions (drop_session sid st)) = (map_of (st_sessions st))(sid := None)"
  "map_of (st_sessions (put_session sid e st)) = (map_of (st_sessions st))(sid \<mapsto> e)"
  by (simp_all add: drop_session_def put_session_def delete_conv' update_conv')

lemma alive_put: "alive now (put_session sid e st) =
    (alive now st)(sid := if idled_out st e now then None else Some e)"
  by (auto simp: alive_def fun_eq_iff split: option.split)

lemma alive_drop: "alive now (drop_session sid st) = (alive now st)(sid := None)"
  by (auto simp: alive_def fun_eq_iff split: option.split)

lemma idled_out_later: "idled_out st e now \<Longrightarrow> now \<le> now' \<Longrightarrow> idled_out st e now'"
  by (auto simp: idled_out_def split: option.splits)

lemma alive_drop_dead:
  "map_of (st_sessions st) sid = Some e \<Longrightarrow> idled_out st e now \<Longrightarrow> now \<le> now' \<Longrightarrow>
   alive now' (drop_session sid st) = alive now' st"
  by (auto simp: alive_def fun_eq_iff dest: idled_out_later split: option.split)

section \<open>Properties\<close>

text \<open>C22: The store implements the map of live sessions. Creating puts exactly the session asked for on the
  map, until it idles out; lookups return exactly the live session, with its time refreshed for a
  request; editing a live session edits it on the map, and an edit that keeps time and timeout acts as
  that for a dead one too; deleting removes it; looking at a session, its countdown included, changes
  no live session now or later; and removing dead entries lazily is invisible. An edit that lengthens the
  timeout may bring back a session that has idled out but was not looked up since.\<close>

theorem session_store_refines:
  assumes "now \<le> later"
  shows "(let e = \<lparr>s_user = user, s_dek = dek, s_last_seen = now, s_restricted = restricted, s_idle = idle\<rparr> in
         alive later (create_session sid now user dek restricted idle st) =
           (alive later st)(sid := if idled_out st e later then None else Some e))
     \<and> fst (peek_session sid now st) = alive now st sid
     \<and> alive later (snd (peek_session sid now st)) = alive later st
     \<and> alive later (snd (session_status sid now st)) = alive later st
     \<and> fst (get_session sid now st) = map_option (\<lambda>e. e\<lparr>s_last_seen := now\<rparr>) (alive now st sid)
     \<and> alive later (snd (get_session sid now st)) =
         (case alive now st sid of None \<Rightarrow> alive later st
          | Some e \<Rightarrow> (alive later st)(sid := if idled_out st (e\<lparr>s_last_seen := now\<rparr>) later then None
                                             else Some (e\<lparr>s_last_seen := now\<rparr>)))
     \<and> (\<forall>e. alive now st sid = Some e \<longrightarrow>
         alive later (update_session sid f st) = (alive later st)(sid := if idled_out st (f e) later then None else Some (f e)))
     \<and> ((\<forall>e. s_last_seen (f e) = s_last_seen e \<and> s_idle (f e) = s_idle e) \<longrightarrow>
         alive later (update_session sid f st) = (alive later st)(sid := map_option f (alive later st sid)))
     \<and> alive later (delete_session sid st) = (alive later st)(sid := None)"
proof -
  have c: "alive later (create_session sid now user dek restricted idle st) =
      (alive later st)(sid := if idled_out st e later then None else Some e)"
    if "e = \<lparr>s_user = user, s_dek = dek, s_last_seen = now, s_restricted = restricted, s_idle = idle\<rparr>" for e
    using that by (simp add: create_session_def alive_put)
  have d: "alive later (delete_session sid st) = (alive later st)(sid := None)"
    by (simp add: delete_session_def alive_drop)
  show ?thesis
  proof (cases "map_of (st_sessions st) sid")
    case None
    then show ?thesis
      using c d by (auto simp: peek_session_def session_status_def get_session_def update_session_def alive_def fun_eq_iff Let_def)
  next
    case (Some e)
    have u: "alive later (update_session sid f st) = (alive later st)(sid := if idled_out st (f e) later then None else Some (f e))"
      using Some by (simp add: update_session_def alive_put)
    have kept: "idled_out st (f e) later = idled_out st e later" if "s_last_seen (f e) = s_last_seen e" "s_idle (f e) = s_idle e"
      using that by (simp add: idled_out_def effective_timeout_def split: idle.split)
    have live: "alive later st sid = (if idled_out st e later then None else Some e)" using Some by (simp add: alive_def)
    show ?thesis
    proof (cases "idled_out st e now")
      case True
      then obtain t where t: "effective_timeout st e = Some t" "now - s_last_seen e > t * SEC"
        by (auto simp: idled_out_def split: option.splits)
      note dead = alive_drop_dead [OF Some True]
      have "alive now st sid = None" using Some True by (simp add: alive_def)
      then show ?thesis
        using c d u kept live Some True t dead [OF assms]
        by (auto simp: peek_session_def session_status_def get_session_def Let_def split: option.splits)
    next
      case False
      then have "alive now st sid = Some e" using Some by (simp add: alive_def)
      then show ?thesis
        using c d u kept live Some False
        by (auto simp: peek_session_def session_status_def get_session_def alive_put Let_def idled_out_def split: option.splits)
    qed
  qed
qed

definition sample_store :: store where
  "sample_store = \<lparr>st_sessions = [(''s1'', \<lparr>s_user = 1, s_dek = [7], s_last_seen = 0, s_restricted = False,
     s_idle = UseDefault\<rparr>)], st_default = 3600\<rparr>"

theorem session_store_refines_witness:
  "fst (peek_session ''s1'' (3600 * SEC) sample_store) \<noteq> None
   \<and> alive (7200 * SEC) (snd (peek_session ''s1'' (3600 * SEC) sample_store)) = alive (7200 * SEC) sample_store
   \<and> alive (7200 * SEC) sample_store ''s1'' = None
   \<and> alive (7200 * SEC) (create_session ''s2'' (3600 * SEC) 2 [9] True Never sample_store) ''s2'' =
       Some \<lparr>s_user = 2, s_dek = [9], s_last_seen = 3600 * SEC, s_restricted = True, s_idle = Never\<rparr>
   \<and> map_option s_dek (alive (3600 * SEC) (update_session ''s1'' (\<lambda>e. e\<lparr>s_dek := [8]\<rparr>) sample_store) ''s1'') = Some [8]"
  using session_store_refines [of "3600 * SEC" "7200 * SEC" 2 "[9]" True Never "''s2''" sample_store]
    session_store_refines [of "3600 * SEC" "7200 * SEC" _ _ _ _ "''s1''" sample_store]
    session_store_refines [of "3600 * SEC" "3600 * SEC" _ _ _ _ "''s1''" sample_store "\<lambda>e. e\<lparr>s_dek := [8]\<rparr>"]
  by (simp add: SEC_def alive_def sample_store_def idled_out_def effective_timeout_def)

section \<open>Histories\<close>

text \<open>What can happen to the store: any operation, at a clock reading not before the last one.
  Requests look sessions up with \<open>get\<close>; the edits the application makes keep the time and the user.\<close>

datatype act = Create string int bytes bool idle | Get string | Peek string | Status string
  | Edit string "bytes option" "bool option" "idle option" | Delete string

definition edit_entry :: "bytes option \<Rightarrow> bool option \<Rightarrow> idle option \<Rightarrow> entry \<Rightarrow> entry" where
  "edit_entry dek restricted idle e =
     e\<lparr>s_dek := (case dek of Some d \<Rightarrow> d | None \<Rightarrow> s_dek e),
       s_restricted := (case restricted of Some r \<Rightarrow> r | None \<Rightarrow> s_restricted e),
       s_idle := (case idle of Some i \<Rightarrow> i | None \<Rightarrow> s_idle e)\<rparr>"

fun perform :: "act \<Rightarrow> int \<Rightarrow> store \<Rightarrow> store" where
  "perform (Create sid u d r i) now st = create_session sid now u d r i st"
| "perform (Get sid) now st = snd (get_session sid now st)"
| "perform (Peek sid) now st = snd (peek_session sid now st)"
| "perform (Status sid) now st = snd (session_status sid now st)"
| "perform (Edit sid d r i) now st = update_session sid (edit_entry d r i) st"
| "perform (Delete sid) now st = delete_session sid st"

inductive run :: "int \<Rightarrow> store \<Rightarrow> (act \<times> int) list \<Rightarrow> int \<Rightarrow> store \<Rightarrow> bool" where
  start: "run t st [] t st"
| step: "run t st acts t' st' \<Longrightarrow> t' \<le> now \<Longrightarrow> run t st (acts @ [(a, now)]) now (perform a now st')"

definition touches :: "string \<Rightarrow> act \<Rightarrow> bool" where
  "touches sid a \<longleftrightarrow> (case a of Create s u d r i \<Rightarrow> s = sid | Get s \<Rightarrow> s = sid | Edit s d r i \<Rightarrow> s = sid | _ \<Rightarrow> False)"

lemma perform_gone:
  assumes "\<not> touches sid a" and "map_of (st_sessions st) sid = None"
  shows "map_of (st_sessions (perform a now st)) sid = None"
  using assms
  by (cases a) (auto simp: touches_def create_session_def get_session_def peek_session_def session_status_def
      update_session_def delete_session_def Let_def split: option.splits)

lemma perform_untouched:
  assumes "\<not> touches sid a" and "map_of (st_sessions st) sid = Some e"
  shows "map_of (st_sessions (perform a now st)) sid \<in> {None, Some e}"
  using assms
  by (cases a) (auto simp: touches_def create_session_def get_session_def peek_session_def session_status_def
      update_session_def delete_session_def Let_def split: option.splits)

lemma perform_default [simp]: "st_default (perform a now st) = st_default st"
  by (cases a) (auto simp: create_session_def get_session_def peek_session_def session_status_def
      update_session_def delete_session_def Let_def split: option.splits)

lemma run_untouched:
  assumes "run t st acts t' st'" and "\<forall>(a, n) \<in> set acts. \<not> touches sid a" and "map_of (st_sessions st) sid = Some e"
  shows "map_of (st_sessions st') sid \<in> {None, Some e} \<and> st_default st' = st_default st \<and> t \<le> t'"
  using assms
proof (induction rule: run.induct)
  case (step t st acts t' st' now a)
  then have "\<not> touches sid a" and "map_of (st_sessions st') sid \<in> {None, Some e}" by auto
  then have "map_of (st_sessions (perform a now st')) sid \<in> {None, Some e}"
    using perform_gone perform_untouched by (metis insertE insertI1 singletonD)
  then show ?case using step by auto
qed simp

text \<open>A session nobody uses dies at its timeout whatever else happens: if its last use was more
  than its timeout ago, no sequence of operations that does not use, edit or recreate that session,
  watching it included, lets a later request in with it.\<close>

theorem idle_session_dies:
  assumes "run t st acts t' st'" and "\<forall>(a, n) \<in> set acts. \<not> touches sid a"
    and "map_of (st_sessions st) sid = Some e" and "effective_timeout st e = Some limit"
    and "t' \<le> now" and "now - s_last_seen e > limit * SEC"
  shows "fst (get_session sid now st') = None"
proof -
  have m: "map_of (st_sessions st') sid \<in> {None, Some e}" and d: "st_default st' = st_default st"
    using run_untouched [OF assms(1-3)] by auto
  have "idled_out st e now" using assms(4,6) by (simp add: idled_out_def)
  then have "idled_out st' e now" using idled_out_default [OF d] by simp
  with m show ?thesis by (auto simp: get_session_def split: option.splits)
qed

theorem idle_session_dies_witness:
  "fst (get_session ''s1'' (3601 * SEC) (snd (peek_session ''s1'' (1800 * SEC) sample_store))) = None"
proof -
  have r: "run 0 sample_store ([] @ [(Peek ''s1'', 1800 * SEC)]) (1800 * SEC) (perform (Peek ''s1'') (1800 * SEC) sample_store)"
    by (rule run.step [OF run.start]) (simp add: SEC_def)
  have e: "map_of (st_sessions sample_store) ''s1'' = Some \<lparr>s_user = 1, s_dek = [7], s_last_seen = 0, s_restricted = False,
     s_idle = UseDefault\<rparr>" by (simp add: sample_store_def)
  show ?thesis
    using idle_session_dies [OF r _ e, of 3600 "3601 * SEC"]
    by (simp add: touches_def effective_timeout_def sample_store_def SEC_def)
qed

text \<open>The countdown is truthful: the seconds it promises never exceed the timeout, and a request
  within them still finds the session, while one later than one second after them does not.\<close>

theorem countdown_truthful:
  assumes "fst (session_status sid now st) = Some s" and "ss_enabled s"
  shows "\<exists>e limit n. map_of (st_sessions st) sid = Some e \<and> ss_timeout s = Some limit \<and> ss_remaining s = Some n
     \<and> 0 \<le> n \<and> (s_last_seen e \<le> now \<longrightarrow> n \<le> limit)
     \<and> (\<forall>t. now \<le> t \<and> t \<le> now + n * SEC \<longrightarrow> fst (get_session sid t st) \<noteq> None)
     \<and> (\<forall>t. t \<ge> now + (n + 1) * SEC \<longrightarrow> fst (get_session sid t st) = None)"
proof -
  obtain e limit where e: "map_of (st_sessions st) sid = Some e" and t: "effective_timeout st e = Some limit"
    and le: "now - s_last_seen e \<le> limit * SEC"
    and s: "s = \<lparr>ss_enabled = True, ss_timeout = Some limit,
               ss_remaining = Some (max 0 ((limit * SEC - (now - s_last_seen e)) div SEC))\<rparr>"
    using assms by (auto simp: session_status_def Let_def split: option.splits if_splits)
  let ?n = "(limit * SEC - (now - s_last_seen e)) div SEC"
  have S: "0 < SEC" by (simp add: SEC_def)
  have n0: "0 \<le> ?n" using le S by (simp add: pos_imp_zdiv_nonneg_iff)
  note b = div_bracket [OF S, of "limit * SEC - (now - s_last_seen e)"]
  have "s_last_seen e \<le> now \<longrightarrow> ?n \<le> limit"
    using b(1) S by (auto simp: SEC_def)
  moreover have "\<forall>u. now \<le> u \<and> u \<le> now + ?n * SEC \<longrightarrow> fst (get_session sid u st) \<noteq> None"
    using e t b by (auto simp: get_session_def idled_out_def)
  moreover have "\<forall>u. u \<ge> now + (?n + 1) * SEC \<longrightarrow> fst (get_session sid u st) = None"
    using e t b by (auto simp: get_session_def idled_out_def)
  ultimately show ?thesis using e s n0 by auto
qed

theorem countdown_truthful_witness:
  "fst (session_status ''s1'' (1000 * SEC) sample_store) = Some \<lparr>ss_enabled = True, ss_timeout = Some 3600, ss_remaining = Some 2600\<rparr>
   \<and> fst (get_session ''s1'' (3600 * SEC) sample_store) \<noteq> None \<and> fst (get_session ''s1'' (3601 * SEC) sample_store) = None"
proof -
  have s: "fst (session_status ''s1'' (1000 * SEC) sample_store) = Some \<lparr>ss_enabled = True, ss_timeout = Some 3600, ss_remaining = Some 2600\<rparr>"
    by code_simp
  from countdown_truthful [OF s] s show ?thesis by (auto simp: SEC_def)
qed

end
