(* ===== verification/Crypto.thy ===== *)
theory Crypto
  imports Json Session
begin

text \<open>
  The key handling (\<open>crypto.py\<close>). Argon2id, HKDF-SHA256, SHA-256 and AES-GCM come from libraries
  that are not part of the repository: they are the parameters of the record \<open>crypto\<close>. The random
  bytes of \<open>os.urandom\<close> and the random text of \<open>secrets.token_urlsafe\<close> are arguments of the
  operations that draw them.
\<close>

section \<open>The primitives\<close>

record crypto =
  cr_argon :: "bytes \<Rightarrow> bytes \<Rightarrow> int \<Rightarrow> int \<Rightarrow> int \<Rightarrow> bytes res"   \<comment> \<open>secret, salt, time, memory, parallelism\<close>
  cr_hkdf :: "bytes \<Rightarrow> bytes \<Rightarrow> bytes"                       \<comment> \<open>info, input key\<close>
  cr_sha256 :: "bytes \<Rightarrow> bytes"
  cr_seal :: "bytes \<Rightarrow> bytes \<Rightarrow> bytes \<Rightarrow> bytes res"           \<comment> \<open>key, nonce, plaintext\<close>
  cr_open :: "bytes \<Rightarrow> bytes \<Rightarrow> bytes \<Rightarrow> bytes res"           \<comment> \<open>key, nonce, ciphertext\<close>

text \<open>What the code relies on: the digests have 32 bytes, AES-GCM accepts a 32-byte key with a 12-byte
  nonce, and decryption accepts exactly the ciphertext encryption gives, returning its plaintext (the
  tag is computed anew and compared).\<close>

definition crypto_ok :: "crypto \<Rightarrow> bool" where
  "crypto_ok cr \<longleftrightarrow>
     (\<forall>p s t m l k. cr_argon cr p s t m l = Inr k \<longrightarrow> length k = 32)
   \<and> (\<forall>i k. length (cr_hkdf cr i k) = 32)
   \<and> (\<forall>k n p. length k = 32 \<longrightarrow> length n = 12 \<longrightarrow> (\<exists>c. cr_seal cr k n p = Inr c))
   \<and> (\<forall>k n p c. cr_open cr k n c = Inr p \<longleftrightarrow> cr_seal cr k n p = Inr c)"

text \<open>\<open>str.encode("utf-8")\<close> of the model's eight-bit text, and its inverse. Text outside that
  repertoire has no value here.\<close>

definition utf8_char :: "char \<Rightarrow> bytes" where
  "utf8_char c =
     (if ccode c < 128 then [int (ccode c)]
      else [192 + int (ccode c) div 64, 128 + int (ccode c) mod 64])"

definition encode_text :: "string \<Rightarrow> bytes" where
  "encode_text s = concat (map utf8_char s)"

fun decode_text :: "bytes \<Rightarrow> string res" where
  "decode_text [] = Inr []"
| "decode_text (b # bs) =
     (if 0 \<le> b \<and> b < 128 then bindr (decode_text bs) (\<lambda>s. Inr (char_of (nat b) # s))
      else case bs of
             [] \<Rightarrow> Inl UnicodeError
           | d # ds \<Rightarrow>
               if (b = 194 \<or> b = 195) \<and> 128 \<le> d \<and> d < 192
               then bindr (decode_text ds) (\<lambda>s. Inr (char_of (nat ((b - 192) * 64 + d - 128)) # s))
               else Inl UnicodeError)"

section \<open>Operations\<close>

definition verifier_info :: string where "verifier_info = ''webcaldav:password-verifier:v1''"
definition token_key_info :: string where "token_key_info = ''webcaldav:api-token-dek:v1''"

definition derive_kek :: "crypto \<Rightarrow> string \<Rightarrow> bytes \<Rightarrow> int \<Rightarrow> int \<Rightarrow> int \<Rightarrow> bytes res" where
  "derive_kek cr password salt t m p = cr_argon cr (encode_text password) salt t m p"

definition make_verifier :: "crypto \<Rightarrow> bytes \<Rightarrow> bytes" where
  "make_verifier cr kek = cr_hkdf cr (encode_text verifier_info) kek"

definition verify_kek :: "crypto \<Rightarrow> bytes \<Rightarrow> bytes \<Rightarrow> bool" where
  "verify_kek cr kek stored \<longleftrightarrow> make_verifier cr kek = stored"

definition derive_token_key :: "crypto \<Rightarrow> string \<Rightarrow> bytes" where
  "derive_token_key cr secret = cr_hkdf cr (encode_text token_key_info) (encode_text secret)"

definition wrap_dek :: "crypto \<Rightarrow> bytes \<Rightarrow> bytes \<Rightarrow> bytes \<Rightarrow> (bytes \<times> bytes) res" where
  "wrap_dek cr nonce dek kek = bindr (cr_seal cr kek nonce dek) (\<lambda>ct. Inr (ct, nonce))"

definition unwrap_dek :: "crypto \<Rightarrow> bytes \<Rightarrow> bytes \<Rightarrow> bytes \<Rightarrow> bytes res" where
  "unwrap_dek cr ct nonce kek = cr_open cr kek nonce ct"

definition encrypt_bytes :: "crypto \<Rightarrow> bytes \<Rightarrow> bytes \<Rightarrow> bytes \<Rightarrow> (bytes \<times> bytes) res" where
  "encrypt_bytes cr nonce plain dek = bindr (cr_seal cr dek nonce plain) (\<lambda>ct. Inr (ct, nonce))"

definition decrypt_bytes :: "crypto \<Rightarrow> bytes \<Rightarrow> bytes \<Rightarrow> bytes \<Rightarrow> bytes res" where
  "decrypt_bytes cr ct nonce dek = cr_open cr dek nonce ct"

definition digest_of :: "crypto \<Rightarrow> string \<Rightarrow> bytes" where   \<comment> \<open>\<open>sha256(secret.encode("utf-8")).digest()\<close>\<close>
  "digest_of cr secret = cr_sha256 cr (encode_text secret)"

section \<open>Facts\<close>

lemma utf8_round: "decode_text (utf8_char c @ bs) = bindr (decode_text bs) (\<lambda>s. Inr (c # s))"
proof (cases "ccode c < 128")
  case True
  then show ?thesis by (simp add: utf8_char_def)
next
  case False
  have r: "(192 + int (ccode c) div 64 - 192) * 64 + (128 + int (ccode c) mod 64) - 128 = int (ccode c)"
    by simp
  have "int (ccode c) div 64 = 2 \<or> int (ccode c) div 64 = 3" using False ccode_less [of c] by linarith
  then show ?thesis using False r by (auto simp: utf8_char_def)
qed

lemma decode_encode_text [simp]: "decode_text (encode_text s) = Inr s"
  by (induction s) (simp_all add: encode_text_def utf8_round)

lemma encode_text_inj: "encode_text s = encode_text t \<Longrightarrow> s = t"
  by (metis decode_encode_text sum.inject(2))

lemma crypto_okD:
  assumes "crypto_ok cr"
  shows "length (make_verifier cr k) = 32" "length (derive_token_key cr s) = 32"
    "derive_kek cr pw salt t m p = Inr k \<Longrightarrow> length k = 32"
    "cr_open cr k n c = Inr b \<longleftrightarrow> cr_seal cr k n b = Inr c"
proof -
  note ok = assms [unfolded crypto_ok_def]
  show "length (make_verifier cr k) = 32" "length (derive_token_key cr s) = 32"
    using ok by (simp_all only: make_verifier_def derive_token_key_def)
  show "derive_kek cr pw salt t m p = Inr k \<Longrightarrow> length k = 32"
    using ok unfolding derive_kek_def by blast
  show "cr_open cr k n c = Inr b \<longleftrightarrow> cr_seal cr k n b = Inr c"
    using ok by blast
qed

lemma sealed_exists:
  assumes "crypto_ok cr" and "length k = 32" and "length n = 12"
  obtains c where "cr_seal cr k n p = Inr c"
  using assms unfolding crypto_ok_def by blast

text \<open>Wrapping and encryption are inverted with the same key only up to the ciphertext: what opens is
  what was sealed.\<close>

lemma open_what_was_sealed:
  assumes "crypto_ok cr"
  shows "wrap_dek cr n p k = Inr (c, n') \<longleftrightarrow> n' = n \<and> unwrap_dek cr c n k = Inr p"
    and "encrypt_bytes cr n p k = Inr (c, n') \<longleftrightarrow> n' = n \<and> decrypt_bytes cr c n k = Inr p"
  using crypto_okD(4) [OF assms]
  by (auto simp: wrap_dek_def unwrap_dek_def encrypt_bytes_def decrypt_bytes_def bindr_eq_Inr)

section \<open>An instance\<close>

text \<open>A transparent cipher that satisfies the laws, for the witnesses.\<close>

definition pad32 :: "bytes \<Rightarrow> bytes" where
  "pad32 bs = take 32 (bs @ replicate 32 0)"

definition sample_crypto :: crypto where
  "sample_crypto = \<lparr>
     cr_argon = \<lambda>p s t m l. Inr (pad32 (p @ s)),
     cr_hkdf = \<lambda>i k. pad32 (take 8 (rev i) @ k),
     cr_sha256 = rev,
     cr_seal = \<lambda>k n p. if length k = 32 \<and> length n = 12 then Inr (k @ n @ p) else Inl ValueError,
     cr_open = \<lambda>k n c. if length k = 32 \<and> length n = 12 \<and> take 44 c = k @ n then Inr (drop 44 c) else Inl CryptoError\<rparr>"

lemma sample_crypto_ok: "crypto_ok sample_crypto"
proof -
  have t: "take 44 c = k @ n \<and> drop 44 c = p \<longleftrightarrow> k @ n @ p = c" if "length k = 32" "length n = 12" for k n p c :: bytes
    using that append_take_drop_id [of 44 c] by (auto simp: append_assoc [symmetric] simp del: append_take_drop_id append_assoc)
  show ?thesis
    unfolding crypto_ok_def sample_crypto_def using t by (auto simp: pad32_def)
qed

end
