(* ===== verification/Ratelimit.thy ===== *)
theory Ratelimit
  imports PyTime "HOL-Library.AList"
begin

text \<open>
  The login rate limiter (\<open>ratelimit.py\<close>): per address, the times of the login attempts within a
  sliding window. Times are instants in microseconds, the window is in seconds. The login route
  asks it before it derives a key, records every attempt it admits at once (no other request runs in
  between), and resets the address when the login succeeds.
\<close>

record limiter =
  rl_max :: int
  rl_window :: int
  rl_attempts :: "(string \<times> int list) list"

definition rl_enabled :: "limiter \<Rightarrow> bool" where
  "rl_enabled l \<longleftrightarrow> rl_max l > 0"

definition attempts_of :: "string \<Rightarrow> limiter \<Rightarrow> int list" where
  "attempts_of ip l = (case map_of (rl_attempts l) ip of None \<Rightarrow> [] | Some ts \<Rightarrow> ts)"

definition recent :: "limiter \<Rightarrow> int \<Rightarrow> int list \<Rightarrow> int list" where
  "recent l now ts = filter (\<lambda>t. now - t < rl_window l * SEC) ts"

definition prune :: "string \<Rightarrow> int \<Rightarrow> limiter \<Rightarrow> int list \<times> limiter" where
  "prune ip now l =
     (let ts = recent l now (attempts_of ip l) in
      (ts, l\<lparr>rl_attempts := (if ts \<noteq> [] then AList.update ip ts (rl_attempts l)
                              else AList.delete ip (rl_attempts l))\<rparr>))"

text \<open>\<open>check\<close>: \<open>None\<close>, or the seconds until the address may try again. \<open>min\<close> is over a non-empty list
  when the limiter is enabled.\<close>

definition check_ip :: "string \<Rightarrow> int \<Rightarrow> limiter \<Rightarrow> int option \<times> limiter" where
  "check_ip ip now l =
     (if \<not> rl_enabled l then (None, l)
      else
        let (ts, l') = prune ip now l in
        if int (length ts) < rl_max l then (None, l')
        else (Some (max 1 ((rl_window l * SEC - (now - Min (set ts))) div SEC + 1)), l'))"

definition record_ip :: "string \<Rightarrow> int \<Rightarrow> limiter \<Rightarrow> limiter" where
  "record_ip ip now l =
     (if \<not> rl_enabled l then l
      else
        let (ts, l') = prune ip now l in
        l'\<lparr>rl_attempts := AList.update ip (ts @ [now]) (rl_attempts l')\<rparr>)"

definition reset_ip :: "string \<Rightarrow> limiter \<Rightarrow> limiter" where
  "reset_ip ip l = l\<lparr>rl_attempts := AList.delete ip (rl_attempts l)\<rparr>"

section \<open>Facts\<close>

lemma attempts_write:
  "attempts_of ip (l\<lparr>rl_attempts := AList.update ip' ts (rl_attempts l)\<rparr>) = (if ip = ip' then ts else attempts_of ip l)"
  "attempts_of ip (l\<lparr>rl_attempts := AList.delete ip' (rl_attempts l)\<rparr>) = (if ip = ip' then [] else attempts_of ip l)"
  by (simp_all add: attempts_of_def update_conv' delete_conv')

lemma prune_facts:
  "fst (prune ip now l) = recent l now (attempts_of ip l)"
  "attempts_of ip' (snd (prune ip now l)) = (if ip' = ip then recent l now (attempts_of ip l) else attempts_of ip' l)"
  "rl_max (snd (prune ip now l)) = rl_max l" "rl_window (snd (prune ip now l)) = rl_window l"
  by (simp_all add: prune_def Let_def attempts_write)

lemma check_facts:
  "rl_max (snd (check_ip ip now l)) = rl_max l" "rl_window (snd (check_ip ip now l)) = rl_window l"
  "rl_enabled l \<Longrightarrow> attempts_of ip' (snd (check_ip ip now l)) =
     (if ip' = ip then recent l now (attempts_of ip l) else attempts_of ip' l)"
  "rl_enabled l \<Longrightarrow> fst (check_ip ip now l) = None \<longleftrightarrow> int (length (recent l now (attempts_of ip l))) < rl_max l"
  using prune_facts [where ip = ip and now = now and l = l]
  by (simp_all add: check_ip_def split_beta Let_def)

lemma record_facts:
  "rl_max (record_ip ip now l) = rl_max l" "rl_window (record_ip ip now l) = rl_window l"
  "rl_enabled l \<Longrightarrow> attempts_of ip' (record_ip ip now l) =
     (if ip' = ip then recent l now (attempts_of ip l) @ [now] else attempts_of ip' l)"
  using prune_facts [where ip = ip and now = now and l = l]
  by (simp_all add: record_ip_def split_beta Let_def attempts_write)

lemma reset_facts:
  "rl_max (reset_ip ip l) = rl_max l" "rl_window (reset_ip ip l) = rl_window l"
  "attempts_of ip' (reset_ip ip l) = (if ip' = ip then [] else attempts_of ip' l)"
  by (simp_all add: reset_ip_def attempts_write)

section \<open>Logins\<close>

text \<open>The login requests of one address, among those of others: the state is the limiter, the last
  clock reading, and the attempts of the address admitted since its last success, latest first. The
  clock is read once by \<open>check\<close> and once by \<open>record\<close>.\<close>

inductive logins :: "string \<Rightarrow> limiter \<Rightarrow> limiter \<times> int \<times> int list \<Rightarrow> bool"
  for ip :: string and l0 :: limiter where
  idle: "logins ip l0 (l0, now, [])"
| attempt: "logins ip l0 (l, now, hist) \<Longrightarrow> now \<le> t \<Longrightarrow> t \<le> t' \<Longrightarrow> fst (check_ip ip t l) = None \<Longrightarrow>
    logins ip l0 (record_ip ip t' (snd (check_ip ip t l)), t', t' # hist)"
| refuse: "logins ip l0 (l, now, hist) \<Longrightarrow> now \<le> t \<Longrightarrow> fst (check_ip ip t l) \<noteq> None \<Longrightarrow>
    logins ip l0 (snd (check_ip ip t l), t, hist)"
| succeed: "logins ip l0 (l, now, hist) \<Longrightarrow> logins ip l0 (reset_ip ip l, now, [])"
| other: "logins ip l0 (l, now, hist) \<Longrightarrow> ip' \<noteq> ip \<Longrightarrow> now \<le> t \<Longrightarrow>
    l' \<in> {snd (check_ip ip' t l), record_ip ip' t l, reset_ip ip' l} \<Longrightarrow> logins ip l0 (l', t, hist)"

lemma recent_length: "length (recent l now ts) \<le> length ts"
  by (simp add: recent_def)

lemma recent_window: "rl_window l = rl_window l' \<Longrightarrow> recent l = recent l'"
  by (simp add: recent_def fun_eq_iff)

lemma recent_later: "now \<le> later \<Longrightarrow> recent l later (recent l now ts) = recent l later ts"
  by (induction ts) (auto simp: recent_def)

lemma recent_rev: "length (recent l now (rev ts)) = length (recent l now ts)"
  by (simp add: recent_def rev_filter [symmetric])

text \<open>The invariant: the limiter remembers every admitted attempt that can still count, and never
  more of them than the maximum.\<close>

definition remembers :: "string \<Rightarrow> limiter \<times> int \<times> int list \<Rightarrow> bool" where
  "remembers ip s \<longleftrightarrow> (case s of (l, now, hist) \<Rightarrow>
     (\<forall>later \<ge> now. recent l later (attempts_of ip l) = recent l later (rev hist))
     \<and> int (length (attempts_of ip l)) \<le> rl_max l)"

lemma logins_remember:
  assumes "logins ip l0 s" and "rl_enabled l0" and "attempts_of ip l0 = []"
  shows "remembers ip s \<and> rl_max (fst s) = rl_max l0 \<and> rl_window (fst s) = rl_window l0"
  using assms
proof (induction rule: logins.induct)
  case (idle now)
  then show ?case by (simp add: remembers_def rl_enabled_def recent_def)
next
  case (attempt l now hist t t')
  let ?c = "snd (check_ip ip t l)"
  have e: "rl_enabled l" "rl_enabled ?c" using attempt by (simp_all add: rl_enabled_def check_facts)
  have few: "int (length (recent l t (attempts_of ip l))) < rl_max l"
    using check_facts(4) [OF e(1), of ip t] attempt.hyps by simp
  have w: "recent ?c = recent l" "recent (record_ip ip t' ?c) = recent l"
    by (rule recent_window, simp add: check_facts record_facts)+
  have a: "attempts_of ip (record_ip ip t' ?c) = recent l t' (attempts_of ip l) @ [t']"
    using record_facts(3) [OF e(2)] check_facts(3) [OF e(1)] w recent_later [OF attempt.hyps(3)] by simp
  have "recent l later (recent l t' (attempts_of ip l) @ [t']) = recent l later (rev (t' # hist))"
    if "t' \<le> later" for later
  proof -
    have "recent l later (attempts_of ip l) = recent l later (rev hist)"
      using attempt that by (simp add: remembers_def)
    then show ?thesis using recent_later [OF that, of l "attempts_of ip l"] by (simp add: recent_def)
  qed
  then have r: "\<forall>later \<ge> t'. recent (record_ip ip t' ?c) later (attempts_of ip (record_ip ip t' ?c)) = recent (record_ip ip t' ?c) later (rev (t' # hist))"
    by (simp only: w a) blast
  have "length (recent l t' (attempts_of ip l)) \<le> length (recent l t (attempts_of ip l))"
    using recent_later [OF attempt.hyps(3), of l "attempts_of ip l"] recent_length [of l t' "recent l t (attempts_of ip l)"] by simp
  then have m: "int (length (attempts_of ip (record_ip ip t' ?c))) \<le> rl_max (record_ip ip t' ?c)"
    using few a by (simp add: check_facts record_facts)
  have k: "rl_max l = rl_max l0 \<and> rl_window l = rl_window l0" using attempt by simp
  then show ?case
    using r m by (simp only: remembers_def prod.case fst_conv record_facts check_facts)
next
  case (refuse l now hist t)
  have e: "rl_enabled l" using refuse by (simp add: rl_enabled_def)
  have w: "recent (snd (check_ip ip t l)) = recent l" by (rule recent_window) (simp add: check_facts)
  show ?case
    using refuse w e recent_length [of l t "attempts_of ip l"] recent_later [of t _ l "attempts_of ip l"]
    by (auto simp: remembers_def check_facts)
next
  case (succeed l now hist)
  then show ?case by (auto simp: remembers_def reset_facts recent_def rl_enabled_def)
next
  case (other l now hist ip' t l')
  have e: "rl_enabled l" using other by (simp add: rl_enabled_def)
  have "attempts_of ip l' = attempts_of ip l" "rl_max l' = rl_max l" "rl_window l' = rl_window l"
    using other(2,4) e by (auto simp: check_facts record_facts reset_facts)
  then show ?case using other recent_window [of l' l] by (auto simp: remembers_def)
qed

lemma logins_bounded:
  assumes "logins ip l0 (l, now, hist)" and "rl_enabled l0" and "attempts_of ip l0 = []" and "now \<le> later"
  shows "int (length (filter (\<lambda>t. later - t < rl_window l0 * SEC) hist)) \<le> rl_max l0"
proof -
  have r: "recent l later (attempts_of ip l) = recent l later (rev hist)"
    and m: "int (length (attempts_of ip l)) \<le> rl_max l0" and w: "rl_window l = rl_window l0"
    using logins_remember [OF assms(1-3)] assms(4) by (auto simp: remembers_def)
  have "length (recent l later hist) \<le> length (attempts_of ip l)"
    using r recent_rev [of l later hist] recent_length [of l later "attempts_of ip l"] by simp
  then show ?thesis using m w by (simp add: recent_def)
qed

text \<open>The throttle holds in every window: of the login attempts of an address admitted since its
  last success, whatever other addresses do and however the clock advances, no more than the
  maximum ever lie within one window before any later moment.\<close>

theorem attempts_bounded:
  assumes "logins ip l0 (l, now, hist)" and "rl_enabled l0" and "attempts_of ip l0 = []" and "now \<le> later"
  shows "int (length (filter (\<lambda>t. later - t < rl_window l0 * SEC) hist)) \<le> rl_max l0"
  by (rule logins_bounded [OF assms])

definition sample_limiter :: limiter where
  "sample_limiter = \<lparr>rl_max = 2, rl_window = 300, rl_attempts = []\<rparr>"

theorem attempts_bounded_witness:
  "\<exists>l. logins ''1.2.3.4'' sample_limiter (l, 2 * SEC, [2 * SEC, SEC]) \<and> fst (check_ip ''1.2.3.4'' (3 * SEC) l) \<noteq> None
     \<and> int (length (filter (\<lambda>t. 100 * SEC - t < 300 * SEC) [2 * SEC, SEC])) \<le> 2"
proof -
  let ?l1 = "record_ip ''1.2.3.4'' SEC (snd (check_ip ''1.2.3.4'' SEC sample_limiter))"
  let ?l = "record_ip ''1.2.3.4'' (2 * SEC) (snd (check_ip ''1.2.3.4'' (2 * SEC) ?l1))"
  have a: "fst (check_ip ''1.2.3.4'' SEC sample_limiter) = None" "fst (check_ip ''1.2.3.4'' (2 * SEC) ?l1) = None"
    and n: "fst (check_ip ''1.2.3.4'' (3 * SEC) ?l) \<noteq> None"
    and e: "rl_enabled sample_limiter" "attempts_of ''1.2.3.4'' sample_limiter = []"
    by code_simp+
  have "logins ''1.2.3.4'' sample_limiter (?l1, SEC, [SEC])"
    by (rule logins.attempt [OF logins.idle _ _ a(1), of 0]) (simp_all add: SEC_def)
  then have s: "logins ''1.2.3.4'' sample_limiter (?l, 2 * SEC, [2 * SEC, SEC])"
    by (rule logins.attempt [OF _ _ _ a(2)]) (simp_all add: SEC_def)
  have "int (length (filter (\<lambda>t. 100 * SEC - t < rl_window sample_limiter * SEC) [2 * SEC, SEC])) \<le> rl_max sample_limiter"
    by (rule attempts_bounded [OF s e]) (simp add: SEC_def)
  then show ?thesis using s n by (auto simp: sample_limiter_def)
qed

text \<open>C38: A refusal is honest: the limiter names at least one second, and an address that waits that
  long without another failure is admitted again, provided its counted failures did not exceed the
  maximum.\<close>

theorem refusal_expires:
  assumes "fst (check_ip ip now l) = Some n" and "rl_enabled l" and "l' = snd (check_ip ip now l)"
    and "int (length (attempts_of ip l')) \<le> rl_max l"
  shows "1 \<le> n \<and> fst (check_ip ip (now + n * SEC) l') = None"
proof -
  let ?ts = "recent l now (attempts_of ip l)"
  have S: "0 < SEC" by (simp add: SEC_def)
  have full: "\<not> int (length ?ts) < rl_max l"
    using assms(1) check_facts(4) [OF assms(2), of ip now] by auto
  then have ne: "?ts \<noteq> []" using assms(2) by (auto simp: rl_enabled_def)
  have n: "n = max 1 ((rl_window l * SEC - (now - Min (set ?ts))) div SEC + 1)"
    using assms(1,2) full prune_facts(1) [of ip now l] by (auto simp: check_ip_def split_beta Let_def split: if_splits)
  have old: "Min (set ?ts) \<in> set ?ts" using ne by simp
  have l': "attempts_of ip l' = ?ts" "rl_max l' = rl_max l" "rl_window l' = rl_window l" "rl_enabled l'"
    using assms(2,3) check_facts(3) [OF assms(2), of ip ip now] by (simp_all add: check_facts rl_enabled_def)
  have "rl_window l * SEC - (now - Min (set ?ts)) < ((rl_window l * SEC - (now - Min (set ?ts))) div SEC + 1) * SEC"
    by (rule div_bracket(2) [OF S])
  also have "\<dots> \<le> n * SEC" unfolding n by (intro mult_right_mono) (use S in auto)
  finally have "\<not> (now + n * SEC) - Min (set ?ts) < rl_window l * SEC" by simp
  then have "Min (set ?ts) \<notin> set (recent l' (now + n * SEC) ?ts)" using l'(3) by (simp add: recent_def)
  then have "length (recent l' (now + n * SEC) ?ts) < length ?ts"
    using old by (metis (mono_tags, lifting) filter_id_conv length_filter_less recent_def)
  then have "fst (check_ip ip (now + n * SEC) l') = None"
    using check_facts(4) [OF l'(4), of ip "now + n * SEC"] l' assms(4) by auto
  then show ?thesis by (simp add: n)
qed

theorem refusal_expires_witness:
  "\<exists>l. fst (check_ip ''1.2.3.4'' (2 * SEC) l) = Some 299
     \<and> fst (check_ip ''1.2.3.4'' (301 * SEC) (snd (check_ip ''1.2.3.4'' (2 * SEC) l))) = None"
proof -
  let ?l = "record_ip ''1.2.3.4'' (SEC + 1) (record_ip ''1.2.3.4'' (SEC div 2) sample_limiter)"
  have r: "fst (check_ip ''1.2.3.4'' (2 * SEC) ?l) = Some 299" by code_simp
  have e: "rl_enabled ?l"
    and b: "int (length (attempts_of ''1.2.3.4'' (snd (check_ip ''1.2.3.4'' (2 * SEC) ?l)))) \<le> rl_max ?l" by code_simp+
  from refusal_expires [OF r e refl b] r show ?thesis by (auto simp: SEC_def)
qed

end
