(* ===== verification/PyIso.thy ===== *)
theory PyIso
  imports PyTime PyStr
begin

text \<open>
  The Gregorian calendar and the ISO 8601 text of dates and datetimes: \<open>date(y, m, d)\<close>, the
  \<open>year\<close>, \<open>month\<close> and \<open>day\<close> of an ordinal, \<open>isoformat\<close>, and both \<open>fromisoformat\<close> parsers as
  Python 3.12 has them (calendar and week dates, with and without separators, fractions and
  offsets). The main facts: ordinals and year-month-day triples are inverse, and parsing what
  \<open>isoformat\<close> prints gives the date back.
\<close>

section \<open>The calendar\<close>

definition is_leap :: "int \<Rightarrow> bool" where
  "is_leap y \<longleftrightarrow> y mod 4 = 0 \<and> (y mod 100 \<noteq> 0 \<or> y mod 400 = 0)"

definition days_before_year :: "int \<Rightarrow> int" where
  "days_before_year y = (y - 1) * 365 + (y - 1) div 4 - (y - 1) div 100 + (y - 1) div 400"

definition month_lengths :: "bool \<Rightarrow> int list" where
  "month_lengths leap = [31, if leap then 29 else 28, 31, 30, 31, 30, 31, 31, 30, 31, 30, 31]"

definition days_in_month :: "int \<Rightarrow> int \<Rightarrow> int" where
  "days_in_month y m = month_lengths (is_leap y) ! nat (m - 1)"

definition days_before_month :: "int \<Rightarrow> int \<Rightarrow> int" where
  "days_before_month y m = sum_list (take (nat (m - 1)) (month_lengths (is_leap y)))"

definition ymd2ord :: "int \<Rightarrow> int \<Rightarrow> int \<Rightarrow> int" where
  "ymd2ord y m d = days_before_year y + days_before_month y m + d"

text \<open>The constructor \<open>date(y, m, d)\<close>, with its range checks.\<close>

definition mk_date :: "int \<Rightarrow> int \<Rightarrow> int \<Rightarrow> int res" where
  "mk_date y m d =
     (if 1 \<le> y \<and> y \<le> 9999 \<and> 1 \<le> m \<and> m \<le> 12 \<and> 1 \<le> d \<and> d \<le> days_in_month y m
      then Inr (ymd2ord y m d) else Inl ValueError)"

text \<open>Walking the month lengths: month and day of a zero-based day of the year.\<close>

fun split_month :: "int list \<Rightarrow> int \<Rightarrow> int \<Rightarrow> int \<times> int" where
  "split_month [] m r = (m, r + 1)"
| "split_month (l # ls) m r = (if r < l then (m, r + 1) else split_month ls (m + 1) (r - l))"

text \<open>Year and zero-based day of the year of an ordinal, by 400, 100, 4 and 1 year cycles.\<close>

definition ord2yd :: "int \<Rightarrow> int \<times> int" where
  "ord2yd n =
     (let m = n - 1; n400 = m div 146097; a = m mod 146097;
          n100 = a div 36524; b = a mod 36524;
          n4 = b div 1461; c = b mod 1461;
          n1 = c div 365; r = c mod 365;
          y = n400 * 400 + n100 * 100 + n4 * 4 + n1 + 1
      in if n1 = 4 \<or> n100 = 4 then (y - 1, 365) else (y, r))"

definition ord2ymd :: "int \<Rightarrow> int \<times> int \<times> int" where
  "ord2ymd n = (case ord2yd n of (y, r) \<Rightarrow> (y, split_month (month_lengths (is_leap y)) 1 r))"

definition year_of :: "int \<Rightarrow> int" where "year_of n = fst (ord2ymd n)"
definition month_of :: "int \<Rightarrow> int" where "month_of n = fst (snd (ord2ymd n))"
definition day_of :: "int \<Rightarrow> int" where "day_of n = snd (snd (ord2ymd n))"

subsection \<open>Ordinals and triples are inverse\<close>

lemma split_month_spec:
  assumes "0 \<le> r" and "r < sum_list ls" and "list_all (\<lambda>l. 0 < l) ls"
    and "split_month ls m r = (m', d)"
  shows "m \<le> m' \<and> m' < m + int (length ls) \<and> 1 \<le> d \<and> d \<le> ls ! nat (m' - m)
         \<and> sum_list (take (nat (m' - m)) ls) + d = r + 1"
  using assms
proof (induction ls arbitrary: m r)
  case Nil
  then show ?case by simp
next
  case (Cons l ls)
  show ?case
  proof (cases "r < l")
    case True
    with Cons.prems show ?thesis by auto
  next
    case False
    with Cons.prems have "split_month ls (m + 1) (r - l) = (m', d)" by simp
    with Cons.IH [of "r - l" "m + 1"] Cons.prems False
    have ih: "m + 1 \<le> m' \<and> m' < m + 1 + int (length ls) \<and> 1 \<le> d \<and> d \<le> ls ! nat (m' - (m + 1))
         \<and> sum_list (take (nat (m' - (m + 1))) ls) + d = r - l + 1" by simp
    then have "nat (m' - m) = Suc (nat (m' - (m + 1)))" by linarith
    with ih show ?thesis by simp
  qed
qed

lemma month_lengths_facts [simp]:
  "list_all (\<lambda>l. 0 < l) (month_lengths b)"
  "length (month_lengths b) = 12"
  "sum_list (month_lengths b) = (if b then 366 else 365)"
  by (simp_all add: month_lengths_def)

text \<open>The cycle arithmetic: a year is a remainder below its length after the days before it.\<close>

lemma divmod_eqI:
  "(a::int) = b * q + r \<Longrightarrow> 0 \<le> r \<Longrightarrow> r < b \<Longrightarrow> a div b = q \<and> a mod b = r"
  using int_div_pos_eq int_mod_pos_eq by blast

lemma cycle_divmods:
  fixes n400 n100 n4 n1 :: int
  assumes "0 \<le> n100" "n100 \<le> 3" "0 \<le> n4" "n4 \<le> 24" "0 \<le> n1" "n1 \<le> 3"
    and x: "x = n400 * 400 + n100 * 100 + n4 * 4 + n1"
  shows "x div 4 = n400 * 100 + n100 * 25 + n4 \<and> x mod 4 = n1"
    and "x div 100 = n400 * 4 + n100 \<and> x mod 100 = n4 * 4 + n1"
    and "x div 400 = n400 \<and> x mod 400 = n100 * 100 + n4 * 4 + n1"
proof -
  show "x div 4 = n400 * 100 + n100 * 25 + n4 \<and> x mod 4 = n1"
    by (rule divmod_eqI) (use assms in simp_all)
  show "x div 100 = n400 * 4 + n100 \<and> x mod 100 = n4 * 4 + n1"
    by (rule divmod_eqI) (use assms in simp_all)
  show "x div 400 = n400 \<and> x mod 400 = n100 * 100 + n4 * 4 + n1"
    by (rule divmod_eqI) (use assms in simp_all)
qed

lemma days_before_year_cycles:
  assumes "0 \<le> n100" "n100 \<le> 3" "0 \<le> n4" "n4 \<le> 24" "0 \<le> n1" "n1 \<le> 3"
  shows "days_before_year (n400 * 400 + n100 * 100 + n4 * 4 + n1 + 1) =
         146097 * n400 + 36524 * n100 + 1461 * n4 + 365 * n1"
  using cycle_divmods [OF assms refl, of n400]
  by (simp add: days_before_year_def)

lemma succ_mod_zero: "0 < b \<Longrightarrow> ((x::int) + 1) mod b = 0 \<longleftrightarrow> x mod b = b - 1"
proof -
  assume b: "0 < b"
  have x: "x = b * (x div b) + x mod b" and r: "0 \<le> x mod b" "x mod b < b"
    using b by simp_all
  show ?thesis
  proof (cases "x mod b = b - 1")
    case True
    then have "x + 1 = b * (x div b) + b" using x by linarith
    then have "x + 1 = b * (x div b + 1) + 0" by (simp add: distrib_left)
    then have "(x + 1) mod b = 0" using b divmod_eqI [of "x + 1" b "x div b + 1" 0] by simp
    with True show ?thesis by simp
  next
    case False
    then have "x + 1 = b * (x div b) + (x mod b + 1)" and "x mod b + 1 < b" using x r by simp_all
    then have "(x + 1) mod b = x mod b + 1"
      using divmod_eqI [of "x + 1" b "x div b" "x mod b + 1"] r by simp
    with False r show ?thesis by simp
  qed
qed

lemma is_leap_cycles:
  assumes "0 \<le> n100" "n100 \<le> 3" "0 \<le> n4" "n4 \<le> 24" "0 \<le> n1" "n1 \<le> 3"
  shows "is_leap (n400 * 400 + n100 * 100 + n4 * 4 + n1 + 1) \<longleftrightarrow> n1 = 3 \<and> (n4 \<noteq> 24 \<or> n100 = 3)"
  using cycle_divmods [OF assms refl, of n400] assms
  by (auto simp: is_leap_def succ_mod_zero)


lemma ord2yd_spec:
  assumes "ord2yd n = (y, r)"
  shows "n = days_before_year y + r + 1 \<and> 0 \<le> r \<and> r < (if is_leap y then 366 else 365)"
proof -
  obtain n400 a where 1: "n - 1 = 146097 * n400 + a" "0 \<le> a" "a < 146097"
    and d1: "n400 = (n - 1) div 146097" "a = (n - 1) mod 146097" by simp
  obtain n100 b where 2: "a = 36524 * n100 + b" "0 \<le> b" "b < 36524"
    and d2: "n100 = a div 36524" "b = a mod 36524" by simp
  obtain n4 c where 3: "b = 1461 * n4 + c" "0 \<le> c" "c < 1461"
    and d3: "n4 = b div 1461" "c = b mod 1461" by simp
  obtain n1 r' where 4: "c = 365 * n1 + r'" "0 \<le> r'" "r' < 365"
    and d4: "n1 = c div 365" "r' = c mod 365" by simp
  have yr: "(y, r) = (let y' = n400 * 400 + n100 * 100 + n4 * 4 + n1 + 1
                      in if n1 = 4 \<or> n100 = 4 then (y' - 1, 365) else (y', r'))"
    using assms unfolding ord2yd_def Let_def d1 d2 d3 d4 by simp
  have n100: "0 \<le> n100" "n100 \<le> 4" using 1 2 by linarith+
  have n4: "0 \<le> n4" "n4 \<le> 24" using 2 3 by linarith+
  have n1: "0 \<le> n1" "n1 \<le> 4" using 3 4 by linarith+
  have n: "n = 146097 * n400 + 36524 * n100 + 1461 * n4 + 365 * n1 + r' + 1"
    using 1(1) 2(1) 3(1) 4(1) by linarith
  consider (y400) "n100 = 4" | (y4) "n100 \<noteq> 4" "n1 = 4" | (y) "n100 \<noteq> 4" "n1 \<noteq> 4" by blast
  then show ?thesis
  proof cases
    case y400
    then have b: "b = 0" using 1 2 by linarith
    then have n40: "n4 = 0" using 3 by linarith
    with b have "c = 0" using 3 by simp
    then have n10: "n1 = 0" using 4 by linarith
    with \<open>c = 0\<close> n40 have "n4 = 0" "n1 = 0" "r' = 0" using 4 by simp_all
    moreover from this y400 have y: "y = n400 * 400 + 3 * 100 + 24 * 4 + 3 + 1" and r: "r = 365"
      using yr by (simp_all add: Let_def)
    moreover have "is_leap y" and "days_before_year y = 146097 * n400 + 36524 * 3 + 1461 * 24 + 365 * 3"
      using is_leap_cycles [of 3 24 3 n400] days_before_year_cycles [of 3 24 3 n400] y by simp_all
    ultimately show ?thesis using n y400 by simp
  next
    case y4
    then have "r' = 0" using 3 4 by linarith
    moreover from y4 have "n4 \<noteq> 24 \<or> n100 = 3" using 1 2 3 4 n100 by linarith
    moreover from y4 have y: "y = n400 * 400 + n100 * 100 + n4 * 4 + 3 + 1" and r: "r = 365"
      using yr by (simp_all add: Let_def)
    moreover have "days_before_year y = 146097 * n400 + 36524 * n100 + 1461 * n4 + 365 * 3"
      using days_before_year_cycles [of n100 n4 3 n400] y n100 n4 y4 by simp
    moreover have "is_leap y \<longleftrightarrow> n4 \<noteq> 24 \<or> n100 = 3"
      using is_leap_cycles [of n100 n4 3 n400] y n100 n4 y4 by simp
    ultimately show ?thesis using n y4 by simp
  next
    case y
    then have "y = n400 * 400 + n100 * 100 + n4 * 4 + n1 + 1" and "r = r'"
      using yr by (simp_all add: Let_def)
    moreover have "n100 \<le> 3" "n1 \<le> 3" using y n100 n1 by linarith+
    ultimately show ?thesis
      using days_before_year_cycles [of n100 n4 n1 n400] n n100 n4 n1 4 by simp
  qed
qed

lemma days_before_year_mono: "y \<le> z \<Longrightarrow> days_before_year y \<le> days_before_year z"
proof -
  have step: "days_before_year y \<le> days_before_year (y + 1)" for y
  proof -
    have "(y - 1) div 4 \<le> y div 4" and "y div 100 \<le> (y - 1) div 100 + 1"
      and "(y - 1) div 400 \<le> y div 400" by (simp_all add: zdiv_mono1)
    then show ?thesis by (simp add: days_before_year_def)
  qed
  assume "y \<le> z"
  then show ?thesis
  proof (induction z rule: int_ge_induct)
    case (step i)
    then show ?case using \<open>\<And>y. days_before_year y \<le> days_before_year (y + 1)\<close> order_trans by blast
  qed simp
qed

lemma ord2yd_range:
  assumes "ord_ok n" and "ord2yd n = (y, r)"
  shows "1 \<le> y \<and> y \<le> 9999"
proof -
  from ord2yd_spec [OF assms(2)] have n: "n = days_before_year y + r + 1"
    and r: "0 \<le> r" "r < 366" by (auto split: if_splits)
  have "\<not> y \<le> 0"
  proof
    assume "y \<le> 0"
    then have "days_before_year y \<le> days_before_year 0" by (rule days_before_year_mono)
    then have "days_before_year y \<le> -366" by (simp add: days_before_year_def)
    with n r assms(1) show False by (simp add: ord_ok_def)
  qed
  moreover have "\<not> 10000 \<le> y"
  proof
    assume "10000 \<le> y"
    then have "days_before_year 10000 \<le> days_before_year y" by (rule days_before_year_mono)
    then have "3652059 \<le> days_before_year y" by (simp add: days_before_year_def)
    with n r assms(1) show False by (simp add: ord_ok_def MAXORD_def)
  qed
  ultimately show ?thesis by simp
qed


lemma ord2ymd_spec:
  assumes "ord2ymd n = (y, m, d)"
  shows "ymd2ord y m d = n \<and> 1 \<le> m \<and> m \<le> 12 \<and> 1 \<le> d \<and> d \<le> days_in_month y m"
proof -
  obtain r where yd: "ord2yd n = (y, r)" and md: "split_month (month_lengths (is_leap y)) 1 r = (m, d)"
    using assms by (auto simp: ord2ymd_def split: prod.splits)
  have n: "n = days_before_year y + r + 1" and r: "0 \<le> r" "r < sum_list (month_lengths (is_leap y))"
    using ord2yd_spec [OF yd] by auto
  have "1 \<le> m \<and> m < 1 + int (length (month_lengths (is_leap y))) \<and> 1 \<le> d
        \<and> d \<le> month_lengths (is_leap y) ! nat (m - 1)
        \<and> sum_list (take (nat (m - 1)) (month_lengths (is_leap y))) + d = r + 1"
    by (rule split_month_spec [OF r _ md]) simp
  then show ?thesis
    by (simp add: ymd2ord_def days_in_month_def days_before_month_def n)
qed

text \<open>Building the date of an ordinal's year, month and day gives the ordinal back.\<close>

lemma mk_date_ord2ymd:
  assumes "ord_ok n" and "ord2ymd n = (y, m, d)"
  shows "mk_date y m d = Inr n" and "1 \<le> y" and "y \<le> 9999"
proof -
  obtain r where "ord2yd n = (y, r)"
    using assms(2) by (auto simp: ord2ymd_def split: prod.splits)
  from ord2yd_range [OF assms(1) this] show "1 \<le> y" and "y \<le> 9999" by simp_all
  with ord2ymd_spec [OF assms(2)] show "mk_date y m d = Inr n"
    by (simp add: mk_date_def)
qed

lemma year_month_day: "ord2ymd n = (year_of n, month_of n, day_of n)"
  by (simp add: year_of_def month_of_def day_of_def)

lemma day_of_range: "1 \<le> day_of n \<and> day_of n \<le> 31"
proof -
  have "1 \<le> month_of n \<and> month_of n \<le> 12 \<and> 1 \<le> day_of n
        \<and> day_of n \<le> days_in_month (year_of n) (month_of n)"
    using ord2ymd_spec [OF year_month_day] by simp
  moreover have "days_in_month y m \<le> 31" if "1 \<le> m" "m \<le> 12" for y m
  proof -
    have "nat (m - 1) < length (month_lengths (is_leap y))" using that by simp
    then have "days_in_month y m \<in> set (month_lengths (is_leap y))"
      unfolding days_in_month_def by (rule nth_mem)
    then show ?thesis by (auto simp: month_lengths_def split: if_splits)
  qed
  ultimately show ?thesis by (meson order_trans)
qed

section \<open>Printing\<close>

definition iso_date :: "int \<Rightarrow> string" where
  "iso_date n = (case ord2ymd n of (y, m, d) \<Rightarrow> pad4 y @ ''-'' @ pad2 m @ ''-'' @ pad2 d)"

definition pad6 :: "int \<Rightarrow> string" where
  "pad6 n = pad4 (n div 100) @ pad2 (n mod 100)"

text \<open>A time of day in microseconds, and a UTC offset.\<close>

definition iso_time :: "int \<Rightarrow> string" where
  "iso_time u = pad2 (u div HOUR) @ '':'' @ pad2 (u div MINUTE mod 60) @ '':'' @ pad2 (u div SEC mod 60)
     @ (if u mod SEC = 0 then [] else ''.'' @ pad6 (u mod SEC))"

definition iso_offset :: "int \<Rightarrow> string" where
  "iso_offset z =
     (let a = \<bar>z\<bar> in (if z < 0 then ''-'' else ''+'') @ pad2 (a div HOUR) @ '':'' @ pad2 (a div MINUTE mod 60)
        @ (if a mod MINUTE = 0 then []
           else '':'' @ pad2 (a div SEC mod 60) @ (if a mod SEC = 0 then [] else ''.'' @ pad6 (a mod SEC))))"

text \<open>\<open>isoformat(sep)\<close>; \<open>isoformat()\<close> of a datetime uses the separator \<open>T\<close>.\<close>

fun isoformat_sep :: "tzdb \<Rightarrow> string \<Rightarrow> tm \<Rightarrow> string" where
  "isoformat_sep db sep (Day n) = iso_date n"
| "isoformat_sep db sep (Stamp w f z) =
     iso_date (w div DAY) @ sep @ iso_time (w mod DAY)
       @ (case z of None \<Rightarrow> [] | Some x \<Rightarrow> iso_offset (utcoffset db x w f))"

definition isoformat :: "tzdb \<Rightarrow> tm \<Rightarrow> string" where
  "isoformat db t = isoformat_sep db ''T'' t"

definition py_str_tm :: "tzdb \<Rightarrow> tm \<Rightarrow> string" where   \<comment> \<open>\<open>str(d)\<close>\<close>
  "py_str_tm db t = isoformat_sep db '' '' t"

section \<open>Parsing\<close>

text \<open>\<open>s[a:b]\<close> for a non-negative start.\<close>

definition slice :: "nat \<Rightarrow> nat \<Rightarrow> string \<Rightarrow> string" where
  "slice a b s = take (b - a) (drop a s)"

definition num_at :: "nat \<Rightarrow> nat \<Rightarrow> string \<Rightarrow> int res" where
  "num_at a n s = (if length (slice a (a + n) s) = n then uint_of (slice a (a + n) s) else Inl ValueError)"

definition isoweek1monday :: "int \<Rightarrow> int" where
  "isoweek1monday y =
     (let first = ymd2ord y 1 1; wd = weekday first in
      if wd > 3 then first - wd + 7 else first - wd)"

definition isoweek_to_ord :: "int \<Rightarrow> int \<Rightarrow> int \<Rightarrow> int res" where
  "isoweek_to_ord y w d =
     (let fw = ymd2ord y 1 1 mod 7;
          week_ok = (0 < w \<and> w < 53) \<or> (w = 53 \<and> (fw = 4 \<or> (fw = 3 \<and> is_leap y)));
          n = isoweek1monday y + (w - 1) * 7 + (d - 1)
      in if 1 \<le> y \<and> y \<le> 9999 \<and> week_ok \<and> 0 < d \<and> d < 8 \<and> ord_ok n then Inr n else Inl ValueError)"

text \<open>The date part, of length 7, 8 or 10: calendar or week date, with or without dashes.\<close>

definition parse_iso_date :: "string \<Rightarrow> int res" where
  "parse_iso_date s =
     (if length s \<noteq> 7 \<and> length s \<noteq> 8 \<and> length s \<noteq> 10 then Inl ValueError
      else bindr (num_at 0 4 s) (\<lambda>y.
        let sep = (slice 4 5 s = ''-''); pos = 4 + (if sep then 1 else 0) in
        if slice pos (pos + 1) s = ''W'' then
          bindr (num_at (pos + 1) 2 s) (\<lambda>w.
            let p = pos + 3 in
            if length s > p then
              (if (slice p (p + 1) s = ''-'') \<noteq> sep then Inl ValueError
               else let q = p + (if sep then 1 else 0) in
                    if length s \<noteq> q + 1 then Inl ValueError
                    else bindr (num_at q 1 s) (\<lambda>d. isoweek_to_ord y w d))
            else isoweek_to_ord y w 1)
        else
          bindr (num_at pos 2 s) (\<lambda>m.
            let p = pos + 2 in
            if (slice p (p + 1) s = ''-'') \<noteq> sep then Inl ValueError
            else let q = p + (if sep then 1 else 0) in
                 if length s \<noteq> q + 2 then Inl ValueError
                 else bindr (num_at q 2 s) (\<lambda>d. mk_date y m d))))"

definition date_fromisoformat :: "string \<Rightarrow> tm res" where
  "date_fromisoformat s = bindr (parse_iso_date s) (\<lambda>n. Inr (Day n))"


text \<open>The time part: \<open>HH[:MM[:SS[.ffffff]]]\<close>, separators present or absent throughout.\<close>

fun two_digits :: "string \<Rightarrow> (int \<times> string) res" where
  "two_digits (a # b # r) = (if is_digit a \<and> is_digit b then Inr (10 * digit_val a + digit_val b, r) else Inl ValueError)"
| "two_digits _ = Inl ValueError"

fun parse_fraction :: "string \<Rightarrow> int res" where
  "parse_fraction [] = Inr 0"
| "parse_fraction (c # r) =
     (if c \<noteq> CHR ''.'' \<and> c \<noteq> CHR '','' then Inl ValueError
      else if \<not> list_all is_digit (drop 6 r) then Inl ValueError
      else bindr (uint_of (take 6 r)) (\<lambda>v. Inr (v * 10 ^ (6 - length (take 6 r)))))"

definition parse_hms :: "string \<Rightarrow> (int \<times> int \<times> int \<times> int) res" where
  "parse_hms s =
     bindr (two_digits s) (\<lambda>(h, r).
       if r = [] then Inr (h, 0, 0, 0) else
       let sep = (hd r = CHR '':''); r = (if sep then tl r else r) in
       bindr (two_digits r) (\<lambda>(m, r).
         if r = [] then Inr (h, m, 0, 0) else
         if sep \<and> hd r \<noteq> CHR '':'' then Inl ValueError else
         bindr (two_digits (if sep then tl r else r)) (\<lambda>(sec, r).
           bindr (parse_fraction r) (\<lambda>us. Inr (h, m, sec, us)))))"

definition hms_micros :: "int \<times> int \<times> int \<times> int \<Rightarrow> int" where
  "hms_micros t = (case t of (h, m, s, u) \<Rightarrow> h * HOUR + m * MINUTE + s * SEC + u)"

definition time_ok :: "int \<times> int \<times> int \<times> int \<Rightarrow> bool" where
  "time_ok t = (case t of (h, m, s, u) \<Rightarrow> h < 24 \<and> m < 60 \<and> s < 60)"

definition is_tz_mark :: "char \<Rightarrow> bool" where
  "is_tz_mark c \<longleftrightarrow> c = CHR ''+'' \<or> c = CHR ''-'' \<or> c = CHR ''Z''"

definition parse_iso_tz :: "string \<Rightarrow> tzi option res" where
  "parse_iso_tz s =
     (case s of
        [] \<Rightarrow> Inr None
      | c # r \<Rightarrow>
          if c = CHR ''Z'' then (if r = [] then Inr (Some Utc) else Inl ValueError)
          else bindr (parse_hms r) (\<lambda>t.
                 let off = hms_micros t in
                 if off = 0 then Inr (Some Utc)
                 else if off < DAY then Inr (Some (FixedOff (if c = CHR ''-'' then - off else off)))
                 else Inl ValueError))"

definition parse_iso_time :: "string \<Rightarrow> (int \<times> tzi option) res" where
  "parse_iso_time s =
     bindr (parse_hms (takeWhile (\<lambda>c. \<not> is_tz_mark c) s)) (\<lambda>t.
     bindr (parse_iso_tz (dropWhile (\<lambda>c. \<not> is_tz_mark c) s)) (\<lambda>z.
       if time_ok t then Inr (hms_micros t, z) else Inl ValueError))"

text \<open>Where the date part of a datetime string ends.\<close>

definition iso_separator :: "string \<Rightarrow> nat" where
  "iso_separator s =
     (let n = length s in
      if n = 7 then 7
      else if slice 4 5 s = ''-'' then
        (if slice 5 6 s = ''W'' then
           (if n > 8 \<and> slice 8 9 s = ''-''
            then (if n > 10 \<and> list_all is_digit (slice 10 11 s) then 8 else 10) else 8)
         else 10)
      else if slice 4 5 s = ''W'' then
        (let idx = 7 + length (takeWhile is_digit (drop 7 s)) in
         if idx < 9 then idx else if even idx then 7 else 8)
      else 8)"

definition datetime_fromisoformat :: "string \<Rightarrow> tm res" where
  "datetime_fromisoformat s =
     (if length s < 7 then Inl ValueError
      else if length s = 9 \<and> slice 4 6 s = ''-W'' \<and> slice 8 9 s = ''-'' then Inl ValueError
      else let k = iso_separator s in
        bindr (parse_iso_date (take k s)) (\<lambda>n.
          if drop (k + 1) s = [] then Inr (Stamp (n * DAY) 0 None)
          else bindr (parse_iso_time (drop (k + 1) s)) (\<lambda>(u, z). Inr (Stamp (n * DAY + u) 0 z))))"

section \<open>Parsing inverts printing\<close>

lemma length_iso_date [simp]: "length (iso_date n) = 10"
  by (simp add: iso_date_def split: prod.splits)

lemma mk_date_ranges:
  "mk_date y m d = Inr n \<Longrightarrow> 1 \<le> y \<and> y < 10000 \<and> 1 \<le> m \<and> m < 100 \<and> 1 \<le> d"
  by (auto simp: mk_date_def split: if_splits)

lemma parse_iso_date_ymd:
  assumes mk: "mk_date y m d = Inr n" and d: "d < 100"
  shows "parse_iso_date (pad4 y @ ''-'' @ pad2 m @ ''-'' @ pad2 d) = Inr n"
proof -
  have r: "0 \<le> y" "y < 10000" "0 \<le> m" "m < 100" "0 \<le> d" using mk_date_ranges [OF mk] by simp_all
  obtain a b c e where p4: "pad4 y = [a, b, c, e]" by (simp add: pad4_def)
  obtain f g where pm: "pad2 m = [f, g]" and fd: "is_digit f" by (simp add: pad2_def)
  obtain h i where pd: "pad2 d = [h, i]" by (simp add: pad2_def)
  have "f \<noteq> CHR ''W''" using fd by (auto simp: is_digit_def ccode_def)
  then show ?thesis
    using uint_of_pad4 [OF r(1,2)] uint_of_pad2 [OF r(3,4)] uint_of_pad2 [OF r(5) d] mk
    by (simp add: parse_iso_date_def num_at_def slice_def p4 pm pd numeral_eq_Suc)
qed

lemma parse_iso_date_iso_date:
  assumes "ord_ok n"
  shows "parse_iso_date (iso_date n) = Inr n"
proof -
  obtain y m d where ymd: "ord2ymd n = (y, m, d)" by (metis prod_cases3)
  have "d < 100" using day_of_range [of n] ymd by (simp add: day_of_def)
  from parse_iso_date_ymd [OF mk_date_ord2ymd(1) [OF assms ymd] this] show ?thesis
    by (simp add: iso_date_def ymd)
qed

lemma date_fromisoformat_isoformat: "ord_ok n \<Longrightarrow> date_fromisoformat (isoformat db (Day n)) = Inr (Day n)"
  by (simp add: isoformat_def date_fromisoformat_def parse_iso_date_iso_date)


lemma two_digits_pad2 [simp]:
  "0 \<le> n \<Longrightarrow> n < 100 \<Longrightarrow> two_digits (pad2 n @ r) = Inr (n, r)"
  by (simp add: pad2_def)

lemma is_digit_pad2: "c \<in> set (pad2 n) \<Longrightarrow> is_digit c"
  by (auto simp: pad2_def)

lemma is_digit_pad4: "c \<in> set (pad4 n) \<Longrightarrow> is_digit c"
  by (auto simp: pad4_def)

lemma is_digit_pad6: "c \<in> set (pad6 n) \<Longrightarrow> is_digit c"
  unfolding pad6_def using is_digit_pad2 is_digit_pad4 by auto

lemma digits_val_append:
  "digits_val (s @ t) = digits_val s * 10 ^ length t + digits_val t"
proof (induction t rule: rev_induct)
  case (snoc c t)
  have "digits_val (s @ t @ [c]) = 10 * digits_val (s @ t) + digit_val c"
    using digits_val_snoc [of "s @ t" c] by simp
  with snoc show ?case by (simp add: digits_val_snoc algebra_simps)
qed simp

lemma digits_val_pad2: "0 \<le> n \<Longrightarrow> n < 100 \<Longrightarrow> digits_val (pad2 n) = n"
  using uint_of_pad2 [of n] by (simp add: uint_of_def split: if_splits)

lemma digits_val_pad4: "0 \<le> n \<Longrightarrow> n < 10000 \<Longrightarrow> digits_val (pad4 n) = n"
  using uint_of_pad4 [of n] by (simp add: uint_of_def split: if_splits)

lemma uint_of_pad6: "0 \<le> n \<Longrightarrow> n < 1000000 \<Longrightarrow> uint_of (pad6 n) = Inr n"
proof -
  assume n: "0 \<le> n" "n < 1000000"
  then have "n div 100 < 10000" by (simp add: div_less_iff_less_mult)
  with n have "digits_val (pad6 n) = n div 100 * 100 + n mod 100"
    by (simp add: pad6_def digits_val_append digits_val_pad2 digits_val_pad4)
  then have "digits_val (pad6 n) = n" by simp
  moreover have "pad6 n \<noteq> []" by (simp add: pad6_def pad4_def)
  then have "all_digits (pad6 n)"
    using is_digit_pad6 [of _ n] by (auto simp: all_digits_def list_all_iff)
  ultimately show ?thesis by (simp add: uint_of_def)
qed

lemma length_pad6 [simp]: "length (pad6 n) = 6"
  by (simp add: pad6_def)

lemma parse_fraction_pad6:
  "0 \<le> n \<Longrightarrow> n < 1000000 \<Longrightarrow> parse_fraction (CHR ''.'' # pad6 n) = Inr n"
  by (simp add: uint_of_pad6)

lemma parse_hms_printed:
  assumes "0 \<le> h" "h < 100" "0 \<le> m" "m < 100" "0 \<le> s" "s < 100"
    and "parse_fraction fr = Inr us"
  shows "parse_hms (pad2 h @ '':'' @ pad2 m @ '':'' @ pad2 s @ fr) = Inr (h, m, s, us)"
proof -
  have "two_digits (pad2 s @ fr) = Inr (s, fr)" using assms by simp
  with assms show ?thesis by (simp add: parse_hms_def Let_def)
qed

text \<open>Hours, minutes, seconds and microseconds of a number of microseconds.\<close>

lemma micros_split:
  "u = (u div HOUR) * HOUR + (u div MINUTE mod 60) * MINUTE + (u div SEC mod 60) * SEC + u mod SEC"
proof -
  have "u = (u div SEC) * SEC + u mod SEC" by simp
  moreover have "u div SEC = (u div MINUTE) * 60 + u div SEC mod 60"
    using div_mult_mod_eq [of "u div SEC" 60] by (simp add: unit_defs zdiv_zmult2_eq [symmetric])
  moreover have "u div MINUTE = (u div HOUR) * 60 + u div MINUTE mod 60"
    using div_mult_mod_eq [of "u div MINUTE" 60] by (simp add: unit_defs zdiv_zmult2_eq [symmetric])
  ultimately have "u = (((u div HOUR) * 60 + u div MINUTE mod 60) * 60 + u div SEC mod 60) * SEC + u mod SEC"
    by metis
  then show ?thesis by (simp add: unit_defs algebra_simps)
qed

lemma parse_hms_iso_time:
  assumes "0 \<le> u" "u < DAY"
  shows "\<exists>t. parse_hms (iso_time u) = Inr t \<and> hms_micros t = u \<and> time_ok t"
proof -
  have h: "0 \<le> u div HOUR" "u div HOUR < 24"
    using assms by (simp_all add: unit_defs div_less_iff_less_mult pos_imp_zdiv_nonneg_iff)
  have us: "0 \<le> u mod SEC" "u mod SEC < 1000000" by (simp_all add: SEC_def)
  have fr: "parse_fraction (if u mod SEC = 0 then [] else ''.'' @ pad6 (u mod SEC)) = Inr (u mod SEC)"
    using parse_fraction_pad6 [OF us] by simp
  have "parse_hms (iso_time u) = Inr (u div HOUR, u div MINUTE mod 60, u div SEC mod 60, u mod SEC)"
    unfolding iso_time_def by (rule parse_hms_printed [OF _ _ _ _ _ _ fr]) (use h in simp_all)
  moreover have "hms_micros (u div HOUR, u div MINUTE mod 60, u div SEC mod 60, u mod SEC) = u"
    using micros_split [of u] by (simp add: hms_micros_def)
  ultimately show ?thesis using h by (simp add: time_ok_def)
qed

lemma digit_no_tz_mark: "is_digit c \<Longrightarrow> \<not> is_tz_mark c"
  by (auto simp: is_digit_def ccode_def is_tz_mark_def)

lemma iso_time_no_tz_mark: "c \<in> set (iso_time u) \<Longrightarrow> \<not> is_tz_mark c"
proof -
  assume "c \<in> set (iso_time u)"
  then have "is_digit c \<or> c = CHR '':'' \<or> c = CHR ''.''"
    by (auto simp: iso_time_def dest: is_digit_pad2 is_digit_pad6 split: if_splits)
  then show ?thesis using digit_no_tz_mark by (auto simp: is_tz_mark_def)
qed

text \<open>The offset suffix.\<close>

definition fixed_tz :: "int \<Rightarrow> tzi" where
  "fixed_tz off = (if off = 0 then Utc else FixedOff off)"

lemma parse_iso_tz_iso_offset:
  assumes "\<bar>z\<bar> < DAY"
  shows "parse_iso_tz (iso_offset z) = Inr (Some (fixed_tz z))"
proof -
  let ?a = "\<bar>z\<bar>"
  let ?r = "pad2 (?a div HOUR) @ '':'' @ pad2 (?a div MINUTE mod 60) @
     (if ?a mod MINUTE = 0 then []
      else '':'' @ pad2 (?a div SEC mod 60) @ (if ?a mod SEC = 0 then [] else ''.'' @ pad6 (?a mod SEC)))"
  have h: "0 \<le> ?a div HOUR" "?a div HOUR < 24"
    using assms by (simp_all add: unit_defs div_less_iff_less_mult pos_imp_zdiv_nonneg_iff)
  have us: "0 \<le> ?a mod SEC" "?a mod SEC < 1000000" by (simp_all add: SEC_def)
  have fr: "parse_fraction (if ?a mod SEC = 0 then [] else ''.'' @ pad6 (?a mod SEC)) = Inr (?a mod SEC)"
    using parse_fraction_pad6 [OF us] by simp
  have "\<exists>t. parse_hms ?r = Inr t \<and> hms_micros t = ?a"
  proof (cases "?a mod MINUTE = 0")
    case True
    have "two_digits (pad2 (?a div MINUTE mod 60)) = Inr (?a div MINUTE mod 60, [])"
      using two_digits_pad2 [of "?a div MINUTE mod 60" "[]"] by simp
    with True h have "parse_hms ?r = Inr (?a div HOUR, ?a div MINUTE mod 60, 0, 0)"
      by (simp add: parse_hms_def Let_def)
    moreover have "?a div SEC mod 60 = 0 \<and> ?a mod SEC = 0"
      using True by (auto simp: unit_defs)
    then have "hms_micros (?a div HOUR, ?a div MINUTE mod 60, 0, 0) = ?a"
      using micros_split [of ?a] by (simp add: hms_micros_def)
    ultimately show ?thesis by blast
  next
    case False
    have "parse_hms ?r = Inr (?a div HOUR, ?a div MINUTE mod 60, ?a div SEC mod 60, ?a mod SEC)"
      using False parse_hms_printed [OF _ _ _ _ _ _ fr, of "?a div HOUR" "?a div MINUTE mod 60" "?a div SEC mod 60"] h
      by simp
    moreover have "hms_micros (?a div HOUR, ?a div MINUTE mod 60, ?a div SEC mod 60, ?a mod SEC) = ?a"
      using micros_split [of ?a] by (simp add: hms_micros_def)
    ultimately show ?thesis by blast
  qed
  then obtain t where t: "parse_hms ?r = Inr t" "hms_micros t = ?a" by blast
  have "iso_offset z = (if z < 0 then CHR ''-'' else CHR ''+'') # ?r"
    by (simp add: iso_offset_def Let_def)
  with t assms show ?thesis by (simp add: parse_iso_tz_def fixed_tz_def Let_def)
qed

text \<open>Parsing a printed datetime gives its wall clock, with the offset as a fixed-offset zone.\<close>

definition iso_view :: "tzdb \<Rightarrow> tm \<Rightarrow> tm" where
  "iso_view db t = (case t of Day n \<Rightarrow> Day n
     | Stamp w f z \<Rightarrow> Stamp w 0 (case z of None \<Rightarrow> None | Some x \<Rightarrow> Some (fixed_tz (utcoffset db x w f))))"

definition offset_ok :: "tzdb \<Rightarrow> tm \<Rightarrow> bool" where
  "offset_ok db t = (case t of Stamp w f (Some x) \<Rightarrow> \<bar>utcoffset db x w f\<bar> < DAY | _ \<Rightarrow> True)"

lemma iso_offset_head: "\<exists>c r. iso_offset z = c # r \<and> is_tz_mark c"
  by (auto simp: iso_offset_def Let_def is_tz_mark_def)

lemma parse_iso_time_printed:
  assumes "0 \<le> u" "u < DAY" and "z' = None \<and> sfx = [] \<or> (\<exists>k. z' = Some (fixed_tz k) \<and> sfx = iso_offset k \<and> \<bar>k\<bar> < DAY)"
  shows "parse_iso_time (iso_time u @ sfx) = Inr (u, z')"
proof -
  obtain t where t: "parse_hms (iso_time u) = Inr t" "hms_micros t = u" "time_ok t"
    using parse_hms_iso_time [OF assms(1,2)] by blast
  have "sfx = [] \<or> (\<exists>c r. sfx = c # r \<and> is_tz_mark c)"
    using assms(3) iso_offset_head by blast
  then have "takeWhile (\<lambda>c. \<not> is_tz_mark c) (iso_time u @ sfx) = iso_time u"
    and "dropWhile (\<lambda>c. \<not> is_tz_mark c) (iso_time u @ sfx) = sfx"
    using iso_time_no_tz_mark [of _ u] by (auto simp: takeWhile_append2 dropWhile_append2)
  moreover have "parse_iso_tz sfx = Inr z'"
    using assms(3) parse_iso_tz_iso_offset by (auto simp: parse_iso_tz_def)
  ultimately show ?thesis using t by (simp add: parse_iso_time_def)
qed

lemma datetime_fromisoformat_isoformat:
  assumes "tm_ok t" and "is_datetime t" and "offset_ok db t"
  shows "datetime_fromisoformat (isoformat db t) = Inr (iso_view db t)"
proof -
  obtain w f z where t: "t = Stamp w f z" using assms(2) by (cases t) auto
  let ?sfx = "case z of None \<Rightarrow> [] | Some x \<Rightarrow> iso_offset (utcoffset db x w f)"
  let ?z = "case z of None \<Rightarrow> None | Some x \<Rightarrow> Some (fixed_tz (utcoffset db x w f))"
  have s: "isoformat db t = iso_date (w div DAY) @ CHR ''T'' # iso_time (w mod DAY) @ ?sfx"
    by (simp add: t isoformat_def)
  have time: "parse_iso_time (iso_time (w mod DAY) @ ?sfx) = Inr (w mod DAY, ?z)"
    by (rule parse_iso_time_printed) (use assms(3) t in \<open>auto simp: offset_ok_def split: option.splits\<close>)
  have pos: "length (iso_time (w mod DAY)) > 0" by (simp add: iso_time_def)
  obtain a b c e r where d: "iso_date (w div DAY) = [a, b, c, e, CHR ''-''] @ r"
    and r: "length r = 5" and r0: "hd r \<noteq> CHR ''W''"
  proof -
    obtain y m dd where "ord2ymd (w div DAY) = (y, m, dd)" by (metis prod_cases3)
    moreover have "is_digit (digit_char (m div 10 mod 10))" by simp
    then have "digit_char (m div 10 mod 10) \<noteq> CHR ''W''"
      by (auto simp: is_digit_def ccode_def)
    ultimately show ?thesis using that by (simp add: iso_date_def pad4_def pad2_def)
  qed
  have sep: "iso_separator (isoformat db t) = 10"
    using r r0 by (cases r) (auto simp: s d iso_separator_def slice_def Let_def numeral_eq_Suc)
  have "parse_iso_date (iso_date (w div DAY)) = Inr (w div DAY)"
    using assms(1) t by (simp add: parse_iso_date_iso_date wall_ok_def)
  moreover have "length (isoformat db t) > 11" using pos by (simp add: s)
  moreover have "take 10 (isoformat db t) = iso_date (w div DAY)"
    and "drop 11 (isoformat db t) = iso_time (w mod DAY) @ ?sfx"
    by (simp_all add: s)
  ultimately show ?thesis
    using time sep by (simp add: datetime_fromisoformat_def Let_def t iso_view_def)
qed

end
