(* ===== verification/Ical.thy ===== *)
theory Ical
  imports PyIso "HOL-Library.AList"
begin

text \<open>
  Calendar objects as \<open>caldav_client.py\<close> handles them. An icalendar component is data: its name,
  its properties (an ordered dict; every name holds the list of its values, absent is the empty list)
  and its subcomponents. Of the icalendar library only this container behaviour is used: \<open>in\<close>,
  \<open>get\<close>, \<open>decoded\<close>, \<open>pop\<close> and \<open>add\<close> (which appends to the values a name already has). Parsing
  and serialising are not modelled: a stored object is identified with the tree it denotes.
  What the code relies on is stated once as the locale \<open>component\<close> and proved of both component
  types, the calendar items and their alarms.
\<close>

named_theorems comp_simps \<open>properties of component operations\<close>

section \<open>Values\<close>

datatype rkey = FREQ | INTERVAL | BYDAY | BYMONTHDAY | COUNT | UNTIL | ROther string

datatype rval = RInt int | RStr string | RTm tm

text \<open>The parts of a recurrence rule, a dict of value lists in insertion order.\<close>

type_synonym rparts = "(rkey \<times> rval list) list"

datatype pkey =
    SUMMARY | LOCATION | DESCRIPTION | DTSTART | DTEND | DUE | DURATION | RECURRENCE_ID | UID
  | DTSTAMP | SEQUENCE | LAST_MODIFIED | RRULE | EXDATE | STATUS | COMPLETED | PERCENT_COMPLETE
  | PRIORITY | TZID | TRIGGER | ACTION | PRODID | VERSION
  | NoKey               \<comment> \<open>the empty name, journals' \<open>end_key\<close>\<close>
  | XProp string

datatype pval =
    VText string
  | VInt int
  | VTm tm
  | VTms "tm list"                     \<comment> \<open>one EXDATE line\<close>
  | VDur delta
  | VTrigger delta "string option"     \<comment> \<open>a duration TRIGGER and its RELATED parameter\<close>
  | VRecur rparts
  | VBroken                            \<comment> \<open>present, but \<open>decoded\<close> raises\<close>

text \<open>A component's properties: an ordered dict from names to the values they hold.\<close>

type_synonym bag = "(pkey \<times> pval list) list"

definition bag_vals :: "bag \<Rightarrow> pkey \<Rightarrow> pval list" where
  "bag_vals b k = (case map_of b k of Some vs \<Rightarrow> vs | None \<Rightarrow> [])"

definition bag_pop :: "pkey \<Rightarrow> bag \<Rightarrow> bag" where
  "bag_pop k b = AList.delete k b"

definition bag_add :: "pkey \<Rightarrow> pval \<Rightarrow> bag \<Rightarrow> bag" where
  "bag_add k v b = AList.update k (bag_vals b k @ [v]) b"

lemma bag_simps:
  "bag_vals [] = (\<lambda>_. [])"
  "bag_vals (bag_pop k b) = (bag_vals b)(k := [])"
  "bag_vals (bag_add k v b) = (bag_vals b)(k := bag_vals b k @ [v])"
  by (auto simp: bag_vals_def bag_pop_def bag_add_def delete_conv' update_conv' fun_eq_iff)

record valarm =
  aname :: string
  aprops :: bag

record vcomp =
  cname :: string
  cprops :: bag
  csubs :: "valarm list"

record vcal =
  vprops :: bag
  vsubs :: "vcomp list"

section \<open>The component interface\<close>

text \<open>
  The contract of a component's property container, as the code uses it.
\<close>

locale component =
  fixes vals :: "'c \<Rightarrow> pkey \<Rightarrow> pval list"
    and popp :: "pkey \<Rightarrow> 'c \<Rightarrow> 'c"
    and addp :: "pkey \<Rightarrow> pval \<Rightarrow> 'c \<Rightarrow> 'c"
  assumes vals_popp: "vals (popp k c) = (vals c)(k := [])"
    and vals_addp: "vals (addp k v c) = (vals c)(k := vals c k @ [v])"
begin

lemma vals_replace: "vals (addp k v (popp k c)) = (vals c)(k := [v])"
  by (simp add: vals_popp vals_addp)

lemma vals_addp_other: "j \<noteq> k \<Longrightarrow> vals (addp k v c) j = vals c j"
  by (simp add: vals_addp)

lemma vals_popp_other: "j \<noteq> k \<Longrightarrow> vals (popp k c) j = vals c j"
  by (simp add: vals_popp)

lemma popp_idem: "vals (popp k (popp k c)) = vals (popp k c)"
  by (simp add: vals_popp)

lemma vals_fold_addp:
  "vals (fold (\<lambda>v. addp k v) vs c) = (vals c)(k := vals c k @ vs)"
  by (induction vs arbitrary: c) (simp_all add: vals_addp)

end

subsection \<open>Calendar items\<close>

definition cvals :: "vcomp \<Rightarrow> pkey \<Rightarrow> pval list" where
  "cvals c = bag_vals (cprops c)"

definition chas :: "pkey \<Rightarrow> vcomp \<Rightarrow> bool" where
  "chas k c \<longleftrightarrow> cvals c k \<noteq> []"

definition cpop :: "pkey \<Rightarrow> vcomp \<Rightarrow> vcomp" where
  "cpop k c = c\<lparr>cprops := bag_pop k (cprops c)\<rparr>"

definition cadd :: "pkey \<Rightarrow> pval \<Rightarrow> vcomp \<Rightarrow> vcomp" where
  "cadd k v c = c\<lparr>cprops := bag_add k v (cprops c)\<rparr>"

interpretation item: component cvals cpop cadd
  by unfold_locales (simp_all add: cvals_def cpop_def cadd_def bag_simps)

lemma cvals_write [comp_simps, simp]:
  "cvals (cpop k c) j = (if j = k then [] else cvals c j)"
  "cvals (cadd k v c) j = (if j = k then cvals c j @ [v] else cvals c j)"
  by (simp_all add: item.vals_popp item.vals_addp)

lemma cpop_frame [comp_simps, simp]:
  "cname (cpop k c) = cname c" "csubs (cpop k c) = csubs c"
  by (simp_all add: cpop_def)

lemma cadd_frame [comp_simps, simp]:
  "cname (cadd k v c) = cname c" "csubs (cadd k v c) = csubs c"
  by (simp_all add: cadd_def)

lemma cvals_csubs_update [simp]: "cvals (c\<lparr>csubs := s\<rparr>) = cvals c"
  by (simp add: cvals_def)

lemma chas_cpop [comp_simps, simp]: "chas j (cpop k c) \<longleftrightarrow> j \<noteq> k \<and> chas j c"
  by (simp add: chas_def)

lemma chas_cadd [comp_simps, simp]: "chas j (cadd k v c) \<longleftrightarrow> j = k \<or> chas j c"
  by (simp add: chas_def)

lemma chas_csubs_update [simp]: "chas k (c\<lparr>csubs := s\<rparr>) = chas k c"
  by (simp add: chas_def)

subsection \<open>Alarms\<close>

definition avals :: "valarm \<Rightarrow> pkey \<Rightarrow> pval list" where
  "avals a = bag_vals (aprops a)"

definition apop :: "pkey \<Rightarrow> valarm \<Rightarrow> valarm" where
  "apop k a = a\<lparr>aprops := bag_pop k (aprops a)\<rparr>"

definition aadd :: "pkey \<Rightarrow> pval \<Rightarrow> valarm \<Rightarrow> valarm" where
  "aadd k v a = a\<lparr>aprops := bag_add k v (aprops a)\<rparr>"

interpretation alarm: component avals apop aadd
  by unfold_locales (simp_all add: avals_def apop_def aadd_def bag_simps)

lemma avals_write [comp_simps, simp]:
  "avals (apop k a) j = (if j = k then [] else avals a j)"
  "avals (aadd k v a) j = (if j = k then avals a j @ [v] else avals a j)"
  by (simp_all add: alarm.vals_popp alarm.vals_addp)

lemma aadd_frame [comp_simps, simp]: "aname (aadd k v a) = aname a"
  by (simp add: aadd_def)

text \<open>New components: \<open>IEvent()\<close>, \<open>ITodo()\<close>, \<open>IJournal()\<close>, \<open>IAlarm()\<close>, \<open>ICalendar()\<close>.\<close>

definition new_comp :: "string \<Rightarrow> vcomp" where
  "new_comp n = \<lparr>cname = n, cprops = [], csubs = []\<rparr>"

definition new_alarm :: valarm where
  "new_alarm = \<lparr>aname = ''VALARM'', aprops = []\<rparr>"

lemma new_comp_simps [simp]:
  "cname (new_comp n) = n" "cvals (new_comp n) k = []" "csubs (new_comp n) = []"
  "\<not> chas k (new_comp n)"
  by (simp_all add: new_comp_def cvals_def chas_def bag_simps)

lemma new_alarm_simps [simp]: "aname new_alarm = ''VALARM''" "avals new_alarm k = []"
  by (simp_all add: new_alarm_def avals_def bag_simps)

section \<open>Reading properties\<close>

text \<open>\<open>decoded(k)\<close> where the code expects a date or datetime. A name that holds several values
  decodes to a list, on which the code's date arithmetic raises.\<close>

definition decoded :: "pkey \<Rightarrow> vcomp \<Rightarrow> tm res" where
  "decoded k c =
     (case cvals c k of [] \<Rightarrow> Inl KeyError | [VTm t] \<Rightarrow> Inr t | [VBroken] \<Rightarrow> Inl ValueError
        | _ \<Rightarrow> Inl TypeError)"

lemma decoded_add_pop [comp_simps, simp]: "decoded k (cadd k (VTm t) (cpop k c)) = Inr t"
  by (simp add: decoded_def)

lemma decoded_other [comp_simps]:
  "j \<noteq> k \<Longrightarrow> decoded j (cadd k v c) = decoded j c" "j \<noteq> k \<Longrightarrow> decoded j (cpop k c) = decoded j c"
  by (simp_all add: decoded_def)

lemma decoded_Inr: "decoded k c = Inr t \<longleftrightarrow> cvals c k = [VTm t]"
  by (auto simp: decoded_def split: list.splits pval.splits)

lemma decoded_chas: "decoded k c = Inr t \<Longrightarrow> chas k c"
  by (simp add: decoded_Inr chas_def)

lemma decoded_csubs_update [simp]: "decoded k (c\<lparr>csubs := s\<rparr>) = decoded k c"
  by (simp add: decoded_def)

text \<open>A text property, as \<open>str(comp.get(k))\<close> prints it (\<open>None\<close> where it is absent or empty, which the
  code tests for); text properties occur at most once.\<close>

definition text_of :: "pkey \<Rightarrow> vcomp \<Rightarrow> string option" where
  "text_of k c =
     (case cvals c k of
        [VText s] \<Rightarrow> (if s = [] then None else Some s)
      | [VInt n] \<Rightarrow> (if n = 0 then None else Some (str_int n))
      | _ \<Rightarrow> None)"

text \<open>\<open>int(comp.get(k))\<close> for a present property.\<close>

definition int_of :: "pval list \<Rightarrow> int res" where
  "int_of vs = (case vs of [VInt n] \<Rightarrow> Inr n | [VText s] \<Rightarrow> py_int s | _ \<Rightarrow> Inl TypeError)"

section \<open>Components of a calendar object\<close>

text \<open>\<open>ical.walk(name)\<close> for the item names: RFC 5545 nests them directly in the VCALENDAR.\<close>

definition walk :: "string \<Rightarrow> vcal \<Rightarrow> vcomp list" where
  "walk name cal = filter (\<lambda>c. cname c = name) (vsubs cal)"

definition is_override :: "string \<Rightarrow> vcomp \<Rightarrow> bool" where
  "is_override name c \<longleftrightarrow> cname c = name \<and> chas RECURRENCE_ID c"

definition is_plain :: "string \<Rightarrow> vcomp \<Rightarrow> bool" where
  "is_plain name c \<longleftrightarrow> cname c = name \<and> \<not> chas RECURRENCE_ID c"

text \<open>\<open>_master_vevent\<close>.\<close>

definition master_vevent :: "string \<Rightarrow> vcal \<Rightarrow> vcomp option" where
  "master_vevent name cal =
     (let comps = walk name cal in
      case find (\<lambda>v. \<not> chas RECURRENCE_ID v) comps of
        Some v \<Rightarrow> Some v
      | None \<Rightarrow> (case comps of [] \<Rightarrow> None | c # _ \<Rightarrow> Some c))"

text \<open>The master is mutated in place: the component \<open>_master_vevent\<close> returns is replaced where it
  stands in the calendar object.\<close>

definition master_sel :: "string \<Rightarrow> vcal \<Rightarrow> vcomp \<Rightarrow> bool" where
  "master_sel name cal =
     (if list_ex (is_plain name) (vsubs cal) then is_plain name else (\<lambda>c. cname c = name))"

definition set_master :: "string \<Rightarrow> vcomp \<Rightarrow> vcal \<Rightarrow> vcal" where
  "set_master name m cal =
     cal\<lparr>vsubs := update_first (master_sel name cal) (\<lambda>_. m) (vsubs cal)\<rparr>"

definition with_master :: "string \<Rightarrow> (vcomp \<Rightarrow> vcomp res) \<Rightarrow> vcal \<Rightarrow> vcal res" where
  "with_master name f cal =
     (case master_vevent name cal of
        None \<Rightarrow> Inr cal
      | Some m \<Rightarrow> bindr (f m) (\<lambda>m'. Inr (set_master name m' cal)))"

text \<open>\<open>_overrides\<close>, and a loop over them that mutates each one in place.\<close>

definition overrides :: "string \<Rightarrow> vcal \<Rightarrow> vcomp list" where
  "overrides name cal = filter (is_override name) (vsubs cal)"

definition map_overrides :: "string \<Rightarrow> (vcomp \<Rightarrow> vcomp res) \<Rightarrow> vcal \<Rightarrow> vcal res" where
  "map_overrides name f cal =
     bindr (mapr (\<lambda>c. if is_override name c then f c else Inr c) (vsubs cal))
       (\<lambda>cs. Inr (cal\<lparr>vsubs := cs\<rparr>))"

subsection \<open>Facts\<close>

lemma find_walk: "find P (walk name cal) = find (\<lambda>c. cname c = name \<and> P c) (vsubs cal)"
proof -
  have "find P (filter Q xs) = find (\<lambda>c. Q c \<and> P c) xs" for Q and xs :: "vcomp list"
    by (induction xs) auto
  then show ?thesis by (simp add: walk_def)
qed

lemma master_vevent_find: "master_vevent name cal = find (master_sel name cal) (vsubs cal)"
proof (cases "list_ex (is_plain name) (vsubs cal)")
  case True
  then obtain v where "find (is_plain name) (vsubs cal) = Some v"
    using find_Some_iff_ex [of "is_plain name" "vsubs cal"] by (auto simp: list_ex_iff)
  with True show ?thesis
    by (simp add: master_vevent_def find_walk master_sel_def is_plain_def [abs_def])
next
  case False
  then have "find (is_plain name) (vsubs cal) = None"
    by (simp add: list_ex_iff find_None_iff)
  moreover have "(case filter P xs of [] \<Rightarrow> None | c # _ \<Rightarrow> Some c) = find P xs"
    for P and xs :: "vcomp list"
    by (induction xs) auto
  then have "(case walk name cal of [] \<Rightarrow> None | c # _ \<Rightarrow> Some c) = find (\<lambda>c. cname c = name) (vsubs cal)"
    by (simp add: walk_def)
  ultimately show ?thesis using False
    by (simp add: master_vevent_def find_walk master_sel_def is_plain_def [abs_def])
qed


text \<open>A calendar object that has a series master: a component of the kind without RECURRENCE-ID.\<close>

definition has_master :: "string \<Rightarrow> vcal \<Rightarrow> bool" where
  "has_master name cal = list_ex (is_plain name) (vsubs cal)"

definition others :: "string \<Rightarrow> vcal \<Rightarrow> vcomp list" where
  "others name cal = filter (\<lambda>c. cname c \<noteq> name) (vsubs cal)"

lemma plain_not_override: "is_plain name c \<Longrightarrow> \<not> is_override name c"
  by (simp add: is_plain_def is_override_def)

lemma has_master_obtain:
  assumes "has_master name cal"
  obtains m where "master_vevent name cal = Some m" and "is_plain name m"
proof -
  from assms obtain m where "find (is_plain name) (vsubs cal) = Some m"
    using find_Some_iff_ex [of "is_plain name" "vsubs cal"] by (auto simp: has_master_def list_ex_iff)
  with assms that find_SomeD show thesis
    by (fastforce simp: master_vevent_find master_sel_def has_master_def)
qed

lemma master_plain: "has_master name cal \<Longrightarrow> master_vevent name cal = Some m \<Longrightarrow> is_plain name m"
  by (metis has_master_obtain option.inject)

lemma set_master_series:
  assumes "has_master name cal" and "is_plain name m"
  shows "has_master name (set_master name m cal)"
    and "master_vevent name (set_master name m cal) = Some m"
    and "overrides name (set_master name m cal) = overrides name cal"
    and "others name (set_master name m cal) = others name cal"
proof -
  have sel: "master_sel name cal = is_plain name"
    using assms(1) by (simp add: master_sel_def has_master_def)
  obtain x where x: "find (is_plain name) (vsubs cal) = Some x"
    using assms(1) has_master_obtain sel by (metis master_vevent_find)
  have upd: "find (is_plain name) (vsubs (set_master name m cal)) = Some m"
    using find_update_first [OF x, of "\<lambda>_. m"] assms(2) by (simp add: set_master_def sel)
  then show 1: "has_master name (set_master name m cal)"
    using find_SomeD [OF upd] by (auto simp: has_master_def list_ex_iff)
  show "master_vevent name (set_master name m cal) = Some m"
    using upd 1 by (simp add: master_vevent_find master_sel_def has_master_def)
  show "overrides name (set_master name m cal) = overrides name cal"
    using assms(2) plain_not_override
    by (auto simp: overrides_def set_master_def sel intro!: filter_update_first_neg)
  show "others name (set_master name m cal) = others name cal"
    using assms(2) by (auto simp: others_def set_master_def sel is_plain_def intro!: filter_update_first_neg)
qed

lemma with_master_eq:
  "master_vevent name cal = Some m \<Longrightarrow>
   with_master name f cal = bindr (f m) (\<lambda>m'. Inr (set_master name m' cal))"
  by (simp add: with_master_def)

text \<open>A loop over the overrides touches nothing else.\<close>

lemma mapr_filter:
  assumes keep: "\<And>c c'. P c \<Longrightarrow> f c = Inr c' \<Longrightarrow> P c'"
    and run: "mapr (\<lambda>c. if P c then f c else Inr c) xs = Inr ys"
  shows "mapr f (filter P xs) = Inr (filter P ys)"
    and "filter (\<lambda>c. \<not> P c) ys = filter (\<lambda>c. \<not> P c) xs"
    and "(\<And>c. P c \<Longrightarrow> \<not> Q c) \<Longrightarrow> find Q ys = find Q xs"
  using run
  by (induction xs arbitrary: ys) (auto simp: bindr_eq_Inr split: if_splits dest: keep)

lemma map_overrides_series:
  assumes run: "map_overrides name f cal = Inr cal'"
    and keep: "\<And>c c'. is_override name c \<Longrightarrow> f c = Inr c' \<Longrightarrow> is_override name c'"
  shows "mapr f (overrides name cal) = Inr (overrides name cal')"
    and "has_master name cal' = has_master name cal"
    and "has_master name cal \<Longrightarrow> master_vevent name cal' = master_vevent name cal"
    and "others name cal' = others name cal"
proof -
  from run obtain ys where ys: "mapr (\<lambda>c. if is_override name c then f c else Inr c) (vsubs cal) = Inr ys"
    and cal': "cal' = cal\<lparr>vsubs := ys\<rparr>"
    by (auto simp: map_overrides_def bindr_eq_Inr)
  show "mapr f (overrides name cal) = Inr (overrides name cal')"
    using mapr_filter(1) [OF _ ys] keep by (simp add: overrides_def cal')
  have fp: "find (is_plain name) ys = find (is_plain name) (vsubs cal)"
    using mapr_filter(3) [OF _ ys, of "is_plain name"] keep plain_not_override by blast
  have ex: "list_ex P zs \<longleftrightarrow> find P zs \<noteq> None" for P and zs :: "vcomp list"
    by (induction zs) auto
  show hm: "has_master name cal' = has_master name cal"
    by (simp add: has_master_def ex fp cal')
  show "master_vevent name cal' = master_vevent name cal" if "has_master name cal"
    using hm that fp by (simp add: master_vevent_find master_sel_def has_master_def cal')
  have "filter (\<lambda>c. cname c \<noteq> name) (filter (\<lambda>c. \<not> is_override name c) zs) = filter (\<lambda>c. cname c \<noteq> name) zs"
    for zs by (induction zs) (auto simp: is_override_def)
  then show "others name cal' = others name cal"
    using mapr_filter(2) [OF _ ys] keep by (metis (no_types, lifting) others_def cal' vcal.select_convs(2) vcal.update_convs(2) vcal.surjective)
qed

lemma map_overrides_total:
  assumes "\<And>c. c \<in> set (overrides name cal) \<Longrightarrow> \<exists>c'. f c = Inr c'"
  shows "\<exists>cal'. map_overrides name f cal = Inr cal'"
proof -
  let ?f = "\<lambda>c. if is_override name c then f c else Inr c"
  have "\<exists>c'. ?f c = Inr c'" if "c \<in> set (vsubs cal)" for c
    using assms that by (auto simp: overrides_def)
  then obtain g where "\<And>c. c \<in> set (vsubs cal) \<Longrightarrow> ?f c = Inr (g c)" by metis
  then have "mapr ?f (vsubs cal) = Inr (map g (vsubs cal))" by (rule mapr_total)
  then show ?thesis by (simp add: map_overrides_def)
qed

text \<open>The overrides of a kind, detached or dropped (\<open>_pop_overrides\<close> builds on this).\<close>

lemma drop_overrides_series:
  assumes "cal' = cal\<lparr>vsubs := filter (\<lambda>c. is_override name c \<longrightarrow> Q c) (vsubs cal)\<rparr>"
  shows "overrides name cal' = filter Q (overrides name cal)"
    and "has_master name cal' = has_master name cal"
    and "has_master name cal \<Longrightarrow> master_vevent name cal' = master_vevent name cal"
    and "others name cal' = others name cal"
proof -
  show "overrides name cal' = filter Q (overrides name cal)"
    by (simp add: overrides_def assms conj_commute) (rule filter_cong, auto)
  have ex: "list_ex P zs \<longleftrightarrow> find P zs \<noteq> None" for P and zs :: "vcomp list"
    by (induction zs) auto
  have fp: "find (is_plain name) (vsubs cal') = find (is_plain name) (vsubs cal)"
    using plain_not_override by (auto simp: assms intro!: find_filter_keep)
  then show hm: "has_master name cal' = has_master name cal"
    by (simp add: has_master_def ex)
  show "master_vevent name cal' = master_vevent name cal" if "has_master name cal"
    using hm that fp by (simp add: master_vevent_find master_sel_def has_master_def)
  show "others name cal' = others name cal"
    by (simp add: others_def assms) (rule filter_cong, auto simp: is_override_def)
qed

end
