(* ===== verification/Rrule.thy ===== *)
theory Rrule
  imports Ical
begin

text \<open>
  The recurrence mathematics of \<open>caldav_client.py\<close>: reading a rule for display and for the
  editor, building a rule from the editor's model, and the operations that scoped edits use
  (locating the pivot occurrence, counting and truncating at it, moving UNTIL and EXDATE).
  dateutil's \<open>rrulestr\<close> and its occurrence queries are a parameter (\<open>rrule_eng\<close>), as are the
  clock, fresh identifiers and the time zone database (\<open>env\<close>).
\<close>

section \<open>Environment\<close>

text \<open>\<open>rr_str parts base\<close> is \<open>rrulestr(text, dtstart=base)\<close>, and the others are the methods
  \<open>between\<close>, \<open>before\<close> and iteration of what it returns.\<close>

record 'r rrule_eng =
  rr_str :: "rparts \<Rightarrow> tm \<Rightarrow> 'r res"
  rr_between :: "'r \<Rightarrow> tm \<Rightarrow> tm \<Rightarrow> bool \<Rightarrow> tm list res"
  rr_before :: "'r \<Rightarrow> tm \<Rightarrow> bool \<Rightarrow> tm option res"
  rr_list :: "'r \<Rightarrow> tm list"

record 'r env =
  e_now :: tm              \<comment> \<open>\<open>datetime.now(UTC)\<close>\<close>
  e_uuid :: string         \<comment> \<open>\<open>uuid.uuid4()\<close>\<close>
  e_tz :: tzdb
  e_rr :: "'r rrule_eng"

text \<open>\<open>_Kind\<close> and its three instances.\<close>

record kind =
  k_name :: string
  k_end_key :: pkey
  k_search :: string

definition EVENT :: kind where
  "EVENT = \<lparr>k_name = ''VEVENT'', k_end_key = DTEND, k_search = ''event''\<rparr>"

definition TODO :: kind where
  "TODO = \<lparr>k_name = ''VTODO'', k_end_key = DUE, k_search = ''todo''\<rparr>"

definition JOURNAL :: kind where
  "JOURNAL = \<lparr>k_name = ''VJOURNAL'', k_end_key = NoKey, k_search = ''journal''\<rparr>"

lemma kind_simps [simp]:
  "k_name EVENT = ''VEVENT''" "k_name TODO = ''VTODO''" "k_name JOURNAL = ''VJOURNAL''"
  "k_end_key EVENT = DTEND" "k_end_key TODO = DUE" "k_end_key JOURNAL = NoKey"
  "EVENT \<noteq> TODO" "TODO \<noteq> EVENT" "JOURNAL \<noteq> TODO"
  by (simp_all add: EVENT_def TODO_def JOURNAL_def)

section \<open>The rule of a component\<close>

text \<open>\<open>bool(comp.get("rrule"))\<close> and \<open>comp.get("rrule").items()\<close>.\<close>

definition has_rrule :: "vcomp \<Rightarrow> bool" where
  "has_rrule c = (case cvals c RRULE of [] \<Rightarrow> False | [VRecur p] \<Rightarrow> p \<noteq> [] | _ \<Rightarrow> True)"

definition rrule_items :: "pval list \<Rightarrow> rparts res" where
  "rrule_items vs = (case vs of [VRecur p] \<Rightarrow> Inr p | _ \<Rightarrow> Inl AttributeError)"

text \<open>\<open>_rrule_parts\<close> and \<open>_set_rrule\<close>.\<close>

definition rrule_parts :: "vcomp \<Rightarrow> rparts res" where
  "rrule_parts c = rrule_items (cvals c RRULE)"

definition set_rrule :: "rparts \<Rightarrow> vcomp \<Rightarrow> vcomp" where
  "set_rrule parts c = cadd RRULE (VRecur parts) (cpop RRULE c)"

text \<open>\<open>rrulestr(_rrule_text(comp), dtstart=base)\<close>: without a rule the text is \<open>None\<close>.\<close>

definition rrule_of :: "'r env \<Rightarrow> vcomp \<Rightarrow> tm \<Rightarrow> 'r res" where
  "rrule_of env c base =
     (if has_rrule c then bindr (rrule_parts c) (\<lambda>p. rr_str (e_rr env) p base) else Inl TypeError)"

lemma rrule_parts_set_rrule [simp]: "rrule_parts (set_rrule p c) = Inr p"
  by (simp add: rrule_parts_def set_rrule_def rrule_items_def)

lemma has_rrule_set_rrule [simp]: "has_rrule (set_rrule p c) \<longleftrightarrow> p \<noteq> []"
  by (simp add: has_rrule_def set_rrule_def)

lemma set_rrule_frame [simp]:
  "cname (set_rrule p c) = cname c" "csubs (set_rrule p c) = csubs c"
  "k \<noteq> RRULE \<Longrightarrow> cvals (set_rrule p c) k = cvals c k"
  "k \<noteq> RRULE \<Longrightarrow> chas k (set_rrule p c) = chas k c"
  "k \<noteq> RRULE \<Longrightarrow> decoded k (set_rrule p c) = decoded k c"
  by (simp_all add: set_rrule_def decoded_other)

section \<open>Values of a rule\<close>

definition part :: "rkey \<Rightarrow> rparts \<Rightarrow> rval list option" where
  "part k p = map_of p k"

definition set_part :: "rkey \<Rightarrow> rval list \<Rightarrow> rparts \<Rightarrow> rparts" where
  "set_part k v p = AList.update k v p"

definition del_part :: "rkey \<Rightarrow> rparts \<Rightarrow> rparts" where
  "del_part k p = AList.delete k p"

lemma part_set [simp]: "part j (set_part k v p) = (if j = k then Some v else part j p)"
  by (simp add: part_def set_part_def update_conv')

lemma part_del [simp]: "part j (del_part k p) = (if j = k then None else part j p)"
  by (simp add: part_def del_part_def delete_conv')

lemma set_part_nonempty [simp]: "set_part k v p \<noteq> []"
  by (cases p) (auto simp: set_part_def)

text \<open>\<open>(parts.get(k) or [d])[0]\<close>: the first value, or the default where there is none.\<close>

definition first_or :: "rkey \<Rightarrow> rval \<Rightarrow> rparts \<Rightarrow> rval" where
  "first_or k d p = (case part k p of Some (v # _) \<Rightarrow> v | _ \<Rightarrow> d)"

definition truthy_part :: "rkey \<Rightarrow> rparts \<Rightarrow> rval list option" where
  "truthy_part k p = (case part k p of Some (v # vs) \<Rightarrow> Some (v # vs) | _ \<Rightarrow> None)"

text \<open>\<open>str(v)\<close>, \<open>int(v)\<close> and \<open>v + timedelta\<close> for a value of a rule.\<close>

fun rval_str :: "tzdb \<Rightarrow> rval \<Rightarrow> string" where
  "rval_str db (RInt n) = str_int n"
| "rval_str db (RStr s) = s"
| "rval_str db (RTm t) = py_str_tm db t"

fun rval_int :: "rval \<Rightarrow> int res" where
  "rval_int (RInt n) = Inr n"
| "rval_int (RStr s) = py_int s"
| "rval_int (RTm t) = Inl TypeError"

fun rval_add :: "delta \<Rightarrow> rval \<Rightarrow> rval res" where
  "rval_add d (RTm t) = bindr (tm_add t d) (\<lambda>t'. Inr (RTm t'))"
| "rval_add d (RInt n) = Inl TypeError"
| "rval_add d (RStr s) = Inl TypeError"

section \<open>Rules for people\<close>

definition freq_words :: "(string \<times> string) list" where
  "freq_words = [(''SECONDLY'', ''second''), (''MINUTELY'', ''minute''), (''HOURLY'', ''hour''),
     (''DAILY'', ''day''), (''WEEKLY'', ''week''), (''MONTHLY'', ''month''), (''YEARLY'', ''year'')]"

definition day_words :: "(string \<times> string) list" where
  "day_words = [(''MO'', ''Mon''), (''TU'', ''Tue''), (''WE'', ''Wed''), (''TH'', ''Thu''),
     (''FR'', ''Fri''), (''SA'', ''Sat''), (''SU'', ''Sun'')]"

definition dict_get :: "(string \<times> string) list \<Rightarrow> string \<Rightarrow> string \<Rightarrow> string" where
  "dict_get d k v = (case map_of d k of Some w \<Rightarrow> w | None \<Rightarrow> v)"

definition last2 :: "string \<Rightarrow> string" where   \<comment> \<open>\<open>s[-2:]\<close>\<close>
  "last2 s = drop (length s - 2) s"

definition but_last2 :: "string \<Rightarrow> string" where   \<comment> \<open>\<open>s[:-2]\<close>\<close>
  "but_last2 s = take (length s - 2) s"

text \<open>\<open>_rrule_to_text\<close>: the short summary of a rule.\<close>

definition rrule_to_text :: "tzdb \<Rightarrow> pval list \<Rightarrow> string" where
  "rrule_to_text db vs =
     (case rrule_items vs of
        Inl _ \<Rightarrow> ''Repeats''
      | Inr parts \<Rightarrow>
          let freq = upper (rval_str db (first_or FREQ (RStr ''?'') parts));
              word = dict_get freq_words freq ''time'';
              interval = ok_or 1 (py_int (rval_str db (first_or INTERVAL (RStr ''1'') parts)));
              base = (if interval = 1
                      then dict_get [(''day'', ''Daily''), (''week'', ''Weekly''), (''month'', ''Monthly''),
                                     (''year'', ''Yearly'')] word (''Every '' @ word)
                      else ''Every '' @ str_int interval @ '' '' @ word @ ''s'');
              days = (case truthy_part BYDAY parts of
                        None \<Rightarrow> []
                      | Some ds \<Rightarrow> '' on '' @ join '', ''
                          (map (\<lambda>d. dict_get day_words (upper (last2 (rval_str db d))) (rval_str db d)) ds));
              bound = (case truthy_part COUNT parts of
                         Some (n # _) \<Rightarrow> '', '' @ rval_str db n @ '' times''
                       | _ \<Rightarrow> (case truthy_part UNTIL parts of
                                 Some (u # _) \<Rightarrow> '', until '' @ rval_str db u
                               | _ \<Rightarrow> []))
          in base @ days @ bound)"

text \<open>The editor's structured model of a rule, and \<open>_rrule_to_struct\<close>. The ordinal key can be
  absent, present as \<open>None\<close>, or a number.\<close>

record rstruct =
  s_freq :: string
  s_interval :: int
  s_monthly_mode :: "string option"
  s_ordinal :: "int option option"
  s_count :: "int option"
  s_until :: "string option"

definition rrule_to_struct :: "tzdb \<Rightarrow> pval list \<Rightarrow> rstruct res" where
  "rrule_to_struct db vs =
     bindr (rrule_items vs) (\<lambda>parts.
       let freq = lower (rval_str db (first_or FREQ (RStr ''DAILY'') parts));
           interval = ok_or 1 (rval_int (first_or INTERVAL (RStr ''1'') parts));
           weekday = (freq = ''monthly'' \<and> truthy_part BYDAY parts \<noteq> None)
       in Inr \<lparr>s_freq = freq, s_interval = interval,
               s_monthly_mode = (if freq \<noteq> ''monthly'' then None
                                 else if weekday then Some ''weekday'' else Some ''monthday''),
               s_ordinal = (if weekday
                            then Some (case py_int (but_last2 (rval_str db (first_or BYDAY (RStr []) parts))) of
                                         Inl _ \<Rightarrow> None | Inr n \<Rightarrow> Some n)
                            else None),
               s_count = (case truthy_part COUNT parts of
                            Some (n # _) \<Rightarrow> (case rval_int n of Inl _ \<Rightarrow> None | Inr k \<Rightarrow> Some k)
                          | _ \<Rightarrow> None),
               s_until = (case truthy_part COUNT parts of
                            Some _ \<Rightarrow> None
                          | None \<Rightarrow> (case truthy_part UNTIL parts of
                                       Some (RTm t # _) \<Rightarrow> Some (isoformat db t)
                                     | Some (u # _) \<Rightarrow> Some (rval_str db u)
                                     | _ \<Rightarrow> None))\<rparr>)"


section \<open>Building a rule\<close>

text \<open>The editor's request (\<open>RecurrenceRule.model_dump()\<close>).\<close>

record rule_in =
  i_freq :: string
  i_interval :: int
  i_monthly_mode :: "string option"
  i_ordinal :: "int option"
  i_until :: "string option"
  i_count :: "int option"

definition freq_map :: "(string \<times> string) list" where
  "freq_map = [(''yearly'', ''YEARLY''), (''monthly'', ''MONTHLY''), (''weekly'', ''WEEKLY''),
     (''daily'', ''DAILY''), (''hourly'', ''HOURLY'')]"

definition weekdays :: "string list" where
  "weekdays = [''MO'', ''TU'', ''WE'', ''TH'', ''FR'', ''SA'', ''SU'']"

definition day_of_month :: "tm \<Rightarrow> int" where
  "day_of_month d = day_of (ordinal (as_dt d))"

text \<open>The BYDAY or BYMONTHDAY part of a monthly rule.\<close>

definition monthly_part :: "rule_in \<Rightarrow> tm \<Rightarrow> rkey \<times> rval" where
  "monthly_part rule dtstart =
     (if i_monthly_mode rule = Some ''weekday'' then
        let nth = (case i_ordinal rule of Some k \<Rightarrow> k | None \<Rightarrow> (day_of_month dtstart - 1) div 7 + 1)
        in (BYDAY, RStr (str_int nth @ weekdays ! nat (weekday (ordinal (as_dt dtstart)))))
      else let day = day_of_month dtstart in (BYMONTHDAY, RInt (if day \<ge> 29 then -1 else day)))"

text \<open>The UNTIL bound: a date for all-day series, otherwise a UTC datetime.\<close>

definition until_value :: "tzdb \<Rightarrow> string \<Rightarrow> tm \<Rightarrow> tm res" where
  "until_value db u dtstart =
     (if is_all_day dtstart then date_fromisoformat (take 10 u)
      else bindr (datetime_fromisoformat u) (\<lambda>t.
             astimezone db (if tzinfo t = None then replace_tz t Utc else t) Utc))"

text \<open>\<open>_build_rrule\<close>.\<close>

definition build_rrule :: "tzdb \<Rightarrow> rule_in \<Rightarrow> tm \<Rightarrow> rparts res" where
  "build_rrule db rule dtstart =
     (case map_of freq_map (lower (i_freq rule)) of
        None \<Rightarrow> Inl ValueError
      | Some freq \<Rightarrow>
          let interval = (if i_interval rule = 0 then 1 else i_interval rule);
              p0 = [(FREQ, [RStr freq])];
              p1 = (if interval > 1 then set_part INTERVAL [RInt interval] p0 else p0);
              p2 = (if freq = ''MONTHLY''
                    then (case monthly_part rule dtstart of (k, v) \<Rightarrow> set_part k [v] p1) else p1)
          in if i_count rule \<noteq> None \<and> i_count rule \<noteq> Some 0
             then Inr (set_part COUNT [RInt (the (i_count rule))] p2)
             else (case i_until rule of
                     Some (c # cs) \<Rightarrow>
                       bindr (until_value db (c # cs) dtstart) (\<lambda>u. Inr (set_part UNTIL [RTm u] p2))
                   | _ \<Rightarrow> Inr p2))"

text \<open>\<open>preview_recurrence\<close>: the last occurrence and the number of occurrences.\<close>

definition preview_recurrence :: "'r env \<Rightarrow> tm \<Rightarrow> rule_in \<Rightarrow> (string option \<times> int option) res" where
  "preview_recurrence env start rule =
     bindr (build_rrule (e_tz env) rule start) (\<lambda>parts.
     bindr (rr_str (e_rr env) parts (as_dt start)) (\<lambda>robj.
       if part COUNT parts = None \<and> part UNTIL parts = None then Inr (None, None)
       else let occs = rr_list (e_rr env) robj in
         if occs = [] then Inr (None, Some 0)
         else Inr (Some (isoformat (e_tz env)
                     (if is_all_day start then Day (ordinal (last occs)) else last occs)),
                   Some (int (length occs)))))"

section \<open>The pivot occurrence\<close>

text \<open>\<open>_occurrence_dt\<close>: the requested identifier as a value of the series' type and zone.\<close>

definition occurrence_dt :: "tzdb \<Rightarrow> string \<Rightarrow> tm \<Rightarrow> tm res" where
  "occurrence_dt db rid dtstart =
     (if is_datetime dtstart then
        bindr (datetime_fromisoformat rid) (\<lambda>dt.
          if tzinfo dt = None
          then Inr (replace_tz dt (case tzinfo dtstart of Some z \<Rightarrow> z | None \<Rightarrow> Utc))
          else (case tzinfo dtstart of Some z \<Rightarrow> astimezone db dt z | None \<Rightarrow> Inr dt))
      else date_fromisoformat (take 10 rid))"

text \<open>An override's current anchor, if it can be read.\<close>

definition override_anchor :: "kind \<Rightarrow> vcomp \<Rightarrow> tm option" where
  "override_anchor kind ov =
     (if chas DTSTART ov then (case decoded DTSTART ov of Inr t \<Rightarrow> Some t | Inl _ \<Rightarrow> None)
      else if k_end_key kind \<noteq> NoKey \<and> chas (k_end_key kind) ov
           then (case decoded (k_end_key kind) ov of Inr t \<Rightarrow> Some t | Inl _ \<Rightarrow> None)
      else None)"

text \<open>The second loop of \<open>_resolve_pivot\<close>: the RECURRENCE-ID of the first override that now stands
  at the candidate.\<close>

fun moved_to :: "tzdb \<Rightarrow> kind \<Rightarrow> tm \<Rightarrow> vcomp list \<Rightarrow> tm option" where
  "moved_to db kind cand [] = None"
| "moved_to db kind cand (ov # ovs) =
     (case (override_anchor kind ov, decoded RECURRENCE_ID ov) of
        (Some a, Inr rid) \<Rightarrow> if tm_eq db a cand then Some rid else moved_to db kind cand ovs
      | _ \<Rightarrow> moved_to db kind cand ovs)"

definition has_rid :: "tzdb \<Rightarrow> tm \<Rightarrow> vcomp \<Rightarrow> bool" where
  "has_rid db t ov = (case decoded RECURRENCE_ID ov of Inr r \<Rightarrow> tm_eq db r t | Inl _ \<Rightarrow> False)"

definition base_key :: "kind \<Rightarrow> vcomp \<Rightarrow> pkey" where
  "base_key kind master = (if chas DTSTART master then DTSTART else k_end_key kind)"

definition resolve_pivot :: "tzdb \<Rightarrow> vcal \<Rightarrow> string \<Rightarrow> vcomp \<Rightarrow> kind \<Rightarrow> tm res" where
  "resolve_pivot db ical rid master kind =
     bindr (decoded (base_key kind master) master) (\<lambda>base.
     bindr (occurrence_dt db rid base) (\<lambda>candidate.
       let ovs = overrides (k_name kind) ical in
       if list_ex (has_rid db candidate) ovs then Inr candidate
       else (case moved_to db kind candidate ovs of Some r \<Rightarrow> Inr r | None \<Rightarrow> Inr candidate)))"

section \<open>Counting, truncating and shifting\<close>

text \<open>\<open>_series_anchor\<close>.\<close>

definition series_anchor :: "vcomp \<Rightarrow> tm res" where
  "series_anchor c = (if chas DTSTART c then decoded DTSTART c else decoded DUE c)"

text \<open>\<open>_count_through\<close>.\<close>

definition count_through :: "'r env \<Rightarrow> vcomp \<Rightarrow> tm \<Rightarrow> bool \<Rightarrow> int res" where
  "count_through env c pivot inc =
     bindr (series_anchor c) (\<lambda>anchor.
     bindr (rrule_of env c (as_dt anchor)) (\<lambda>r.
     bindr (rr_between (e_rr env) r (as_dt anchor) (as_dt pivot) inc) (\<lambda>occs.
       Inr (int (length occs)))))"

text \<open>The UNTIL that \<open>_truncate_until\<close> computes.\<close>

definition truncation_bound :: "tzdb \<Rightarrow> tm option \<Rightarrow> tm \<Rightarrow> tm \<Rightarrow> tm res" where
  "truncation_bound db occ anchor pivot =
     (case occ of
        None \<Rightarrow> (if is_datetime pivot
                 then bindr (astimezone db pivot Utc) (\<lambda>u. tm_add u (- SEC))
                 else tm_add pivot (- DAY))
      | Some l \<Rightarrow> (if is_all_day anchor then Inr (Day (ordinal l)) else astimezone db l Utc))"

definition truncate_until :: "'r env \<Rightarrow> tm \<Rightarrow> vcomp \<Rightarrow> vcomp res" where
  "truncate_until env pivot c =
     bindr (rrule_parts c) (\<lambda>parts.
     bindr (series_anchor c) (\<lambda>anchor.
     bindr (rrule_of env c (as_dt anchor)) (\<lambda>r.
     bindr (rr_before (e_rr env) r (as_dt pivot) False) (\<lambda>occ.
     bindr (truncation_bound (e_tz env) occ anchor pivot) (\<lambda>u.
       Inr (set_rrule (set_part UNTIL [RTm u] (del_part COUNT parts)) c))))))"

text \<open>\<open>[b + delta for b in parts["UNTIL"]]\<close> within \<open>try ... except TypeError\<close>: \<open>None\<close> when it is
  caught.\<close>

definition moved_bounds :: "delta \<Rightarrow> rval list \<Rightarrow> rval list option res" where
  "moved_bounds d bs =
     (case mapr (rval_add d) bs of
        Inr bs' \<Rightarrow> Inr (Some bs') | Inl TypeError \<Rightarrow> Inr None | Inl e \<Rightarrow> Inl e)"

text \<open>\<open>_shift_until_in_parts\<close> and \<open>_shift_until\<close>.\<close>

definition shift_until_in_parts :: "delta \<Rightarrow> rparts \<Rightarrow> rparts res" where
  "shift_until_in_parts d parts =
     (case part UNTIL parts of
        None \<Rightarrow> Inr parts
      | Some bs \<Rightarrow>
          if d = 0 then Inr parts
          else bindr (moved_bounds d bs) (\<lambda>m.
                 case m of Some bs' \<Rightarrow> Inr (set_part UNTIL bs' parts) | None \<Rightarrow> Inr parts))"

definition shift_until :: "delta \<Rightarrow> vcomp \<Rightarrow> vcomp res" where
  "shift_until d c =
     (if d = 0 then Inr c
      else bindr (rrule_parts c) (\<lambda>parts.
        case part UNTIL parts of
          None \<Rightarrow> Inr c
        | Some bs \<Rightarrow> bindr (moved_bounds d bs) (\<lambda>m.
            case m of Some bs' \<Rightarrow> Inr (set_rrule (set_part UNTIL bs' parts) c) | None \<Rightarrow> Inr c)))"

text \<open>EXDATE: \<open>_add_exdate\<close>, \<open>_exdates\<close>, \<open>_set_exdates\<close> and \<open>_shift_exdate\<close>.\<close>

definition add_exdate :: "tm \<Rightarrow> vcomp \<Rightarrow> vcomp" where
  "add_exdate pivot c = cadd EXDATE (VTms [pivot]) c"

fun exdate_values :: "pval \<Rightarrow> tm list res" where
  "exdate_values (VTms ts) = Inr ts"
| "exdate_values _ = Inl AttributeError"

definition exdates :: "vcomp \<Rightarrow> tm list res" where
  "exdates c = bindr (mapr exdate_values (cvals c EXDATE)) (\<lambda>tss. Inr (concat tss))"

definition set_exdates :: "tm list \<Rightarrow> vcomp \<Rightarrow> vcomp" where
  "set_exdates ts c = fold (\<lambda>v. cadd EXDATE v) (map (\<lambda>t. VTms [t]) ts) (cpop EXDATE c)"

definition shift_exdate :: "delta \<Rightarrow> vcomp \<Rightarrow> vcomp res" where
  "shift_exdate d c =
     (if d = 0 then Inr c
      else bindr (exdates c) (\<lambda>ex.
        if ex = [] then Inr c
        else bindr (mapr (\<lambda>t. tm_add t d) ex) (\<lambda>ex'. Inr (set_exdates ex' c))))"

text \<open>\<open>_remaining_rule_parts\<close>.\<close>

definition remaining_rule_parts :: "'r env \<Rightarrow> vcomp \<Rightarrow> tm \<Rightarrow> rparts res" where
  "remaining_rule_parts env c pivot =
     bindr (rrule_parts c) (\<lambda>parts.
       case part COUNT parts of
         None \<Rightarrow> Inr parts
       | Some cs \<Rightarrow>
           bindr (count_through env c pivot True) (\<lambda>n.
             case cs of
               [] \<Rightarrow> Inr parts
             | v # _ \<Rightarrow>
                 (case rval_int v of
                    Inr k \<Rightarrow> Inr (set_part COUNT [RInt (max 1 (k - (n - 1)))] parts)
                  | Inl ValueError \<Rightarrow> Inr parts
                  | Inl e \<Rightarrow> Inl e)))"


section \<open>What is relied on of dateutil\<close>

text \<open>\<open>occ r\<close> is the set of occurrences of a rule object. \<open>before(t, inc)\<close> returns the last of those
  before \<open>t\<close> (at \<open>t\<close> too, with \<open>inc\<close>), or \<open>None\<close> where there is none, and \<open>between(a, b, inc)\<close> lists
  each of those between \<open>a\<close> and \<open>b\<close> once.\<close>

definition up_to :: "tzdb \<Rightarrow> bool \<Rightarrow> tm \<Rightarrow> tm \<Rightarrow> bool" where
  "up_to db inc x t \<longleftrightarrow> (if inc then tm_leq db x t else tm_less db x t) = Inr True"

definition last_up_to :: "tzdb \<Rightarrow> bool \<Rightarrow> tm set \<Rightarrow> tm \<Rightarrow> tm \<Rightarrow> bool" where
  "last_up_to db inc xs t l \<longleftrightarrow>
     l \<in> xs \<and> up_to db inc l t \<and> (\<forall>x \<in> xs. up_to db inc x t \<longrightarrow> up_to db True x l)"

definition rules_ok :: "'r env \<Rightarrow> ('r \<Rightarrow> tm set) \<Rightarrow> bool" where
  "rules_ok env occ \<longleftrightarrow> (\<forall>parts b r. rr_str (e_rr env) parts b = Inr r \<longrightarrow>
     (\<forall>t inc l. rr_before (e_rr env) r t inc = Inr (Some l) \<longrightarrow> last_up_to (e_tz env) inc (occ r) t l)
     \<and> (\<forall>t inc. rr_before (e_rr env) r t inc = Inr None \<longrightarrow> (\<forall>x \<in> occ r. \<not> up_to (e_tz env) inc x t))
     \<and> (\<forall>a t inc xs. rr_between (e_rr env) r a t inc = Inr xs \<longrightarrow>
          distinct xs \<and> set xs = {x \<in> occ r. up_to (e_tz env) inc a x \<and> up_to (e_tz env) inc x t}))"

section \<open>Facts\<close>

subsection \<open>Frames\<close>

text \<open>What an operation on the rule or the exclusions leaves alone: the name, the subcomponents and
  every other property.\<close>

definition same_but :: "pkey set \<Rightarrow> vcomp \<Rightarrow> vcomp \<Rightarrow> bool" where
  "same_but ks c c' \<longleftrightarrow> cname c' = cname c \<and> csubs c' = csubs c \<and> (\<forall>k. k \<notin> ks \<longrightarrow> cvals c' k = cvals c k)"

lemma same_but_refl [simp]: "same_but ks c c"
  by (simp add: same_but_def)

lemma same_but_trans: "same_but ks a b \<Longrightarrow> same_but ls b c \<Longrightarrow> same_but (ks \<union> ls) a c"
  by (simp add: same_but_def)

lemma same_but_decoded: "same_but ks c c' \<Longrightarrow> k \<notin> ks \<Longrightarrow> decoded k c' = decoded k c"
  by (simp add: same_but_def decoded_def)

lemma same_but_chas: "same_but ks c c' \<Longrightarrow> k \<notin> ks \<Longrightarrow> chas k c' = chas k c"
  by (simp add: same_but_def chas_def)

lemma same_but_plain: "same_but ks c c' \<Longrightarrow> RECURRENCE_ID \<notin> ks \<Longrightarrow> is_plain name c' = is_plain name c"
  by (simp add: same_but_def is_plain_def chas_def)

lemma same_but_override:
  "same_but ks c c' \<Longrightarrow> RECURRENCE_ID \<notin> ks \<Longrightarrow> is_override name c' = is_override name c"
  by (simp add: same_but_def is_override_def chas_def)

lemma same_but_set_rrule: "same_but {RRULE} c (set_rrule p c)"
  by (simp add: same_but_def)

lemma same_but_add_exdate: "same_but {EXDATE} c (add_exdate t c)"
  by (simp add: same_but_def add_exdate_def)

lemma cvals_set_exdates: "cvals (set_exdates ts c) = (cvals c)(EXDATE := map (\<lambda>t. VTms [t]) ts)"
  by (simp add: set_exdates_def item.vals_fold_addp fun_eq_iff)

lemma fold_cadd_frame:
  "cname (fold (\<lambda>v. cadd k v) vs c) = cname c" "csubs (fold (\<lambda>v. cadd k v) vs c) = csubs c"
  by (induction vs arbitrary: c) simp_all

lemma same_but_set_exdates: "same_but {EXDATE} c (set_exdates ts c)"
  by (simp add: same_but_def cvals_set_exdates) (simp add: set_exdates_def fold_cadd_frame)

lemma same_but_shift_exdate: "shift_exdate d c = Inr c' \<Longrightarrow> same_but {EXDATE} c c'"
  by (auto simp: shift_exdate_def bindr_eq_Inr same_but_set_exdates split: if_splits)

lemma same_but_shift_until: "shift_until d c = Inr c' \<Longrightarrow> same_but {RRULE} c c'"
  by (auto simp: shift_until_def bindr_eq_Inr same_but_set_rrule split: if_splits option.splits)

lemma same_but_truncate: "truncate_until env pivot c = Inr c' \<Longrightarrow> same_but {RRULE} c c'"
  by (auto simp: truncate_until_def bindr_eq_Inr same_but_set_rrule)

subsection \<open>Exclusions\<close>

lemma exdates_set_exdates: "exdates (set_exdates ts c) = Inr ts"
proof -
  have "mapr exdate_values (map (\<lambda>t. VTms [t]) ts) = Inr (map (\<lambda>t. [t]) ts)"
    by (induction ts) simp_all
  moreover have "concat (map (\<lambda>t. [t]) ts) = ts" by (induction ts) simp_all
  ultimately show ?thesis by (simp add: exdates_def cvals_set_exdates)
qed

lemma exdates_add_exdate:
  "exdates c = Inr ts \<Longrightarrow> exdates (add_exdate t c) = Inr (ts @ [t])"
  by (auto simp: exdates_def add_exdate_def mapr_append bindr_eq_Inr)

lemma exdates_same_but: "same_but ks c c' \<Longrightarrow> EXDATE \<notin> ks \<Longrightarrow> exdates c' = exdates c"
  by (simp add: same_but_def exdates_def)

text \<open>Moving the exclusions by a non-zero delta moves each of them.\<close>

lemma exdates_shift_exdate:
  assumes "shift_exdate d c = Inr c'" and "exdates c = Inr ex" and "d \<noteq> 0"
  shows "\<exists>ex'. exdates c' = Inr ex' \<and> list_all2 (\<lambda>t t'. tm_add t d = Inr t') ex ex'"
  using assms
  by (cases ex) (auto simp: shift_exdate_def bindr_eq_Inr mapr_eq_Inr exdates_set_exdates simp del: mapr.simps)

subsection \<open>Rules\<close>

lemma part_truncate:
  assumes "truncate_until env pivot c = Inr c'"
  shows "\<exists>parts' u. rrule_parts c' = Inr parts' \<and> part COUNT parts' = None
         \<and> part UNTIL parts' = Some [RTm u]
         \<and> (\<forall>parts k. rrule_parts c = Inr parts \<longrightarrow> k \<noteq> COUNT \<longrightarrow> k \<noteq> UNTIL \<longrightarrow> part k parts' = part k parts)"
  using assms by (auto simp: truncate_until_def bindr_eq_Inr)

text \<open>The bound of a truncated series: the last occurrence before the pivot, as a date for an
  all-day series, as the same instant in UTC otherwise.\<close>

lemma truncation_bound_all_day:
  assumes "truncation_bound db (Some l) (Day a) (Day p) = Inr u"
    and "tm_less db l (as_dt (Day p)) = Inr True"
  shows "u = Day (ordinal l) \<and> ordinal u < p"
proof -
  have u: "u = Day (ordinal l)" using assms(1) by (simp add: truncation_bound_def)
  obtain w f where l: "l = Stamp w f None" and w: "w < p * DAY"
    using assms(2) by (cases l; cases "tzinfo l") (auto simp: tm_less_def)
  have "\<not> p \<le> w div DAY"
  proof
    assume "p \<le> w div DAY"
    then have "p * DAY \<le> w div DAY * DAY" by (simp add: mult_right_mono)
    also have "\<dots> \<le> w" using pos_mod_sign [OF DAY_pos(1), of w] div_mult_mod_eq [of w DAY] by linarith
    finally show False using w by simp
  qed
  with u l show ?thesis by simp
qed

lemma truncation_bound_timed:
  assumes "truncation_bound db (Some l) anchor pivot = Inr u" and "is_datetime anchor"
    and "tzdb_ok db" and "instant db l = Some i"
  shows "instant db u = Some i" and "tzinfo u = Some Utc"
  using assms astimezone_instant by (auto simp: truncation_bound_def is_all_day_def)

text \<open>A COUNT is split between the occurrences before the pivot and the rest.\<close>

lemma remaining_count:
  assumes "remaining_rule_parts env c pivot = Inr parts'" and "rrule_parts c = Inr parts"
    and "part COUNT parts = Some [RInt k]" and "count_through env c pivot True = Inr n"
  shows "part COUNT parts' = Some [RInt (max 1 (k - (n - 1)))]"
    and "j \<noteq> COUNT \<Longrightarrow> part j parts' = part j parts"
  using assms by (auto simp: remaining_rule_parts_def)

lemma remaining_no_count:
  assumes "rrule_parts c = Inr parts" and "part COUNT parts = None"
  shows "remaining_rule_parts env c pivot = Inr parts"
  using assms by (simp add: remaining_rule_parts_def)

subsection \<open>Rules that are cut, continued or moved\<close>

text \<open>A series cut before the pivot: all of the rule stays but its COUNT, and UNTIL is the last
  occurrence strictly before the pivot (a date for an all-day series, the same instant in UTC for
  a timed one). Where no occurrence is before the pivot it is just before the pivot itself.\<close>

definition cut_before :: "'r env \<Rightarrow> ('r \<Rightarrow> tm set) \<Rightarrow> tm \<Rightarrow> vcomp \<Rightarrow> vcomp \<Rightarrow> bool" where
  "cut_before env occ pivot m m' \<longleftrightarrow> (\<exists>parts anchor r parts' u.
     rrule_parts m = Inr parts \<and> series_anchor m = Inr anchor \<and> rr_str (e_rr env) parts (as_dt anchor) = Inr r
     \<and> rrule_parts m' = Inr parts' \<and> part COUNT parts' = None \<and> part UNTIL parts' = Some [RTm u]
     \<and> (\<forall>k. k \<noteq> COUNT \<longrightarrow> k \<noteq> UNTIL \<longrightarrow> part k parts' = part k parts)
     \<and> ((\<exists>l. last_up_to (e_tz env) False (occ r) (as_dt pivot) l
            \<and> (if is_all_day anchor then u = Day (ordinal l) else astimezone (e_tz env) l Utc = Inr u))
        \<or> (\<forall>x \<in> occ r. \<not> up_to (e_tz env) False x (as_dt pivot))
          \<and> (if is_datetime pivot then \<exists>v. astimezone (e_tz env) pivot Utc = Inr v \<and> tm_add v (- SEC) = Inr u
             else tm_add pivot (- DAY) = Inr u)))"

lemma rrule_of_Inr:
  "rrule_of env c base = Inr r \<longleftrightarrow>
     (\<exists>p. rrule_parts c = Inr p \<and> p \<noteq> [] \<and> rr_str (e_rr env) p base = Inr r)"
  by (auto simp: rrule_of_def bindr_eq_Inr has_rrule_def rrule_parts_def rrule_items_def
      split: list.splits pval.splits if_splits)

lemma truncate_cuts:
  assumes "truncate_until env pivot m = Inr m'" and "rules_ok env occ"
  shows "cut_before env occ pivot m m'"
proof -
  obtain parts anchor r bef u where p: "rrule_parts m = Inr parts" "series_anchor m = Inr anchor"
    and r: "rr_str (e_rr env) parts (as_dt anchor) = Inr r"
    and bef: "rr_before (e_rr env) r (as_dt pivot) False = Inr bef"
    and u: "truncation_bound (e_tz env) bef anchor pivot = Inr u"
    and m': "m' = set_rrule (set_part UNTIL [RTm u] (del_part COUNT parts)) m"
    using assms(1) by (auto simp: truncate_until_def bindr_eq_Inr rrule_of_Inr)
  have "(\<exists>l. last_up_to (e_tz env) False (occ r) (as_dt pivot) l
            \<and> (if is_all_day anchor then u = Day (ordinal l) else astimezone (e_tz env) l Utc = Inr u))
        \<or> (\<forall>x \<in> occ r. \<not> up_to (e_tz env) False x (as_dt pivot))
          \<and> (if is_datetime pivot then \<exists>v. astimezone (e_tz env) pivot Utc = Inr v \<and> tm_add v (- SEC) = Inr u
             else tm_add pivot (- DAY) = Inr u)"
  proof (cases bef)
    case None
    then have "\<forall>x \<in> occ r. \<not> up_to (e_tz env) False x (as_dt pivot)"
      using assms(2) r bef unfolding rules_ok_def by blast
    then show ?thesis using u None by (auto simp: truncation_bound_def bindr_eq_Inr split: if_splits)
  next
    case (Some l)
    then have "last_up_to (e_tz env) False (occ r) (as_dt pivot) l"
      using assms(2) r bef unfolding rules_ok_def by blast
    then show ?thesis using u Some by (auto simp: truncation_bound_def split: if_splits)
  qed
  then show ?thesis using p r m' unfolding cut_before_def by fastforce
qed

lemma cut_before_cong:
  "rrule_parts m = rrule_parts n \<Longrightarrow> series_anchor m = series_anchor n \<Longrightarrow>
   cut_before env occ pivot m m' = cut_before env occ pivot n m'"
  by (simp add: cut_before_def)

lemma truncate_exdates_cuts:
  assumes "truncate_until env pivot (set_exdates ts m) = Inr m'" and "rules_ok env occ"
  shows "cut_before env occ pivot m m'"
proof -
  have "rrule_parts (set_exdates ts m) = rrule_parts m" "series_anchor (set_exdates ts m) = series_anchor m"
    by (simp_all add: rrule_parts_def cvals_set_exdates series_anchor_def chas_def decoded_def)
  then show ?thesis using truncate_cuts [OF assms] cut_before_cong by blast
qed

text \<open>What a truncation has read: a rule, an anchor and the rule object of both.\<close>

lemma truncate_exdates_reads:
  assumes "truncate_until env pivot (set_exdates ts m) = Inr m'"
  obtains parts anchor r where "rrule_parts m = Inr parts" and "parts \<noteq> []" and "series_anchor m = Inr anchor"
    and "rr_str (e_rr env) parts (as_dt anchor) = Inr r"
proof -
  have "rrule_parts (set_exdates ts m) = rrule_parts m" "series_anchor (set_exdates ts m) = series_anchor m"
    by (simp_all add: rrule_parts_def cvals_set_exdates series_anchor_def chas_def decoded_def)
  then have "\<exists>parts anchor r. rrule_parts m = Inr parts \<and> parts \<noteq> [] \<and> series_anchor m = Inr anchor
      \<and> rr_str (e_rr env) parts (as_dt anchor) = Inr r"
    using assms by (auto simp: truncate_until_def bindr_eq_Inr rrule_of_Inr)
  then show thesis using that by blast
qed

text \<open>UNTIL moved by \<open>d\<close>. A bound that cannot be moved (it is no date) stays.\<close>

definition until_moved :: "delta \<Rightarrow> rval list option \<Rightarrow> rval list option \<Rightarrow> bool" where
  "until_moved d bs bs' \<longleftrightarrow>
     (case bs of
        None \<Rightarrow> bs' = None
      | Some us \<Rightarrow> if d = 0 then bs' = Some us
          else (\<exists>us'. bs' = Some us' \<and> list_all2 (\<lambda>v v'. rval_add d v = Inr v') us us')
             \<or> bs' = Some us \<and> mapr (rval_add d) us = Inl TypeError)"

lemma moved_bounds_until:
  assumes "moved_bounds d us = Inr b" and "d \<noteq> 0"
  shows "until_moved d (Some us) (Some (case b of Some us' \<Rightarrow> us' | None \<Rightarrow> us))"
  using assms by (auto simp: moved_bounds_def until_moved_def mapr_eq_Inr split: sum.splits exn.splits)

lemma shift_until_in_parts_moves:
  assumes "shift_until_in_parts d parts = Inr parts'"
  shows "until_moved d (part UNTIL parts) (part UNTIL parts')" and "k \<noteq> UNTIL \<Longrightarrow> part k parts' = part k parts"
    and "parts \<noteq> [] \<Longrightarrow> parts' \<noteq> []"
proof -
  show "until_moved d (part UNTIL parts) (part UNTIL parts')"
  proof (cases "d = 0 \<or> part UNTIL parts = None")
    case True
    then have "parts' = parts" using assms by (auto simp: shift_until_in_parts_def split: option.splits)
    then show ?thesis using True by (auto simp: until_moved_def split: option.split)
  next
    case False
    then obtain us b where us: "part UNTIL parts = Some us" and b: "moved_bounds d us = Inr b"
      and c': "parts' = (case b of Some us' \<Rightarrow> set_part UNTIL us' parts | None \<Rightarrow> parts)"
      using assms by (auto simp: shift_until_in_parts_def bindr_eq_Inr split: option.splits)
    then show ?thesis using moved_bounds_until [OF b] False by (cases b) simp_all
  qed
  show "k \<noteq> UNTIL \<Longrightarrow> part k parts' = part k parts" and "parts \<noteq> [] \<Longrightarrow> parts' \<noteq> []"
    using assms by (auto simp: shift_until_in_parts_def bindr_eq_Inr split: option.splits if_splits)
qed

lemma shift_until_moves:
  assumes "shift_until d c = Inr c'" and "rrule_parts c = Inr parts"
  shows "\<exists>parts'. rrule_parts c' = Inr parts' \<and> until_moved d (part UNTIL parts) (part UNTIL parts')
     \<and> (\<forall>k. k \<noteq> UNTIL \<longrightarrow> part k parts' = part k parts)"
proof (cases "d = 0 \<or> part UNTIL parts = None")
  case True
  then have "c' = c" using assms by (auto simp: shift_until_def split: if_splits)
  then show ?thesis using True assms(2) by (auto simp: until_moved_def split: option.split)
next
  case False
  then obtain us b where us: "part UNTIL parts = Some us" and b: "moved_bounds d us = Inr b"
    and c': "c' = (case b of Some us' \<Rightarrow> set_rrule (set_part UNTIL us' parts) c | None \<Rightarrow> c)"
    using assms by (auto simp: shift_until_def bindr_eq_Inr split: option.splits)
  have "until_moved d (Some us) (Some (case b of Some us' \<Rightarrow> us' | None \<Rightarrow> us))"
    using moved_bounds_until b False by blast
  then show ?thesis using c' us assms(2) by (cases b) auto
qed

text \<open>The rule of a series continued from the pivot at a new start: what is left of COUNT, where
  the occurrences through the pivot are counted, and UNTIL moved with the start.\<close>

definition continues :: "'r env \<Rightarrow> ('r \<Rightarrow> tm set) \<Rightarrow> tm \<Rightarrow> delta \<Rightarrow> vcomp \<Rightarrow> rparts \<Rightarrow> bool" where
  "continues env occ pivot d m rule \<longleftrightarrow> (\<exists>parts anchor r.
     rrule_parts m = Inr parts \<and> series_anchor m = Inr anchor \<and> rr_str (e_rr env) parts (as_dt anchor) = Inr r
     \<and> (\<forall>k. k \<noteq> COUNT \<longrightarrow> k \<noteq> UNTIL \<longrightarrow> part k rule = part k parts)
     \<and> until_moved d (part UNTIL parts) (part UNTIL rule)
     \<and> (case truthy_part COUNT parts of
          Some (v # _) \<Rightarrow>
            (case rval_int v of
               Inr k \<Rightarrow> part COUNT rule = Some [RInt (max 1 (k - (int (card {x \<in> occ r.
                   up_to (e_tz env) True (as_dt anchor) x \<and> up_to (e_tz env) True x (as_dt pivot)}) - 1)))]
             | Inl _ \<Rightarrow> part COUNT rule = part COUNT parts)
        | _ \<Rightarrow> part COUNT rule = part COUNT parts))"

lemma remaining_continues:
  assumes rem: "remaining_rule_parts env m pivot = Inr mid" and sh: "shift_until_in_parts d mid = Inr rule"
    and ok: "rules_ok env occ" and parts: "rrule_parts m = Inr parts" and anchor: "series_anchor m = Inr anchor"
    and r: "rr_str (e_rr env) parts (as_dt anchor) = Inr r" and ne: "parts \<noteq> []"
  shows "continues env occ pivot d m rule" and "rule \<noteq> []"
proof -
  let ?n = "int (card {x \<in> occ r. up_to (e_tz env) True (as_dt anchor) x \<and> up_to (e_tz env) True x (as_dt pivot)})"
  have n: "n = ?n" if c: "count_through env m pivot True = Inr n" for n
  proof -
    obtain xs where xs: "rr_between (e_rr env) r (as_dt anchor) (as_dt pivot) True = Inr xs" "n = int (length xs)"
      using c parts anchor r ne by (auto simp: count_through_def bindr_eq_Inr rrule_of_Inr)
    then show ?thesis
      using ok r distinct_card [of xs] unfolding rules_ok_def by fastforce
  qed
  have mid: "(\<forall>k. k \<noteq> COUNT \<longrightarrow> part k mid = part k parts) \<and> mid \<noteq> []
      \<and> (case truthy_part COUNT parts of
          Some (v # _) \<Rightarrow> (case rval_int v of
               Inr k \<Rightarrow> part COUNT mid = Some [RInt (max 1 (k - (?n - 1)))]
             | Inl _ \<Rightarrow> part COUNT mid = part COUNT parts)
        | _ \<Rightarrow> part COUNT mid = part COUNT parts)"
  proof (cases "\<exists>v vs. part COUNT parts = Some (v # vs)")
    case False
    then have "part COUNT parts = None \<or> part COUNT parts = Some []"
      by (metis neq_Nil_conv option.exhaust)
    then have "mid = parts" and "truthy_part COUNT parts = None"
      using rem parts
      by (auto simp: remaining_rule_parts_def truthy_part_def bindr_eq_Inr split: option.splits list.splits)
    then show ?thesis using ne by simp
  next
    case True
    then obtain v vs where v: "part COUNT parts = Some (v # vs)" by blast
    obtain c where c: "count_through env m pivot True = Inr c"
      using rem parts v by (auto simp: remaining_rule_parts_def bindr_eq_Inr)
    have "(case rval_int v of Inr k \<Rightarrow> mid = set_part COUNT [RInt (max 1 (k - (?n - 1)))] parts | Inl _ \<Rightarrow> mid = parts)"
      using rem parts v c n [OF c] by (auto simp: remaining_rule_parts_def split: sum.splits exn.splits)
    then show ?thesis using v ne by (auto simp: truthy_part_def split: sum.splits)
  qed
  note S = shift_until_in_parts_moves [OF sh]
  show "rule \<noteq> []" using S(3) mid by blast
  show "continues env occ pivot d m rule"
    unfolding continues_def
    by (intro exI [of _ parts] exI [of _ anchor] exI [of _ r] conjI)
      (use parts anchor r S(1) S(2) mid in \<open>auto split: option.splits list.splits sum.splits\<close>)
qed

text \<open>A rule that is built carries at most one of COUNT and UNTIL, and its frequency.\<close>

lemma monthly_part_key: "monthly_part rule d = (k, v) \<Longrightarrow> k = BYDAY \<or> k = BYMONTHDAY"
  by (auto simp: monthly_part_def Let_def split: if_splits)

lemma build_rrule_bounds:
  assumes "build_rrule db rule d = Inr p"
  shows "part COUNT p = None \<or> part UNTIL p = None"
    and "\<exists>f. map_of freq_map (lower (i_freq rule)) = Some f \<and> part FREQ p = Some [RStr f]"
proof -
  have init: "part k [(FREQ, v)] = (if k = FREQ then Some v else None)" for k and v :: "rval list"
    by (simp add: part_def)
  show "part COUNT p = None \<or> part UNTIL p = None"
    using assms monthly_part_key [of rule d]
    by (auto simp: build_rrule_def Let_def bindr_eq_Inr init
        split: option.splits if_splits list.splits prod.splits)
  show "\<exists>f. map_of freq_map (lower (i_freq rule)) = Some f \<and> part FREQ p = Some [RStr f]"
    using assms monthly_part_key [of rule d]
    by (auto simp: build_rrule_def Let_def bindr_eq_Inr init
        split: option.splits if_splits list.splits prod.splits)
qed

lemma build_rrule_nonempty: "build_rrule db rule d = Inr p \<Longrightarrow> p \<noteq> []"
  using build_rrule_bounds(2) [of db rule d p] by (auto simp: part_def)

lemma build_rrule_unsupported:
  "map_of freq_map (lower (i_freq rule)) = None \<Longrightarrow> build_rrule db rule d = Inl ValueError"
  by (simp add: build_rrule_def)


subsection \<open>The editor's model survives a round trip\<close>

lemma lower_freq_map: "map_of freq_map f = Some F \<Longrightarrow> lower F = f \<and> (F = ''MONTHLY'') = (f = ''monthly'')"
  by (auto simp: freq_map_def lower_def to_lower_def ccode_def char_of_def bit_Suc_0_iff split: if_splits)

lemma weekdays_length: "length (weekdays ! nat (weekday n)) = 2"
proof -
  have "0 \<le> weekday n" "weekday n < 7" by (simp_all add: weekday_def)
  then have "nat (weekday n) \<in> {0, 1, 2, 3, 4, 5, 6}" by auto
  then show ?thesis by (auto simp: weekdays_def)
qed

lemma but_last2_append: "length t = 2 \<Longrightarrow> but_last2 (s @ t) = s"
  by (simp add: but_last2_def)

text \<open>The rule parts of a built rule.\<close>

definition eff_interval :: "rule_in \<Rightarrow> int" where
  "eff_interval rule = (if i_interval rule > 1 then i_interval rule else 1)"

definition eff_count :: "rule_in \<Rightarrow> int option" where
  "eff_count rule = (if i_count rule = Some 0 then None else i_count rule)"

definition eff_until :: "rule_in \<Rightarrow> string option" where
  "eff_until rule = (if eff_count rule \<noteq> None \<or> i_until rule = Some [] then None else i_until rule)"

definition wants_weekday :: "rule_in \<Rightarrow> bool" where
  "wants_weekday rule \<longleftrightarrow> lower (i_freq rule) = ''monthly'' \<and> i_monthly_mode rule = Some ''weekday''"

lemma build_rrule_parts:
  assumes "build_rrule db rule d = Inr p"
  shows "first_or INTERVAL (RStr ''1'') p = (if i_interval rule > 1 then RInt (i_interval rule) else RStr ''1'')"
    and "part COUNT p = map_option (\<lambda>n. [RInt n]) (eff_count rule)"
    and "part UNTIL p = None \<and> eff_until rule = None
         \<or> (\<exists>s u. eff_until rule = Some s \<and> until_value db s d = Inr u \<and> part UNTIL p = Some [RTm u])"
    and "wants_weekday rule \<Longrightarrow> part BYDAY p = Some [snd (monthly_part rule d)] \<and> part BYMONTHDAY p = None"
    and "\<not> wants_weekday rule \<Longrightarrow> part BYDAY p = None"
    and "lower (i_freq rule) = ''monthly'' \<Longrightarrow> \<not> wants_weekday rule \<Longrightarrow>
         part BYMONTHDAY p = Some [snd (monthly_part rule d)]"
proof -
  have init: "part k [(FREQ, v)] = (if k = FREQ then Some v else None)" for k and v :: "rval list"
    by (simp add: part_def)
  note unfold = build_rrule_def Let_def bindr_eq_Inr init eff_count_def eff_until_def wants_weekday_def
    monthly_part_def first_or_def
  note cases = option.splits if_splits list.splits prod.splits
  obtain F where F: "map_of freq_map (lower (i_freq rule)) = Some F"
    using assms by (auto simp: build_rrule_def split: option.splits)
  note M = lower_freq_map [OF F, THEN conjunct2]
  show "first_or INTERVAL (RStr ''1'') p = (if i_interval rule > 1 then RInt (i_interval rule) else RStr ''1'')"
    using assms F by (auto simp: unfold split: cases)
  show "part COUNT p = map_option (\<lambda>n. [RInt n]) (eff_count rule)"
    using assms F by (auto simp: unfold split: cases)
  show "part UNTIL p = None \<and> eff_until rule = None
         \<or> (\<exists>s u. eff_until rule = Some s \<and> until_value db s d = Inr u \<and> part UNTIL p = Some [RTm u])"
    using assms F by (auto simp: unfold split: cases)
  show "part BYDAY p = Some [snd (monthly_part rule d)] \<and> part BYMONTHDAY p = None" if "wants_weekday rule"
    using assms F M that by (auto simp: unfold split: cases)
  show "part BYDAY p = None" if "\<not> wants_weekday rule"
    using assms F M that by (auto simp: unfold split: cases)
  show "part BYMONTHDAY p = Some [snd (monthly_part rule d)]"
    if "lower (i_freq rule) = ''monthly''" "\<not> wants_weekday rule"
    using assms F M that by (auto simp: unfold split: cases)
qed

text \<open>Reading a built rule back gives the request's frequency, interval, end and monthly mode.\<close>

lemma build_rrule_struct:
  assumes "build_rrule db rule d = Inr p"
  obtains s where "rrule_to_struct db [VRecur p] = Inr s"
    and "s_freq s = lower (i_freq rule)" and "s_interval s = eff_interval rule"
    and "s_count s = eff_count rule"
    and "eff_until rule = None \<Longrightarrow> s_until s = None"
    and "\<And>u v. eff_until rule = Some u \<Longrightarrow> until_value db u d = Inr v \<Longrightarrow> s_until s = Some (isoformat db v)"
    and "s_monthly_mode s = (if lower (i_freq rule) \<noteq> ''monthly'' then None
           else if i_monthly_mode rule = Some ''weekday'' then Some ''weekday'' else Some ''monthday'')"
    and "\<And>k. wants_weekday rule \<Longrightarrow> i_ordinal rule = Some k \<Longrightarrow> s_ordinal s = Some (Some k)"
proof -
  note P = build_rrule_parts [OF assms]
  obtain f where f: "map_of freq_map (lower (i_freq rule)) = Some f" and pf: "part FREQ p = Some [RStr f]"
    using build_rrule_bounds(2) [OF assms] by blast
  have lf: "lower f = lower (i_freq rule)" using lower_freq_map [OF f] by simp
  obtain s where s: "rrule_to_struct db [VRecur p] = Inr s"
    by (simp add: rrule_to_struct_def rrule_items_def Let_def)
  note S = s [unfolded rrule_to_struct_def rrule_items_def, simplified Let_def, simplified]
  have fr: "s_freq s = lower (i_freq rule)"
    using S by (auto simp: first_or_def pf lf)
  have one: "py_int ''1'' = Inr 1" by code_simp
  have iv: "s_interval s = eff_interval rule"
    using S P(1) by (auto simp: eff_interval_def one)
  have tc: "truthy_part COUNT p = map_option (\<lambda>n. [RInt n]) (eff_count rule)"
    using P(2) by (simp add: truthy_part_def split: option.splits)
  have ct: "s_count s = eff_count rule"
    using S tc by (auto split: option.splits)
  have un: "s_until s = None" if "eff_until rule = None"
    using S tc P(3) that by (auto simp: truthy_part_def split: option.splits)
  have us: "s_until s = Some (isoformat db v)" if u: "eff_until rule = Some u" "until_value db u d = Inr v" for u v
  proof -
    have "eff_count rule = None" using u by (auto simp: eff_until_def split: if_splits)
    then show ?thesis using S tc P(3) u by (auto simp: truthy_part_def)
  qed
  have wd: "truthy_part BYDAY p \<noteq> None \<longleftrightarrow> wants_weekday rule"
    using P(4) P(5) by (cases "wants_weekday rule") (simp_all add: truthy_part_def)
  have mm: "s_monthly_mode s = (if lower (i_freq rule) \<noteq> ''monthly'' then None
           else if i_monthly_mode rule = Some ''weekday'' then Some ''weekday'' else Some ''monthday'')"
    using S wd by (auto simp: first_or_def pf lf wants_weekday_def)
  have od: "s_ordinal s = Some (Some k)" if w: "wants_weekday rule" "i_ordinal rule = Some k" for k
  proof -
    have "snd (monthly_part rule d) = RStr (str_int k @ weekdays ! nat (weekday (ordinal (as_dt d))))"
      using w by (simp add: monthly_part_def wants_weekday_def Let_def)
    then have "py_int (but_last2 (rval_str db (first_or BYDAY (RStr []) p))) = Inr k"
      using P(4) w by (simp add: first_or_def but_last2_append weekdays_length py_int_str_int)
    then show ?thesis using S wd w by (auto simp: first_or_def pf lf wants_weekday_def)
  qed
  show thesis by (rule that [of s]) (fact s fr iv ct un us mm od)+
qed

end
