(* ===== verification/Reminders.thy ===== *)
theory Reminders
  imports Rrule
begin

text \<open>
  Reminders: the VALARM side of \<open>caldav_client.py\<close> (which alarms are editable, how a trigger
  is shown, how the editable alarms are replaced) and the editor's side in \<open>routers/events.py\<close>
  (the \<open>Reminder\<close> rows and their conversion to triggers), with the round trip between them.
\<close>

section \<open>Rows and entries\<close>

datatype runit = Minutes | Hours | Days | Weeks
datatype ranchor = AtStart | AtEnd
datatype rdir = Before | After

text \<open>The request model \<open>Reminder\<close>.\<close>

record reminder =
  rm_value :: int
  rm_unit :: runit
  rm_time :: "string option"
  rm_anchor :: ranchor
  rm_direction :: rdir

text \<open>The editable dict the client is sent: \<open>anchor\<close> and \<open>direction\<close> only where they differ from
  the defaults. A read-only entry has its text and, for an absolute trigger, the instant.\<close>

record rem_dict =
  rd_value :: int
  rd_unit :: runit
  rd_time :: "string option"
  rd_anchor :: "ranchor option"
  rd_direction :: "rdir option"

datatype rem_entry = Editable rem_dict | ReadOnly string "string option"

definition reminder_valid :: "reminder \<Rightarrow> bool" where   \<comment> \<open>\<open>ge=0, le=10000\<close>\<close>
  "reminder_valid r \<longleftrightarrow> 0 \<le> rm_value r \<and> rm_value r \<le> 10000"

definition reminder_of :: "rem_dict \<Rightarrow> reminder" where   \<comment> \<open>an entry sent back, with the model's defaults\<close>
  "reminder_of d = \<lparr>rm_value = rd_value d, rm_unit = rd_unit d, rm_time = rd_time d,
     rm_anchor = (case rd_anchor d of Some a \<Rightarrow> a | None \<Rightarrow> AtStart),
     rm_direction = (case rd_direction d of Some a \<Rightarrow> a | None \<Rightarrow> Before)\<rparr>"

section \<open>Reading alarms\<close>

text \<open>\<open>round(a / b)\<close>: to the nearest, a tie to the even quotient.\<close>

definition round_div :: "int \<Rightarrow> int \<Rightarrow> int" where
  "round_div a b =
     (let q = a div b; r = a mod b in
      if 2 * r < b \<or> (2 * r = b \<and> even q) then q else q + 1)"

text \<open>\<open>alarm.decoded("trigger")\<close>, as the values the name holds.\<close>

definition decoded_trigger :: "valarm \<Rightarrow> pval list res" where
  "decoded_trigger a =
     (let vs = avals a TRIGGER in
      if vs = [] then Inl KeyError else if VBroken \<in> set vs then Inl ValueError else Inr vs)"

definition plural :: "int \<Rightarrow> string \<Rightarrow> string list" where
  "plural n w = (if n = 0 then [] else [str_int n @ '' '' @ w @ (if n = 1 then [] else ''s'')])"

text \<open>\<open>_reminder_to_text\<close>.\<close>

definition reminder_to_text :: "tzdb \<Rightarrow> pval list \<Rightarrow> string" where
  "reminder_to_text db trigger =
     (case trigger of
        [VTm (Stamp w f z)] \<Rightarrow> ''At '' @ isoformat db (Stamp w f z)
      | [VTrigger d rel] \<Rightarrow>
          (let secs = \<bar>d\<bar> div SEC in
           if secs = 0 then ''At time of event''
           else let bits = plural (secs div 86400) ''day'' @ plural (secs mod 86400 div 3600) ''hour''
                           @ plural (secs mod 3600 div 60) ''minute'';
                    span = (if bits = [] then ''0 minutes'' else join '' '' bits)
                in span @ '' '' @ (if d < 0 then ''before'' else ''after''))
      | _ \<Rightarrow> ''Reminder'')"

text \<open>\<open>_classify_alarm\<close>: the offset and anchor of an editable alarm.\<close>

definition is_email :: "valarm \<Rightarrow> bool" where
  "is_email a = (case avals a ACTION of [VText s] \<Rightarrow> upper s = ''EMAIL'' | _ \<Rightarrow> False)"

definition classify_alarm :: "valarm \<Rightarrow> (delta \<times> string) option" where
  "classify_alarm a =
     (case decoded_trigger a of
        Inr [VTrigger d rel] \<Rightarrow>
          (let r0 = (case rel of None \<Rightarrow> ''START'' | Some s \<Rightarrow> upper s);
               related = (if r0 = ''START'' \<or> r0 = ''END'' then r0 else ''START'')
           in if is_email a then None else Some (d, related))
      | _ \<Rightarrow> None)"

text \<open>\<open>_add_anchor_direction\<close>, \<open>_timedelta_to_value_unit\<close> and \<open>_timedelta_to_allday_parts\<close>.\<close>

definition add_anchor_direction :: "delta \<Rightarrow> string \<Rightarrow> rem_dict \<Rightarrow> rem_dict" where
  "add_anchor_direction td related d =
     (let d1 = (if related = ''END'' then d\<lparr>rd_anchor := Some AtEnd\<rparr> else d)
      in if td > 0 then d1\<lparr>rd_direction := Some After\<rparr> else d1)"

definition plain_dict :: "int \<Rightarrow> runit \<Rightarrow> string option \<Rightarrow> rem_dict" where
  "plain_dict v u t = \<lparr>rd_value = v, rd_unit = u, rd_time = t, rd_anchor = None, rd_direction = None\<rparr>"

definition timedelta_to_value_unit :: "delta \<Rightarrow> string \<Rightarrow> rem_dict" where
  "timedelta_to_value_unit td related =
     (let minutes = round_div \<bar>td\<bar> MINUTE;
          d = (if minutes \<noteq> 0 \<and> minutes mod 10080 = 0 then plain_dict (minutes div 10080) Weeks None
               else if minutes \<noteq> 0 \<and> minutes mod 1440 = 0 then plain_dict (minutes div 1440) Days None
               else if minutes \<noteq> 0 \<and> minutes mod 60 = 0 then plain_dict (minutes div 60) Hours None
               else plain_dict minutes Minutes None)
      in add_anchor_direction td related d)"

definition hhmm :: "int \<Rightarrow> string" where
  "hhmm t = pad2 (t div 60) @ '':'' @ pad2 (t mod 60)"

definition timedelta_to_allday_parts :: "delta \<Rightarrow> string \<Rightarrow> rem_dict" where
  "timedelta_to_allday_parts td related =
     (let trigger_min = round_div td MINUTE;
          time_min = trigger_min mod 1440;
          day_index = (trigger_min - time_min) div 1440;
          days = \<bar>day_index\<bar>;
          d0 = (if days > 0 \<and> days mod 7 = 0 then plain_dict (days div 7) Weeks (Some (hhmm time_min))
                else plain_dict days Days (Some (hhmm time_min)));
          d1 = (if related = ''END'' then d0\<lparr>rd_anchor := Some AtEnd\<rparr> else d0)
      in if day_index > 0 then d1\<lparr>rd_direction := Some After\<rparr> else d1)"

text \<open>\<open>_dt_to_iso\<close>: a naive datetime is printed as UTC.\<close>

definition dt_to_iso :: "tzdb \<Rightarrow> tm \<Rightarrow> string" where
  "dt_to_iso db t =
     (if is_datetime t \<and> tzinfo t = None then isoformat db (replace_tz t Utc) else isoformat db t)"

text \<open>\<open>_extract_reminders\<close>.\<close>

definition dtstart_all_day :: "vcomp \<Rightarrow> bool" where
  "dtstart_all_day c = (case decoded DTSTART c of Inr t \<Rightarrow> is_all_day t | Inl _ \<Rightarrow> False)"

definition alarm_entry :: "tzdb \<Rightarrow> bool \<Rightarrow> valarm \<Rightarrow> rem_entry list" where
  "alarm_entry db all_day a =
     (if avals a TRIGGER = [] then []
      else case classify_alarm a of
        Some (d, related) \<Rightarrow>
          [Editable (if all_day then timedelta_to_allday_parts d related
                     else timedelta_to_value_unit d related)]
      | None \<Rightarrow>
          (case decoded_trigger a of
             Inl _ \<Rightarrow> []
           | Inr t \<Rightarrow> [ReadOnly (reminder_to_text db t)
                        (case t of [VTm (Stamp w f z)] \<Rightarrow> Some (dt_to_iso db (Stamp w f z)) | _ \<Rightarrow> None)]))"

definition extract_reminders :: "tzdb \<Rightarrow> vcomp \<Rightarrow> rem_entry list" where
  "extract_reminders db c =
     concat (map (alarm_entry db (dtstart_all_day c)) (filter (\<lambda>a. aname a = ''VALARM'') (csubs c)))"

section \<open>Replacing alarms\<close>

text \<open>\<open>_apply_alarms\<close>.\<close>

definition editable_alarm :: "valarm \<Rightarrow> bool" where
  "editable_alarm a \<longleftrightarrow> aname a = ''VALARM'' \<and> classify_alarm a \<noteq> None"

definition display_alarm :: "bool \<Rightarrow> delta \<times> string \<Rightarrow> valarm" where
  "display_alarm has_end t =
     aadd TRIGGER (VTrigger (fst t) (if snd t = ''END'' \<and> has_end then Some ''END'' else None))
       (aadd DESCRIPTION (VText ''Reminder'') (aadd ACTION (VText ''DISPLAY'') new_alarm))"

definition has_end :: "pkey \<Rightarrow> vcomp \<Rightarrow> bool" where
  "has_end end_key c \<longleftrightarrow> chas end_key c \<or> chas DURATION c"

definition apply_alarms :: "(delta \<times> string) list option \<Rightarrow> pkey \<Rightarrow> vcomp \<Rightarrow> vcomp" where
  "apply_alarms triggers end_key c =
     (case triggers of
        None \<Rightarrow> c
      | Some ts \<Rightarrow> c\<lparr>csubs := filter (\<lambda>a. \<not> editable_alarm a) (csubs c)
                               @ map (display_alarm (has_end end_key c)) ts\<rparr>)"

section \<open>The editor's rows\<close>

text \<open>\<open>_TIME_RE\<close>: its final \<open>$\<close> also matches before a trailing newline.\<close>

definition time_re :: "string \<Rightarrow> bool" where
  "time_re s =
     (case s of
        a # b # c # d # e # r \<Rightarrow>
          ((a \<in> {CHR ''0'', CHR ''1''} \<and> is_digit b)
             \<or> (a = CHR ''2'' \<and> b \<in> {CHR ''0'', CHR ''1'', CHR ''2'', CHR ''3''}))
          \<and> c = CHR '':'' \<and> is_digit d \<and> digit_val d \<le> 5 \<and> is_digit e \<and> (r = [] \<or> r = [CHR 0x0A])
      | _ \<Rightarrow> False)"

text \<open>The validator \<open>_check_reminders\<close> on one row.\<close>

definition check_reminder :: "bool \<Rightarrow> reminder \<Rightarrow> bool" where
  "check_reminder all_day r =
     (if all_day
      then (rm_unit r = Days \<or> rm_unit r = Weeks) \<and> (case rm_time r of None \<Rightarrow> False | Some t \<Rightarrow> time_re t)
      else rm_time r = None)"

fun unit_minutes :: "runit \<Rightarrow> int" where
  "unit_minutes Minutes = 1"
| "unit_minutes Hours = 60"
| "unit_minutes Days = 1440"
| "unit_minutes Weeks = 10080"

text \<open>\<open>_reminder_deltas\<close>: one row, the clock time of an all-day row, and the loop with its
  duplicate check.\<close>

definition clock_time :: "string option \<Rightarrow> (int \<times> int) res" where
  "clock_time t =
     (case t of None \<Rightarrow> Inl AttributeError
      | Some s \<Rightarrow> (case split_on CHR '':'' s of
                    [h, m] \<Rightarrow> bindr (py_int h) (\<lambda>h'. bindr (py_int m) (\<lambda>m'. Inr (h', m')))
                  | _ \<Rightarrow> Inl ValueError))"

definition reminder_delta :: "bool \<Rightarrow> reminder \<Rightarrow> (delta \<times> string) res" where
  "reminder_delta all_day r =
     bindr (if all_day
            then bindr (clock_time (rm_time r)) (\<lambda>(h, m).
                   let day = rm_value r * (if rm_unit r = Weeks then 7 else 1) * DAY
                   in Inr ((if rm_direction r = After then day else - day) + h * HOUR + m * MINUTE))
            else let mag = rm_value r * unit_minutes (rm_unit r) * MINUTE
                 in Inr (if rm_direction r = After then mag else - mag))
       (\<lambda>d. Inr (d, if rm_anchor r = AtEnd then ''END'' else ''START''))"

definition dedup :: "'a list \<Rightarrow> 'a list" where
  "dedup xs = foldl (\<lambda>acc x. if x \<in> set acc then acc else acc @ [x]) [] xs"

definition reminder_deltas :: "reminder list option \<Rightarrow> bool \<Rightarrow> (delta \<times> string) list option res" where
  "reminder_deltas rs all_day =
     (case rs of
        None \<Rightarrow> Inr None
      | Some l \<Rightarrow> bindr (mapr (reminder_delta all_day) l) (\<lambda>ds. Inr (Some (dedup ds))))"

section \<open>Facts\<close>

lemma round_div_exact: "0 < b \<Longrightarrow> round_div (k * b) b = k"
  by (simp add: round_div_def)

lemma whole_minutes: "d mod MINUTE = 0 \<Longrightarrow> \<exists>k. d = k * MINUTE"
  by (metis dvd_div_mult_self mod_0_imp_dvd)

lemma add_anchor_direction_of:
  "reminder_of (add_anchor_direction td related (plain_dict v u t)) =
     \<lparr>rm_value = v, rm_unit = u, rm_time = t,
      rm_anchor = (if related = ''END'' then AtEnd else AtStart),
      rm_direction = (if td > 0 then After else Before)\<rparr>"
  by (simp add: add_anchor_direction_def reminder_of_def plain_dict_def Let_def)

text \<open>A timed reminder: what the client is sent denotes the trigger it was made from.\<close>

lemma value_unit_reminder:
  assumes "round_div \<bar>td\<bar> MINUTE = n"
  shows "\<exists>v u. reminder_of (timedelta_to_value_unit td related) =
      \<lparr>rm_value = v, rm_unit = u, rm_time = None,
       rm_anchor = (if related = ''END'' then AtEnd else AtStart),
       rm_direction = (if td > 0 then After else Before)\<rparr> \<and> v * unit_minutes u = n"
proof -
  consider "n \<noteq> 0 \<and> n mod 10080 = 0" | "\<not> (n \<noteq> 0 \<and> n mod 10080 = 0)" "n \<noteq> 0 \<and> n mod 1440 = 0"
    | "\<not> (n \<noteq> 0 \<and> n mod 10080 = 0)" "\<not> (n \<noteq> 0 \<and> n mod 1440 = 0)" "n \<noteq> 0 \<and> n mod 60 = 0"
    | "\<not> (n \<noteq> 0 \<and> n mod 10080 = 0)" "\<not> (n \<noteq> 0 \<and> n mod 1440 = 0)" "\<not> (n \<noteq> 0 \<and> n mod 60 = 0)"
    by blast
  then show ?thesis
  proof cases
    case 1
    then show ?thesis
      by (intro exI [of _ "n div 10080"] exI [of _ Weeks])
        (auto simp: timedelta_to_value_unit_def assms add_anchor_direction_of)
  next
    case 2
    then show ?thesis
      by (intro exI [of _ "n div 1440"] exI [of _ Days])
        (auto simp: timedelta_to_value_unit_def assms add_anchor_direction_of)
  next
    case 3
    then show ?thesis
      by (intro exI [of _ "n div 60"] exI [of _ Hours])
        (auto simp: timedelta_to_value_unit_def assms add_anchor_direction_of)
  next
    case 4
    then show ?thesis
      by (intro exI [of _ n] exI [of _ Minutes])
        (auto simp: timedelta_to_value_unit_def assms add_anchor_direction_of)
  qed
qed

lemma timed_roundtrip:
  assumes "d mod MINUTE = 0" and "related = ''START'' \<or> related = ''END''"
  shows "reminder_delta False (reminder_of (timedelta_to_value_unit d related)) = Inr (d, related)"
proof -
  obtain k where d: "d = k * MINUTE" using whole_minutes [OF assms(1)] by auto
  have "\<bar>d\<bar> = \<bar>k\<bar> * MINUTE" by (simp add: d abs_mult MINUTE_def)
  then have m: "round_div \<bar>d\<bar> MINUTE = \<bar>k\<bar>" by (simp add: round_div_exact MINUTE_def)
  have pos: "d > 0 \<longleftrightarrow> k > 0" by (simp add: d MINUTE_def)
  have sgn: "(if k > 0 then \<bar>k\<bar> else - \<bar>k\<bar>) = k" by simp
  obtain v u where r: "reminder_of (timedelta_to_value_unit d related) =
      \<lparr>rm_value = v, rm_unit = u, rm_time = None,
       rm_anchor = (if related = ''END'' then AtEnd else AtStart),
       rm_direction = (if d > 0 then After else Before)\<rparr>" and v: "v * unit_minutes u = \<bar>k\<bar>"
    using value_unit_reminder [OF m] by blast
  have mag: "v * unit_minutes u * MINUTE = \<bar>k\<bar> * MINUTE" using v by simp
  have "(if d > 0 then \<bar>k\<bar> * MINUTE else - (\<bar>k\<bar> * MINUTE)) = d"
    by (cases "k > 0") (simp_all only: pos if_True if_False simp_thms, simp_all add: d)
  then have "reminder_delta False (reminder_of (timedelta_to_value_unit d related)) =
      Inr (d, if related = ''END'' then ''END'' else ''START'')"
    unfolding reminder_delta_def r by (simp add: mag Let_def split: if_splits)
  then show ?thesis using assms(2) by auto
qed

lemma time_parts: "0 \<le> t \<Longrightarrow> t < 1440 \<Longrightarrow> clock_time (Some (hhmm t)) = Inr (t div 60, t mod 60)"
proof -
  assume t: "0 \<le> t" "t < 1440"
  then have h: "0 \<le> t div 60" "t div 60 < 100" and m: "0 \<le> t mod 60" "t mod 60 < 100" by auto
  have d: "all_digits (pad2 n)" if "0 \<le> n" "n < 100" for n
    using uint_of_pad2 [OF that] by (simp add: uint_of_def split: if_splits)
  have p: "py_int (pad2 n) = Inr n" if "0 \<le> n" "n < 100" for n
    using py_int_all_digits [OF d [OF that]] uint_of_pad2 [OF that] d [OF that] by (simp add: uint_of_def)
  have nc: "CHR '':'' \<notin> set (pad2 n)" if "0 \<le> n" "n < 100" for n
    using d [OF that] by (auto simp: all_digits_def list_all_iff is_digit_def ccode_def)
  have "split_on CHR '':'' (pad2 a @ CHR '':'' # pad2 b) = [pad2 a, pad2 b]"
    if "0 \<le> a" "a < 100" "0 \<le> b" "b < 100" for a b
    using split_on_append [OF nc] nc that by (simp add: split_on_absent del: split_on.simps)
  then show ?thesis using h m p by (simp add: clock_time_def hhmm_def)
qed

text \<open>An all-day reminder: whole days and a clock time.\<close>

lemma allday_reminder:
  assumes "round_div td MINUTE = n"
  shows "\<exists>v u. reminder_of (timedelta_to_allday_parts td related) =
      \<lparr>rm_value = v, rm_unit = u, rm_time = Some (hhmm (n mod 1440)),
       rm_anchor = (if related = ''END'' then AtEnd else AtStart),
       rm_direction = (if n div 1440 > 0 then After else Before)\<rparr>
      \<and> (u = Days \<or> u = Weeks) \<and> 0 \<le> v \<and> v * (if u = Weeks then 7 else 1) = \<bar>n div 1440\<bar>"
proof -
  have i: "(n - n mod 1440) div 1440 = n div 1440"
    by (simp add: minus_mod_eq_mult_div)
  have w: "\<bar>x\<bar> mod 7 = 0 \<Longrightarrow> \<bar>x\<bar> div 7 * 7 = \<bar>x\<bar>" for x :: int
    using div_mult_mod_eq [of "\<bar>x\<bar>" 7] by linarith
  show ?thesis
  proof (cases "\<bar>n div 1440\<bar> > 0 \<and> \<bar>n div 1440\<bar> mod 7 = 0")
    case True
    then show ?thesis
      using w [of "n div 1440"]
      by (intro exI [of _ "\<bar>n div 1440\<bar> div 7"] exI [of _ Weeks])
        (auto simp: timedelta_to_allday_parts_def assms i reminder_of_def plain_dict_def Let_def)
  next
    case False
    then show ?thesis
      by (intro exI [of _ "\<bar>n div 1440\<bar>"] exI [of _ Days])
        (auto simp: timedelta_to_allday_parts_def assms i reminder_of_def plain_dict_def Let_def)
  qed
qed

lemma allday_total: "n div 1440 * DAY + n mod 1440 div 60 * HOUR + n mod 1440 mod 60 * MINUTE = n * MINUTE"
proof -
  have g: "n = q * 1440 + (h * 60 + m) \<Longrightarrow> q * DAY + h * HOUR + m * MINUTE = n * MINUTE" for q h m
    by (simp add: unit_defs algebra_simps)
  show ?thesis by (rule g) (simp only: div_mult_mod_eq)
qed

lemma allday_roundtrip:
  assumes "d mod MINUTE = 0" and "related = ''START'' \<or> related = ''END''"
  shows "reminder_delta True (reminder_of (timedelta_to_allday_parts d related)) = Inr (d, related)"
proof -
  obtain n where d: "d = n * MINUTE" using whole_minutes [OF assms(1)] by auto
  have m: "round_div d MINUTE = n" by (simp add: d round_div_exact MINUTE_def)
  obtain v u where r: "reminder_of (timedelta_to_allday_parts d related) =
      \<lparr>rm_value = v, rm_unit = u, rm_time = Some (hhmm (n mod 1440)),
       rm_anchor = (if related = ''END'' then AtEnd else AtStart),
       rm_direction = (if n div 1440 > 0 then After else Before)\<rparr>"
    and v: "v * (if u = Weeks then 7 else 1) = \<bar>n div 1440\<bar>"
    using allday_reminder [OF m, of related] by blast
  have t: "clock_time (Some (hhmm (n mod 1440))) = Inr (n mod 1440 div 60, n mod 1440 mod 60)"
    by (rule time_parts) simp_all
  have day: "v * (if u = Weeks then 7 else 1) * DAY = \<bar>n div 1440\<bar> * DAY" by (simp only: v)
  have sgn: "(if n div 1440 > 0 then \<bar>n div 1440\<bar> * DAY else - (\<bar>n div 1440\<bar> * DAY)) = n div 1440 * DAY"
    by simp
  have "reminder_delta True (reminder_of (timedelta_to_allday_parts d related)) =
      Inr (n div 1440 * DAY + n mod 1440 div 60 * HOUR + n mod 1440 mod 60 * MINUTE,
           if related = ''END'' then ''END'' else ''START'')"
    unfolding reminder_delta_def r using sgn by (simp add: t day Let_def)
  then show ?thesis using assms(2) by (auto simp: allday_total d)
qed

text \<open>A clock time the code prints passes the validator.\<close>

lemma time_re_hhmm: "0 \<le> t \<Longrightarrow> t < 1440 \<Longrightarrow> time_re (hhmm t)"
proof -
  assume t: "0 \<le> t" "t < 1440"
  let ?h = "t div 60" and ?m = "t mod 60"
  have "list_all (\<lambda>h. (digit_char (h div 10 mod 10) \<in> {CHR ''0'', CHR ''1''})
      \<or> (digit_char (h div 10 mod 10) = CHR ''2''
         \<and> digit_char (h mod 10) \<in> {CHR ''0'', CHR ''1'', CHR ''2'', CHR ''3''})) [0..23]"
    by code_simp
  moreover have "?h \<in> set [0..23]" using t by auto
  moreover have "list_all (\<lambda>m. m div 10 mod 10 \<le> 5) [0..59]" by code_simp
  moreover have "?m \<in> set [0..59]" by auto
  ultimately show ?thesis unfolding list_all_iff by (auto simp: time_re_def hhmm_def pad2_def)
qed

lemma allday_checks:
  assumes "d mod MINUTE = 0"
  shows "check_reminder True (reminder_of (timedelta_to_allday_parts d related))"
proof -
  obtain n where d: "d = n * MINUTE" using whole_minutes [OF assms] by auto
  have "round_div d MINUTE = n" by (simp add: d round_div_exact MINUTE_def)
  from allday_reminder [OF this, of related] show ?thesis
    by (auto simp: check_reminder_def time_re_hhmm)
qed

lemma timed_checks: "check_reminder False (reminder_of (timedelta_to_value_unit d related))"
  using value_unit_reminder [OF refl, of d related] by (auto simp: check_reminder_def)

subsection \<open>Replacing the alarms\<close>

lemma classify_display:
  "classify_alarm (display_alarm he (d, related)) =
     Some (d, if related = ''END'' \<and> he then ''END'' else ''START'')"
proof -
  have "upper ''END'' = ''END''" "upper ''DISPLAY'' = ''DISPLAY''" by code_simp+
  then show ?thesis
    by (simp add: classify_alarm_def decoded_trigger_def display_alarm_def is_email_def)
qed

lemma aname_display [simp]: "aname (display_alarm he t) = ''VALARM''"
  by (simp add: display_alarm_def)

lemma editable_display [simp]: "editable_alarm (display_alarm he t)"
  by (cases t) (simp add: editable_alarm_def classify_display)

lemma apply_alarms_frame [simp]:
  "cname (apply_alarms ts k c) = cname c" "cvals (apply_alarms ts k c) = cvals c"
  "chas j (apply_alarms ts k c) = chas j c" "decoded j (apply_alarms ts k c) = decoded j c"
  by (simp_all add: apply_alarms_def split: option.splits)

text \<open>What survives, and what the editable alarms are afterwards.\<close>

lemma apply_alarms_kept:
  "filter (\<lambda>a. \<not> editable_alarm a) (csubs (apply_alarms ts k c)) = filter (\<lambda>a. \<not> editable_alarm a) (csubs c)"
  by (simp add: apply_alarms_def filter_empty_conv split: option.splits)

lemma apply_alarms_editable:
  "map classify_alarm (filter editable_alarm (csubs (apply_alarms (Some ts) k c))) =
     map (\<lambda>(d, r). Some (d, if r = ''END'' \<and> has_end k c then ''END'' else ''START'')) ts"
  by (auto simp: apply_alarms_def classify_display filter_empty_conv)

lemma dedup_set: "set (dedup xs) = set xs \<and> distinct (dedup xs)"
proof -
  have "set (foldl (\<lambda>acc x. if x \<in> set acc then acc else acc @ [x]) acc xs) = set acc \<union> set xs
      \<and> (distinct acc \<longrightarrow> distinct (foldl (\<lambda>acc x. if x \<in> set acc then acc else acc @ [x]) acc xs))" for acc
    by (induction xs arbitrary: acc) auto
  from this [of "[]"] show ?thesis by (simp add: dedup_def)
qed

lemma reminder_deltas_distinct: "reminder_deltas rs all_day = Inr (Some ds) \<Longrightarrow> distinct ds"
  using dedup_set by (auto simp: reminder_deltas_def bindr_eq_Inr split: option.splits)

text \<open>Every row of a validated update converts: the conversion never raises.\<close>

lemma time_re_clock: "time_re s \<Longrightarrow> \<exists>h m. clock_time (Some s) = Inr (h, m)"
proof -
  assume "time_re s"
  then obtain a b d e r where s: "s = a # b # CHR '':'' # d # e # r"
      and dig: "is_digit a" "is_digit b" "is_digit d" "is_digit e" and r: "r = [] \<or> r = [CHR 0x0A]"
    by (auto simp: time_re_def is_digit_def ccode_def split: list.splits)
  have nc: "x \<noteq> CHR '':''" if "is_digit x" for x using that by (auto simp: is_digit_def ccode_def)
  have sp: "split_on CHR '':'' s = [[a, b], d # e # r]"
    using s nc dig r by auto
  have "py_int [x, y] = Inr (digits_val [x, y])" if "is_digit x" "is_digit y" for x y
    by (rule py_int_all_digits) (simp add: all_digits_def that)
  moreover have "is_space CHR 0x0A" by code_simp
  then have st: "strip (d # e # r) = [d, e]"
    using r dig not_space_digit by (auto simp: strip_def lstrip_def rstrip_def)
  have "strip [d, e] = [d, e]"
    by (rule strip_no_space) (use dig not_space_digit in auto)
  then have "py_int (d # e # r) = py_int [d, e]"
    using st by (simp only: py_int_def)
  ultimately show ?thesis using sp dig by (simp add: clock_time_def)
qed

lemma check_reminder_delta: "check_reminder all_day r \<Longrightarrow> \<exists>d. reminder_delta all_day r = Inr d"
  using time_re_clock
  by (fastforce simp: check_reminder_def reminder_delta_def Let_def split: if_splits option.splits)

lemma reminder_deltas_total:
  assumes "list_all (check_reminder all_day) l"
  shows "\<exists>ds. reminder_deltas (Some l) all_day = Inr (Some ds)"
proof -
  have "\<exists>d. reminder_delta all_day r = Inr d" if "r \<in> set l" for r
    using assms that check_reminder_delta by (auto simp: list_all_iff)
  then obtain g where "\<And>r. r \<in> set l \<Longrightarrow> reminder_delta all_day r = Inr (g r)" by metis
  then have "mapr (reminder_delta all_day) l = Inr (map g l)" by (rule mapr_total)
  then show ?thesis by (simp add: reminder_deltas_def)
qed

text \<open>The entries the client is sent after a save, sent back, are the triggers that were saved.\<close>

definition sent_rows :: "rem_entry list \<Rightarrow> reminder list" where
  "sent_rows es = concat (map (\<lambda>e. case e of Editable d \<Rightarrow> [reminder_of d] | ReadOnly _ _ \<Rightarrow> []) es)"

definition saved_trigger :: "bool \<Rightarrow> delta \<times> string \<Rightarrow> delta \<times> string" where
  "saved_trigger he t = (fst t, if snd t = ''END'' \<and> he then ''END'' else ''START'')"

lemma sent_rows_concat: "sent_rows (concat ess) = concat (map sent_rows ess)"
  by (induction ess) (simp_all add: sent_rows_def)

definition shown :: "bool \<Rightarrow> delta \<Rightarrow> string \<Rightarrow> rem_dict" where
  "shown all_day d related =
     (if all_day then timedelta_to_allday_parts d related else timedelta_to_value_unit d related)"

lemma shown_roundtrip:
  "d mod MINUTE = 0 \<Longrightarrow> related = ''START'' \<or> related = ''END'' \<Longrightarrow>
   reminder_delta all_day (reminder_of (shown all_day d related)) = Inr (d, related)
   \<and> check_reminder all_day (reminder_of (shown all_day d related))"
  by (cases all_day) (simp_all add: shown_def timed_roundtrip allday_roundtrip timed_checks allday_checks)

lemma sent_rows_entry:
  "sent_rows (alarm_entry db all_day a) =
     (case classify_alarm a of None \<Rightarrow> [] | Some (d, r) \<Rightarrow> [reminder_of (shown all_day d r)])"
proof (cases "avals a TRIGGER = []")
  case True
  then show ?thesis
    by (simp add: alarm_entry_def sent_rows_def classify_alarm_def decoded_trigger_def)
next
  case False
  then show ?thesis
    by (auto simp: alarm_entry_def sent_rows_def shown_def split: option.splits sum.splits)
qed

lemma sent_rows_extract:
  "sent_rows (extract_reminders db c) =
     concat (map (\<lambda>x. case x of None \<Rightarrow> [] | Some (d, r) \<Rightarrow> [reminder_of (shown (dtstart_all_day c) d r)])
       (map classify_alarm (filter editable_alarm (csubs c))))"
proof -
  have "concat (map (\<lambda>a. case classify_alarm a of None \<Rightarrow> [] | Some (d, r) \<Rightarrow> [f d r])
          (filter (\<lambda>a. aname a = ''VALARM'') as)) =
        concat (map (\<lambda>a. case classify_alarm a of None \<Rightarrow> [] | Some (d, r) \<Rightarrow> [f d r]) (filter editable_alarm as))"
    for f :: "delta \<Rightarrow> string \<Rightarrow> reminder" and as
    by (induction as) (auto simp: editable_alarm_def split: option.splits)
  then show ?thesis
    by (simp add: extract_reminders_def sent_rows_concat sent_rows_entry comp_def)
qed

lemma extract_after_apply:
  "sent_rows (extract_reminders db (apply_alarms (Some ts) k c)) =
     map (\<lambda>t. reminder_of (shown (dtstart_all_day c) (fst t) (snd t))) (map (saved_trigger (has_end k c)) ts)"
proof -
  have "dtstart_all_day (apply_alarms (Some ts) k c) = dtstart_all_day c" by (simp add: dtstart_all_day_def)
  then show ?thesis
    by (simp add: sent_rows_extract apply_alarms_editable comp_def saved_trigger_def case_prod_beta)
qed

lemma saved_trigger_related: "snd (saved_trigger he t) = ''START'' \<or> snd (saved_trigger he t) = ''END''"
  by (simp add: saved_trigger_def)

text \<open>The save and reload of reminders.\<close>

lemma reminders_save_reload:
  assumes whole: "\<And>t. t \<in> set ts \<Longrightarrow> fst t mod MINUTE = 0"
    and rows: "rows = sent_rows (extract_reminders db (apply_alarms (Some ts) k c))"
  shows "list_all (check_reminder (dtstart_all_day c)) rows"
    and "mapr (reminder_delta (dtstart_all_day c)) rows = Inr (map (saved_trigger (has_end k c)) ts)"
proof -
  let ?r = "\<lambda>t. reminder_of (shown (dtstart_all_day c) (fst t) (snd t))"
  have m: "fst t mod MINUTE = 0" if "t \<in> set (map (saved_trigger (has_end k c)) ts)" for t
    using that whole by (auto simp: saved_trigger_def)
  have r: "snd t = ''START'' \<or> snd t = ''END''" if "t \<in> set (map (saved_trigger (has_end k c)) ts)" for t
    using that saved_trigger_related by auto
  note rt = shown_roundtrip [OF m r]
  show "list_all (check_reminder (dtstart_all_day c)) rows"
    unfolding rows extract_after_apply list_all_iff using rt by auto
  have "mapr (reminder_delta (dtstart_all_day c)) (map ?r us) = Inr us"
    if "\<forall>t \<in> set us. t \<in> set (map (saved_trigger (has_end k c)) ts)" for us
    using that rt by (induction us) auto
  then show "mapr (reminder_delta (dtstart_all_day c)) rows = Inr (map (saved_trigger (has_end k c)) ts)"
    unfolding rows extract_after_apply by blast
qed

end
