(* ===== verification/Overrides.thy ===== *)
theory Overrides
  imports Reminders
begin

text \<open>
  Writing items: the editable fields of a component, the detached overrides of a series
  (created, moved, reset, popped) and the calendar object of a new series. These are the shared
  helpers of \<open>caldav_client.py\<close> that the event and task operations are composed of.
  The arguments \<open>title, start, end, location, description\<close> travel as one record.
\<close>

record item_fields =
  f_title :: string
  f_start :: "tm option"
  f_end :: "tm option"
  f_location :: "string option"
  f_description :: "string option"

section \<open>Properties\<close>

text \<open>The local \<open>_replace\<close>: the old value goes, a missing or empty one is not added.\<close>

definition replace_text :: "pkey \<Rightarrow> string option \<Rightarrow> vcomp \<Rightarrow> vcomp" where
  "replace_text k v c =
     (case v of Some (x # xs) \<Rightarrow> cadd k (VText (x # xs)) (cpop k c) | _ \<Rightarrow> cpop k c)"

text \<open>\<open>if v: c.add(k, v)\<close> and \<open>if t is not None: c.add(k, t)\<close>.\<close>

definition add_text :: "pkey \<Rightarrow> string option \<Rightarrow> vcomp \<Rightarrow> vcomp" where
  "add_text k v c = (case v of Some (x # xs) \<Rightarrow> cadd k (VText (x # xs)) c | _ \<Rightarrow> c)"

definition add_tm :: "pkey \<Rightarrow> tm option \<Rightarrow> vcomp \<Rightarrow> vcomp" where
  "add_tm k v c = (case v of Some t \<Rightarrow> cadd k (VTm t) c | None \<Rightarrow> c)"

text \<open>\<open>if priority is not None: ...\<close> and \<open>if rule_parts: ...\<close>.\<close>

definition add_int :: "pkey \<Rightarrow> int option \<Rightarrow> vcomp \<Rightarrow> vcomp" where
  "add_int k v c = (case v of Some n \<Rightarrow> cadd k (VInt n) c | None \<Rightarrow> c)"

definition add_rule :: "rparts option \<Rightarrow> vcomp \<Rightarrow> vcomp" where
  "add_rule r c = (case r of Some (p # ps) \<Rightarrow> cadd RRULE (VRecur (p # ps)) c | _ \<Rightarrow> c)"

text \<open>The SEQUENCE counter (a value that cannot be read restarts it) and LAST-MODIFIED.\<close>

definition next_seq :: "vcomp \<Rightarrow> int" where
  "next_seq c = (case cvals c SEQUENCE of [] \<Rightarrow> 1 | vs \<Rightarrow> (case int_of vs of Inr n \<Rightarrow> n + 1 | Inl _ \<Rightarrow> 1))"

definition bump :: "'r env \<Rightarrow> vcomp \<Rightarrow> vcomp" where
  "bump env c =
     (let c1 = cadd SEQUENCE (VInt (next_seq c)) (cpop SEQUENCE c)
      in cadd LAST_MODIFIED (VTm (e_now env)) (cpop LAST_MODIFIED c1))"

text \<open>\<open>_apply_fields\<close>.\<close>

definition apply_fields :: "'r env \<Rightarrow> item_fields \<Rightarrow> kind \<Rightarrow> vcomp \<Rightarrow> vcomp" where
  "apply_fields env f kind c =
     (let c1 = replace_text SUMMARY (Some (f_title f)) c;
          c2 = replace_text LOCATION (f_location f) c1;
          c3 = replace_text DESCRIPTION (f_description f) c2;
          c4 = cpop DTSTART c3;
          c5 = (if k_end_key kind \<noteq> NoKey then cpop (k_end_key kind) c4 else c4);
          c6 = cpop DURATION c5;
          c7 = add_tm DTSTART (f_start f) c6;
          c8 = (if k_end_key kind \<noteq> NoKey then add_tm (k_end_key kind) (f_end f) c7 else c7)
      in bump env c8)"

text \<open>\<open>_set_priority\<close>.\<close>

definition set_priority :: "int option \<Rightarrow> vcomp \<Rightarrow> vcomp" where
  "set_priority p c = add_int PRIORITY p (cpop PRIORITY c)"

section \<open>Overrides\<close>

text \<open>\<open>str(master.get("uid"))\<close>: a missing UID prints as \<open>None\<close>.\<close>

definition uid_str :: "vcomp \<Rightarrow> string" where
  "uid_str c = (case cvals c UID of [VText s] \<Rightarrow> s | _ \<Rightarrow> ''None'')"

text \<open>The component \<open>_upsert_override\<close> builds, and its replacement of the overrides at the pivot.\<close>

definition make_override ::
  "'r env \<Rightarrow> vcomp \<Rightarrow> tm \<Rightarrow> item_fields \<Rightarrow> (delta \<times> string) list option \<Rightarrow> kind \<Rightarrow> string option \<Rightarrow> tm option \<Rightarrow> vcomp"
where
  "make_override env master pivot f reminders kind status completed =
     (let o1 = cadd DTSTAMP (VTm (e_now env)) (cadd RECURRENCE_ID (VTm pivot)
                 (cadd UID (VText (uid_str master)) (new_comp (k_name kind))));
          o2 = add_text SUMMARY (Some (f_title f)) o1;
          o3 = add_tm DTSTART (f_start f) o2;
          o4 = add_tm (k_end_key kind) (f_end f) o3;
          o5 = add_text LOCATION (f_location f) o4;
          o6 = add_text DESCRIPTION (f_description f) o5;
          o7 = add_text STATUS status o6;
          o8 = (case completed of Some t \<Rightarrow> cadd PERCENT_COMPLETE (VInt 100) (cadd COMPLETED (VTm t) o7) | None \<Rightarrow> o7)
      in apply_alarms reminders (k_end_key kind) o8)"

definition upsert_override ::
  "'r env \<Rightarrow> vcomp \<Rightarrow> tm \<Rightarrow> item_fields \<Rightarrow> (delta \<times> string) list option \<Rightarrow> kind \<Rightarrow> string option \<Rightarrow> tm option \<Rightarrow>
   vcal \<Rightarrow> vcal"
where
  "upsert_override env master pivot f reminders kind status completed ical =
     ical\<lparr>vsubs := filter (\<lambda>c. \<not> (is_override (k_name kind) c \<and> has_rid (e_tz env) pivot c)) (vsubs ical)
                   @ [make_override env master pivot f reminders kind status completed]\<rparr>"

text \<open>\<open>_shift_override\<close>: its loop over the keys to move.\<close>

fun shift_keys :: "delta \<Rightarrow> pkey list \<Rightarrow> vcomp \<Rightarrow> vcomp res" where
  "shift_keys d [] c = Inr c"
| "shift_keys d (k # ks) c =
     (if chas k c then
        bindr (decoded k c) (\<lambda>v. bindr (tm_add v d) (\<lambda>v'. shift_keys d ks (cadd k (VTm v') (cpop k c))))
      else shift_keys d ks c)"

definition rekey :: "string option \<Rightarrow> vcomp \<Rightarrow> vcomp" where
  "rekey u c = (case u of Some s \<Rightarrow> cadd UID (VText s) (cpop UID c) | None \<Rightarrow> c)"

definition shift_override :: "delta \<Rightarrow> string option \<Rightarrow> kind \<Rightarrow> bool \<Rightarrow> vcomp \<Rightarrow> vcomp res" where
  "shift_override d new_uid kind time_too ve =
     (if d = 0 then Inr (rekey new_uid ve)
      else shift_keys d (if time_too then [RECURRENCE_ID, DTSTART, k_end_key kind] else [RECURRENCE_ID])
             (rekey new_uid ve))"

text \<open>\<open>_reset_override\<close>: the time is reset to the slot with the series' duration.\<close>

definition reset_time :: "tzdb \<Rightarrow> item_fields \<Rightarrow> kind \<Rightarrow> vcomp \<Rightarrow> vcomp res" where
  "reset_time db f kind c =
     (if chas RECURRENCE_ID c then
        bindr (decoded RECURRENCE_ID c) (\<lambda>rid.
          let c1 = cadd DTSTART (VTm rid) (cpop DTSTART c) in
          if k_end_key kind = NoKey then Inr c1
          else let c2 = cpop (k_end_key kind) c1 in
            (case (f_start f, f_end f) of
               (Some s, Some e) \<Rightarrow>
                 bindr (tm_sub db (as_dt e) (as_dt s)) (\<lambda>d.
                 bindr (tm_add rid d) (\<lambda>t. Inr (cadd (k_end_key kind) (VTm t) c2)))
             | _ \<Rightarrow> Inr c2))
      else Inr c)"

definition reset_override ::
  "'r env \<Rightarrow> string list \<Rightarrow> item_fields \<Rightarrow> (delta \<times> string) list option \<Rightarrow> int option \<Rightarrow> kind \<Rightarrow> vcomp \<Rightarrow> vcomp res"
where
  "reset_override env names f reminders priority kind c =
     bindr (if ''time'' \<in> set names then reset_time (e_tz env) f kind c else Inr c) (\<lambda>c1.
       let c2 = (if ''title'' \<in> set names then replace_text SUMMARY (Some (f_title f)) c1 else c1);
           c3 = (if ''location'' \<in> set names then replace_text LOCATION (f_location f) c2 else c2);
           c4 = (if ''description'' \<in> set names then replace_text DESCRIPTION (f_description f) c3 else c3);
           c5 = (if ''priority'' \<in> set names \<and> kind = TODO then set_priority priority c4 else c4);
           c6 = (if ''reminders'' \<in> set names then apply_alarms reminders (k_end_key kind) c5 else c5)
       in Inr (bump env c6))"

text \<open>\<open>_pop_overrides\<close>: what stays and what was removed, in document order. An override whose
  RECURRENCE-ID cannot be read stays.\<close>

fun pop_subs :: "string \<Rightarrow> (tm \<Rightarrow> bool res) \<Rightarrow> vcomp list \<Rightarrow> (vcomp list \<times> vcomp list) res" where
  "pop_subs name keep [] = Inr ([], [])"
| "pop_subs name keep (c # cs) =
     bindr (if is_override name c
            then (case decoded RECURRENCE_ID c of Inl _ \<Rightarrow> Inr True | Inr rid \<Rightarrow> keep rid)
            else Inr True) (\<lambda>k.
     bindr (pop_subs name keep cs) (\<lambda>(stay, gone).
       Inr (if k then (c # stay, gone) else (stay, c # gone))))"

definition pop_overrides :: "(tm \<Rightarrow> bool res) \<Rightarrow> string \<Rightarrow> vcal \<Rightarrow> (vcal \<times> vcomp list) res" where
  "pop_overrides keep name ical =
     bindr (pop_subs name keep (vsubs ical)) (\<lambda>(stay, gone). Inr (ical\<lparr>vsubs := stay\<rparr>, gone))"

section \<open>A new series\<close>

text \<open>\<open>_series_ical\<close>.\<close>

definition new_cal :: vcal where
  "new_cal = \<lparr>vprops = bag_add VERSION (VText ''2.0'') (bag_add PRODID (VText ''-//WebCalDav//EN'') []), vsubs = []\<rparr>"

definition series_comp ::
  "'r env \<Rightarrow> string \<Rightarrow> item_fields \<Rightarrow> rparts option \<Rightarrow> tm list \<Rightarrow> (delta \<times> string) list option \<Rightarrow> valarm list \<Rightarrow>
   kind \<Rightarrow> string option \<Rightarrow> int option \<Rightarrow> vcomp"
where
  "series_comp env uid f rule_parts exs reminders alarms kind status priority =
     (let v1 = cadd DTSTAMP (VTm (e_now env)) (cadd UID (VText uid) (new_comp (k_name kind)));
          v2 = add_text SUMMARY (Some (f_title f)) v1;
          v3 = add_tm DTSTART (f_start f) v2;
          v4 = (if k_end_key kind \<noteq> NoKey then add_tm (k_end_key kind) (f_end f) v3 else v3);
          v5 = add_text LOCATION (f_location f) v4;
          v6 = add_text DESCRIPTION (f_description f) v5;
          v7 = add_text STATUS status v6;
          v8 = add_int PRIORITY priority v7;
          v9 = add_rule rule_parts v8;
          v10 = fold (\<lambda>v. cadd EXDATE v) (map (\<lambda>t. VTms [t]) exs) v9;
          v11 = v10\<lparr>csubs := csubs v10 @ alarms\<rparr>
      in apply_alarms reminders (k_end_key kind) v11)"

definition series_ical ::
  "'r env \<Rightarrow> string \<Rightarrow> item_fields \<Rightarrow> rparts option \<Rightarrow> vcomp list \<Rightarrow> tm list \<Rightarrow> (delta \<times> string) list option \<Rightarrow>
   valarm list \<Rightarrow> kind \<Rightarrow> string option \<Rightarrow> int option \<Rightarrow> vcal"
where
  "series_ical env uid f rule_parts ovs exs reminders alarms kind status priority =
     new_cal\<lparr>vsubs := series_comp env uid f rule_parts exs reminders alarms kind status priority # ovs\<rparr>"

section \<open>Facts\<close>

subsection \<open>Fields\<close>

text \<open>Values of a text property after a write.\<close>

definition text_vals :: "string option \<Rightarrow> pval list" where
  "text_vals v = (case v of Some (x # xs) \<Rightarrow> [VText (x # xs)] | _ \<Rightarrow> [])"

definition tm_vals :: "tm option \<Rightarrow> pval list" where
  "tm_vals v = (case v of Some t \<Rightarrow> [VTm t] | None \<Rightarrow> [])"

lemma cvals_replace_text [simp]:
  "cvals (replace_text k v c) j = (if j = k then text_vals v else cvals c j)"
  by (auto simp: replace_text_def text_vals_def split: option.splits list.splits)

lemma cvals_add_text [simp]:
  "cvals (add_text k v c) j = (if j = k then cvals c j @ text_vals v else cvals c j)"
  by (auto simp: add_text_def text_vals_def split: option.splits list.splits)

lemma cvals_add_tm [simp]:
  "cvals (add_tm k v c) j = (if j = k then cvals c j @ tm_vals v else cvals c j)"
  by (auto simp: add_tm_def tm_vals_def split: option.splits)

definition int_vals :: "int option \<Rightarrow> pval list" where
  "int_vals v = (case v of Some n \<Rightarrow> [VInt n] | None \<Rightarrow> [])"

definition rule_vals :: "rparts option \<Rightarrow> pval list" where
  "rule_vals r = (case r of Some (p # ps) \<Rightarrow> [VRecur (p # ps)] | _ \<Rightarrow> [])"

lemma cvals_add_int [simp]:
  "cvals (add_int k v c) j = (if j = k then cvals c j @ int_vals v else cvals c j)"
  by (auto simp: add_int_def int_vals_def split: option.splits)

lemma cvals_add_rule [simp]:
  "cvals (add_rule r c) j = (if j = RRULE then cvals c j @ rule_vals r else cvals c j)"
  by (auto simp: add_rule_def rule_vals_def split: option.splits list.splits)

lemma write_frame [simp]:
  "cname (add_int k n c) = cname c" "csubs (add_int k n c) = csubs c"
  "cname (add_rule r c) = cname c" "csubs (add_rule r c) = csubs c"
  "cname (replace_text k v c) = cname c" "csubs (replace_text k v c) = csubs c"
  "cname (add_text k v c) = cname c" "csubs (add_text k v c) = csubs c"
  "cname (add_tm k t c) = cname c" "csubs (add_tm k t c) = csubs c"
  "cname (set_priority p c) = cname c" "csubs (set_priority p c) = csubs c"
  "cname (bump env c) = cname c" "csubs (bump env c) = csubs c"
  by (auto simp: replace_text_def add_text_def add_tm_def set_priority_def add_int_def add_rule_def bump_def Let_def
      split: option.splits list.splits)

lemma cvals_set_priority [simp]:
  "cvals (set_priority p c) j =
     (if j = PRIORITY then int_vals p else cvals c j)"
  by (simp add: set_priority_def)

lemma cvals_bump [simp]:
  "cvals (bump env c) j =
     (if j = LAST_MODIFIED then [VTm (e_now env)] else if j = SEQUENCE then [VInt (next_seq c)] else cvals c j)"
  by (simp add: bump_def Let_def)

definition kind_ok :: "kind \<Rightarrow> bool" where
  "kind_ok kind \<longleftrightarrow> k_end_key kind = DTEND \<or> k_end_key kind = DUE \<or> k_end_key kind = NoKey"

lemma kind_ok_kinds [simp]: "kind_ok EVENT" "kind_ok TODO" "kind_ok JOURNAL"
  by (simp_all add: kind_ok_def)

lemma next_seq_cong: "cvals c SEQUENCE = cvals c' SEQUENCE \<Longrightarrow> next_seq c = next_seq c'"
  by (simp add: next_seq_def)

text \<open>The values an edited component holds, property by property.\<close>

lemma apply_fields_vals:
  assumes "kind_ok kind"
  shows "cvals (apply_fields env f kind c) k =
     (if k = LAST_MODIFIED then [VTm (e_now env)]
      else if k = SEQUENCE then [VInt (next_seq c)]
      else if k = NoKey then cvals c k
      else if k = k_end_key kind then tm_vals (f_end f)
      else if k = DTSTART then tm_vals (f_start f)
      else if k = SUMMARY then text_vals (Some (f_title f))
      else if k = LOCATION then text_vals (f_location f)
      else if k = DESCRIPTION then text_vals (f_description f)
      else if k = DURATION then [] else cvals c k)"
  using assms by (auto simp: kind_ok_def apply_fields_def Let_def next_seq_def)

lemma apply_fields_frame [simp]:
  "cname (apply_fields env f kind c) = cname c" "csubs (apply_fields env f kind c) = csubs c"
  by (simp_all add: apply_fields_def Let_def)

lemma apply_fields_keep:
  "kind_ok kind \<Longrightarrow> k \<notin> {LAST_MODIFIED, SEQUENCE, k_end_key kind, DTSTART, SUMMARY, LOCATION, DESCRIPTION, DURATION}
   \<Longrightarrow> cvals (apply_fields env f kind c) k = cvals c k"
  by (simp add: apply_fields_vals)

lemma apply_fields_decoded:
  "kind_ok kind \<Longrightarrow> f_start f = Some t \<Longrightarrow> decoded DTSTART (apply_fields env f kind c) = Inr t"
  "kind_ok kind \<Longrightarrow> k_end_key kind \<noteq> NoKey \<Longrightarrow> f_end f = Some e \<Longrightarrow>
   decoded (k_end_key kind) (apply_fields env f kind c) = Inr e"
  by (auto simp: kind_ok_def decoded_def apply_fields_vals tm_vals_def)

lemma apply_fields_plain:
  "kind_ok kind \<Longrightarrow> is_plain name (apply_fields env f kind c) = is_plain name c"
  by (auto simp: is_plain_def chas_def apply_fields_vals kind_ok_def)

subsection \<open>The override that is written\<close>

lemma make_override_vals:
  assumes "kind_ok kind" and "k_end_key kind \<noteq> NoKey \<or> f_end f = None"
  shows "cvals (make_override env master pivot f reminders kind status completed) k =
     (if k = UID then [VText (uid_str master)]
      else if k = RECURRENCE_ID then [VTm pivot]
      else if k = DTSTAMP then [VTm (e_now env)]
      else if k = SUMMARY then text_vals (Some (f_title f))
      else if k = DTSTART then tm_vals (f_start f)
      else if k = k_end_key kind then tm_vals (f_end f)
      else if k = LOCATION then text_vals (f_location f)
      else if k = DESCRIPTION then text_vals (f_description f)
      else if k = STATUS then text_vals status
      else if k = COMPLETED then tm_vals completed
      else if k = PERCENT_COMPLETE then (if completed = None then [] else [VInt 100])
      else [])"
proof -
  note defs = make_override_def tm_vals_def Let_def
  consider "k_end_key kind = DTEND" | "k_end_key kind = DUE" | "k_end_key kind = NoKey" "f_end f = None"
    using assms by (auto simp: kind_ok_def)
  then show ?thesis
  proof cases
    case 1
    then show ?thesis by (cases completed; cases k; simp add: defs)
  next
    case 2
    then show ?thesis by (cases completed; cases k; simp add: defs)
  next
    case 3
    then show ?thesis by (cases completed; cases k; simp add: defs)
  qed
qed

lemma make_override_name [simp]: "cname (make_override env master pivot f reminders kind status completed) = k_name kind"
  by (simp add: make_override_def Let_def split: option.splits)

lemma make_override_is:
  "kind_ok kind \<Longrightarrow> k_end_key kind \<noteq> NoKey \<or> f_end f = None \<Longrightarrow>
   is_override (k_name kind) (make_override env master pivot f reminders kind status completed)
   \<and> decoded RECURRENCE_ID (make_override env master pivot f reminders kind status completed) = Inr pivot"
  by (simp add: is_override_def chas_def make_override_vals decoded_def)

lemma find_append: "find P (xs @ ys) = (case find P xs of None \<Rightarrow> find P ys | Some x \<Rightarrow> Some x)"
  by (induction xs) simp_all

lemma cvals_if: "cvals (if b then x else y) k = (if b then cvals x k else cvals y k)"
  by simp

text \<open>Only the pivot's override is touched, and there is exactly one afterwards.\<close>

lemma upsert_series:
  assumes "kind_ok kind" and "k_end_key kind \<noteq> NoKey \<or> f_end f = None"
    and "cal' = upsert_override env master pivot f reminders kind status completed cal"
  shows "overrides (k_name kind) cal' =
           filter (\<lambda>c. \<not> has_rid (e_tz env) pivot c) (overrides (k_name kind) cal)
           @ [make_override env master pivot f reminders kind status completed]"
    and "has_master (k_name kind) cal' = has_master (k_name kind) cal"
    and "has_master (k_name kind) cal \<Longrightarrow> master_vevent (k_name kind) cal' = master_vevent (k_name kind) cal"
    and "others (k_name kind) cal' = others (k_name kind) cal"
proof -
  let ?n = "k_name kind" and ?o = "make_override env master pivot f reminders kind status completed"
  let ?mid = "cal\<lparr>vsubs := filter (\<lambda>c. is_override ?n c \<longrightarrow> \<not> has_rid (e_tz env) pivot c) (vsubs cal)\<rparr>"
  have o: "is_override ?n ?o" using make_override_is [OF assms(1,2)] by blast
  have c': "vsubs cal' = vsubs ?mid @ [?o]"
    by (simp add: assms(3) upsert_override_def)
  note D = drop_overrides_series [where cal = cal and name = ?n and Q = "\<lambda>c. \<not> has_rid (e_tz env) pivot c", OF refl]
  show "overrides ?n cal' = filter (\<lambda>c. \<not> has_rid (e_tz env) pivot c) (overrides ?n cal) @ [?o]"
    using D(1) o by (simp add: overrides_def c')
  have np: "\<not> is_plain ?n ?o" using o plain_not_override by blast
  have "has_master ?n cal' = has_master ?n ?mid" using np by (simp add: has_master_def c')
  then show hm: "has_master ?n cal' = has_master ?n cal" using D(2) by simp
  show "master_vevent ?n cal' = master_vevent ?n cal" if h: "has_master ?n cal"
  proof -
    obtain m where m: "find (is_plain ?n) (vsubs cal) = Some m" "is_plain ?n m"
      using h find_Some_iff_ex [of "is_plain ?n" "vsubs cal"] find_SomeD
      by (metis has_master_def list_ex_iff)
    have "find (is_plain ?n) (vsubs ?mid) = find (is_plain ?n) (vsubs cal)"
      using plain_not_override by (auto intro!: find_filter_keep)
    then have "find (is_plain ?n) (vsubs cal') = Some m"
      using m by (simp add: c' find_append)
    then show ?thesis using hm h m by (simp add: master_vevent_find master_sel_def has_master_def)
  qed
  have "cname ?o = ?n" by simp
  then show "others ?n cal' = others ?n cal" using D(4) by (simp add: others_def c')
qed

subsection \<open>Moving an override\<close>

lemma rekey_frame [simp]:
  "cname (rekey u c) = cname c" "csubs (rekey u c) = csubs c"
  "cvals (rekey u c) k = (if k = UID \<and> u \<noteq> None then [VText (the u)] else cvals c k)"
  by (auto simp: rekey_def split: option.splits)

lemma shift_keys_vals:
  assumes "shift_keys d ks c = Inr c'" and "distinct ks"
  shows "cvals c' k = (if k \<in> set ks \<and> chas k c
           then (case decoded k c of Inr v \<Rightarrow> (case tm_add v d of Inr v' \<Rightarrow> [VTm v'] | Inl _ \<Rightarrow> []) | Inl _ \<Rightarrow> [])
           else cvals c k)"
    and "cname c' = cname c" and "csubs c' = csubs c"
  using assms
proof (induction ks arbitrary: c)
  case (Cons j ks)
  {
    case 1
    then show ?case
      using Cons.IH(1) by (auto simp: bindr_eq_Inr decoded_def chas_def split: if_splits)
  next
    case 2
    then show ?case using Cons.IH(2) by (fastforce simp: bindr_eq_Inr split: if_splits)
  next
    case 3
    then show ?case using Cons.IH(3) by (fastforce simp: bindr_eq_Inr split: if_splits)
  }
qed simp_all

lemma shift_override_frame:
  assumes "shift_override d u kind tt c = Inr c'" and "kind_ok kind"
  shows "cname c' = cname c" and "csubs c' = csubs c"
    and "k \<notin> {UID, RECURRENCE_ID, DTSTART, k_end_key kind} \<Longrightarrow> cvals c' k = cvals c k"
    and "\<not> tt \<Longrightarrow> k \<notin> {UID, RECURRENCE_ID} \<Longrightarrow> cvals c' k = cvals c k"
    and "u = None \<Longrightarrow> cvals c' UID = cvals c UID"
    and "u = Some s \<Longrightarrow> cvals c' UID = [VText s]"
proof -
  let ?ks = "if tt then [RECURRENCE_ID, DTSTART, k_end_key kind] else [RECURRENCE_ID]"
  have dist: "distinct ?ks" using assms(2) by (auto simp: kind_ok_def)
  have nu: "UID \<notin> set ?ks" using assms(2) by (auto simp: kind_ok_def)
  have cases: "d = 0 \<and> c' = rekey u c \<or> d \<noteq> 0 \<and> shift_keys d ?ks (rekey u c) = Inr c'"
    using assms(1) by (auto simp: shift_override_def split: if_splits)
  then show "cname c' = cname c" and "csubs c' = csubs c"
    using shift_keys_vals(2,3) dist by (metis rekey_frame(1), metis rekey_frame(2))
  have V: "k \<notin> set ?ks \<Longrightarrow> cvals c' k = cvals (rekey u c) k" for k
    using cases shift_keys_vals(1) [OF _ dist] by auto
  show "k \<notin> {UID, RECURRENCE_ID, DTSTART, k_end_key kind} \<Longrightarrow> cvals c' k = cvals c k"
    using V [of k] by auto
  show "\<not> tt \<Longrightarrow> k \<notin> {UID, RECURRENCE_ID} \<Longrightarrow> cvals c' k = cvals c k" using V [of k] by auto
  show "u = None \<Longrightarrow> cvals c' UID = cvals c UID" and "u = Some s \<Longrightarrow> cvals c' UID = [VText s]"
    using V [OF nu] by simp_all
qed

lemma shift_override_rid:
  assumes "shift_override d u kind tt c = Inr c'" and "kind_ok kind" and "decoded RECURRENCE_ID c = Inr r"
  shows "d = 0 \<Longrightarrow> decoded RECURRENCE_ID c' = Inr r"
    and "d \<noteq> 0 \<Longrightarrow> \<exists>r'. tm_add r d = Inr r' \<and> decoded RECURRENCE_ID c' = Inr r'"
proof -
  have r: "cvals c RECURRENCE_ID = [VTm r]" using assms(3) by (simp add: decoded_Inr)
  show "d = 0 \<Longrightarrow> decoded RECURRENCE_ID c' = Inr r"
    using assms(1) r by (auto simp: shift_override_def decoded_Inr)
  assume d: "d \<noteq> 0"
  obtain r' where r': "tm_add r d = Inr r'"
    using assms(1) d r by (auto simp: shift_override_def chas_def decoded_def bindr_eq_Inr split: if_splits)
  let ?ks = "if tt then [RECURRENCE_ID, DTSTART, k_end_key kind] else [RECURRENCE_ID]"
  have "distinct ?ks" using assms(2) by (auto simp: kind_ok_def)
  moreover have "shift_keys d ?ks (rekey u c) = Inr c'" using assms(1) d by (simp add: shift_override_def)
  ultimately have "cvals c' RECURRENCE_ID = [VTm r']"
    using shift_keys_vals(1) [of d ?ks "rekey u c" c' RECURRENCE_ID] r r' by (simp add: chas_def decoded_def)
  then show "\<exists>r'. tm_add r d = Inr r' \<and> decoded RECURRENCE_ID c' = Inr r'"
    using r' by (simp add: decoded_Inr)
qed

lemma shift_override_is:
  assumes "shift_override d u kind tt c = Inr c'" and "kind_ok kind" and "is_override name c"
  shows "is_override name c'"
proof -
  let ?ks = "if tt then [RECURRENCE_ID, DTSTART, k_end_key kind] else [RECURRENCE_ID]"
  have dist: "distinct ?ks" using assms(2) by (auto simp: kind_ok_def)
  have "chas RECURRENCE_ID c'"
  proof (cases "d = 0")
    case True
    then show ?thesis using assms by (auto simp: shift_override_def is_override_def chas_def)
  next
    case False
    then have sk: "shift_keys d ?ks (rekey u c) = Inr c'" using assms(1) by (simp add: shift_override_def)
    have ch: "chas RECURRENCE_ID (rekey u c)" using assms(3) by (simp add: is_override_def chas_def)
    obtain v v' where "decoded RECURRENCE_ID (rekey u c) = Inr v" "tm_add v d = Inr v'"
      using sk ch by (auto simp: bindr_eq_Inr split: if_splits)
    then show ?thesis using shift_keys_vals(1) [OF sk dist, of RECURRENCE_ID] ch by (simp add: chas_def)
  qed
  then show ?thesis using assms(3) shift_override_frame(1) [OF assms(1,2)] by (simp add: is_override_def)
qed

subsection \<open>Resetting an override\<close>

text \<open>The properties a reset may write.\<close>

definition reset_keys :: "string list \<Rightarrow> kind \<Rightarrow> pkey set" where
  "reset_keys names kind =
     (if ''time'' \<in> set names then {DTSTART} \<union> (if k_end_key kind = NoKey then {} else {k_end_key kind}) else {})
     \<union> (if ''title'' \<in> set names then {SUMMARY} else {})
     \<union> (if ''location'' \<in> set names then {LOCATION} else {})
     \<union> (if ''description'' \<in> set names then {DESCRIPTION} else {})
     \<union> (if ''priority'' \<in> set names \<and> kind = TODO then {PRIORITY} else {})
     \<union> {SEQUENCE, LAST_MODIFIED}"

lemma reset_time_frame:
  assumes "reset_time db f kind c = Inr c'"
  shows "cname c' = cname c" and "csubs c' = csubs c"
    and "k \<noteq> DTSTART \<Longrightarrow> k \<noteq> k_end_key kind \<or> k_end_key kind = NoKey \<Longrightarrow> cvals c' k = cvals c k"
  using assms by (auto simp: reset_time_def Let_def bindr_eq_Inr split: if_splits option.splits)

lemma reset_override_frame:
  assumes "reset_override env names f reminders priority kind c = Inr c'"
  shows "cname c' = cname c"
    and "k \<notin> reset_keys names kind \<Longrightarrow> cvals c' k = cvals c k"
    and "''reminders'' \<notin> set names \<Longrightarrow> csubs c' = csubs c"
proof -
  obtain c1 where c1: "(if ''time'' \<in> set names then reset_time (e_tz env) f kind c else Inr c) = Inr c1"
    and c': "reset_override env names f reminders priority kind c = Inr c'"
    using assms by (auto simp: reset_override_def bindr_eq_Inr)
  have f1: "cname c1 = cname c" "csubs c1 = csubs c"
    using c1 reset_time_frame(1,2) by (auto split: if_splits)
  show "cname c' = cname c" and "''reminders'' \<notin> set names \<Longrightarrow> csubs c' = csubs c"
    using c' f1 by (auto simp: reset_override_def c1 Let_def)
  assume k: "k \<notin> reset_keys names kind"
  have "cvals c1 k = cvals c k"
    using c1 reset_time_frame(3) [of _ f kind c c1 k] k by (auto simp: reset_keys_def split: if_splits)
  moreover have "cvals c' k = cvals c1 k"
    using c' k by (auto simp: reset_override_def c1 Let_def reset_keys_def split: if_splits)
  ultimately show "cvals c' k = cvals c k" by simp
qed

lemma reset_override_is:
  assumes "reset_override env names f reminders priority kind c = Inr c'" and "kind_ok kind"
  shows "is_override name c' = is_override name c" and "decoded RECURRENCE_ID c' = decoded RECURRENCE_ID c"
proof -
  have "RECURRENCE_ID \<notin> reset_keys names kind" using assms(2) by (auto simp: reset_keys_def kind_ok_def)
  then have "cvals c' RECURRENCE_ID = cvals c RECURRENCE_ID" by (rule reset_override_frame(2) [OF assms(1)])
  then show "is_override name c' = is_override name c" and "decoded RECURRENCE_ID c' = decoded RECURRENCE_ID c"
    using reset_override_frame(1) [OF assms(1)] by (simp_all add: is_override_def chas_def decoded_def)
qed

text \<open>A time reset puts the override back on its slot, with the series' duration.\<close>

lemma reset_override_time:
  assumes "reset_override env names f reminders priority kind c = Inr c'" and "kind_ok kind"
    and "''time'' \<in> set names" and "decoded RECURRENCE_ID c = Inr rid"
  shows "decoded DTSTART c' = Inr rid"
    and "f_start f = Some s \<Longrightarrow> f_end f = Some e \<Longrightarrow> k_end_key kind \<noteq> NoKey \<Longrightarrow>
         \<exists>d t. tm_sub (e_tz env) (as_dt e) (as_dt s) = Inr d \<and> tm_add rid d = Inr t
               \<and> decoded (k_end_key kind) c' = Inr t"
proof -
  obtain c1 where c1: "reset_time (e_tz env) f kind c = Inr c1"
    using assms(1,3) by (auto simp: reset_override_def bindr_eq_Inr)
  have c': "k \<notin> {SUMMARY, LOCATION, DESCRIPTION, PRIORITY, SEQUENCE, LAST_MODIFIED} \<Longrightarrow> cvals c' k = cvals c1 k" for k
  proof -
    assume k: "k \<notin> {SUMMARY, LOCATION, DESCRIPTION, PRIORITY, SEQUENCE, LAST_MODIFIED}"
    from assms(1,3) show "cvals c' k = cvals c1 k"
      by (clarsimp simp: reset_override_def c1 Let_def) (use k in \<open>simp add: cvals_if cong: if_cong\<close>)
  qed
  have has: "chas RECURRENCE_ID c" using assms(4) by (rule decoded_chas)
  have "decoded DTSTART c1 = Inr rid"
    using c1 has assms(2,4)
    by (auto simp: reset_time_def Let_def bindr_eq_Inr kind_ok_def decoded_Inr split: if_splits option.splits)
  then show "decoded DTSTART c' = Inr rid" using c' [of DTSTART] by (simp add: decoded_Inr)
  assume f: "f_start f = Some s" "f_end f = Some e" and e: "k_end_key kind \<noteq> NoKey"
  have "\<exists>d t. tm_sub (e_tz env) (as_dt e) (as_dt s) = Inr d \<and> tm_add rid d = Inr t
          \<and> cvals c1 (k_end_key kind) = [VTm t]"
    using c1 has assms(4) f e by (auto simp: reset_time_def Let_def bindr_eq_Inr)
  moreover have "cvals c' (k_end_key kind) = cvals c1 (k_end_key kind)"
    by (rule c') (use assms(2) e in \<open>auto simp: kind_ok_def\<close>)
  ultimately show "\<exists>d t. tm_sub (e_tz env) (as_dt e) (as_dt s) = Inr d \<and> tm_add rid d = Inr t
      \<and> decoded (k_end_key kind) c' = Inr t"
    by (auto simp: decoded_Inr)
qed

subsection \<open>Popping overrides\<close>

definition stays :: "(tm \<Rightarrow> bool res) \<Rightarrow> vcomp \<Rightarrow> bool" where
  "stays keep c = (case decoded RECURRENCE_ID c of Inl _ \<Rightarrow> True | Inr r \<Rightarrow> keep r = Inr True)"

lemma pop_subs_split:
  "pop_subs name keep cs = Inr (stay, gone) \<Longrightarrow>
   stay = filter (\<lambda>c. is_override name c \<longrightarrow> stays keep c) cs
   \<and> gone = filter (\<lambda>c. \<not> stays keep c) (filter (is_override name) cs)"
proof (induction cs arbitrary: stay gone)
  case (Cons c cs)
  from Cons.prems obtain k stay' gone' where
    k: "(if is_override name c then (case decoded RECURRENCE_ID c of Inl _ \<Rightarrow> Inr True | Inr rid \<Rightarrow> keep rid)
         else Inr True) = Inr k"
    and p: "pop_subs name keep cs = Inr (stay', gone')"
    and r: "(stay, gone) = (if k then (c # stay', gone') else (stay', c # gone'))"
    by (auto simp: bindr_eq_Inr)
  have kk: "k \<longleftrightarrow> (is_override name c \<longrightarrow> stays keep c)" and nk: "\<not> k \<Longrightarrow> is_override name c"
    using k by (auto simp: stays_def split: if_splits sum.splits)
  show ?case using Cons.IH [OF p] r kk nk by (cases k) auto
qed simp

lemma pop_overrides_series:
  assumes "pop_overrides keep name cal = Inr (cal', gone)"
  shows "overrides name cal' = filter (stays keep) (overrides name cal)"
    and "gone = filter (\<lambda>c. \<not> stays keep c) (overrides name cal)"
    and "has_master name cal' = has_master name cal"
    and "has_master name cal \<Longrightarrow> master_vevent name cal' = master_vevent name cal"
    and "others name cal' = others name cal"
proof -
  obtain stay where p: "pop_subs name keep (vsubs cal) = Inr (stay, gone)" and c: "cal' = cal\<lparr>vsubs := stay\<rparr>"
    using assms by (auto simp: pop_overrides_def bindr_eq_Inr)
  note P = pop_subs_split [OF p]
  have c': "cal' = cal\<lparr>vsubs := filter (\<lambda>c. is_override name c \<longrightarrow> stays keep c) (vsubs cal)\<rparr>"
    using P c by simp
  show "gone = filter (\<lambda>c. \<not> stays keep c) (overrides name cal)" using P by (simp add: overrides_def)
  show "overrides name cal' = filter (stays keep) (overrides name cal)"
    and "has_master name cal' = has_master name cal"
    and "has_master name cal \<Longrightarrow> master_vevent name cal' = master_vevent name cal"
    and "others name cal' = others name cal"
    using drop_overrides_series [OF c'] by blast+
qed

lemma pop_subs_total:
  assumes "\<And>c r. c \<in> set cs \<Longrightarrow> is_override name c \<Longrightarrow> decoded RECURRENCE_ID c = Inr r \<Longrightarrow> \<exists>b. keep r = Inr b"
  shows "\<exists>p. pop_subs name keep cs = Inr p"
  using assms
proof (induction cs)
  case (Cons c cs)
  then obtain p where p: "pop_subs name keep cs = Inr p" by (metis list.set_intros(2))
  have "\<exists>k. (if is_override name c then (case decoded RECURRENCE_ID c of Inl _ \<Rightarrow> Inr True | Inr rid \<Rightarrow> keep rid)
         else Inr True) = Inr k"
    using Cons.prems [of c] by (auto split: sum.splits)
  then show ?case using p by (cases p) auto
qed simp

lemma pop_overrides_total:
  assumes "\<And>c r. c \<in> set (overrides name cal) \<Longrightarrow> decoded RECURRENCE_ID c = Inr r \<Longrightarrow> \<exists>b. keep r = Inr b"
  shows "\<exists>p. pop_overrides keep name cal = Inr p"
  using pop_subs_total [of "vsubs cal" name keep] assms
  by (auto simp: pop_overrides_def overrides_def)

subsection \<open>The new series\<close>

lemma fold_exdate_vals:
  "cvals (fold (\<lambda>v. cadd EXDATE v) vs c) k = (if k = EXDATE then cvals c k @ vs else cvals c k)"
  by (simp add: item.vals_fold_addp)

lemma series_comp_name [simp]:
  "cname (series_comp env uid f rule exs reminders alarms kind status priority) = k_name kind"
  by (simp add: series_comp_def Let_def fold_cadd_frame)

lemma series_comp_vals:
  assumes "kind_ok kind"
  shows "cvals (series_comp env uid f rule exs reminders alarms kind status priority) k =
     (if k = UID then [VText uid]
      else if k = DTSTAMP then [VTm (e_now env)]
      else if k = SUMMARY then text_vals (Some (f_title f))
      else if k = DTSTART then tm_vals (f_start f)
      else if k = k_end_key kind then (if k = NoKey then [] else tm_vals (f_end f))
      else if k = LOCATION then text_vals (f_location f)
      else if k = DESCRIPTION then text_vals (f_description f)
      else if k = STATUS then text_vals status
      else if k = PRIORITY then int_vals priority
      else if k = RRULE then rule_vals rule
      else if k = EXDATE then map (\<lambda>t. VTms [t]) exs
      else [])"
proof -
  note defs = series_comp_def Let_def fold_exdate_vals
  consider "k_end_key kind = DTEND" | "k_end_key kind = DUE" | "k_end_key kind = NoKey"
    using assms by (auto simp: kind_ok_def)
  then show ?thesis
  proof cases
    case 1
    then show ?thesis by (cases k; simp add: defs)
  next
    case 2
    then show ?thesis by (cases k; simp add: defs)
  next
    case 3
    then show ?thesis by (cases k; simp add: defs)
  qed
qed

lemma series_comp_plain: "kind_ok kind \<Longrightarrow>
   is_plain (k_name kind) (series_comp env uid f rule exs reminders alarms kind status priority)"
  by (auto simp: is_plain_def chas_def series_comp_vals kind_ok_def)

lemma series_comp_alarms:
  "csubs (series_comp env uid f rule exs reminders alarms kind status priority) =
     (case reminders of None \<Rightarrow> alarms
      | Some ts \<Rightarrow> filter (\<lambda>a. \<not> editable_alarm a) alarms
          @ map (display_alarm (k_end_key kind \<noteq> NoKey \<and> kind_ok kind \<and> f_end f \<noteq> None)) ts)"
  if "kind_ok kind"
proof -
  let ?c = "series_comp env uid f rule exs None alarms kind status priority"
  have r: "series_comp env uid f rule exs reminders alarms kind status priority = apply_alarms reminders (k_end_key kind) ?c"
    by (simp add: series_comp_def Let_def apply_alarms_def)
  have "csubs ?c = alarms" by (simp add: series_comp_def Let_def apply_alarms_def fold_cadd_frame)
  moreover have "has_end (k_end_key kind) ?c = (k_end_key kind \<noteq> NoKey \<and> f_end f \<noteq> None)"
    using that by (auto simp: has_end_def chas_def series_comp_vals kind_ok_def tm_vals_def split: option.splits)
  ultimately show ?thesis using that by (simp add: r apply_alarms_def split: option.splits)
qed

text \<open>The calendar object of a new series: its master and exactly the given overrides.\<close>

lemma series_ical_series:
  assumes "kind_ok kind" and "\<And>c. c \<in> set ovs \<Longrightarrow> is_override (k_name kind) c"
    and "cal = series_ical env uid f rule ovs exs reminders alarms kind status priority"
  shows "has_master (k_name kind) cal"
    and "master_vevent (k_name kind) cal = Some (series_comp env uid f rule exs reminders alarms kind status priority)"
    and "overrides (k_name kind) cal = ovs" and "others (k_name kind) cal = []"
proof -
  let ?m = "series_comp env uid f rule exs reminders alarms kind status priority"
  have m: "is_plain (k_name kind) ?m" using assms(1) by (rule series_comp_plain)
  have v: "vsubs cal = ?m # ovs" by (simp add: assms(3) series_ical_def)
  show hm: "has_master (k_name kind) cal" using m by (simp add: has_master_def v)
  show "master_vevent (k_name kind) cal = Some ?m"
    using hm m by (simp add: master_vevent_find master_sel_def has_master_def v)
  show "overrides (k_name kind) cal = ovs"
    using m plain_not_override assms(2) by (auto simp: overrides_def v filter_id_conv)
  show "others (k_name kind) cal = []"
    using assms(2) by (auto simp: others_def v is_override_def filter_empty_conv)
qed

end
