(* ===== verification/Dav.thy ===== *)
theory Dav
  imports Overrides
begin

text \<open>
  The CalDAV server as the code sees it. The \<open>caldav\<close> client library and the server behind it are
  not part of the repository: every request is a parameter (\<open>dav\<close>) that acts on a server state of
  an arbitrary type and may fail. The world adds the one piece of state this module keeps itself,
  the error counters of \<open>metrics.py\<close>.
\<close>

text \<open>The account the client is made for (\<open>_make_dav_client\<close>).\<close>

record conn =
  cn_url :: string
  cn_user :: string
  cn_password :: string

text \<open>An object the library returns: its URL and its \<open>icalendar_instance\<close>, which may not parse.\<close>

record dobj =
  o_url :: string
  o_ical :: "vcal res"

text \<open>A search: the component kind, if any, the window, if any, and \<open>expand\<close>.\<close>

record query =
  q_kind :: "string option"
  q_window :: "(tm \<times> tm) option"
  q_expand :: bool
  q_completed :: bool      \<comment> \<open>\<open>include_completed\<close>\<close>

record 's dav =
  d_by_uid :: "conn \<Rightarrow> string \<Rightarrow> string \<Rightarrow> string \<Rightarrow> ('s, dobj) io"   \<comment> \<open>calendar, kind, UID\<close>
  d_save :: "conn \<Rightarrow> dobj \<Rightarrow> vcal \<Rightarrow> ('s, unit) io"             \<comment> \<open>\<open>obj.data = ...; obj.save()\<close>\<close>
  d_delete :: "conn \<Rightarrow> dobj \<Rightarrow> ('s, unit) io"
  d_create :: "conn \<Rightarrow> string \<Rightarrow> string \<Rightarrow> vcal \<Rightarrow> ('s, unit) io"   \<comment> \<open>\<open>save_event\<close>, \<open>save_todo\<close>, \<open>save_journal\<close>\<close>
  d_search :: "conn \<Rightarrow> string \<Rightarrow> query \<Rightarrow> ('s, dobj list) io"
  d_sync_token :: "conn \<Rightarrow> string \<Rightarrow> ('s, string) io"
  d_calendars :: "conn \<Rightarrow> ('s, (string \<times> string option res \<times> string option res) list) io"

record 's world =
  w_dav :: 's
  w_errors :: "string \<Rightarrow> nat"

text \<open>A request, in the world.\<close>

definition request :: "('s, 'a) io \<Rightarrow> ('s world, 'a) io" where
  "request m = (\<lambda>w. case m (w_dav w) of (r, s) \<Rightarrow> (r, w\<lparr>w_dav := s\<rparr>))"

lemma request_simps:
  "m (w_dav w) = (r, s) \<Longrightarrow> request m w = (r, w\<lparr>w_dav := s\<rparr>)"
  by (simp add: request_def)

lemma request_errors [simp]: "w_errors (snd (request m w)) = w_errors w"
  by (simp add: request_def split: prod.split)

text \<open>
  Every public coroutine (\<open>create_event\<close>, \<open>update_event\<close>, ...) runs its synchronous body and, when
  it raises, increments \<open>caldav_request_errors_total\<close> for the operation and re-raises. The
  operations that look an item up let \<open>EventNotFoundError\<close> pass uncounted.
\<close>

definition counted :: "exn \<Rightarrow> bool \<Rightarrow> bool" where
  "counted e passes_not_found =
     (case e of EventNotFoundError u \<Rightarrow> \<not> passes_not_found | _ \<Rightarrow> True)"

definition count_error :: "string \<Rightarrow> 's world \<Rightarrow> 's world" where
  "count_error op w = w\<lparr>w_errors := (w_errors w)(op := Suc (w_errors w op))\<rparr>"

definition observed :: "string \<Rightarrow> bool \<Rightarrow> ('s world, 'a) io \<Rightarrow> ('s world, 'a) io" where
  "observed op passes m =
     (\<lambda>w. case m w of
            (Inr x, w') \<Rightarrow> (Inr x, w')
          | (Inl e, w') \<Rightarrow> (Inl e, if counted e passes then count_error op w' else w'))"

text \<open>The lookup by UID: the library's \<open>NotFoundError\<close> becomes \<open>EventNotFoundError\<close>.\<close>

definition find_item :: "'s dav \<Rightarrow> conn \<Rightarrow> string \<Rightarrow> string \<Rightarrow> string \<Rightarrow> ('s world, dobj) io" where
  "find_item dav cn url name uid =
     (\<lambda>w. case request (d_by_uid dav cn url name uid) w of
            (Inl DavNotFound, w') \<Rightarrow> (Inl (EventNotFoundError uid), w')
          | r \<Rightarrow> r)"

text \<open>An edit decided before any write: the object to save, then the object to create, if any.\<close>

definition execute_plan ::
  "'s dav \<Rightarrow> conn \<Rightarrow> string \<Rightarrow> string \<Rightarrow> dobj \<Rightarrow> vcal \<times> vcal option \<Rightarrow> ('s world, unit) io"
where
  "execute_plan dav cn url name obj p =
     bindi (request (d_save dav cn obj (fst p))) (\<lambda>_.
       case snd p of None \<Rightarrow> reti () | Some cal' \<Rightarrow> request (d_create dav cn url name cal'))"

lemma bindi_cong: "(\<And>x. f x = g x) \<Longrightarrow> bindi m f = bindi m g"
  by presburger

lemma bindi_reti_right: "bindi m reti = m"
  by (rule ext) (simp add: bindi_def split: prod.split sum.split)

lemma liftr_bindr: "bindi (liftr (bindr r f)) g = bindi (liftr r) (\<lambda>x. bindi (liftr (f x)) g)"
  by (cases r) simp_all

text \<open>What executing a decision does: nothing when it was an exception; one write; or two, where a
  failure of the first prevents the second.\<close>

lemma execute_plan_writes:
  "execute_plan dav cn url name obj (c, None) w = request (d_save dav cn obj c) w"
  "d_save dav cn obj c (w_dav w) = (Inl e, s) \<Longrightarrow>
     execute_plan dav cn url name obj (c, new) w = (Inl e, w\<lparr>w_dav := s\<rparr>)"
  "d_save dav cn obj c (w_dav w) = (Inr u, s) \<Longrightarrow>
     execute_plan dav cn url name obj (c, Some c') w =
       request (d_create dav cn url name c') (w\<lparr>w_dav := s\<rparr>)"
  by (simp_all add: execute_plan_def bindi_reti_right request_simps)

text \<open>\<open>try: m except Exception: d\<close>.\<close>

definition recover :: "('w, 'a) io \<Rightarrow> 'a \<Rightarrow> ('w, 'a) io" where
  "recover m d = (\<lambda>w. case m w of (Inl e, w') \<Rightarrow> (Inr d, w') | (Inr x, w') \<Rightarrow> (Inr x, w'))"

section \<open>Facts\<close>

lemma observed_ok: "m w = (Inr x, w') \<Longrightarrow> observed op p m w = (Inr x, w')"
  by (simp add: observed_def)

lemma observed_counts:
  "m w = (Inl e, w') \<Longrightarrow> counted e p \<Longrightarrow>
   observed op p m w = (Inl e, count_error op w') "
  by (simp add: observed_def)

lemma observed_result: "fst (observed op p m w) = fst (m w)"
  by (simp add: observed_def split: prod.split sum.split)

lemma observed_dav: "w_dav (snd (observed op p m w)) = w_dav (snd (m w))"
  by (simp add: observed_def count_error_def split: prod.split sum.split)

text \<open>The counter of the operation moves exactly when an exception leaves it that is counted.\<close>

lemma observed_errors:
  assumes "w_errors (snd (m w)) = w_errors w"
  shows "w_errors (snd (observed op p m w)) =
     (w_errors w)(op := w_errors w op +
        (case fst (m w) of Inr _ \<Rightarrow> 0 | Inl e \<Rightarrow> if counted e p then 1 else 0))"
  using assms
  by (auto simp: observed_def count_error_def split: prod.splits sum.splits)

text \<open>Computations that leave the counters alone.\<close>

definition quiet :: "('s world, 'a) io \<Rightarrow> bool" where
  "quiet m \<longleftrightarrow> (\<forall>w. w_errors (snd (m w)) = w_errors w)"

named_theorems quiet_intros \<open>computations that do not touch the counters\<close>

lemma quiet_basic [quiet_intros]:
  "quiet (reti x)" "quiet (raisei e)" "quiet (liftr r)" "quiet (request m)"
  by (simp_all add: quiet_def)

lemma quiet_bindi [quiet_intros]:
  assumes "quiet m" and "\<And>x. quiet (f x)"
  shows "quiet (bindi m f)"
  unfolding quiet_def
proof
  fix w
  obtain r w' where m: "m w = (r, w')" by fastforce
  then show "w_errors (snd (bindi m f w)) = w_errors w"
    using assms unfolding quiet_def
    by (cases r) (metis bindi_simps(2) snd_conv, metis bindi_simps(1) snd_conv)
qed

lemma quiet_find_item [quiet_intros]: "quiet (find_item dav cn url name uid)"
  unfolding quiet_def
proof
  fix w
  obtain r w' where q: "request (d_by_uid dav cn url name uid) w = (r, w')" by fastforce
  then have "w_errors w' = w_errors w" by (metis request_errors snd_conv)
  then show "w_errors (snd (find_item dav cn url name uid w)) = w_errors w"
    by (auto simp: find_item_def q split: sum.split exn.split)
qed

lemma quiet_if [quiet_intros]: "quiet a \<Longrightarrow> quiet b \<Longrightarrow> quiet (if c then a else b)"
  by simp

lemma quiet_option [quiet_intros]:
  "quiet a \<Longrightarrow> (\<And>x. quiet (f x)) \<Longrightarrow> quiet (case v of None \<Rightarrow> a | Some x \<Rightarrow> f x)"
  by (simp split: option.split)

lemma quiet_recover [quiet_intros]: "quiet m \<Longrightarrow> quiet (recover m d)"
  unfolding quiet_def
proof
  fix w
  assume q: "\<forall>w. w_errors (snd (m w)) = w_errors w"
  obtain r w' where m: "m w = (r, w')" by fastforce
  then have "w_errors w' = w_errors w" using q by (metis snd_conv)
  then show "w_errors (snd (recover m d w)) = w_errors w"
    by (cases r) (simp_all add: recover_def m)
qed

lemma quiet_mapi [quiet_intros]: "(\<And>x. quiet (f x)) \<Longrightarrow> quiet (mapi f xs)"
proof (induction xs)
  case Nil
  show ?case by (simp only: mapi.simps quiet_basic)
next
  case (Cons x xs)
  then show ?case by (simp only: mapi.simps) (intro quiet_intros; simp)
qed

lemma quiet_execute_plan [quiet_intros]: "quiet (execute_plan dav cn url name obj p)"
  unfolding execute_plan_def by (intro quiet_intros)

section \<open>Measured operations\<close>

text \<open>The contract every public coroutine's body meets: it does not touch the counters itself. Then
  the wrapper counts each failure once, and changes neither the result nor the server.\<close>

locale measured =
  fixes op :: string and passes :: bool and body :: "('s world, 'a) io"
  assumes body_quiet: "quiet body"
begin

lemma error_count:
  "w_errors (snd (observed op passes body w)) op' =
     w_errors w op' + (if op' = op then (case fst (body w) of Inr _ \<Rightarrow> 0 | Inl e \<Rightarrow> if counted e passes then 1 else 0)
                       else 0)"
  using observed_errors [of body w op passes] body_quiet by (simp add: quiet_def)

lemma same_outcome:
  "fst (observed op passes body w) = fst (body w) \<and> w_dav (snd (observed op passes body w)) = w_dav (snd (body w))"
  by (simp add: observed_result observed_dav)

end

end
