(* ===== verification/Db.thy ===== *)
theory Db
  imports Crypto Ratelimit Dav
begin

text \<open>
  The data the application keeps: the tables of \<open>models.py\<close> as lists of rows in order of their ids,
  the configuration of \<open>config.py\<close>, and the state of the whole process: the CalDAV world, the
  database, the session store, the login limiter and the gauge of active sessions. SQLAlchemy and
  SQLite are not part of the repository; the queries the code makes are lookups and filters on the
  lists, a new row takes one more than the largest id present (SQLite's rule without \<open>AUTOINCREMENT\<close>),
  foreign keys are not enforced (no pragma turns them on), and a handler's changes take effect at its
  commit.
\<close>

section \<open>Tables\<close>

record user =
  u_id :: int
  u_email :: string
  u_salt :: bytes
  u_time :: int
  u_memory :: int
  u_lanes :: int
  u_wrapped_dek :: bytes
  u_dek_nonce :: bytes
  u_verifier :: bytes
  u_must_change :: bool

record account =
  a_id :: int
  a_user :: int
  a_url :: string
  a_username :: string
  a_password :: bytes
  a_nonce :: bytes
  a_created :: tm

record calendar =
  c_id :: int
  c_account :: int
  c_caldav_id :: string
  c_name :: string
  c_color :: string
  c_enabled :: bool
  c_default :: bool

record api_token =
  t_id :: int
  t_user :: int
  t_name :: string
  t_sha :: bytes
  t_blob :: bytes
  t_nonce :: bytes
  t_mode :: string
  t_all :: bool
  t_expires :: "tm option"
  t_created :: tm
  t_used :: "tm option"

record token_calendar =
  tc_token :: int
  tc_calendar :: int

record share =
  sh_id :: int
  sh_user :: int
  sh_name :: string
  sh_sha :: bytes
  sh_blob :: bytes
  sh_nonce :: bytes
  sh_kind :: string
  sh_mode :: string
  sh_expires :: "tm option"
  sh_item_uid :: "string option"
  sh_item_kind :: "string option"
  sh_item_calendar :: "int option"
  sh_grid_view :: "string option"
  sh_grid_anchor :: "string option"
  sh_agenda_from :: "tm option"
  sh_agenda_to :: "tm option"
  sh_default_calendar :: "int option"
  sh_created :: tm
  sh_used :: "tm option"

record share_calendar =
  sc_share :: int
  sc_calendar :: int
  sc_writable :: bool

record prefs =
  p_timezone :: string
  p_fdow :: int
  p_time_format :: string
  p_date_format :: string
  p_view :: string
  p_auto_logout :: bool
  p_logout_after :: int
  p_notify :: bool
  p_completed :: string
  p_undated :: string
  p_theme :: string
  p_language :: string
  p_double_click :: bool
  p_search_from :: int
  p_search_to :: int
  p_holidays :: bool
  p_country :: string

text \<open>The defaults of the columns of \<open>user_settings\<close>, also what the code uses where a user has no row.\<close>

definition default_prefs :: prefs where
  "default_prefs = \<lparr>p_timezone = ''UTC'', p_fdow = 1, p_time_format = ''24h'', p_date_format = ''YYYY-MM-DD'',
     p_view = ''dayGridMonth'', p_auto_logout = True, p_logout_after = 3600, p_notify = False,
     p_completed = ''hidden'', p_undated = ''agenda'', p_theme = ''system'', p_language = ''autodetect'',
     p_double_click = False, p_search_from = 0, p_search_to = 365, p_holidays = False, p_country = ''none''\<rparr>"

record db =
  db_users :: "user list"
  db_accounts :: "account list"
  db_calendars :: "calendar list"
  db_tokens :: "api_token list"
  db_token_calendars :: "token_calendar list"
  db_shares :: "share list"
  db_share_calendars :: "share_calendar list"
  db_prefs :: "(int \<times> prefs) list"   \<comment> \<open>by user id\<close>

definition next_id :: "int list \<Rightarrow> int" where
  "next_id ids = fold max ids 0 + 1"

text \<open>A \<open>DateTime\<close> column of SQLite keeps the wall clock only.\<close>

definition stored :: "tm \<Rightarrow> tm" where
  "stored t = (case t of Day n \<Rightarrow> Stamp (n * DAY) 0 None | Stamp w f z \<Rightarrow> Stamp w 0 None)"

definition utc :: "int \<Rightarrow> tm" where "utc now = Stamp now 0 (Some Utc)"   \<comment> \<open>\<open>datetime.now(UTC)\<close>\<close>

section \<open>Configuration and process state\<close>

record config =
  g_idle_timeout :: int
  g_block_private :: bool
  g_cookie_secure :: bool
  g_login_attempts :: int
  g_login_window :: int
  g_min_password :: int
  g_argon_time :: int
  g_argon_memory :: int
  g_argon_lanes :: int
  g_mcp :: bool
  g_sharing :: bool
  g_base_url :: "string option"
  g_horizon :: int
  g_lookback :: int

definition default_config :: config where
  "default_config = \<lparr>g_idle_timeout = 3600, g_block_private = False, g_cookie_secure = True,
     g_login_attempts = 5, g_login_window = 300, g_min_password = 12, g_argon_time = 3,
     g_argon_memory = 131072, g_argon_lanes = 1, g_mcp = False, g_sharing = True, g_base_url = None,
     g_horizon = 60, g_lookback = 60\<rparr>"

record 's app =
  ap_world :: "'s world"
  ap_db :: db
  ap_store :: store
  ap_limiter :: limiter
  ap_active :: nat

text \<open>Reading the state, committing a new database, and running a CalDAV operation.\<close>

definition ask :: "('w \<Rightarrow> 'a) \<Rightarrow> ('w, 'a) io" where
  "ask f = (\<lambda>w. (Inr (f w), w))"

definition commit :: "db \<Rightarrow> ('s app, unit) io" where
  "commit d = (\<lambda>a. (Inr (), a\<lparr>ap_db := d\<rparr>))"

definition on_world :: "('s world, 'a) io \<Rightarrow> ('s app, 'a) io" where
  "on_world m = (\<lambda>a. case m (ap_world a) of (r, w) \<Rightarrow> (r, a\<lparr>ap_world := w\<rparr>))"

definition on_store :: "(store \<Rightarrow> 'a \<times> store) \<Rightarrow> ('s app, 'a) io" where
  "on_store m = (\<lambda>a. case m (ap_store a) of (r, st) \<Rightarrow> (Inr r, a\<lparr>ap_store := st\<rparr>))"

definition update_gauge :: "('s app, unit) io" where   \<comment> \<open>\<open>active_sessions.set(store.active_count)\<close>\<close>
  "update_gauge = (\<lambda>a. (Inr (), a\<lparr>ap_active := active_count (ap_store a)\<rparr>))"

definition guard :: "bool \<Rightarrow> exn \<Rightarrow> ('w, unit) io" where   \<comment> \<open>raise unless\<close>
  "guard b e = (if b then reti () else raisei e)"

text \<open>\<open>scalar_one_or_none\<close> on a unique key, raising the given error for \<open>None\<close>.\<close>

definition require :: "exn \<Rightarrow> 'a option \<Rightarrow> ('w, 'a) io" where
  "require e x = liftr (option_res e x)"

definition user_of :: "db \<Rightarrow> int \<Rightarrow> user option" where
  "user_of d uid = find (\<lambda>u. u_id u = uid) (db_users d)"

definition prefs_of :: "db \<Rightarrow> int \<Rightarrow> prefs option" where
  "prefs_of d uid = map_of (db_prefs d) uid"

definition account_of :: "db \<Rightarrow> int \<Rightarrow> account option" where
  "account_of d aid = find (\<lambda>a. a_id a = aid) (db_accounts d)"

text \<open>The join of the calendars with their accounts, restricted to a user's.\<close>

definition owned_calendars :: "db \<Rightarrow> int \<Rightarrow> (calendar \<times> account) list" where
  "owned_calendars d uid =
     concat (map (\<lambda>c. map (Pair c) (filter (\<lambda>a. a_id a = c_account c \<and> a_user a = uid) (db_accounts d))) (db_calendars d))"

definition owned_calendar :: "db \<Rightarrow> int \<Rightarrow> int \<Rightarrow> (calendar \<times> account) option" where
  "owned_calendar d uid cid = find (\<lambda>(c, a). c_id c = cid) (owned_calendars d uid)"

section \<open>Facts\<close>

lemma app_simps [simp]:
  "ask f w = (Inr (f w), w)" "commit d a = (Inr (), a\<lparr>ap_db := d\<rparr>)"
  "update_gauge a = (Inr (), a\<lparr>ap_active := active_count (ap_store a)\<rparr>)"
  by (simp_all add: ask_def commit_def update_gauge_def)

lemma guard_simps [simp]: "guard True e = reti ()" "guard False e = raisei e"
  by (simp_all add: guard_def)

lemma require_simps [simp]: "require e None = raisei e" "require e (Some x) = reti x"
  by (simp_all add: require_def liftr_def raisei_def reti_def)

lemma bindi_ask [simp]: "bindi (ask f) g w = g (f w) w"
  by (simp add: bindi_def ask_def)

lemma bindi_guard: "bindi (guard b e) f = (if b then f () else raisei e)"
  by simp

lemma fold_max: "(m :: int) \<le> fold max ids m \<and> (\<forall>x \<in> set ids. x \<le> fold max ids m)"
proof (induction ids arbitrary: m)
  case (Cons a ids)
  show ?case using Cons.IH [of "max a m"] by simp
qed simp

lemma next_id_fresh: "x \<in> set ids \<Longrightarrow> x < next_id ids"
  using fold_max [of 0 ids] by (fastforce simp: next_id_def)

lemma owned_calendars_in:
  "(c, a) \<in> set (owned_calendars d uid) \<longleftrightarrow>
     c \<in> set (db_calendars d) \<and> a \<in> set (db_accounts d) \<and> a_id a = c_account c \<and> a_user a = uid"
  by (auto simp: owned_calendars_def)

lemma owned_calendarD:
  "owned_calendar d uid cid = Some (c, a) \<Longrightarrow> (c, a) \<in> set (owned_calendars d uid) \<and> c_id c = cid"
  unfolding owned_calendar_def by (auto dest!: find_SomeD)

definition no_db :: db where
  "no_db = \<lparr>db_users = [], db_accounts = [], db_calendars = [], db_tokens = [], db_token_calendars = [],
     db_shares = [], db_share_calendars = [], db_prefs = []\<rparr>"

end
