(* ===== verification/PyCal.thy ===== *)
theory PyCal
  imports PyIso
begin

text \<open>
  Facts on the proleptic calendar of \<open>PyIso\<close>: constructing and parsing dates yields ordinals in range,
  and the days of a month are the ordinals from its first.
\<close>

lemma month_cases:
  fixes m :: int
  assumes "1 \<le> m" and "m \<le> 12"
  shows "m = 1 \<or> m = 2 \<or> m = 3 \<or> m = 4 \<or> m = 5 \<or> m = 6 \<or> m = 7 \<or> m = 8 \<or> m = 9 \<or> m = 10 \<or> m = 11 \<or> m = 12"
  using assms by presburger

lemma days_through_month:
  assumes "1 \<le> m" and "m \<le> 12"
  shows "0 \<le> days_before_month y m" "days_before_month y m + days_in_month y m \<le> (if is_leap y then 366 else 365)"
proof -
  have "0 \<le> days_before_month y m \<and> days_before_month y m + days_in_month y m \<le> (if is_leap y then 366 else 365)"
    using month_cases [OF assms]
    by (elim disjE) (simp_all add: days_before_month_def days_in_month_def month_lengths_def eval_nat_numeral)
  then show "0 \<le> days_before_month y m" "days_before_month y m + days_in_month y m \<le> (if is_leap y then 366 else 365)"
    by simp_all
qed

lemma mk_date_ok: "mk_date y m d = Inr n \<Longrightarrow> ord_ok n"
proof -
  assume "mk_date y m d = Inr n"
  then have r: "1 \<le> y" "y \<le> 9999" "1 \<le> m" "m \<le> 12" "1 \<le> d" "d \<le> days_in_month y m"
    and n: "n = days_before_year y + days_before_month y m + d"
    by (simp_all add: mk_date_def ymd2ord_def split: if_split_asm)
  have c: "days_before_year 1 = 0" "days_before_year 9998 = 3651329" "days_before_year 9999 = 3651694" "\<not> is_leap 9999"
    by (simp_all add: days_before_year_def is_leap_def)
  have "days_before_year 1 \<le> days_before_year y" using r by (intro days_before_year_mono)
  then have lo: "1 \<le> n" using n r days_through_month(1) [OF r(3,4), of y] c by linarith
  have "n \<le> 3652059"
  proof (cases "y = 9999")
    case True
    then show ?thesis using n r days_through_month(2) [OF r(3,4), of y] c by simp
  next
    case False
    then have "days_before_year y \<le> days_before_year 9998" using r by (intro days_before_year_mono) simp
    then show ?thesis using n r days_through_month(2) [OF r(3,4), of y] c by (simp split: if_split_asm)
  qed
  with lo show ?thesis by (simp add: ord_ok_def MAXORD_def)
qed

lemma parse_iso_date_ok: "parse_iso_date s = Inr n \<Longrightarrow> ord_ok n"
  by (auto simp: parse_iso_date_def isoweek_to_ord_def Let_def bindr_eq_Inr split: if_split_asm dest: mk_date_ok)

lemma month_of_first:
  assumes "mk_date y m 1 = Inr first" and "year_of n = y" and "month_of n = m"
  shows "first \<le> n" "n < first + 31"
proof -
  have "n = ymd2ord y m (day_of n)" using ord2ymd_spec [OF year_month_day, of n] assms by simp
  moreover have "first = ymd2ord y m 1" using assms(1) by (simp add: mk_date_def split: if_split_asm)
  ultimately show "first \<le> n" "n < first + 31" using day_of_range [of n] by (simp_all add: ymd2ord_def)
qed

section \<open>What parsing a datetime yields\<close>

lemma digit_val_bounds: "is_digit c \<Longrightarrow> 0 \<le> digit_val c \<and> digit_val c \<le> 9"
  by (simp add: is_digit_def digit_val_def)

lemma two_digits_bounds: "two_digits s = Inr (n, r) \<Longrightarrow> 0 \<le> n \<and> n < 100"
proof (cases s rule: two_digits.cases)
  case (1 a b ra)
  moreover assume "two_digits s = Inr (n, r)"
  ultimately have "is_digit a" "is_digit b" "n = 10 * digit_val a + digit_val b" by (auto split: if_split_asm)
  then show ?thesis using digit_val_bounds [of a] digit_val_bounds [of b] by simp
qed auto

lemma digits_val_less: "list_all is_digit s \<Longrightarrow> digits_val s < 10 ^ length s"
proof (induction s rule: rev_induct)
  case (snoc c s)
  then have "digits_val s + 1 \<le> 10 ^ length s" "digit_val c \<le> 9" using digit_val_bounds [of c] by simp_all
  then show ?case by (simp add: digits_val_snoc)
qed (simp add: digits_val_def)

lemma parse_fraction_bounds: "parse_fraction s = Inr u \<Longrightarrow> 0 \<le> u \<and> u < 1000000"
proof (cases s)
  case (Cons c r)
  assume "parse_fraction s = Inr u"
  then have d: "all_digits (take 6 r)" and u: "u = digits_val (take 6 r) * 10 ^ (6 - length (take 6 r))"
    using Cons by (auto simp: uint_of_def bindr_eq_Inr split: if_splits)
  let ?n = "length (take 6 r)"
  have l: "?n \<le> 6" by simp
  have "digits_val (take 6 r) < 10 ^ ?n" "0 \<le> digits_val (take 6 r)"
    using d digits_val_less [of "take 6 r"] digits_val_nonneg [of "take 6 r"] unfolding all_digits_def by blast+
  then have "0 \<le> u" "u < 10 ^ ?n * 10 ^ (6 - ?n)" unfolding u by (auto intro: mult_strict_right_mono)
  moreover have "10 ^ ?n * 10 ^ (6 - ?n) = (10 :: int) ^ 6" using l by (simp only: power_add [symmetric] le_add_diff_inverse)
  ultimately show ?thesis by simp
qed simp

lemma parse_hms_bounds:
  "parse_hms s = Inr (h, m, x, u) \<Longrightarrow> 0 \<le> h \<and> 0 \<le> m \<and> 0 \<le> x \<and> 0 \<le> u \<and> u < 1000000"
  by (auto simp: parse_hms_def Let_def bindr_eq_Inr split: if_split_asm dest!: two_digits_bounds parse_fraction_bounds)

lemma parse_iso_tz_ok: "parse_iso_tz s = Inr (Some z) \<Longrightarrow> \<bar>utcoffset tz z w f\<bar> < DAY"
  by (auto simp: parse_iso_tz_def bindr_eq_Inr Let_def utcoffset_def hms_micros_def unit_defs
      split: list.splits if_split_asm dest!: parse_hms_bounds)

lemma parse_iso_time_ok:
  assumes "parse_iso_time s = Inr (u, z)"
  shows "0 \<le> u" "u < DAY" "z = Some y \<Longrightarrow> \<bar>utcoffset tz y w f\<bar> < DAY"
proof -
  obtain h m x v where p: "parse_hms (takeWhile (\<lambda>c. \<not> is_tz_mark c) s) = Inr (h, m, x, v)"
    and z: "parse_iso_tz (dropWhile (\<lambda>c. \<not> is_tz_mark c) s) = Inr z"
    and t: "time_ok (h, m, x, v)" "u = hms_micros (h, m, x, v)"
    using assms by (auto simp: parse_iso_time_def bindr_eq_Inr split: if_split_asm)
  show "0 \<le> u" "u < DAY" using t parse_hms_bounds [OF p] by (simp_all add: hms_micros_def time_ok_def unit_defs)
  show "z = Some y \<Longrightarrow> \<bar>utcoffset tz y w f\<bar> < DAY" using parse_iso_tz_ok z by simp
qed

lemma datetime_fromisoformat_ok:
  assumes "datetime_fromisoformat s = Inr t"
  shows "tm_ok t" "is_datetime t" "offset_ok tz t"
proof -
  obtain n where p: "parse_iso_date (take (iso_separator s) s) = Inr n"
    and r: "(if drop (iso_separator s + 1) s = [] then Inr (Stamp (n * DAY) 0 None)
         else bindr (parse_iso_time (drop (iso_separator s + 1) s)) (\<lambda>(u, z). Inr (Stamp (n * DAY + u) 0 z))) = Inr t"
    using assms by (auto simp: datetime_fromisoformat_def Let_def bindr_eq_Inr split: if_split_asm)
  obtain u z where t: "t = Stamp (n * DAY + u) 0 z"
    and u: "0 \<le> u" "u < DAY" "\<And>y. z = Some y \<Longrightarrow> \<bar>utcoffset tz y (n * DAY + u) 0\<bar> < DAY"
  proof (cases "drop (iso_separator s + 1) s = []")
    case True
    then show ?thesis using r that [of 0 None] by simp
  next
    case False
    then obtain u z where "parse_iso_time (drop (iso_separator s + 1) s) = Inr (u, z)" "t = Stamp (n * DAY + u) 0 z"
      using r by (auto simp: bindr_eq_Inr)
    then show ?thesis using that [of u z] parse_iso_time_ok by blast
  qed
  have "(n * DAY + u) div DAY = n" using u by simp
  then show "tm_ok t" using parse_iso_date_ok [OF p] t by (simp add: wall_ok_def)
  show "is_datetime t" "offset_ok tz t" using t u(3) by (simp_all add: offset_ok_def split: option.split)
qed

end
