(* ===== verification/Tickets.thy ===== *)
theory Tickets
  imports Db PyCal
begin

text \<open>
  What API tokens (\<open>tokens.py\<close>) and share links (\<open>shares.py\<close>) have in common: a random secret shown
  once; a JSON payload sealed under a key derived from it; a digest of it to find the row; an expiry
  read from the payload. The row's other columns are a mirror for display. The locale \<open>ticket\<close> is the
  contract of a payload reader towards the passing of time; both readers interpret it.
\<close>

section \<open>JSON values as the readers take them\<close>

text \<open>\<open>payload.get(key)\<close>: \<open>None\<close> is \<open>null\<close>.\<close>

definition obj_get :: "string \<Rightarrow> (string \<times> json) list \<Rightarrow> json" where
  "obj_get k kvs = (case map_of kvs k of None \<Rightarrow> JNull | Some v \<Rightarrow> v)"

definition obj_get_or :: "json \<Rightarrow> string \<Rightarrow> (string \<times> json) list \<Rightarrow> json" where
  "obj_get_or dflt k kvs = (case map_of kvs k of None \<Rightarrow> dflt | Some v \<Rightarrow> v)"

text \<open>Python's truth value. A number literal is zero when its digits before the exponent are.\<close>

fun truthy :: "json \<Rightarrow> bool" where
  "truthy JNull = False"
| "truthy (JBool b) = b"
| "truthy (JInt i) = (i \<noteq> 0)"
| "truthy (JFloat s) = (s \<in> {''NaN'', ''Infinity'', ''-Infinity''} \<or>
     list_ex (\<lambda>c. is_digit c \<and> c \<noteq> CHR ''0'') (takeWhile (\<lambda>c. c \<noteq> CHR ''e'' \<and> c \<noteq> CHR ''E'') s))"
| "truthy (JStr s) = (s \<noteq> [])"
| "truthy (JArr xs) = (xs \<noteq> [])"
| "truthy (JObj kvs) = (kvs \<noteq> [])"

text \<open>Iterating a value: an array, the characters of a string, the keys of an object.\<close>

fun as_list :: "json \<Rightarrow> json list res" where
  "as_list (JArr xs) = Inr xs"
| "as_list (JStr s) = Inr (map (\<lambda>c. JStr [c]) s)"
| "as_list (JObj kvs) = Inr (map (JStr \<circ> fst) kvs)"
| "as_list _ = Inl TypeError"

text \<open>Whether a value equals an integer id (\<open>True == 1\<close> in Python; the writers put integers only).\<close>

fun is_id :: "int \<Rightarrow> json \<Rightarrow> bool" where
  "is_id n (JInt i) = (i = n)"
| "is_id n (JBool b) = (n = (if b then 1 else 0))"
| "is_id n _ = False"

definition has_id :: "int \<Rightarrow> json list \<Rightarrow> bool" where
  "has_id n ids = list_ex (is_id n) ids"

section \<open>Sealing and opening\<close>

definition seal_payload :: "crypto \<Rightarrow> bytes \<Rightarrow> string \<Rightarrow> json \<Rightarrow> (bytes \<times> bytes \<times> bytes) res" where
  "seal_payload cr nonce secret payload =
     bindr (wrap_dek cr nonce (encode_text (dumps payload)) (derive_token_key cr secret)) (\<lambda>(blob, n).
       Inr (digest_of cr secret, blob, n))"

text \<open>\<open>json.loads(unwrap_dek(...))\<close>.\<close>

definition open_payload :: "crypto \<Rightarrow> string \<Rightarrow> bytes \<Rightarrow> bytes \<Rightarrow> json res" where
  "open_payload cr secret blob nonce =
     bindr (unwrap_dek cr blob nonce (derive_token_key cr secret)) (\<lambda>bs.
       bindr (decode_text bs) loads)"

text \<open>The expiry of a payload: \<open>None\<close> when it is malformed or past, otherwise the time, if any. A value
  that is neither falsy nor a string raises.\<close>

definition read_expiry :: "tzdb \<Rightarrow> int \<Rightarrow> json \<Rightarrow> tm option option res" where
  "read_expiry tz now raw =
     (if \<not> truthy raw then Inr (Some None)
      else case raw of
        JStr s \<Rightarrow>
          (case datetime_fromisoformat s of
             Inl e \<Rightarrow> if e = ValueError then Inr None else Inl e
           | Inr t \<Rightarrow>
               let t' = (if tzinfo t = None then replace_tz t Utc else t) in
               bindr (tm_leq tz t' (utc now)) (\<lambda>gone. Inr (if gone then None else Some (Some t'))))
      | _ \<Rightarrow> Inl TypeError)"

text \<open>\<open>base64.b64decode(payload["dek"])\<close>, any failure being caught.\<close>

definition read_dek :: "(string \<times> json) list \<Rightarrow> bytes option" where
  "read_dek kvs =
     (case obj_get ''dek'' kvs of
        JStr s \<Rightarrow> if list_all (\<lambda>c. ccode c < 128) s then (case b64decode s of Inl _ \<Rightarrow> None | Inr bs \<Rightarrow> Some bs) else None
      | _ \<Rightarrow> None)"

section \<open>Facts\<close>

lemma seal_payload_opens:
  assumes "crypto_ok cr" and "json_ok payload" and "seal_payload cr nonce secret payload = Inr (sha, blob, n)"
  shows "open_payload cr secret blob n = Inr payload" and "sha = digest_of cr secret" and "n = nonce"
proof -
  have w: "wrap_dek cr nonce (encode_text (dumps payload)) (derive_token_key cr secret) = Inr (blob, n)"
    and s: "sha = digest_of cr secret"
    using assms(3) by (auto simp: seal_payload_def bindr_eq_Inr)
  show "sha = digest_of cr secret" by (rule s)
  show "n = nonce" using w open_what_was_sealed(1) [OF assms(1)] by blast
  show "open_payload cr secret blob n = Inr payload"
    using w open_what_was_sealed(1) [OF assms(1)] loads_dumps [OF assms(2)]
    by (simp add: open_payload_def)
qed

text \<open>Nothing opens but what was sealed with the key of the presented secret.\<close>

lemma open_payload_authentic:
  assumes "crypto_ok cr" and "open_payload cr secret blob nonce = Inr j"
  shows "\<exists>text. cr_seal cr (derive_token_key cr secret) nonce text = Inr blob
    \<and> bindr (decode_text text) loads = Inr j"
  using assms crypto_okD(4) [OF assms(1)] by (auto simp: open_payload_def unwrap_dek_def bindr_eq_Inr)

lemma tm_leq_later:
  assumes "tm_leq tz t (utc now) = Inr True" and "now \<le> later"
  shows "tm_leq tz t (utc later) = Inr True"
proof (cases t)
  case (Stamp w f z)
  then show ?thesis using assms by (cases z) (auto simp: tm_leq_def utc_def utcoffset_def split: if_splits)
qed (use assms in \<open>simp add: tm_leq_def utc_def\<close>)

lemma tm_leq_value: "tm_leq tz t (utc now) = Inr b \<Longrightarrow> \<exists>b'. tm_leq tz t (utc later) = Inr b'"
  by (cases t; cases "tzinfo t") (auto simp: tm_leq_def utc_def)

lemma tm_leq_error: "tm_leq tz t (utc now) = Inl e \<Longrightarrow> tm_leq tz t (utc later) = Inl e"
  by (cases t; cases "tzinfo t") (auto simp: tm_leq_def utc_def split: if_splits)

text \<open>Time only takes away: a reading that is refused stays refused, one that passes gives the same
  value whenever it passes, and an exception can only give way to a refusal.\<close>

fun fades :: "'a option res \<Rightarrow> 'a option res \<Rightarrow> bool" where
  "fades (Inr None) r = (r = Inr None)"
| "fades (Inr (Some e)) r = (r = Inr (Some e) \<or> r = Inr None)"
| "fades (Inl x) r = (r = Inl x \<or> r = Inr None)"

lemma fades_refl [simp]: "fades r r"
  by (cases "(r, r)" rule: fades.cases) auto

lemma fades_refused [simp]: "fades r (Inr None)"
  by (cases "(r, Inr None :: 'a option res)" rule: fades.cases) auto

lemma fades_bind:
  assumes "fades r r'"
  shows "fades (bindr r (\<lambda>x. case x of None \<Rightarrow> Inr None | Some y \<Rightarrow> f y)) (bindr r' (\<lambda>x. case x of None \<Rightarrow> Inr None | Some y \<Rightarrow> f y))"
  using assms by (cases "(r, r')" rule: fades.cases) auto

lemma read_expiry_fades:
  assumes "now \<le> later"
  shows "fades (read_expiry tz now raw) (read_expiry tz later raw)"
proof -
  have "fades (read_expiry tz now (JStr s)) (read_expiry tz later (JStr s))" for s
  proof (cases "datetime_fromisoformat s")
    case (Inl e)
    then show ?thesis by (simp add: read_expiry_def)
  next
    case (Inr t)
    define u where "u = (if tzinfo t = None then replace_tz t Utc else t)"
    consider (err) e where "tm_leq tz u (utc now) = Inl e" | (gone) "tm_leq tz u (utc now) = Inr True"
      | (alive) b where "tm_leq tz u (utc now) = Inr False" "tm_leq tz u (utc later) = Inr b"
      using tm_leq_value [of tz u now _ later] by (metis (full_types) sum.exhaust)
    then show ?thesis
    proof cases
      case err
      then show ?thesis using Inr tm_leq_error [OF err] by (simp add: read_expiry_def Let_def u_def)
    next
      case gone
      then show ?thesis using Inr tm_leq_later [OF gone assms] by (simp add: read_expiry_def Let_def u_def)
    next
      case alive
      then show ?thesis using Inr by (cases b) (simp_all add: read_expiry_def Let_def u_def)
    qed
  qed
  then show ?thesis by (cases raw) (simp_all add: read_expiry_def)
qed

section \<open>What the writers write\<close>

lemma read_dek_written: "bytes_ok dek \<Longrightarrow> read_dek ((''dek'', JStr (b64encode dek)) # kvs) = Some dek"
  by (simp add: read_dek_def obj_get_def b64encode_ascii b64_roundtrip)

lemma isoformat_nonempty: "is_datetime t \<Longrightarrow> isoformat tz t \<noteq> []"
  by (cases t) (auto simp: isoformat_def iso_date_def pad4_def split: prod.splits)

definition expired :: "tzdb \<Rightarrow> int \<Rightarrow> tm option \<Rightarrow> bool" where
  "expired tz now expires =
     (case expires of None \<Rightarrow> False | Some t \<Rightarrow> (case instant tz t of None \<Rightarrow> False | Some i \<Rightarrow> i \<le> now))"

text \<open>An expiry as the routes pass it on: an aware datetime of a zone with a proper offset.\<close>

definition expiry_ok :: "tzdb \<Rightarrow> tm option \<Rightarrow> bool" where
  "expiry_ok tz expires =
     (case expires of None \<Rightarrow> True | Some t \<Rightarrow> tm_ok t \<and> is_datetime t \<and> tzinfo t \<noteq> None \<and> offset_ok tz t)"

definition written_expiry :: "tzdb \<Rightarrow> tm option \<Rightarrow> json" where
  "written_expiry tz expires = (case expires of None \<Rightarrow> JNull | Some t \<Rightarrow> JStr (isoformat tz t))"

lemma read_written_expiry:
  assumes "expiry_ok tz expires"
  shows "read_expiry tz now (written_expiry tz expires) =
    Inr (if expired tz now expires then None else Some (map_option (iso_view tz) expires))"
proof (cases expires)
  case None
  then show ?thesis by (simp add: read_expiry_def written_expiry_def expired_def)
next
  case (Some t)
  then obtain w f z where t: "t = Stamp w f (Some z)"
    using assms by (cases t) (auto simp: expiry_ok_def)
  have "datetime_fromisoformat (isoformat tz t) = Inr (iso_view tz t)"
    using datetime_fromisoformat_isoformat [of t tz] assms Some by (simp add: expiry_ok_def)
  moreover have "tm_leq tz (iso_view tz t) (utc now) = Inr (w - utcoffset tz z w f \<le> now)"
    by (auto simp: t iso_view_def utc_def tm_leq_def fixed_tz_def utcoffset_def)
  moreover have "truthy (JStr (isoformat tz t))"
    using isoformat_nonempty [of t tz] t by simp
  ultimately show ?thesis
    by (simp add: Some written_expiry_def read_expiry_def expired_def t iso_view_def)
qed

section \<open>The contract of a reader\<close>

locale ticket =
  fixes read :: "int \<Rightarrow> json \<Rightarrow> 'p option res"
  assumes reading_fades: "now \<le> later \<Longrightarrow> fades (read now j) (read later j)"
begin

lemma refused_for_good: "now \<le> later \<Longrightarrow> read now j = Inr None \<Longrightarrow> read later j = Inr None"
  using reading_fades [of now later j] by simp

lemma valid_earlier: "now \<le> later \<Longrightarrow> read later j = Inr (Some p) \<Longrightarrow> read now j = Inr (Some p)"
  using reading_fades [of now later j] by (cases "(read now j, read later j)" rule: fades.cases) auto

text \<open>Over an ordered series of readings the grants come first, all the same, and the refusals after.\<close>

lemma valid_prefix:
  assumes "sorted ts" and "\<And>t. t \<in> set ts \<Longrightarrow> \<exists>r. read t j = Inr r"
  shows "\<exists>k p. map (\<lambda>t. read t j) ts = replicate k (Inr (Some p)) @ replicate (length ts - k) (Inr None)"
  using assms
proof (induction ts)
  case (Cons t ts)
  obtain r where r: "read t j = Inr r" using Cons.prems by auto
  have o: "t \<le> t'" if "t' \<in> set ts" for t' using Cons.prems(1) that by simp
  obtain k p where k: "map (\<lambda>t. read t j) ts = replicate k (Inr (Some p)) @ replicate (length ts - k) (Inr None)"
    using Cons by auto
  show ?case
  proof (cases r)
    case None
    then have "map (\<lambda>t. read t j) ts = replicate (length ts) (Inr None)"
      using refused_for_good [OF o, of _ j] r by (simp add: map_replicate_const [symmetric])
    then have "map (\<lambda>t. read t j) (t # ts) = replicate 0 (Inr (Some p)) @ replicate (length (t # ts) - 0) (Inr None)"
      using r None by simp
    then show ?thesis by blast
  next
    case (Some q)
    have "p = q" if "0 < k" "k \<le> length ts"
    proof -
      have "read (ts ! 0) j = Inr (Some p)"
        using that k by (cases ts; cases k) auto
      moreover have "ts ! 0 \<in> set ts" using that by (cases ts) auto
      ultimately show ?thesis using valid_earlier [OF o] r Some by fastforce
    qed
    moreover have "k \<le> length ts" using arg_cong [OF k, of length] by simp
    ultimately have "map (\<lambda>t. read t j) (t # ts) =
        replicate (Suc k) (Inr (Some q)) @ replicate (length (t # ts) - Suc k) (Inr None)"
      using r Some k by (cases k) simp_all
    then show ?thesis by blast
  qed
qed simp

end

section \<open>Samples\<close>

definition sample_zones :: tzdb where
  "sample_zones = \<lparr>tz_known = (\<lambda>z. z = ''UTC''), tz_off = \<lambda>z w f. 0, tz_from_utc = \<lambda>z u. (u, 0), tz_system = Utc\<rparr>"

definition sample_expiry :: tm where "sample_expiry = Stamp (738000 * DAY) 0 (Some Utc)"

lemma sample_expiry_ok: "expiry_ok sample_zones (Some sample_expiry)"
  by (simp add: expiry_ok_def sample_expiry_def sample_zones_def offset_ok_def wall_ok_def ord_ok_def MAXORD_def utcoffset_def)

lemma sample_not_expired: "\<not> expired sample_zones 0 (Some sample_expiry)" and
  sample_expired: "expired sample_zones (738000 * DAY) (Some sample_expiry)"
  by (simp_all add: expired_def sample_expiry_def utcoffset_def DAY_def)

end
