(* ===== verification/Tokens.thy ===== *)
theory Tokens
  imports Tickets
begin

text \<open>
  The API tokens of the MCP server (\<open>tokens.py\<close>): minting, parsing the plaintext, and resolving it to a
  context built from the sealed payload alone.
\<close>

section \<open>Minting and resolving\<close>

definition token_prefix :: string where "token_prefix = ''WebCalDav''"

definition modes :: "(string \<times> string) list" where
  "modes = [(''ro'', ''RO''), (''rw'', ''RW'')]"

record token_ctx =
  tx_user :: int
  tx_dek :: bytes
  tx_mode :: string
  tx_all :: bool
  tx_calendars :: "json list option"
  tx_token :: int

definition token_payload :: "tzdb \<Rightarrow> bytes \<Rightarrow> string \<Rightarrow> bool \<Rightarrow> int list \<Rightarrow> tm option \<Rightarrow> json" where
  "token_payload tz dek mode everything ids expires =
     JObj [(''dek'', JStr (b64encode dek)), (''mode'', JStr mode), (''all_calendars'', JBool everything),
           (''calendar_ids'', JArr (map JInt (sort ids))),
           (''expires_at'', case expires of None \<Rightarrow> JNull | Some t \<Rightarrow> JStr (isoformat tz t))]"

text \<open>\<open>mint_token\<close>: the plaintext, the digest, the sealed blob and its nonce.\<close>

definition mint_token ::
  "crypto \<Rightarrow> tzdb \<Rightarrow> string \<Rightarrow> bytes \<Rightarrow> bytes \<Rightarrow> string \<Rightarrow> bool \<Rightarrow> int list option \<Rightarrow> tm option
     \<Rightarrow> (string \<times> bytes \<times> bytes \<times> bytes) res"
where
  "mint_token cr tz secret nonce dek mode everything ids expires =
     (case map_of modes mode of
        None \<Rightarrow> Inl ValueError
      | Some label \<Rightarrow>
          bindr (seal_payload cr nonce secret
                   (token_payload tz dek mode everything (case ids of None \<Rightarrow> [] | Some xs \<Rightarrow> xs) expires)) (\<lambda>(sha, blob, n).
            Inr (token_prefix @ label @ secret, sha, blob, n)))"

text \<open>\<open>_parse\<close>: the mode and the secret of a plaintext.\<close>

definition parse_token :: "string \<Rightarrow> (string \<times> string) option" where
  "parse_token token =
     (if \<not> startswith token_prefix token then None
      else let rest = drop (length token_prefix) token in
        case find (\<lambda>(mode, label). startswith label rest) modes of
          None \<Rightarrow> None
        | Some (mode, label) \<Rightarrow>
            let secret = drop (length label) rest in if secret = [] then None else Some (mode, secret))"

text \<open>What \<open>resolve_token\<close> reads from the payload: the key, whether all calendars are in scope, and the
  ids otherwise. \<open>None\<close> is a refusal; a payload that is not an object has no \<open>get\<close>.\<close>

type_synonym grant = "bytes \<times> string \<times> bool \<times> json list option"

definition read_scope :: "(string \<times> json) list \<Rightarrow> (bool \<times> json list option) res" where
  "read_scope kvs =
     (if truthy (obj_get_or (JBool True) ''all_calendars'' kvs) then Inr (True, None)
      else let ids = obj_get ''calendar_ids'' kvs in
        bindr (if truthy ids then as_list ids else Inr []) (\<lambda>xs. Inr (False, Some xs)))"

definition read_token :: "tzdb \<Rightarrow> string \<Rightarrow> int \<Rightarrow> json \<Rightarrow> grant option res" where
  "read_token tz mode now payload =
     (case payload of
        JObj kvs \<Rightarrow>
          if obj_get ''mode'' kvs \<noteq> JStr mode then Inr None
          else bindr (read_expiry tz now (obj_get ''expires_at'' kvs)) (\<lambda>x.
            case x of
              None \<Rightarrow> Inr None
            | Some _ \<Rightarrow>
                (case read_dek kvs of
                   None \<Rightarrow> Inr None
                 | Some dek \<Rightarrow> bindr (read_scope kvs) (\<lambda>(everything, ids). Inr (Some (dek, mode, everything, ids)))))
      | _ \<Rightarrow> Inl AttributeError)"

text \<open>\<open>resolve_token\<close>, on the database; one clock reading stands for the two it makes.\<close>

definition touch_token :: "int \<Rightarrow> api_token \<Rightarrow> db \<Rightarrow> db" where
  "touch_token now row d =
     d\<lparr>db_tokens := update_first (\<lambda>r. t_id r = t_id row) (\<lambda>r. r\<lparr>t_used := Some (stored (utc now))\<rparr>) (db_tokens d)\<rparr>"

definition resolve_token :: "crypto \<Rightarrow> tzdb \<Rightarrow> int \<Rightarrow> string \<Rightarrow> (db, token_ctx option) io" where
  "resolve_token cr tz now token =
     (\<lambda>d. case parse_token token of
            None \<Rightarrow> (Inr None, d)
          | Some (mode, secret) \<Rightarrow>
              (case find (\<lambda>r. t_sha r = digest_of cr secret) (db_tokens d) of
                 None \<Rightarrow> (Inr None, d)
               | Some row \<Rightarrow>
                   (case open_payload cr secret (t_blob row) (t_nonce row) of
                      Inl e \<Rightarrow> (Inr None, d)
                    | Inr payload \<Rightarrow>
                        (case read_token tz mode now payload of
                           Inl e \<Rightarrow> (Inl e, d)
                         | Inr None \<Rightarrow> (Inr None, d)
                         | Inr (Some (dek, m, everything, ids)) \<Rightarrow>
                             (Inr (Some \<lparr>tx_user = t_user row, tx_dek = dek, tx_mode = m, tx_all = everything,
                                         tx_calendars = ids, tx_token = t_id row\<rparr>), touch_token now row d)))))"

section \<open>Facts\<close>

lemma read_token_fades: "now \<le> later \<Longrightarrow> fades (read_token tz mode now j) (read_token tz mode later j)"
  by (cases j) (auto simp: read_token_def intro!: fades_bind read_expiry_fades)

interpretation token_reader: ticket "read_token tz mode" for tz mode
  by unfold_locales (rule read_token_fades)

lemma modes_map: "map_of modes m = Some l \<longleftrightarrow> (m = ''ro'' \<and> l = ''RO'') \<or> (m = ''rw'' \<and> l = ''RW'')"
  by (auto simp: modes_def)

lemma parse_token_minted:
  assumes "map_of modes mode = Some label" and "secret \<noteq> []"
  shows "parse_token (token_prefix @ label @ secret) = Some (mode, secret)"
proof -
  consider "mode = ''ro''" "label = ''RO''" | "mode = ''rw''" "label = ''RW''"
    using assms(1) unfolding modes_map by blast
  then show ?thesis using assms(2) by cases (simp_all add: parse_token_def startswith_def modes_def Let_def)
qed

lemma parse_tokenD:
  assumes "parse_token token = Some (mode, secret)"
  shows "\<exists>label. map_of modes mode = Some label \<and> token = token_prefix @ label @ secret \<and> secret \<noteq> []"
proof -
  let ?rest = "drop (length token_prefix) token"
  have "startswith token_prefix token" using assms by (simp add: parse_token_def split: if_split_asm)
  then have p: "token = token_prefix @ ?rest"
    using append_take_drop_id [of "length token_prefix" token] by (simp add: startswith_def)
  obtain label where f: "find (\<lambda>(mode, label). startswith label ?rest) modes = Some (mode, label)"
    and s: "secret = drop (length label) ?rest" "secret \<noteq> []"
    using assms by (auto simp: parse_token_def Let_def split: if_split_asm option.split_asm prod.split_asm)
  have m: "(mode, label) \<in> set modes" "startswith label ?rest" using find_SomeD [OF f] by auto
  then have "?rest = label @ secret" using s append_take_drop_id [of "length label" ?rest] by (simp add: startswith_def)
  moreover have "map_of modes mode = Some label" using m(1) by (auto simp: modes_def)
  ultimately show ?thesis using p s(2) by metis
qed

lemma token_payload_ok: "json_ok (token_payload tz dek mode everything ids expires)"
  by (auto simp: token_payload_def split: option.split)

section \<open>Properties\<close>

lemma read_token_written:
  assumes "bytes_ok dek" and "expiry_ok tz expires"
  shows "read_token tz mode now (token_payload tz dek mode everything ids expires) =
    Inr (if expired tz now expires then None
         else Some (dek, mode, everything, if everything then None else Some (map JInt (sort ids))))"
  using assms read_written_expiry [OF assms(2), of now] read_dek_written [OF assms(1)]
  by (simp add: read_token_def token_payload_def obj_get_def obj_get_or_def read_scope_def written_expiry_def [symmetric])

lemma resolve_sealed:
  assumes "map_of modes mode = Some label" and "secret \<noteq> []"
    and "find (\<lambda>r. t_sha r = digest_of cr secret) (db_tokens d) = Some row"
    and "open_payload cr secret (t_blob row) (t_nonce row) = Inr (token_payload tz dek mode everything ids expires)"
    and "bytes_ok dek" and "expiry_ok tz expires"
  shows "resolve_token cr tz now (token_prefix @ label @ secret) d =
    (if expired tz now expires then (Inr None, d)
     else (Inr (Some \<lparr>tx_user = t_user row, tx_dek = dek, tx_mode = mode, tx_all = everything,
              tx_calendars = (if everything then None else Some (map JInt (sort ids))),
              tx_token = t_id row\<rparr>), touch_token now row d))"
  using assms(3,4) by (simp add: resolve_token_def parse_token_minted [OF assms(1,2)] read_token_written [OF assms(5,6)])

lemma mint_tokenD:
  assumes "crypto_ok cr" and "mint_token cr tz secret nonce dek mode everything ids expires = Inr (token, sha, blob, n)"
  obtains label where "map_of modes mode = Some label" "token = token_prefix @ label @ secret" "sha = digest_of cr secret"
    "open_payload cr secret blob n = Inr (token_payload tz dek mode everything (case ids of None \<Rightarrow> [] | Some xs \<Rightarrow> xs) expires)"
proof -
  obtain label where l: "map_of modes mode = Some label" "token = token_prefix @ label @ secret"
    and s: "seal_payload cr nonce secret (token_payload tz dek mode everything (case ids of None \<Rightarrow> [] | Some xs \<Rightarrow> xs) expires) = Inr (sha, blob, n)"
    using assms(2) by (auto simp: mint_token_def bindr_eq_Inr split: option.split_asm)
  show ?thesis using that [OF l] seal_payload_opens [OF assms(1) token_payload_ok s] by blast
qed

text \<open>A minted token works as it was granted, until it expires: resolving its plaintext gives the
  user of the row and the key, mode and scope sealed at minting, whatever the mirror columns of the row
  say, and records the use; from the instant of its expiry on it resolves to nothing.\<close>

theorem token_roundtrip:
  assumes "crypto_ok cr" and "bytes_ok dek" and "secret \<noteq> []" and "expiry_ok tz expires"
    and "mint_token cr tz secret nonce dek mode everything ids expires = Inr (token, sha, blob, n)"
    and "find (\<lambda>r. t_sha r = sha) (db_tokens d) = Some row" and "t_blob row = blob" and "t_nonce row = n"
  shows "resolve_token cr tz now token d =
    (if expired tz now expires then (Inr None, d)
     else (Inr (Some \<lparr>tx_user = t_user row, tx_dek = dek, tx_mode = mode, tx_all = everything,
              tx_calendars = (if everything then None else Some (map JInt (sort (case ids of None \<Rightarrow> [] | Some xs \<Rightarrow> xs)))),
              tx_token = t_id row\<rparr>), touch_token now row d))"
proof -
  obtain label where l: "map_of modes mode = Some label" "token = token_prefix @ label @ secret" "sha = digest_of cr secret"
    and o: "open_payload cr secret blob n = Inr (token_payload tz dek mode everything (case ids of None \<Rightarrow> [] | Some xs \<Rightarrow> xs) expires)"
    by (rule mint_tokenD [OF assms(1,5)])
  show ?thesis
    unfolding l(2) by (rule resolve_sealed [OF l(1) assms(3) _ _ assms(2,4)]) (use assms(6-8) l o in simp_all)
qed

text \<open>A row whose mirror claims more than was sealed: read and write, all calendars, no expiry.\<close>

definition sample_token_row :: "bytes \<Rightarrow> bytes \<Rightarrow> bytes \<Rightarrow> api_token" where
  "sample_token_row sha blob n = \<lparr>t_id = 4, t_user = 7, t_name = ''phone'', t_sha = sha, t_blob = blob, t_nonce = n,
     t_mode = ''rw'', t_all = True, t_expires = None, t_created = Stamp 0 0 None, t_used = None\<rparr>"

definition sample_mint :: "(string \<times> bytes \<times> bytes \<times> bytes) res" where
  "sample_mint = mint_token sample_crypto sample_zones ''s3cret'' (replicate 12 5) [1, 2, 3] ''ro'' False (Some [9, 2]) (Some sample_expiry)"

lemma sample_mint_value: "\<exists>token sha blob n. sample_mint = Inr (token, sha, blob, n) \<and> sha = digest_of sample_crypto ''s3cret''"
proof -
  have "length (derive_token_key sample_crypto ''s3cret'') = 32"
    using crypto_okD(2) [OF sample_crypto_ok] by blast
  then obtain c where "cr_seal sample_crypto (derive_token_key sample_crypto ''s3cret'') (replicate 12 5)
      (encode_text (dumps (token_payload sample_zones [1, 2, 3] ''ro'' False [9, 2] (Some sample_expiry)))) = Inr c"
    using sealed_exists [OF sample_crypto_ok, of "derive_token_key sample_crypto ''s3cret''" "replicate 12 5"] by auto
  then show ?thesis by (simp add: sample_mint_def mint_token_def modes_def seal_payload_def wrap_dek_def)
qed

definition sample_token_db :: "bytes \<Rightarrow> bytes \<Rightarrow> bytes \<Rightarrow> db" where
  "sample_token_db sha blob n = no_db\<lparr>db_tokens := [sample_token_row sha blob n]\<rparr>"

definition sample_token_ctx :: token_ctx where
  "sample_token_ctx = \<lparr>tx_user = 7, tx_dek = [1, 2, 3], tx_mode = ''ro'', tx_all = False,
     tx_calendars = Some [JInt 2, JInt 9], tx_token = 4\<rparr>"

theorem token_roundtrip_witness:
  "\<exists>token sha blob n. sample_mint = Inr (token, sha, blob, n)
     \<and> fst (resolve_token sample_crypto sample_zones 0 token (sample_token_db sha blob n)) = Inr (Some sample_token_ctx)
     \<and> fst (resolve_token sample_crypto sample_zones (738000 * DAY) token (sample_token_db sha blob n)) = Inr None"
proof -
  obtain token sha blob n where m: "sample_mint = Inr (token, sha, blob, n)" using sample_mint_value by blast
  have "fst (resolve_token sample_crypto sample_zones now token (sample_token_db sha blob n)) =
      Inr (if expired sample_zones now (Some sample_expiry) then None else Some sample_token_ctx)" for now
    using token_roundtrip [OF sample_crypto_ok _ _ sample_expiry_ok m [unfolded sample_mint_def],
        of "sample_token_db sha blob n" "sample_token_row sha blob n" now]
    by (simp add: bytes_ok_def sample_token_row_def sample_token_db_def sample_token_ctx_def)
  then show ?thesis using m sample_not_expired sample_expired by (intro exI [of _ token] exI [of _ sha] exI [of _ blob] exI [of _ n]) simp
qed

text \<open>C33: Nobody resolves a token without its secret, and nothing but the sealed payload decides: a
  plaintext that resolves carries the prefix, the label of the granted mode and a secret under whose
  key the blob of a stored row was sealed; key, mode and scope are those the sealed text states, and the
  database changes in the time of last use alone.\<close>

theorem token_authentic:
  assumes "crypto_ok cr" and "resolve_token cr tz now token d = (Inr (Some ctx), d')"
  shows "\<exists>label secret row plain kvs.
      token = token_prefix @ label @ secret \<and> map_of modes (tx_mode ctx) = Some label
    \<and> row \<in> set (db_tokens d) \<and> t_id row = tx_token ctx \<and> t_user row = tx_user ctx \<and> t_sha row = digest_of cr secret
    \<and> cr_seal cr (derive_token_key cr secret) (t_nonce row) plain = Inr (t_blob row)
    \<and> bindr (decode_text plain) loads = Inr (JObj kvs)
    \<and> obj_get ''mode'' kvs = JStr (tx_mode ctx) \<and> read_dek kvs = Some (tx_dek ctx)
    \<and> read_scope kvs = Inr (tx_all ctx, tx_calendars ctx)
    \<and> (\<exists>e. read_expiry tz now (obj_get ''expires_at'' kvs) = Inr (Some e))
    \<and> d' = touch_token now row d"
proof -
  obtain mode secret where p: "parse_token token = Some (mode, secret)"
    using assms(2) by (auto simp: resolve_token_def split: option.split_asm)
  obtain row where f: "find (\<lambda>r. t_sha r = digest_of cr secret) (db_tokens d) = Some row"
    using assms(2) p by (auto simp: resolve_token_def split: option.split_asm)
  obtain payload where o: "open_payload cr secret (t_blob row) (t_nonce row) = Inr payload"
    using assms(2) p f by (auto simp: resolve_token_def split: sum.split_asm)
  obtain dek m everything ids where r: "read_token tz mode now payload = Inr (Some (dek, m, everything, ids))"
    and c: "ctx = \<lparr>tx_user = t_user row, tx_dek = dek, tx_mode = m, tx_all = everything, tx_calendars = ids, tx_token = t_id row\<rparr>"
      "d' = touch_token now row d"
    using assms(2) p f o by (auto simp: resolve_token_def split: sum.split_asm option.split_asm)
  obtain kvs where k: "payload = JObj kvs" using r by (cases payload) (auto simp: read_token_def)
  have g: "obj_get ''mode'' kvs = JStr mode" "m = mode" "read_dek kvs = Some dek" "read_scope kvs = Inr (everything, ids)"
    "\<exists>e. read_expiry tz now (obj_get ''expires_at'' kvs) = Inr (Some e)"
    using r k by (auto simp: read_token_def bindr_eq_Inr split: if_split_asm option.split_asm)
  obtain plain where t: "cr_seal cr (derive_token_key cr secret) (t_nonce row) plain = Inr (t_blob row)"
    "bindr (decode_text plain) loads = Inr payload"
    using open_payload_authentic [OF assms(1) o] by blast
  show ?thesis
    using parse_tokenD [OF p] find_SomeD [OF f] g t c k by (auto intro!: exI [of _ row] exI [of _ plain])
qed

lemma sample_token_resolves:
  assumes "sample_mint = Inr (token, sha, blob, n)"
  shows "token = token_prefix @ ''RO'' @ ''s3cret''"
    and "resolve_token sample_crypto sample_zones 0 token (sample_token_db sha blob n) =
      (Inr (Some sample_token_ctx), touch_token 0 (sample_token_row sha blob n) (sample_token_db sha blob n))"
proof -
  obtain label where l: "map_of modes ''ro'' = Some label" "token = token_prefix @ label @ ''s3cret''"
    and o: "sha = digest_of sample_crypto ''s3cret''"
      "open_payload sample_crypto ''s3cret'' blob n = Inr (token_payload sample_zones [1, 2, 3] ''ro'' False [9, 2] (Some sample_expiry))"
    by (rule mint_tokenD [OF sample_crypto_ok assms [unfolded sample_mint_def]]) (use that in simp)
  show "token = token_prefix @ ''RO'' @ ''s3cret''" using l by (simp add: modes_def)
  have f: "find (\<lambda>r. t_sha r = digest_of sample_crypto ''s3cret'') (db_tokens (sample_token_db sha blob n)) = Some (sample_token_row sha blob n)"
    "t_blob (sample_token_row sha blob n) = blob" "t_nonce (sample_token_row sha blob n) = n"
    "t_id (sample_token_row sha blob n) = 4" "t_user (sample_token_row sha blob n) = 7"
    by (simp_all add: sample_token_db_def sample_token_row_def o(1))
  show "resolve_token sample_crypto sample_zones 0 token (sample_token_db sha blob n) =
      (Inr (Some sample_token_ctx), touch_token 0 (sample_token_row sha blob n) (sample_token_db sha blob n))"
    unfolding l(2)
    using resolve_sealed [OF l(1) _ f(1) _ _ sample_expiry_ok, of "[1, 2, 3]" False "[9, 2]" 0] o(2) sample_not_expired f(2-)
    by (simp add: bytes_ok_def sample_token_ctx_def)
qed

theorem token_authentic_witness:
  "\<exists>token sha blob n plain. sample_mint = Inr (token, sha, blob, n)
     \<and> cr_seal sample_crypto (derive_token_key sample_crypto ''s3cret'') n plain = Inr blob"
proof -
  obtain token sha blob n where m: "sample_mint = Inr (token, sha, blob, n)" using sample_mint_value by blast
  obtain label' secret plain where t: "token = token_prefix @ label' @ secret" "map_of modes ''ro'' = Some label'"
    "cr_seal sample_crypto (derive_token_key sample_crypto secret) n plain = Inr blob"
    using token_authentic [OF sample_crypto_ok sample_token_resolves(2) [OF m]]
    by (auto simp: sample_token_db_def sample_token_row_def sample_token_ctx_def)
  then have "label' = ''RO''" by (simp add: modes_def)
  then have "secret = ''s3cret''" using t(1) sample_token_resolves(1) [OF m] by simp
  then show ?thesis using m t by blast
qed

text \<open>Time only takes a token away: what it grants at a later moment it granted, unchanged, at every
  earlier one, so a token that was refused never comes back to life as long as its row stays.\<close>

theorem token_never_revives:
  assumes "fst (resolve_token cr tz later token d) = Inr (Some ctx)" and "now \<le> later"
  shows "fst (resolve_token cr tz now token d) = Inr (Some ctx)"
proof -
  obtain mode secret where p: "parse_token token = Some (mode, secret)"
    using assms(1) by (auto simp: resolve_token_def split: option.split_asm)
  obtain row where f: "find (\<lambda>r. t_sha r = digest_of cr secret) (db_tokens d) = Some row"
    using assms(1) p by (auto simp: resolve_token_def split: option.split_asm)
  obtain payload where o: "open_payload cr secret (t_blob row) (t_nonce row) = Inr payload"
    using assms(1) p f by (auto simp: resolve_token_def split: sum.split_asm)
  obtain g where r: "read_token tz mode later payload = Inr (Some g)"
    using assms(1) p f o by (auto simp: resolve_token_def split: sum.split_asm option.split_asm)
  then show ?thesis
    using assms(1) p f o token_reader.valid_earlier [OF assms(2) r] by (cases g) (simp add: resolve_token_def)
qed

theorem token_never_revives_witness:
  "\<exists>token sha blob n. sample_mint = Inr (token, sha, blob, n)
     \<and> fst (resolve_token sample_crypto sample_zones (- 5) token (sample_token_db sha blob n)) = Inr (Some sample_token_ctx)"
proof -
  obtain token sha blob n where m: "sample_mint = Inr (token, sha, blob, n)" using sample_mint_value by blast
  have "fst (resolve_token sample_crypto sample_zones 0 token (sample_token_db sha blob n)) = Inr (Some sample_token_ctx)"
    using sample_token_resolves(2) [OF m] by simp
  from token_never_revives [OF this, of "- 5"] show ?thesis using m by (intro exI) auto
qed

end
