(* ===== verification/Login.thy ===== *)
theory Login
  imports Db
begin

text \<open>
  Logging in and out, the session a request runs under, changing the password (\<open>routers/auth.py\<close>,
  \<open>deps.py\<close>), and the administration commands that provision, reset and delete users (\<open>admin.py\<close>). One
  clock reading stands for those a request makes; random bytes, the session id and the one-off
  password are arguments.
\<close>

section \<open>The session of a request\<close>

definition http :: "int \<Rightarrow> string \<Rightarrow> exn" where "http status detail = HTTPException status detail"

definition get_current_session :: "int \<Rightarrow> string option \<Rightarrow> ('s app, entry) io" where
  "get_current_session now cookie =
     (case cookie of
        None \<Rightarrow> raisei (http 401 ''Not authenticated'')
      | Some sid \<Rightarrow>
          if sid = [] then raisei (http 401 ''Not authenticated'')
          else bindi (on_store (get_session sid now)) (require (http 401 ''Session expired or invalid'')))"

definition get_unrestricted_session :: "int \<Rightarrow> string option \<Rightarrow> ('s app, entry) io" where
  "get_unrestricted_session now cookie =
     bindi (get_current_session now cookie) (\<lambda>e.
       if s_restricted e then raisei (http 403 ''Password change required'') else reti e)"

section \<open>Login and logout\<close>

definition client_ip :: "string option \<Rightarrow> string option \<Rightarrow> string" where
  "client_ip forwarded host =
     (case forwarded of
        Some (c # cs) \<Rightarrow> strip (last (split_on (CHR '','') (c # cs)))
      | _ \<Rightarrow> (case host of Some h \<Rightarrow> h | None \<Rightarrow> ''unknown''))"

definition dummy_salt :: bytes where "dummy_salt = replicate 32 0"
definition dummy_verifier :: bytes where "dummy_verifier = replicate 32 0"

definition on_limiter :: "(limiter \<Rightarrow> 'a \<times> limiter) \<Rightarrow> ('s app, 'a) io" where
  "on_limiter m = (\<lambda>a. case m (ap_limiter a) of (r, l) \<Rightarrow> (Inr r, a\<lparr>ap_limiter := l\<rparr>))"

text \<open>The reply: throttled with the seconds to wait (status 429 and \<open>Retry-After\<close>), or a session.\<close>

datatype login_reply = Throttled int | Welcome string bool

definition idle_of :: "config \<Rightarrow> prefs option \<Rightarrow> idle" where
  "idle_of g s =
     (case s of
        Some p \<Rightarrow> if \<not> p_auto_logout p then Never else Seconds (p_logout_after p)
      | None \<Rightarrow> Seconds (g_idle_timeout g))"

text \<open>The credentials: the key derived with the user's salt and parameters, or with the dummy ones.\<close>

definition login_kek :: "crypto \<Rightarrow> config \<Rightarrow> user option \<Rightarrow> string \<Rightarrow> bytes res" where
  "login_kek cr g user password =
     (case user of
        None \<Rightarrow> derive_kek cr password dummy_salt (g_argon_time g) (g_argon_memory g) (g_argon_lanes g)
      | Some u \<Rightarrow> derive_kek cr password (u_salt u) (u_time u) (u_memory u) (u_lanes u))"

definition authenticate :: "crypto \<Rightarrow> config \<Rightarrow> user option \<Rightarrow> string \<Rightarrow> (user \<times> bytes) res" where
  "authenticate cr g user password =
     bindr (login_kek cr g user password) (\<lambda>kek.
       case user of
         None \<Rightarrow> Inl (http 401 ''Invalid credentials'')
       | Some u \<Rightarrow>
           if make_verifier cr kek \<noteq> u_verifier u then Inl (http 401 ''Invalid credentials'')
           else (case unwrap_dek cr (u_wrapped_dek u) (u_dek_nonce u) kek of
                   Inl e \<Rightarrow> Inl (http 401 ''Invalid credentials'')
                 | Inr dek \<Rightarrow> Inr (u, dek)))"

definition user_by_email :: "db \<Rightarrow> string \<Rightarrow> user option" where
  "user_by_email d email = find (\<lambda>u. u_email u = email) (db_users d)"

definition login ::
  "crypto \<Rightarrow> config \<Rightarrow> int \<Rightarrow> string \<Rightarrow> string option \<Rightarrow> string option \<Rightarrow> string \<Rightarrow> string \<Rightarrow> ('s app, login_reply) io"
where
  "login cr g now sid forwarded host email password =
     (let ip = client_ip forwarded host in
      bindi (on_limiter (check_ip ip now)) (\<lambda>retry.
        case retry of
          Some n \<Rightarrow> reti (Throttled n)
        | None \<Rightarrow>
            bindi (on_limiter (\<lambda>l. ((), record_ip ip now l))) (\<lambda>_.
            bindi (ask ap_db) (\<lambda>d.
            bindi (liftr (authenticate cr g (user_by_email d email) password)) (\<lambda>(u, dek).
            bindi (on_limiter (\<lambda>l. ((), reset_ip ip l))) (\<lambda>_.
            bindi (on_store (\<lambda>st. ((), create_session sid now (u_id u) dek (u_must_change u) (idle_of g (prefs_of d (u_id u))) st))) (\<lambda>_.
            bindi update_gauge (\<lambda>_.
              reti (Welcome sid (u_must_change u))))))))))"

definition logout :: "string option \<Rightarrow> ('s app, unit) io" where
  "logout cookie =
     (case cookie of
        None \<Rightarrow> reti ()
      | Some sid \<Rightarrow>
          if sid = [] then reti ()
          else bindi (on_store (\<lambda>st. ((), delete_session sid st))) (\<lambda>_. update_gauge))"

definition session_state :: "int \<Rightarrow> string option \<Rightarrow> ('s app, status) io" where
  "session_state now cookie =
     (case cookie of
        None \<Rightarrow> raisei (http 401 ''Not authenticated'')
      | Some sid \<Rightarrow>
          if sid = [] then raisei (http 401 ''Not authenticated'')
          else bindi (on_store (session_status sid now)) (require (http 401 ''Session expired or invalid'')))"

section \<open>Changing the password\<close>

definition set_user :: "user \<Rightarrow> db \<Rightarrow> db" where
  "set_user u d = d\<lparr>db_users := update_first (\<lambda>v. u_id v = u_id u) (\<lambda>_. u) (db_users d)\<rparr>"

text \<open>The key of a user re-wrapped under a new password, with the parameters of the configuration.\<close>

definition rekey_user :: "crypto \<Rightarrow> config \<Rightarrow> bytes \<Rightarrow> bytes \<Rightarrow> string \<Rightarrow> bytes \<Rightarrow> bool \<Rightarrow> user \<Rightarrow> user res" where
  "rekey_user cr g salt nonce password dek must_change u =
     bindr (derive_kek cr password salt (g_argon_time g) (g_argon_memory g) (g_argon_lanes g)) (\<lambda>kek.
     bindr (wrap_dek cr nonce dek kek) (\<lambda>(wrapped, n).
       Inr (u\<lparr>u_salt := salt, u_time := g_argon_time g, u_memory := g_argon_memory g, u_lanes := g_argon_lanes g,
              u_wrapped_dek := wrapped, u_dek_nonce := n, u_verifier := make_verifier cr kek, u_must_change := must_change\<rparr>)))"

definition change_password ::
  "crypto \<Rightarrow> config \<Rightarrow> int \<Rightarrow> bytes \<Rightarrow> bytes \<Rightarrow> string option \<Rightarrow> string \<Rightarrow> string \<Rightarrow> ('s app, unit) io"
where
  "change_password cr g now salt nonce cookie old_password new_password =
     bindi (get_current_session now cookie) (\<lambda>e.
     if int (length new_password) < g_min_password g
     then raisei (http 400 (''New password must be at least '' @ str_int (g_min_password g) @ '' characters''))
     else
     bindi (ask ap_db) (\<lambda>d.
     bindi (require (http 404 ''User not found'') (user_of d (s_user e))) (\<lambda>u.
     bindi (liftr (derive_kek cr old_password (u_salt u) (u_time u) (u_memory u) (u_lanes u))) (\<lambda>old_kek.
     if \<not> verify_kek cr old_kek (u_verifier u) then raisei (http 401 ''Current password is incorrect'')
     else case unwrap_dek cr (u_wrapped_dek u) (u_dek_nonce u) old_kek of
       Inl x \<Rightarrow> raisei (http 401 ''Current password is incorrect'')
     | Inr dek \<Rightarrow>
         bindi (liftr (rekey_user cr g salt nonce new_password dek False u)) (\<lambda>u'.
         bindi (commit (set_user u' d)) (\<lambda>_.
           (case cookie of
              None \<Rightarrow> reti ()
            | Some sid \<Rightarrow> if sid = [] then reti ()
                else on_store (\<lambda>st. ((), update_session sid (\<lambda>s. s\<lparr>s_dek := dek, s_restricted := False\<rparr>) st)))))))))"

section \<open>Administration\<close>

text \<open>The rows that hang on a row, deleted with it through the relationships of the models.\<close>

definition drop_accounts :: "(account \<Rightarrow> bool) \<Rightarrow> db \<Rightarrow> db" where
  "drop_accounts P d =
     (let gone = map a_id (filter P (db_accounts d)) in
      d\<lparr>db_accounts := filter (\<lambda>a. \<not> P a) (db_accounts d),
        db_calendars := filter (\<lambda>c. c_account c \<notin> set gone) (db_calendars d)\<rparr>)"

definition drop_tokens :: "(api_token \<Rightarrow> bool) \<Rightarrow> db \<Rightarrow> db" where
  "drop_tokens P d =
     (let gone = map t_id (filter P (db_tokens d)) in
      d\<lparr>db_tokens := filter (\<lambda>t. \<not> P t) (db_tokens d),
        db_token_calendars := filter (\<lambda>c. tc_token c \<notin> set gone) (db_token_calendars d)\<rparr>)"

definition drop_shares :: "(share \<Rightarrow> bool) \<Rightarrow> db \<Rightarrow> db" where
  "drop_shares P d =
     (let gone = map sh_id (filter P (db_shares d)) in
      d\<lparr>db_shares := filter (\<lambda>t. \<not> P t) (db_shares d),
        db_share_calendars := filter (\<lambda>c. sc_share c \<notin> set gone) (db_share_calendars d)\<rparr>)"

definition provision_user :: "crypto \<Rightarrow> config \<Rightarrow> bytes \<Rightarrow> bytes \<Rightarrow> bytes \<Rightarrow> string \<Rightarrow> string \<Rightarrow> db \<Rightarrow> db res" where
  "provision_user cr g salt dek nonce email password d =
     (let blank = \<lparr>u_id = next_id (map u_id (db_users d)), u_email = email, u_salt = [], u_time = 0, u_memory = 0, u_lanes = 0,
                   u_wrapped_dek = [], u_dek_nonce = [], u_verifier = [], u_must_change = True\<rparr> in
      bindr (rekey_user cr g salt nonce password dek True blank) (\<lambda>u. Inr (d\<lparr>db_users := db_users d @ [u]\<rparr>)))"

text \<open>The commands: \<open>None\<close> is the error exit for a user that exists already, or does not.\<close>

definition create_user ::
  "crypto \<Rightarrow> config \<Rightarrow> bytes \<Rightarrow> bytes \<Rightarrow> bytes \<Rightarrow> string \<Rightarrow> string \<Rightarrow> (db, string option) io"
where
  "create_user cr g salt dek nonce email password =
     (\<lambda>d. case user_by_email d email of
            Some u \<Rightarrow> (Inr None, d)
          | None \<Rightarrow> (case provision_user cr g salt dek nonce email password d of
                       Inl e \<Rightarrow> (Inl e, d) | Inr d' \<Rightarrow> (Inr (Some password), d')))"

definition reset_user ::
  "crypto \<Rightarrow> config \<Rightarrow> bytes \<Rightarrow> bytes \<Rightarrow> bytes \<Rightarrow> string \<Rightarrow> string \<Rightarrow> (db, string option) io"
where
  "reset_user cr g salt dek nonce email password =
     (\<lambda>d. case user_by_email d email of
            None \<Rightarrow> (Inr None, d)
          | Some u \<Rightarrow>
              let d1 = drop_accounts (\<lambda>a. a_user a = u_id u) d;
                  d2 = drop_tokens (\<lambda>t. t_user t = u_id u) d1 in
              (case rekey_user cr g salt nonce password dek True u of
                 Inl e \<Rightarrow> (Inl e, d)
               | Inr u' \<Rightarrow> (Inr (Some password), set_user u' d2)))"

definition delete_user :: "string \<Rightarrow> (db, bool) io" where
  "delete_user email =
     (\<lambda>d. case user_by_email d email of
            None \<Rightarrow> (Inr False, d)
          | Some u \<Rightarrow>
              let d1 = drop_accounts (\<lambda>a. a_user a = u_id u) d;
                  d2 = drop_tokens (\<lambda>t. t_user t = u_id u) d1;
                  d3 = drop_shares (\<lambda>s. sh_user s = u_id u) d2 in
              (Inr True, d3\<lparr>db_prefs := filter (\<lambda>(i, p). i \<noteq> u_id u) (db_prefs d3),
                            db_users := filter (\<lambda>v. u_id v \<noteq> u_id u) (db_users d3)\<rparr>))"

section \<open>Facts\<close>

lemma on_simps [simp]:
  "on_store m a = (case m (ap_store a) of (r, st) \<Rightarrow> (Inr r, a\<lparr>ap_store := st\<rparr>))"
  "on_limiter k a = (case k (ap_limiter a) of (q, l) \<Rightarrow> (Inr q, a\<lparr>ap_limiter := l\<rparr>))"
  by (simp_all add: on_store_def on_limiter_def)

lemma authenticateD:
  assumes "authenticate cr g user password = Inr (u, dek)"
  shows "user = Some u" and "\<exists>kek. derive_kek cr password (u_salt u) (u_time u) (u_memory u) (u_lanes u) = Inr kek
    \<and> make_verifier cr kek = u_verifier u \<and> unwrap_dek cr (u_wrapped_dek u) (u_dek_nonce u) kek = Inr dek"
  using assms by (auto simp: authenticate_def login_kek_def bindr_eq_Inr split: option.split_asm if_split_asm sum.split_asm)

lemma authenticate_eq:
  "authenticate cr g (Some u) password = Inr (v, dek) \<longleftrightarrow> v = u \<and>
     (\<exists>kek. derive_kek cr password (u_salt u) (u_time u) (u_memory u) (u_lanes u) = Inr kek
        \<and> make_verifier cr kek = u_verifier u \<and> unwrap_dek cr (u_wrapped_dek u) (u_dek_nonce u) kek = Inr dek)"
  by (auto simp: authenticate_def login_kek_def bindr_eq_Inr split: if_split_asm sum.split_asm)

lemma rekey_user_authenticates:
  assumes "crypto_ok cr" and "rekey_user cr g salt nonce password dek must u = Inr u'"
  shows "authenticate cr g' (Some u') password = Inr (u', dek)" "u_id u' = u_id u" "u_email u' = u_email u" "u_must_change u' = must"
proof -
  let ?u = "\<lambda>kek wrapped n. u\<lparr>u_salt := salt, u_time := g_argon_time g, u_memory := g_argon_memory g, u_lanes := g_argon_lanes g,
              u_wrapped_dek := wrapped, u_dek_nonce := n, u_verifier := make_verifier cr kek, u_must_change := must\<rparr>"
  obtain kek where k: "derive_kek cr password salt (g_argon_time g) (g_argon_memory g) (g_argon_lanes g) = Inr kek"
    and r: "bindr (wrap_dek cr nonce dek kek) (\<lambda>(wrapped, n). Inr (?u kek wrapped n)) = Inr u'"
    using assms(2) unfolding rekey_user_def bindr_eq_Inr [of "derive_kek cr password salt _ _ _"] by blast
  obtain wrapped n where w: "wrap_dek cr nonce dek kek = Inr (wrapped, n)"
    using r by (cases "wrap_dek cr nonce dek kek") auto
  with r have u': "u' = ?u kek wrapped n" by simp
  have "unwrap_dek cr wrapped n kek = Inr dek" using w open_what_was_sealed(1) [OF assms(1), of nonce dek kek wrapped n] by simp
  with k u' show "authenticate cr g' (Some u') password = Inr (u', dek)" by (simp add: authenticate_eq)
  show "u_id u' = u_id u" "u_email u' = u_email u" "u_must_change u' = must" using u' by simp_all
qed

text \<open>Two passwords that a row of the user table cannot tell apart: the keys derived from them with its
  parameters have one verifier.\<close>

definition same_verifier :: "crypto \<Rightarrow> user \<Rightarrow> string \<Rightarrow> string \<Rightarrow> bool" where
  "same_verifier cr u p q \<longleftrightarrow> (\<exists>k k'. derive_kek cr p (u_salt u) (u_time u) (u_memory u) (u_lanes u) = Inr k
     \<and> derive_kek cr q (u_salt u) (u_time u) (u_memory u) (u_lanes u) = Inr k' \<and> make_verifier cr k = make_verifier cr k')"

lemma authenticate_same_verifier:
  "authenticate cr g (Some u) p = Inr x \<Longrightarrow> authenticate cr g (Some u) q = Inr y \<Longrightarrow> same_verifier cr u p q"
  by (cases x; cases y) (auto simp: authenticate_eq same_verifier_def)

lemma rekey_user_salt: "rekey_user cr g salt nonce password dek must u = Inr u' \<Longrightarrow> u_salt u' = salt"
  by (auto simp: rekey_user_def bindr_eq_Inr)

lemma user_of_set_user:
  assumes "user_of d i = Some u" and "u_id u' = u_id u"
  shows "user_of (set_user u' d) i = Some u'"
proof -
  have i: "u_id u = i" using find_SomeD [OF assms(1) [unfolded user_of_def]] by simp
  have "find (\<lambda>v. u_id v = i) (update_first (\<lambda>v. u_id v = i) (\<lambda>_. u') (db_users d)) = Some u'"
    by (rule find_update_first [OF assms(1) [unfolded user_of_def]]) (simp only: assms(2) i)
  then show ?thesis using i assms(2) by (simp add: user_of_def set_user_def)
qed

lemma change_passwordD:
  assumes "change_password cr g now salt nonce (Some sid) old_password new_password a = (Inr (), a')"
  obtains e st u u' dek where "sid \<noteq> []" "get_session sid now (ap_store a) = (Some e, st)" "user_of (ap_db a) (s_user e) = Some u"
    "g_min_password g \<le> int (length new_password)" "authenticate cr g (Some u) old_password = Inr (u, dek)"
    "rekey_user cr g salt nonce new_password dek False u = Inr u'"
    "a' = a\<lparr>ap_db := set_user u' (ap_db a), ap_store := update_session sid (\<lambda>s. s\<lparr>s_dek := dek, s_restricted := False\<rparr>) st\<rparr>"
proof -
  have sid: "sid \<noteq> []" using assms by (auto simp: change_password_def get_current_session_def)
  obtain found st where g: "get_session sid now (ap_store a) = (found, st)" by fastforce
  then obtain e where e: "found = Some e"
    using assms sid by (cases found) (auto simp: change_password_def get_current_session_def bindi_def)
  have len: "g_min_password g \<le> int (length new_password)"
    using assms sid g e by (auto simp: change_password_def get_current_session_def bindi_def split: if_split_asm)
  then obtain u where u: "user_of (ap_db a) (s_user e) = Some u"
    using assms sid g e by (cases "user_of (ap_db a) (s_user e)") (auto simp: change_password_def get_current_session_def bindi_def)
  obtain kek where k: "derive_kek cr old_password (u_salt u) (u_time u) (u_memory u) (u_lanes u) = Inr kek"
    using assms sid g e len u
    by (cases "derive_kek cr old_password (u_salt u) (u_time u) (u_memory u) (u_lanes u)")
      (auto simp: change_password_def get_current_session_def bindi_def)
  have v: "verify_kek cr kek (u_verifier u)"
    using assms sid g e len u k by (auto simp: change_password_def get_current_session_def bindi_def split: if_split_asm)
  obtain dek where d: "unwrap_dek cr (u_wrapped_dek u) (u_dek_nonce u) kek = Inr dek"
    using assms sid g e len u k v
    by (cases "unwrap_dek cr (u_wrapped_dek u) (u_dek_nonce u) kek") (auto simp: change_password_def get_current_session_def bindi_def)
  obtain u' where r: "rekey_user cr g salt nonce new_password dek False u = Inr u'"
    using assms sid g e len u k v d
    by (cases "rekey_user cr g salt nonce new_password dek False u") (auto simp: change_password_def get_current_session_def bindi_def)
  have a': "a' = a\<lparr>ap_db := set_user u' (ap_db a), ap_store := update_session sid (\<lambda>s. s\<lparr>s_dek := dek, s_restricted := False\<rparr>) st\<rparr>"
    using assms sid g e len u k v d r by (auto simp: change_password_def get_current_session_def bindi_def)
  have old: "authenticate cr g (Some u) old_password = Inr (u, dek)"
    using k v d by (simp add: authenticate_eq verify_kek_def)
  show ?thesis by (rule that [OF sid g [unfolded e] u len old r a'])
qed

lemma changed_session:
  assumes "change_password cr g now salt nonce (Some sid) old_password new_password a = (Inr (), a')"
  shows "\<exists>e st dek. get_session sid now (ap_store a) = (Some e, st)
    \<and> ap_store a' = update_session sid (\<lambda>s. s\<lparr>s_dek := dek, s_restricted := False\<rparr>) st"
  by (rule change_passwordD [OF assms]) auto

lemma find_replaced: "find P xs = Some u \<Longrightarrow> Q u \<Longrightarrow> P u' \<Longrightarrow> find P (update_first Q (\<lambda>_. u') xs) = Some u'"
  by (induction xs) (auto split: if_splits)

section \<open>Properties\<close>

text \<open>C29: A login gives a session to nobody but who knows the password: a welcome means that a user with
  the address exists, that the key derived from the password with the user's parameters has the stored
  verifier and opens the stored blob, and the new session holds the user, the key that was sealed
  there, and the restriction while the password must be changed. A throttled or failing login changes
  neither the database nor the sessions.\<close>

theorem login_sound:
  assumes "crypto_ok cr" and "login cr g now sid forwarded host email password a = (r, a')"
  shows "ap_db a' = ap_db a \<and> ap_world a' = ap_world a
    \<and> (case r of
         Inr (Welcome s must) \<Rightarrow>
           (\<exists>u kek dek. user_by_email (ap_db a) email = Some u
              \<and> derive_kek cr password (u_salt u) (u_time u) (u_memory u) (u_lanes u) = Inr kek
              \<and> make_verifier cr kek = u_verifier u \<and> cr_seal cr kek (u_dek_nonce u) dek = Inr (u_wrapped_dek u)
              \<and> s = sid \<and> must = u_must_change u
              \<and> map_of (st_sessions (ap_store a')) sid = Some \<lparr>s_user = u_id u, s_dek = dek, s_last_seen = now,
                   s_restricted = must, s_idle = idle_of g (prefs_of (ap_db a) (u_id u))\<rparr>)
       | _ \<Rightarrow> ap_store a' = ap_store a \<and> ap_active a' = ap_active a)"
proof -
  let ?ip = "client_ip forwarded host"
  obtain retry l1 where c: "check_ip ?ip now (ap_limiter a) = (retry, l1)" by fastforce
  show ?thesis
  proof (cases retry)
    case (Some n)
    then show ?thesis using assms(2) c by (auto simp: login_def Let_def bindi_def)
  next
    case None
    show ?thesis
    proof (cases "authenticate cr g (user_by_email (ap_db a) email) password")
      case (Inl e)
      then show ?thesis using assms(2) c None by (auto simp: login_def Let_def bindi_def)
    next
      case (Inr p)
      obtain u dek where p: "p = (u, dek)" by (cases p)
      have auth: "authenticate cr g (user_by_email (ap_db a) email) password = Inr (u, dek)" using Inr p by simp
      obtain kek where k: "derive_kek cr password (u_salt u) (u_time u) (u_memory u) (u_lanes u) = Inr kek"
        "make_verifier cr kek = u_verifier u" "cr_seal cr kek (u_dek_nonce u) dek = Inr (u_wrapped_dek u)"
        using authenticateD(2) [OF auth] crypto_okD(4) [OF assms(1)] by (auto simp: unwrap_dek_def)
      have "(r, a') = (Inr (Welcome sid (u_must_change u)), a')" "ap_db a' = ap_db a" "ap_world a' = ap_world a"
        "map_of (st_sessions (ap_store a')) sid = Some \<lparr>s_user = u_id u, s_dek = dek, s_last_seen = now,
           s_restricted = u_must_change u, s_idle = idle_of g (prefs_of (ap_db a) (u_id u))\<rparr>"
        using assms(2) c None auth by (auto simp: login_def Let_def bindi_def create_session_def)
      then show ?thesis using k authenticateD(1) [OF auth] by auto
    qed
  qed
qed

text \<open>C30: Changing the password keeps the data: it succeeds only with the current password and a new one
  of sufficient length; afterwards the new password opens the very key the old one opened, under the
  fresh salt, and any other password, the old one included, opens the row only where its key has the
  verifier of the new one, a collision of the hashes; no change is demanded any more, nothing else in
  the database differs, and the session it was made in continues with that key, unrestricted.\<close>

theorem password_change_keeps_data:
  assumes "crypto_ok cr" and "change_password cr g now salt nonce (Some sid) old_password new_password a = (Inr (), a')"
  shows "\<exists>e st u u' dek. get_session sid now (ap_store a) = (Some e, st)
    \<and> user_of (ap_db a) (s_user e) = Some u \<and> user_of (ap_db a') (s_user e) = Some u'
    \<and> authenticate cr g (Some u) old_password = Inr (u, dek) \<and> authenticate cr g (Some u') new_password = Inr (u', dek)
    \<and> u_salt u' = salt \<and> (\<forall>p x. authenticate cr g (Some u') p = Inr x \<longrightarrow> same_verifier cr u' p new_password)
    \<and> \<not> u_must_change u' \<and> u_id u' = u_id u \<and> u_email u' = u_email u \<and> g_min_password g \<le> int (length new_password)
    \<and> ap_db a' = set_user u' (ap_db a) \<and> ap_world a' = ap_world a
    \<and> ap_store a' = update_session sid (\<lambda>s. s\<lparr>s_dek := dek, s_restricted := False\<rparr>) st"
proof (rule change_passwordD [OF assms(2)])
  fix e st u u' dek
  assume c: "get_session sid now (ap_store a) = (Some e, st)" "user_of (ap_db a) (s_user e) = Some u"
    "g_min_password g \<le> int (length new_password)" "authenticate cr g (Some u) old_password = Inr (u, dek)"
    and r: "rekey_user cr g salt nonce new_password dek False u = Inr u'"
    and a': "a' = a\<lparr>ap_db := set_user u' (ap_db a), ap_store := update_session sid (\<lambda>s. s\<lparr>s_dek := dek, s_restricted := False\<rparr>) st\<rparr>"
  note k = rekey_user_authenticates [OF assms(1) r]
  have "user_of (ap_db a') (s_user e) = Some u'" using user_of_set_user [OF c(2) k(2)] by (simp add: a')
  then show ?thesis
    using c k(1) [of g] k(2-4) rekey_user_salt [OF r] authenticate_same_verifier [OF _ k(1)] a'
    by (intro exI [of _ e] exI [of _ st] exI [of _ u] exI [of _ u'] exI [of _ dek]) auto
qed

text \<open>C31: Resetting a user replaces the key: the one-off password opens the key drawn for the reset, any
  other password only where its key has the same verifier under the fresh salt, and a change is demanded.
  The CalDAV accounts of the user with their calendars and the API tokens with their scopes are
  deleted, exactly those; no row of another user changes. The user's share links stay, although what
  they seal is the key that was replaced.\<close>

theorem reset_rotates_key:
  assumes "crypto_ok cr" and "reset_user cr g salt dek nonce email password d = (Inr (Some pw), d')"
  shows "\<exists>u u'. user_by_email d email = Some u \<and> user_by_email d' email = Some u' \<and> u_id u' = u_id u \<and> pw = password
    \<and> authenticate cr g (Some u') password = Inr (u', dek) \<and> u_must_change u' \<and> u_salt u' = salt
    \<and> (\<forall>p x. authenticate cr g (Some u') p = Inr x \<longrightarrow> same_verifier cr u' p password)
    \<and> filter (\<lambda>v. u_id v \<noteq> u_id u) (db_users d') = filter (\<lambda>v. u_id v \<noteq> u_id u) (db_users d)
    \<and> db_accounts d' = filter (\<lambda>a. a_user a \<noteq> u_id u) (db_accounts d)
    \<and> db_calendars d' = filter (\<lambda>c. \<forall>a \<in> set (db_accounts d). a_user a = u_id u \<longrightarrow> c_account c \<noteq> a_id a) (db_calendars d)
    \<and> db_tokens d' = filter (\<lambda>t. t_user t \<noteq> u_id u) (db_tokens d)
    \<and> db_token_calendars d' = filter (\<lambda>r. \<forall>t \<in> set (db_tokens d). t_user t = u_id u \<longrightarrow> tc_token r \<noteq> t_id t) (db_token_calendars d)
    \<and> db_shares d' = db_shares d \<and> db_share_calendars d' = db_share_calendars d \<and> db_prefs d' = db_prefs d"
proof -
  obtain u where u: "user_by_email d email = Some u"
    using assms(2) by (cases "user_by_email d email") (auto simp: reset_user_def)
  let ?d2 = "drop_tokens (\<lambda>t. t_user t = u_id u) (drop_accounts (\<lambda>a. a_user a = u_id u) d)"
  obtain u' where r: "rekey_user cr g salt nonce password dek True u = Inr u'"
    using assms(2) u by (cases "rekey_user cr g salt nonce password dek True u") (auto simp: reset_user_def Let_def)
  have d': "d' = set_user u' ?d2" "pw = password" using assms(2) u r by (auto simp: reset_user_def Let_def)
  note k = rekey_user_authenticates [OF assms(1) r]
  have f: "find (\<lambda>v. u_email v = email) (update_first (\<lambda>v. u_id v = u_id u') (\<lambda>_. u') (db_users d)) = Some u'"
    by (rule find_replaced [OF u [unfolded user_by_email_def]]) (simp_all add: k find_SomeD [OF u [unfolded user_by_email_def]])
  have users: "filter (\<lambda>v. u_id v \<noteq> u_id u) (db_users d') = filter (\<lambda>v. u_id v \<noteq> u_id u) (db_users d)"
    using k(2) by (simp add: d' set_user_def drop_tokens_def drop_accounts_def Let_def filter_update_first_neg)
  have rows: "db_accounts d' = filter (\<lambda>a. a_user a \<noteq> u_id u) (db_accounts d)" "db_tokens d' = filter (\<lambda>t. t_user t \<noteq> u_id u) (db_tokens d)"
    "db_calendars d' = filter (\<lambda>c. \<forall>a \<in> set (db_accounts d). a_user a = u_id u \<longrightarrow> c_account c \<noteq> a_id a) (db_calendars d)"
    "db_token_calendars d' = filter (\<lambda>r. \<forall>t \<in> set (db_tokens d). t_user t = u_id u \<longrightarrow> tc_token r \<noteq> t_id t) (db_token_calendars d)"
    "db_shares d' = db_shares d" "db_share_calendars d' = db_share_calendars d" "db_prefs d' = db_prefs d"
    by (auto simp: d' set_user_def drop_tokens_def drop_accounts_def Let_def intro!: filter_cong)
  have u': "user_by_email d' email = Some u'"
    using f by (simp add: user_by_email_def d' set_user_def drop_tokens_def drop_accounts_def Let_def)
  show ?thesis
    using u u' k(1) [of g] k(2,4) d'(2) rekey_user_salt [OF r] authenticate_same_verifier [OF _ k(1)] users rows
    by (intro exI [of _ u] exI [of _ u'] conjI) auto
qed

text \<open>A forced password change confines a session: while the restriction stands no route of the
  calendar is served under it, at any time and whatever was asked before, and the change lifts it.\<close>

theorem restricted_session_confined:
  assumes "map_of (st_sessions (ap_store a)) sid = Some e" and "s_restricted e" and "s_last_seen e \<le> now"
  shows "fst (get_unrestricted_session now (Some sid) a) \<in> {Inl (http 401 ''Not authenticated''),
      Inl (http 401 ''Session expired or invalid''), Inl (http 403 ''Password change required'')}
    \<and> (\<forall>a'. change_password cr g now salt nonce (Some sid) old_password new_password a = (Inr (), a') \<longrightarrow>
         (\<exists>e'. fst (get_unrestricted_session now (Some sid) a') = Inr e' \<and> s_user e' = s_user e))"
proof
  show "fst (get_unrestricted_session now (Some sid) a) \<in> {Inl (http 401 ''Not authenticated''),
      Inl (http 401 ''Session expired or invalid''), Inl (http 403 ''Password change required'')}"
    using assms by (auto simp: get_unrestricted_session_def get_current_session_def get_session_def bindi_def)
  show "\<forall>a'. change_password cr g now salt nonce (Some sid) old_password new_password a = (Inr (), a') \<longrightarrow>
         (\<exists>e'. fst (get_unrestricted_session now (Some sid) a') = Inr e' \<and> s_user e' = s_user e)"
  proof (intro allI impI)
    fix a' assume c: "change_password cr g now salt nonce (Some sid) old_password new_password a = (Inr (), a')"
    have sid: "sid \<noteq> []" by (rule change_passwordD [OF c])
    obtain e2 st dek where g: "get_session sid now (ap_store a) = (Some e2, st)"
      and a': "ap_store a' = update_session sid (\<lambda>s. s\<lparr>s_dek := dek, s_restricted := False\<rparr>) st"
      using changed_session [OF c] by blast
    then have alive: "\<not> idled_out (ap_store a) e now"
      using assms(1) by (auto simp: get_session_def split: if_split_asm)
    then have "\<not> idled_out (ap_store a) (e\<lparr>s_last_seen := now\<rparr>) now"
      using assms(3) by (auto simp: idled_out_def effective_timeout_def split: idle.splits)
    moreover have "map_of (st_sessions (ap_store a')) sid = Some (e\<lparr>s_last_seen := now, s_dek := dek, s_restricted := False\<rparr>)"
      "st_default (ap_store a') = st_default (ap_store a)"
      using g a' alive assms(1) by (auto simp: get_session_def update_session_def)
    ultimately show "\<exists>e'. fst (get_unrestricted_session now (Some sid) a') = Inr e' \<and> s_user e' = s_user e"
      using sid by (simp add: get_unrestricted_session_def get_current_session_def get_session_def bindi_def
          idled_out_def effective_timeout_def cong: idle.case_cong option.case_cong)
  qed
qed

section \<open>Login requests and the throttle\<close>

text \<open>A login request with its clock reading and session id, and what it adds to the history of one
  address: the times of its failed attempts, in stretches that its successes end, latest first.\<close>

record request_in =
  rq_time :: int
  rq_sid :: string
  rq_forwarded :: "string option"
  rq_host :: "string option"
  rq_email :: string
  rq_password :: string

definition serve :: "crypto \<Rightarrow> config \<Rightarrow> string \<Rightarrow> request_in \<Rightarrow> 's app \<times> int list list \<Rightarrow> 's app \<times> int list list" where
  "serve cr g ip q s =
     (case login cr g (rq_time q) (rq_sid q) (rq_forwarded q) (rq_host q) (rq_email q) (rq_password q) (fst s) of
        (r, a') \<Rightarrow>
          (a', if client_ip (rq_forwarded q) (rq_host q) \<noteq> ip then snd s
               else case r of
                 Inl e \<Rightarrow> (rq_time q # hd (snd s)) # tl (snd s)
               | Inr (Throttled n) \<Rightarrow> snd s
               | Inr (Welcome x m) \<Rightarrow> [] # snd s))"

lemma login_limiter:
  fixes forwarded host :: "string option"
  defines "ip \<equiv> client_ip forwarded host"
  assumes "login cr g now sid forwarded host email password a = (r, a')" and "check_ip ip now (ap_limiter a) = (c, l)"
  shows "(\<exists>n. c = Some n \<and> r = Inr (Throttled n) \<and> ap_limiter a' = l)
    \<or> (c = None \<and> (\<exists>e. r = Inl e) \<and> ap_limiter a' = record_ip ip now l)
    \<or> (c = None \<and> (\<exists>x m. r = Inr (Welcome x m)) \<and> ap_limiter a' = reset_ip ip (record_ip ip now l))"
proof (cases c)
  case (Some n)
  then show ?thesis using assms by (auto simp: login_def Let_def bindi_def)
next
  case None
  show ?thesis
  proof (cases "authenticate cr g (user_by_email (ap_db a) email) password")
    case (Inl e)
    then show ?thesis using assms None by (auto simp: login_def Let_def bindi_def)
  next
    case (Inr p)
    then show ?thesis using assms None by (cases p) (auto simp: login_def Let_def bindi_def)
  qed
qed

text \<open>Serving requests in the order of their clock readings is a run of the limiter's protocol.\<close>

lemma serve_logins:
  assumes "logins ip l0 (ap_limiter a, now, hist)" and "now \<le> rq_time q"
    and "serve cr g ip q (a, hist # ended) = (a', hists)"
  shows "logins ip l0 (ap_limiter a', rq_time q, hd hists) \<and> (tl hists = ended \<or> tl hists = hist # ended) \<and> hists \<noteq> []"
proof -
  let ?ip = "client_ip (rq_forwarded q) (rq_host q)"
  let ?t = "rq_time q"
  obtain r b where l: "login cr g ?t (rq_sid q) (rq_forwarded q) (rq_host q) (rq_email q) (rq_password q) a = (r, b)" by fastforce
  obtain c l' where k: "check_ip ?ip ?t (ap_limiter a) = (c, l')" by fastforce
  have ab: "a' = b" "hists = (if ?ip \<noteq> ip then hist # ended
      else case r of Inl e \<Rightarrow> (?t # hist) # ended | Inr (Throttled n) \<Rightarrow> hist # ended | Inr (Welcome x m) \<Rightarrow> [] # hist # ended)"
    using assms(3) l by (auto simp: serve_def split: sum.split login_reply.split)
  note lim = login_limiter [OF l k]
  show ?thesis
  proof (cases "?ip = ip")
    case True
    have "logins ip l0 (record_ip ip ?t l', ?t, ?t # hist)" if "c = None"
      using logins.attempt [OF assms(1,2), of ?t] k that True by simp
    then show ?thesis
      using lim True ab logins.refuse [OF assms(1,2)] logins.succeed [of ip l0 "record_ip ip ?t l'"] k by auto
  next
    case False
    have step: "logins ip l0 (x, ?t, hist)" if "logins ip l0 (y, ?t, hist)" "x \<in> {snd (check_ip ?ip ?t y), record_ip ?ip ?t y, reset_ip ?ip y}" for x y
      using logins.other [OF that(1) False order_refl that(2)] .
    have "logins ip l0 (l', ?t, hist)" using logins.other [OF assms(1) False assms(2), of l'] k by simp
    then show ?thesis using lim ab False step by auto
  qed
qed

text \<open>At every moment the failures of each stretch that count are at most the maximum.\<close>

definition in_window :: "limiter \<Rightarrow> int \<Rightarrow> int list \<Rightarrow> int" where
  "in_window l later ts = int (length (filter (\<lambda>t. later - t < rl_window l * SEC) ts))"

lemma fold_serve_logins:
  assumes "logins ip l0 (ap_limiter a, now, hist)" and "sorted (now # map rq_time qs)" and "rl_enabled l0" and "attempts_of ip l0 = []"
    and "\<forall>ts \<in> set ended. \<forall>later \<ge> now. in_window l0 later ts \<le> rl_max l0"
    and "fold (serve cr g ip) qs (a, hist # ended) = (a', hists)" and "\<forall>t \<in> set (now # map rq_time qs). t \<le> later"
  shows "\<forall>ts \<in> set hists. in_window l0 later ts \<le> rl_max l0"
  using assms(1,2,5-7)
proof (induction qs arbitrary: a now hist ended)
  case Nil
  then show ?case using logins_bounded [OF Nil.prems(1) assms(3,4)] by (auto simp: in_window_def)
next
  case (Cons q qs)
  obtain b h where s: "serve cr g ip q (a, hist # ended) = (b, h)" by fastforce
  have n: "now \<le> rq_time q" using Cons.prems(2) by simp
  note l = serve_logins [OF Cons.prems(1) n s]
  have "in_window l0 t hist \<le> rl_max l0" if "now \<le> t" for t
    using logins_bounded [OF Cons.prems(1) assms(3,4) that] by (simp add: in_window_def)
  then have "\<forall>ts \<in> set (tl h). \<forall>t \<ge> rq_time q. in_window l0 t ts \<le> rl_max l0"
    using l Cons.prems(3) n by (auto intro: order_trans)
  moreover have "h = hd h # tl h" using l by simp
  ultimately show ?case
    using Cons.IH [of b "rq_time q" "hd h" "tl h"] l Cons.prems(2,4,5) s by auto
qed

lemma concat_in_window:
  "\<forall>ts \<in> set hists. in_window l later ts \<le> m \<Longrightarrow> in_window l later (concat hists) \<le> m * int (length hists)"
  by (induction hists) (auto simp: in_window_def algebra_simps)

text \<open>C32: Guessing is throttled: of any sequence of login requests in the order of time, from any addresses
  with any credentials, the admitted failures of one address that lie within one window before a later
  moment never exceed the configured maximum in any stretch between two of its successes, so that in all
  they are at most the maximum times one more than its successes. The bound is for a stretch and not
  for the window as such: a success, for whatever account, clears the count of its address.\<close>

theorem guessing_bounded:
  assumes "fold (serve cr g ip) qs (a, [[]]) = (a', hists)" and "sorted (map rq_time qs)"
    and "rl_enabled (ap_limiter a)" and "attempts_of ip (ap_limiter a) = []" and "\<forall>q \<in> set qs. rq_time q \<le> later"
  shows "(\<forall>ts \<in> set hists. in_window (ap_limiter a) later ts \<le> rl_max (ap_limiter a))
    \<and> in_window (ap_limiter a) later (concat hists) \<le> rl_max (ap_limiter a) * int (length hists)"
proof -
  define now where "now = (case qs of [] \<Rightarrow> later | q # _ \<Rightarrow> rq_time q)"
  have now: "sorted (now # map rq_time qs)" "now \<le> later" using assms(2,5) by (auto simp: now_def split: list.split)
  have "\<forall>ts \<in> set hists. in_window (ap_limiter a) later ts \<le> rl_max (ap_limiter a)"
    by (rule fold_serve_logins [OF logins.idle now(1) assms(3,4) _ assms(1)]) (use assms(5) now(2) in auto)
  then show ?thesis using concat_in_window by blast
qed

section \<open>Witnesses\<close>

definition sample_user :: user where
  "sample_user = \<lparr>u_id = 1, u_email = ''ann'', u_salt = [7], u_time = 3, u_memory = 8, u_lanes = 1,
     u_wrapped_dek = pad32 (encode_text ''pw'' @ [7]) @ replicate 12 5 @ [1, 2, 3], u_dek_nonce = replicate 12 5,
     u_verifier = make_verifier sample_crypto (pad32 (encode_text ''pw'' @ [7])), u_must_change = True\<rparr>"

definition sample_app :: "unit app" where
  "sample_app = \<lparr>ap_world = \<lparr>w_dav = (), w_errors = \<lambda>_. 0\<rparr>,
     ap_db = no_db\<lparr>db_users := [sample_user],
       db_accounts := [\<lparr>a_id = 1, a_user = 1, a_url = ''u'', a_username = ''n'', a_password = [], a_nonce = [], a_created = Stamp 0 0 None\<rparr>]\<rparr>,
     ap_store = \<lparr>st_sessions = [], st_default = 3600\<rparr>,
     ap_limiter = \<lparr>rl_max = 1, rl_window = 300, rl_attempts = []\<rparr>, ap_active = 0\<rparr>"

definition sample_login :: "string \<Rightarrow> login_reply res \<times> unit app" where
  "sample_login pw = login sample_crypto default_config SEC ''sid'' None (Some ''1.2.3.4'') ''ann'' pw sample_app"

lemma sample_authenticates: "authenticate sample_crypto default_config (Some sample_user) ''pw'' = Inr (sample_user, [1, 2, 3])"
  by code_simp

definition logged_in :: "unit app" where "logged_in = snd (sample_login ''pw'')"

lemma sample_logged_in: "login sample_crypto default_config SEC ''sid'' None (Some ''1.2.3.4'') ''ann'' ''pw'' sample_app =
    (Inr (Welcome ''sid'' True), logged_in)"
proof -
  have "fst (sample_login ''pw'') = Inr (Welcome ''sid'' True)" by code_simp
  then show ?thesis by (metis logged_in_def prod.collapse sample_login_def)
qed

definition sample_entry :: entry where
  "sample_entry = \<lparr>s_user = 1, s_dek = [1, 2, 3], s_last_seen = SEC, s_restricted = True, s_idle = Seconds 3600\<rparr>"

lemma sample_session: "map_of (st_sessions (ap_store logged_in)) ''sid'' = Some sample_entry"
  by code_simp

theorem login_sound_witness:
  "\<exists>r a'. sample_login ''pw'' = (r, a') \<and> ap_db a' = ap_db sample_app
     \<and> (\<exists>e. map_of (st_sessions (ap_store a')) ''sid'' = Some e \<and> s_dek e = [1, 2, 3] \<and> s_restricted e)"
  using login_sound [OF sample_crypto_ok sample_logged_in] sample_logged_in sample_session
  by (auto simp: sample_login_def sample_entry_def)

definition sample_change :: "unit res \<times> unit app" where
  "sample_change = change_password sample_crypto default_config (2 * SEC) [9] (replicate 12 6) (Some ''sid'') ''pw'' ''a-longer-password'' logged_in"

lemma sample_changed: "change_password sample_crypto default_config (2 * SEC) [9] (replicate 12 6) (Some ''sid'') ''pw'' ''a-longer-password'' logged_in =
    (Inr (), snd sample_change)"
proof -
  have "fst sample_change = Inr ()" by code_simp
  then show ?thesis by (metis prod.collapse sample_change_def)
qed

theorem password_change_keeps_data_witness:
  "(\<exists>u u' dek. user_of (ap_db logged_in) 1 = Some u \<and> user_of (ap_db (snd sample_change)) 1 = Some u'
     \<and> authenticate sample_crypto default_config (Some u) ''pw'' = Inr (u, dek)
     \<and> authenticate sample_crypto default_config (Some u') ''a-longer-password'' = Inr (u', dek) \<and> \<not> u_must_change u')
   \<and> isl (authenticate sample_crypto default_config (user_of (ap_db (snd sample_change)) 1) ''pw'')"
proof
  have s: "get_session ''sid'' (2 * SEC) (ap_store logged_in) = (Some (sample_entry\<lparr>s_last_seen := 2 * SEC\<rparr>), snd (get_session ''sid'' (2 * SEC) (ap_store logged_in)))"
    unfolding prod_eq_iff by (simp, code_simp)
  show "\<exists>u u' dek. user_of (ap_db logged_in) 1 = Some u \<and> user_of (ap_db (snd sample_change)) 1 = Some u'
     \<and> authenticate sample_crypto default_config (Some u) ''pw'' = Inr (u, dek)
     \<and> authenticate sample_crypto default_config (Some u') ''a-longer-password'' = Inr (u', dek) \<and> \<not> u_must_change u'"
    using password_change_keeps_data [OF sample_crypto_ok sample_changed] s by (auto simp: sample_entry_def)
  show "isl (authenticate sample_crypto default_config (user_of (ap_db (snd sample_change)) 1) ''pw'')" by code_simp
qed

theorem restricted_session_confined_witness:
  "fst (get_unrestricted_session (2 * SEC) (Some ''sid'') logged_in) = Inl (http 403 ''Password change required'')
   \<and> (\<exists>e. fst (get_unrestricted_session (2 * SEC) (Some ''sid'') (snd sample_change)) = Inr e \<and> s_user e = 1)"
proof
  show "fst (get_unrestricted_session (2 * SEC) (Some ''sid'') logged_in) = Inl (http 403 ''Password change required'')"
    by code_simp
  have "s_restricted sample_entry" "s_last_seen sample_entry \<le> 2 * SEC" "s_user sample_entry = 1"
    by (simp_all add: sample_entry_def SEC_def)
  then show "\<exists>e. fst (get_unrestricted_session (2 * SEC) (Some ''sid'') (snd sample_change)) = Inr e \<and> s_user e = 1"
    using restricted_session_confined [OF sample_session] sample_changed by metis
qed

theorem reset_rotates_key_witness:
  "\<exists>d'. reset_user sample_crypto default_config [4] [8, 8] (replicate 12 1) ''ann'' ''one-off'' (ap_db sample_app) = (Inr (Some ''one-off''), d')
     \<and> length (db_accounts (ap_db sample_app)) = 1 \<and> (\<forall>a \<in> set (db_accounts d'). a_user a \<noteq> 1)"
proof -
  let ?r = "reset_user sample_crypto default_config [4] [8, 8] (replicate 12 1) ''ann'' ''one-off'' (ap_db sample_app)"
  have "fst ?r = Inr (Some ''one-off'')" by code_simp
  then have r: "?r = (Inr (Some ''one-off''), snd ?r)" by (metis prod.collapse)
  have u: "user_by_email (ap_db sample_app) ''ann'' = Some sample_user" by code_simp
  show ?thesis
    using reset_rotates_key [OF sample_crypto_ok r] r u by (intro exI [of _ "snd ?r"]) (auto simp: sample_user_def sample_app_def)
qed

definition guess :: "string \<Rightarrow> int \<Rightarrow> request_in" where
  "guess pw t = \<lparr>rq_time = t, rq_sid = ''x'', rq_forwarded = Some ''9.9.9.9, 1.2.3.4'', rq_host = None, rq_email = ''ann'', rq_password = pw\<rparr>"

theorem guessing_bounded_witness:
  "\<exists>a'. fold (serve sample_crypto default_config ''1.2.3.4'') [guess ''no'' SEC, guess ''no'' (2 * SEC), guess ''pw'' (302 * SEC), guess ''no'' (303 * SEC)] (sample_app, [[]])
       = (a', [[303 * SEC], [SEC]])
     \<and> in_window (ap_limiter sample_app) (304 * SEC) [303 * SEC, SEC] = 1"
proof -
  let ?qs = "[guess ''no'' SEC, guess ''no'' (2 * SEC), guess ''pw'' (302 * SEC), guess ''no'' (303 * SEC)]"
  let ?r = "fold (serve sample_crypto default_config ''1.2.3.4'') ?qs (sample_app, [[]])"
  have "snd ?r = [[303 * SEC], [SEC]]" by code_simp
  then have r: "?r = (fst ?r, [[303 * SEC], [SEC]])" by (metis prod.collapse)
  have l: "rl_enabled (ap_limiter sample_app)" "attempts_of ''1.2.3.4'' (ap_limiter sample_app) = []"
    "rl_max (ap_limiter sample_app) = 1" "rl_window (ap_limiter sample_app) = 300" by code_simp+
  have "in_window (ap_limiter sample_app) (304 * SEC) (concat [[303 * SEC], [SEC]]) \<le> rl_max (ap_limiter sample_app) * 2
    \<and> in_window (ap_limiter sample_app) (304 * SEC) [303 * SEC] \<le> rl_max (ap_limiter sample_app)"
    using guessing_bounded [OF r _ l(1,2), of "304 * SEC"] by (simp add: guess_def SEC_def)
  moreover have "in_window (ap_limiter sample_app) (304 * SEC) [303 * SEC, SEC] = 1" by (simp add: in_window_def l(4) SEC_def)
  ultimately show ?thesis using r by auto
qed

end
