(* ===== verification/Series.thy ===== *)
theory Series
  imports Dav
begin

text \<open>
  The three things a scoped edit of \<open>caldav_client.py\<close> does to a series, shared by the event and
  task operations: rebase it (rewrite the master and carry exclusions and overrides with a
  moved grid), detach one occurrence, and split it at a pivot into a truncated original and a
  new series. The contract of the part that differs per kind, the edit of the master's rule and
  extra fields, is the locale \<open>master_edit\<close>.
\<close>

section \<open>Operations\<close>

definition valarms :: "vcomp \<Rightarrow> valarm list" where
  "valarms c = filter (\<lambda>a. aname a = ''VALARM'') (csubs c)"

text \<open>The rule of an edited master: rebuilt from the request, or kept with its UNTIL carried along.\<close>

definition update_rule ::
  "tzdb \<Rightarrow> rule_in option \<Rightarrow> tm option \<Rightarrow> delta option \<Rightarrow> vcomp \<Rightarrow> vcomp res"
where
  "update_rule db rrule anchor move m =
     (case (rrule, anchor) of
        (Some r, Some a) \<Rightarrow> bindr (build_rrule db r a) (\<lambda>p. Inr (set_rrule p m))
      | _ \<Rightarrow> (case move of Some d \<Rightarrow> shift_until d m | None \<Rightarrow> Inr m))"

text \<open>Rewriting the series in place: overrides are rebound to the moved grid with their own times
  pinned, exclusions move, then the master's fields, alarms, extra fields and rule, then the
  requested resets.\<close>

definition rebase_series ::
  "'r env \<Rightarrow> kind \<Rightarrow> delta option \<Rightarrow> item_fields \<Rightarrow> (delta \<times> string) list option \<Rightarrow> (vcomp \<Rightarrow> vcomp) \<Rightarrow>
   (vcomp \<Rightarrow> vcomp res) \<Rightarrow> string list \<Rightarrow> int option \<Rightarrow> vcal \<Rightarrow> vcal res"
where
  "rebase_series env kind move f reminders fin rulef names priority ical =
     bindr (case move of
              None \<Rightarrow> Inr ical
            | Some d \<Rightarrow> map_overrides (k_name kind) (shift_override d None kind False) ical) (\<lambda>ical1.
     bindr (with_master (k_name kind) (\<lambda>m.
              bindr (case move of None \<Rightarrow> Inr m | Some d \<Rightarrow> shift_exdate d m) (\<lambda>m1.
                rulef (fin (apply_alarms reminders (k_end_key kind) (apply_fields env f kind m1))))) ical1) (\<lambda>ical2.
       if names = [] then Inr ical2
       else map_overrides (k_name kind) (reset_override env names f reminders priority kind) ical2))"

text \<open>Splitting: overrides and exclusions at or after the pivot go to the new series, shifted. The
  shift is only computed where something has to move. The master that is truncated is the first
  plain component; in an object that has none the code goes on writing to an override it may just
  have detached, and the lemmas leave such objects out (\<open>has_master\<close>).\<close>

definition new_uid :: "'r env \<Rightarrow> string" where
  "new_uid env = e_uuid env @ ''@webcaldav''"

definition before_pivot :: "tzdb \<Rightarrow> tm \<Rightarrow> tm \<Rightarrow> bool res" where
  "before_pivot db pivot t = tm_less db (as_dt t) (as_dt pivot)"

definition from_pivot :: "tzdb \<Rightarrow> tm \<Rightarrow> tm \<Rightarrow> bool res" where
  "from_pivot db pivot t = tm_leq db (as_dt pivot) (as_dt t)"

definition split_series ::
  "'r env \<Rightarrow> kind \<Rightarrow> tm \<Rightarrow> delta res \<Rightarrow> item_fields \<Rightarrow> (delta \<times> string) list option \<Rightarrow> string option \<Rightarrow> int option \<Rightarrow>
   rparts \<Rightarrow> string list \<Rightarrow> vcomp \<Rightarrow> vcal \<Rightarrow> (vcal \<times> vcal) res"
where
  "split_series env kind pivot shift f reminders status priority rule names master ical =
     (let db = e_tz env in
      bindr (pop_overrides (before_pivot db pivot) (k_name kind) ical) (\<lambda>(ical1, gone).
      bindr (mapr (\<lambda>ov. bindr shift (\<lambda>d. shift_override d (Some (new_uid env)) kind False ov)) gone) (\<lambda>moved.
      bindr (if names = [] then Inr moved
             else mapr (reset_override env names f reminders priority kind) moved) (\<lambda>migrated.
      bindr (exdates master) (\<lambda>old_ex.
      bindr (filterr (before_pivot db pivot) old_ex) (\<lambda>early.
      bindr (filterr (from_pivot db pivot) old_ex) (\<lambda>late.
      bindr (mapr (\<lambda>t. bindr shift (\<lambda>d. tm_add t d)) late) (\<lambda>migrated_ex.
      bindr (with_master (k_name kind) (\<lambda>m. truncate_until env pivot (set_exdates early m)) ical1) (\<lambda>ical2.
        Inr (ical2, series_ical env (new_uid env) f (Some rule) migrated migrated_ex reminders
                      (valarms master) kind status priority))))))))))"

text \<open>Dropping an override that stands at the pivot (it would shadow the new anchor).\<close>

definition drop_at_pivot :: "tzdb \<Rightarrow> string \<Rightarrow> tm \<Rightarrow> vcal \<Rightarrow> vcal res" where
  "drop_at_pivot db name pivot ical =
     bindr (pop_overrides (\<lambda>rid. Inr (\<not> tm_eq db (as_dt rid) (as_dt pivot))) name ical) (\<lambda>(c, _). Inr c)"

text \<open>Python's truth value of an optional string.\<close>

definition truthy :: "string option \<Rightarrow> bool" where
  "truthy s \<longleftrightarrow> s \<noteq> None \<and> s \<noteq> Some []"

text \<open>Deleting by scope, for a kind whose series are anchored on \<open>bkey\<close>: the object is dropped, or
  saved with the occurrence excluded or the series truncated and its later overrides removed.\<close>

datatype del_plan = DropObject | Rewrite vcal

definition scoped_delete ::
  "'r env \<Rightarrow> kind \<Rightarrow> (vcomp \<Rightarrow> pkey) \<Rightarrow> string \<Rightarrow> string option \<Rightarrow> vcal \<Rightarrow> del_plan res"
where
  "scoped_delete env kind bkey scope rid ical =
     (let db = e_tz env; name = k_name kind in
      case master_vevent name ical of
        None \<Rightarrow> Inr DropObject
      | Some master \<Rightarrow>
          if scope = ''all'' \<or> \<not> has_rrule master \<or> \<not> truthy rid then Inr DropObject
          else
            bindr (decoded (bkey master) master) (\<lambda>base.
            bindr (occurrence_dt db (the rid) base) (\<lambda>pivot.
              if scope = ''this'' then
                bindr (with_master name (\<lambda>m. Inr (add_exdate pivot m)) ical) (\<lambda>c. Inr (Rewrite c))
              else if scope = ''thisfuture'' then
                bindr (tm_leq db (as_dt pivot) (as_dt base)) (\<lambda>first.
                  if first then Inr DropObject
                  else
                    bindr (with_master name (truncate_until env pivot) ical) (\<lambda>ical1.
                    bindr (pop_overrides (before_pivot db pivot) name ical1) (\<lambda>(ical2, _).
                      Inr (Rewrite ical2))))
              else Inr DropObject)))"

definition execute_delete :: "'s dav \<Rightarrow> conn \<Rightarrow> dobj \<Rightarrow> del_plan \<Rightarrow> ('s world, unit) io" where
  "execute_delete dav cn obj plan =
     (case plan of
        DropObject \<Rightarrow> request (d_delete dav cn obj)
      | Rewrite ical' \<Rightarrow> request (d_save dav cn obj ical'))"

text \<open>The rule of a new item, if it has one to be anchored.\<close>

definition opt_rule :: "tzdb \<Rightarrow> rule_in option \<Rightarrow> tm option \<Rightarrow> rparts option res" where
  "opt_rule db rrule anchor =
     (case (rrule, anchor) of
        (Some r, Some a) \<Rightarrow> bindr (build_rrule db r a) (\<lambda>p. Inr (Some p))
      | _ \<Rightarrow> Inr None)"

section \<open>What a moved override is\<close>

text \<open>A slot moved by a delta; a zero delta leaves the value as it was written.\<close>

definition moved_by :: "delta \<Rightarrow> tm \<Rightarrow> tm \<Rightarrow> bool" where
  "moved_by d t t' \<longleftrightarrow> (if d = 0 then t' = t else tm_add t d = Inr t')"

text \<open>An override rebound by \<open>d\<close> (under the UID \<open>u\<close>, if given): its RECURRENCE-ID moves, and
  unless its time, title, location, description or alarms are reset, it keeps its own. Nothing else
  of it changes.\<close>

definition rebound :: "delta \<Rightarrow> string option \<Rightarrow> string list \<Rightarrow> kind \<Rightarrow> vcomp \<Rightarrow> vcomp \<Rightarrow> bool" where
  "rebound d u names kind c c' \<longleftrightarrow>
     (\<forall>r. decoded RECURRENCE_ID c = Inr r \<longrightarrow> (\<exists>r'. moved_by d r r' \<and> decoded RECURRENCE_ID c' = Inr r'))
     \<and> cvals c' UID = (case u of None \<Rightarrow> cvals c UID | Some s \<Rightarrow> [VText s])
     \<and> (''time'' \<notin> set names \<longrightarrow>
          cvals c' DTSTART = cvals c DTSTART \<and> cvals c' (k_end_key kind) = cvals c (k_end_key kind))
     \<and> (''title'' \<notin> set names \<longrightarrow> cvals c' SUMMARY = cvals c SUMMARY)
     \<and> (''location'' \<notin> set names \<longrightarrow> cvals c' LOCATION = cvals c LOCATION)
     \<and> (''description'' \<notin> set names \<longrightarrow> cvals c' DESCRIPTION = cvals c DESCRIPTION)
     \<and> (\<forall>k. k \<notin> {UID, RECURRENCE_ID, DTSTART, k_end_key kind, SUMMARY, LOCATION, DESCRIPTION, PRIORITY,
              SEQUENCE, LAST_MODIFIED} \<longrightarrow> cvals c' k = cvals c k)
     \<and> (''reminders'' \<notin> set names \<longrightarrow> csubs c' = csubs c)"

lemma rebound_reset:
  assumes "shift_override d u kind False c = Inr c1"
    and "(if names = [] then Inr c1 else reset_override env names f reminders priority kind c1) = Inr c'"
    and "kind_ok kind"
  shows "rebound d u names kind c c'"
proof -
  note F = shift_override_frame [OF assms(1,3)]
  have keep: "k \<notin> reset_keys names kind \<Longrightarrow> cvals c' k = cvals c1 k"
    and subs: "''reminders'' \<notin> set names \<Longrightarrow> csubs c' = csubs c1" for k
    using assms(2) reset_override_frame(2,3) by (auto split: if_splits)
  have rk: "RECURRENCE_ID \<notin> reset_keys names kind" "UID \<notin> reset_keys names kind"
    using assms(3) by (auto simp: reset_keys_def kind_ok_def)
  have rid: "\<exists>r'. moved_by d r r' \<and> decoded RECURRENCE_ID c' = Inr r'" if "decoded RECURRENCE_ID c = Inr r" for r
    using shift_override_rid [OF assms(1,3) that] keep [OF rk(1)]
    by (cases "d = 0") (auto simp: moved_by_def decoded_Inr)
  have uid: "cvals c' UID = (case u of None \<Rightarrow> cvals c UID | Some s \<Rightarrow> [VText s])"
    using keep [OF rk(2)] F(5,6) by (cases u) simp_all
  have time: "cvals c' k = cvals c k" if "''time'' \<notin> set names" "k = DTSTART \<or> k = k_end_key kind" for k
  proof -
    have "k \<notin> reset_keys names kind" using that assms(3) by (auto simp: reset_keys_def kind_ok_def)
    moreover have "k \<notin> {UID, RECURRENCE_ID}" using that assms(3) by (auto simp: kind_ok_def)
    ultimately show ?thesis using keep F(4) by simp
  qed
  have own: "cvals c' k = cvals c k" if "k \<notin> reset_keys names kind" "k \<noteq> UID" "k \<noteq> RECURRENCE_ID" for k
    using keep [OF that(1)] F(4) that(2,3) by simp
  have texts: "''title'' \<notin> set names \<Longrightarrow> SUMMARY \<notin> reset_keys names kind"
    "''location'' \<notin> set names \<Longrightarrow> LOCATION \<notin> reset_keys names kind"
    "''description'' \<notin> set names \<Longrightarrow> DESCRIPTION \<notin> reset_keys names kind"
    using assms(3) by (auto simp: reset_keys_def kind_ok_def)
  have rest: "cvals c' k = cvals c k" if "k \<notin> {UID, RECURRENCE_ID, DTSTART, k_end_key kind, SUMMARY, LOCATION,
      DESCRIPTION, PRIORITY, SEQUENCE, LAST_MODIFIED}" for k
    by (rule own) (use that in \<open>auto simp: reset_keys_def split: if_splits\<close>)
  show ?thesis
    unfolding rebound_def using rid uid time own [OF texts(1)] own [OF texts(2)] own [OF texts(3)] rest subs F(2) by simp
qed

lemma rebound_none:
  assumes "(if names = [] then Inr c else reset_override env names f reminders priority kind c) = Inr c'"
    and "kind_ok kind"
  shows "rebound 0 None names kind c c'"
proof -
  have "shift_override 0 None kind False c = Inr c" by (simp add: shift_override_def rekey_def)
  from rebound_reset [OF this assms] show ?thesis .
qed

lemma mapr_chain:
  assumes "mapr f xs = Inr ys" and "mapr g ys = Inr zs"
    and "\<And>x y z. f x = Inr y \<Longrightarrow> g y = Inr z \<Longrightarrow> R x z"
  shows "list_all2 R xs zs"
  using assms(1,2)
proof (induction xs arbitrary: ys zs)
  case (Cons x xs)
  then show ?case using assms(3) by (auto simp: bindr_eq_Inr)
qed simp

text \<open>The two passes over the overrides (rebind, reset) together.\<close>

lemma rebound_all:
  assumes "mapr (\<lambda>c. case move of None \<Rightarrow> Inr c | Some d \<Rightarrow> shift_override d None kind False c) xs = Inr mid"
    and "mapr (\<lambda>c. if names = [] then Inr c else reset_override env names f reminders priority kind c) mid = Inr ys"
    and "kind_ok kind"
  shows "list_all2 (rebound (case move of None \<Rightarrow> 0 | Some d \<Rightarrow> d) None names kind) xs ys"
proof (rule mapr_chain [OF assms(1,2)])
  fix x y z
  assume x: "(case move of None \<Rightarrow> Inr x | Some d \<Rightarrow> shift_override d None kind False x) = Inr y"
    and y: "(if names = [] then Inr y else reset_override env names f reminders priority kind y) = Inr z"
  show "rebound (case move of None \<Rightarrow> 0 | Some d \<Rightarrow> d) None names kind x z"
    using x rebound_none [OF y assms(3)] rebound_reset [OF _ y assms(3)] by (cases move) auto
qed

lemma rebound_migrated:
  assumes "mapr (\<lambda>c. bindr shift (\<lambda>d. shift_override d (Some u) kind False c)) xs = Inr mid"
    and "mapr (\<lambda>c. if names = [] then Inr c else reset_override env names f reminders priority kind c) mid = Inr ys"
    and "kind_ok kind"
  shows "list_all2 (\<lambda>x z. \<exists>d. shift = Inr d \<and> rebound d (Some u) names kind x z) xs ys"
proof (rule mapr_chain [OF assms(1,2)])
  fix x y z
  assume x: "bindr shift (\<lambda>d. shift_override d (Some u) kind False x) = Inr y"
    and y: "(if names = [] then Inr y else reset_override env names f reminders priority kind y) = Inr z"
  show "\<exists>d. shift = Inr d \<and> rebound d (Some u) names kind x z"
    using x rebound_reset [OF _ y assms(3)] by (auto simp: bindr_eq_Inr)
qed

lemma exdates_move:
  assumes "(case move of None \<Rightarrow> Inr m | Some d \<Rightarrow> shift_exdate d m) = Inr m1" and "exdates m = Inr ex"
  shows "\<exists>ex'. exdates m1 = Inr ex' \<and> list_all2 (moved_by (case move of None \<Rightarrow> 0 | Some d \<Rightarrow> d)) ex ex'"
proof (cases "move = None \<or> move = Some 0")
  case True
  then have "m1 = m" using assms(1) by (auto simp: shift_exdate_def)
  moreover have "list_all2 (moved_by 0) ex ex" by (simp add: moved_by_def list_all2_refl)
  ultimately show ?thesis using True assms(2) by auto
next
  case False
  then obtain d where d: "move = Some d" "d \<noteq> 0" by auto
  have "moved_by d = (\<lambda>t t'. tm_add t d = Inr t')" using d(2) by (simp add: moved_by_def fun_eq_iff)
  then show ?thesis using exdates_shift_exdate [of d m m1 ex] assms d by simp
qed

lemma same_but_update_rule: "update_rule db rrule anchor move m = Inr m' \<Longrightarrow> same_but {RRULE} m m'"
  by (auto simp: update_rule_def bindr_eq_Inr same_but_set_rrule
      split: option.splits dest: same_but_shift_until)

text \<open>The rule of an edited master: the one that is asked for, anchored at the new start, or the old
  one with its UNTIL moved and everything else of it kept.\<close>

definition rule_carried :: "delta \<Rightarrow> vcomp \<Rightarrow> vcomp \<Rightarrow> bool" where
  "rule_carried d m m' \<longleftrightarrow>
     d = 0 \<and> cvals m' RRULE = cvals m RRULE
     \<or> (\<exists>parts parts'. rrule_parts m = Inr parts \<and> rrule_parts m' = Inr parts'
          \<and> until_moved d (part UNTIL parts) (part UNTIL parts') \<and> (\<forall>k. k \<noteq> UNTIL \<longrightarrow> part k parts' = part k parts))"

lemma update_rule_result:
  assumes "update_rule db rrule (Some a) (Some d) c = Inr m'" and "cvals c RRULE = cvals m RRULE"
  shows "case rrule of
      Some r \<Rightarrow> \<exists>parts. build_rrule db r a = Inr parts \<and> rrule_parts m' = Inr parts
    | None \<Rightarrow> rule_carried d m m'"
proof (cases rrule)
  case None
  then have r: "shift_until d c = Inr m'" using assms(1) by (simp add: update_rule_def)
  have p: "rrule_parts c = rrule_parts m" using assms(2) by (simp add: rrule_parts_def)
  show ?thesis
  proof (cases "d = 0")
    case True
    then show ?thesis using None r assms(2) by (simp add: rule_carried_def shift_until_def)
  next
    case False
    then obtain parts where "rrule_parts c = Inr parts" using r by (auto simp: shift_until_def bindr_eq_Inr)
    then show ?thesis using None p shift_until_moves [OF r] by (fastforce simp: rule_carried_def)
  qed
next
  case (Some r)
  then show ?thesis using assms(1) by (auto simp: update_rule_def bindr_eq_Inr)
qed

section \<open>Rebasing\<close>

locale master_edit =
  fixes fin :: "vcomp \<Rightarrow> vcomp" and rulef :: "vcomp \<Rightarrow> vcomp res"
  assumes fin_same: "same_but {PRIORITY} c (fin c)"
    and rulef_same: "rulef c = Inr c' \<Longrightarrow> same_but {RRULE} c c'"
begin

text \<open>The master after a rebase, property by property.\<close>

lemma edited_master:
  assumes run: "bindr (case move of None \<Rightarrow> Inr m | Some d \<Rightarrow> shift_exdate d m) (\<lambda>m1.
            rulef (fin (apply_alarms reminders (k_end_key kind) (apply_fields env f kind m1)))) = Inr m'"
    and ok: "kind_ok kind"
  shows "f_start f = Some s \<Longrightarrow> decoded DTSTART m' = Inr s"
    and "k_end_key kind \<noteq> NoKey \<Longrightarrow> f_end f = Some e \<Longrightarrow> decoded (k_end_key kind) m' = Inr e"
    and "cvals m' SUMMARY = text_vals (Some (f_title f))"
    and "cvals m' LOCATION = text_vals (f_location f)" and "cvals m' DESCRIPTION = text_vals (f_description f)"
    and "k \<notin> {LAST_MODIFIED, SEQUENCE, k_end_key kind, DTSTART, SUMMARY, LOCATION, DESCRIPTION, DURATION, EXDATE,
           RRULE, PRIORITY} \<Longrightarrow> cvals m' k = cvals m k"
    and "\<exists>c. rulef c = Inr m' \<and> cvals c RRULE = cvals m RRULE"
    and "cvals m' UID = cvals m UID"
    and "is_plain name m' = is_plain name m"
    and "(case move of None \<Rightarrow> Inr m | Some d \<Rightarrow> shift_exdate d m) = Inr m1 \<Longrightarrow> exdates m' = exdates m1"
    and "csubs m' = csubs (apply_alarms reminders (k_end_key kind) (apply_fields env f kind m))"
proof -
  obtain m1 where m1: "(case move of None \<Rightarrow> Inr m | Some d \<Rightarrow> shift_exdate d m) = Inr m1"
    and r: "rulef (fin (apply_alarms reminders (k_end_key kind) (apply_fields env f kind m1))) = Inr m'"
    using run by (auto simp: bindr_eq_Inr)
  let ?a = "apply_fields env f kind m1"
  have e1: "same_but {EXDATE} m m1"
    using m1 same_but_shift_exdate by (auto split: option.splits)
  have "same_but {PRIORITY, RRULE} (apply_alarms reminders (k_end_key kind) ?a) m'"
    using same_but_trans [OF fin_same rulef_same [OF r]] by (simp add: insert_commute)
  then have v: "k \<notin> {PRIORITY, RRULE} \<Longrightarrow> cvals m' k = cvals ?a k" and nm: "cname m' = cname ?a"
    and cs: "csubs m' = csubs (apply_alarms reminders (k_end_key kind) ?a)" for k
    by (simp_all add: same_but_def)
  have m1v: "k \<noteq> EXDATE \<Longrightarrow> cvals m1 k = cvals m k" "cname m1 = cname m" "csubs m1 = csubs m" for k
    using e1 by (simp_all add: same_but_def)
  show "f_start f = Some s \<Longrightarrow> decoded DTSTART m' = Inr s"
    using apply_fields_decoded(1) [OF ok] v [of DTSTART] by (simp add: decoded_Inr)
  show "k_end_key kind \<noteq> NoKey \<Longrightarrow> f_end f = Some e \<Longrightarrow> decoded (k_end_key kind) m' = Inr e"
    using apply_fields_decoded(2) [OF ok] v [of "k_end_key kind"] ok by (auto simp: decoded_Inr kind_ok_def)
  show "cvals m' SUMMARY = text_vals (Some (f_title f))"
    using v [of SUMMARY] ok by (auto simp: apply_fields_vals kind_ok_def)
  show "cvals m' LOCATION = text_vals (f_location f)" and "cvals m' DESCRIPTION = text_vals (f_description f)"
    using v [of LOCATION] v [of DESCRIPTION] ok by (auto simp: apply_fields_vals kind_ok_def)
  show "cvals m' k = cvals m k" if "k \<notin> {LAST_MODIFIED, SEQUENCE, k_end_key kind, DTSTART, SUMMARY, LOCATION,
      DESCRIPTION, DURATION, EXDATE, RRULE, PRIORITY}"
    using v [of k] m1v(1) [of k] apply_fields_keep [OF ok, of k env f m1] that by simp
  have "cvals (fin (apply_alarms reminders (k_end_key kind) ?a)) RRULE = cvals m RRULE"
    using fin_same [of "apply_alarms reminders (k_end_key kind) ?a"] m1v(1) [of RRULE] ok
    by (auto simp: same_but_def apply_fields_vals kind_ok_def)
  then show "\<exists>c. rulef c = Inr m' \<and> cvals c RRULE = cvals m RRULE" using r by blast
  show "cvals m' UID = cvals m UID"
    using v [of UID] m1v(1) [of UID] ok by (auto simp: apply_fields_vals kind_ok_def)
  have "cvals m' RECURRENCE_ID = cvals m RECURRENCE_ID"
    using v [of RECURRENCE_ID] m1v(1) [of RECURRENCE_ID] ok by (auto simp: apply_fields_vals kind_ok_def)
  then show "is_plain name m' = is_plain name m" using nm m1v(2) by (simp add: is_plain_def chas_def)
  show "exdates m' = exdates x" if "(case move of None \<Rightarrow> Inr m | Some d \<Rightarrow> shift_exdate d m) = Inr x" for x
    using that m1 v [of EXDATE] ok by (auto simp: exdates_def apply_fields_vals kind_ok_def)
  have "chas (k_end_key kind) ?a = chas (k_end_key kind) (apply_fields env f kind m)"
      "chas DURATION ?a = chas DURATION (apply_fields env f kind m)"
    using ok m1v(1) by (auto simp: chas_def apply_fields_vals kind_ok_def)
  then show "csubs m' = csubs (apply_alarms reminders (k_end_key kind) (apply_fields env f kind m))"
    using cs m1v(3) by (simp add: apply_alarms_def has_end_def split: option.splits)
qed

text \<open>A rebase of a series with a master: the master is edited, every override is moved by the
  delta (and reset where that was asked for), nothing else changes.\<close>

lemma rebase:
  assumes run: "rebase_series env kind move f reminders fin rulef names priority cal = Inr cal'"
    and ok: "kind_ok kind" and hm: "has_master (k_name kind) cal"
    and m: "master_vevent (k_name kind) cal = Some m"
  shows "\<exists>m' mid. master_vevent (k_name kind) cal' = Some m' \<and> has_master (k_name kind) cal'
      \<and> bindr (case move of None \<Rightarrow> Inr m | Some d \<Rightarrow> shift_exdate d m) (\<lambda>m1.
            rulef (fin (apply_alarms reminders (k_end_key kind) (apply_fields env f kind m1)))) = Inr m'
      \<and> mapr (\<lambda>c. case move of None \<Rightarrow> Inr c | Some d \<Rightarrow> shift_override d None kind False c)
             (overrides (k_name kind) cal) = Inr mid
      \<and> mapr (\<lambda>c. if names = [] then Inr c else reset_override env names f reminders priority kind c) mid
          = Inr (overrides (k_name kind) cal')
      \<and> others (k_name kind) cal' = others (k_name kind) cal"
proof -
  let ?n = "k_name kind"
  obtain c1 c2 where
    c1: "(case move of None \<Rightarrow> Inr cal | Some d \<Rightarrow> map_overrides ?n (shift_override d None kind False) cal) = Inr c1"
    and c2: "with_master ?n (\<lambda>m. bindr (case move of None \<Rightarrow> Inr m | Some d \<Rightarrow> shift_exdate d m) (\<lambda>m1.
            rulef (fin (apply_alarms reminders (k_end_key kind) (apply_fields env f kind m1))))) c1 = Inr c2"
    and c3: "(if names = [] then Inr c2
       else map_overrides ?n (reset_override env names f reminders priority kind) c2) = Inr cal'"
    using run by (auto simp: rebase_series_def bindr_eq_Inr)
  have S1: "mapr (\<lambda>c. case move of None \<Rightarrow> Inr c | Some d \<Rightarrow> shift_override d None kind False c)
             (overrides ?n cal) = Inr (overrides ?n c1)
      \<and> has_master ?n c1 = has_master ?n cal \<and> master_vevent ?n c1 = master_vevent ?n cal
      \<and> others ?n c1 = others ?n cal"
  proof (cases move)
    case None
    then show ?thesis using c1 by simp
  next
    case (Some d)
    then have r: "map_overrides ?n (shift_override d None kind False) cal = Inr c1" using c1 by simp
    show ?thesis
      using map_overrides_series [OF r] shift_override_is [OF _ ok] hm Some by auto
  qed
  obtain m' where m': "bindr (case move of None \<Rightarrow> Inr m | Some d \<Rightarrow> shift_exdate d m) (\<lambda>m1.
            rulef (fin (apply_alarms reminders (k_end_key kind) (apply_fields env f kind m1)))) = Inr m'"
    and c2': "c2 = set_master ?n m' c1"
    using c2 S1 m by (auto simp: with_master_def bindr_eq_Inr)
  have "is_plain ?n m" using master_plain hm m by blast
  then have pl: "is_plain ?n m'" using edited_master(9) [OF m' ok] by simp
  have hm1: "has_master ?n c1" using S1 hm by simp
  note S2 = set_master_series [OF hm1 pl, folded c2']
  have S3: "mapr (\<lambda>c. if names = [] then Inr c else reset_override env names f reminders priority kind c)
               (overrides ?n c2) = Inr (overrides ?n cal')
      \<and> has_master ?n cal' = has_master ?n c2 \<and> master_vevent ?n cal' = master_vevent ?n c2
      \<and> others ?n cal' = others ?n c2"
  proof (cases "names = []")
    case True
    then show ?thesis using c3 by simp
  next
    case False
    then have r: "map_overrides ?n (reset_override env names f reminders priority kind) c2 = Inr cal'" using c3 by simp
    have keep: "is_override ?n c \<Longrightarrow> reset_override env names f reminders priority kind c = Inr c'
        \<Longrightarrow> is_override ?n c'" for c c'
      using reset_override_is(1) [OF _ ok] by blast
    show ?thesis using map_overrides_series [OF r keep] S2(1) False by auto
  qed
  show ?thesis using S1 S2 S3 m' by metis
qed

end

section \<open>Splitting\<close>

lemma same_but_set_exdates_truncate:
  "truncate_until env pivot (set_exdates ts m) = Inr m' \<Longrightarrow> same_but {EXDATE, RRULE} m m'"
  using same_but_trans [OF same_but_set_exdates same_but_truncate] by (fastforce simp: insert_commute)

lemma split_series_result:
  assumes run: "split_series env kind pivot shift f reminders status priority rule names m cal = Inr (old, new)"
    and ok: "kind_ok kind" and hm: "has_master (k_name kind) cal"
    and m: "master_vevent (k_name kind) cal = Some m"
  obtains m' ex early late late' mid where
    "exdates m = Inr ex" and "early = filter (\<lambda>t. before_pivot (e_tz env) pivot t = Inr True) ex"
    and "late = filter (\<lambda>t. from_pivot (e_tz env) pivot t = Inr True) ex"
    and "mapr (\<lambda>t. bindr shift (\<lambda>d. tm_add t d)) late = Inr late'"
    and "truncate_until env pivot (set_exdates early m) = Inr m'"
    and "master_vevent (k_name kind) old = Some m'" and "has_master (k_name kind) old"
    and "overrides (k_name kind) old = filter (stays (before_pivot (e_tz env) pivot)) (overrides (k_name kind) cal)"
    and "others (k_name kind) old = others (k_name kind) cal"
    and "mapr (\<lambda>ov. bindr shift (\<lambda>d. shift_override d (Some (new_uid env)) kind False ov))
           (filter (\<lambda>c. \<not> stays (before_pivot (e_tz env) pivot) c) (overrides (k_name kind) cal)) = Inr mid"
    and "mapr (\<lambda>c. if names = [] then Inr c else reset_override env names f reminders priority kind c) mid
           = Inr (overrides (k_name kind) new)"
    and "master_vevent (k_name kind) new
           = Some (series_comp env (new_uid env) f (Some rule) late' reminders (valarms m) kind status priority)"
    and "has_master (k_name kind) new" and "others (k_name kind) new = []"
proof -
  let ?n = "k_name kind" and ?db = "e_tz env"
  obtain c1 gone mid mig ex' early late late' where
    p: "pop_overrides (before_pivot ?db pivot) ?n cal = Inr (c1, gone)"
    and mid: "mapr (\<lambda>ov. bindr shift (\<lambda>d. shift_override d (Some (new_uid env)) kind False ov)) gone = Inr mid"
    and mig: "(if names = [] then Inr mid
                else mapr (reset_override env names f reminders priority kind) mid) = Inr mig"
    and ex: "exdates m = Inr ex'" and early: "filterr (before_pivot ?db pivot) ex' = Inr early"
    and late: "filterr (from_pivot ?db pivot) ex' = Inr late"
    and late': "mapr (\<lambda>t. bindr shift (\<lambda>d. tm_add t d)) late = Inr late'"
    and old: "with_master ?n (\<lambda>m. truncate_until env pivot (set_exdates early m)) c1 = Inr old"
    and new: "new = series_ical env (new_uid env) f (Some rule) mig late' reminders (valarms m) kind status priority"
    using run by (auto simp: split_series_def Let_def bindr_eq_Inr)
  note P = pop_overrides_series [OF p]
  have m1: "master_vevent ?n c1 = Some m" and hm1: "has_master ?n c1" using P(3,4) hm m by auto
  obtain m' where m': "truncate_until env pivot (set_exdates early m) = Inr m'" and o: "old = set_master ?n m' c1"
    using old m1 by (auto simp: with_master_def bindr_eq_Inr)
  have "is_plain ?n m" using master_plain hm m by blast
  then have "is_plain ?n m'" using same_but_plain [OF same_but_set_exdates_truncate [OF m']] by simp
  note S = set_master_series [OF hm1 this, folded o]
  have isov: "is_override ?n c" if cm: "c \<in> set mid" for c
  proof -
    obtain x where "x \<in> set gone" "bindr shift (\<lambda>d. shift_override d (Some (new_uid env)) kind False x) = Inr c"
      using mapr_in [OF mid cm] by blast
    then show ?thesis using P(2) shift_override_is [OF _ ok] by (auto simp: bindr_eq_Inr overrides_def)
  qed
  have mig': "mapr (\<lambda>c. if names = [] then Inr c else reset_override env names f reminders priority kind c) mid = Inr mig"
    using mig by (cases "names = []") simp_all
  have isov': "is_override ?n c" if cm: "c \<in> set mig" for c
  proof -
    obtain x where "x \<in> set mid"
      "(if names = [] then Inr x else reset_override env names f reminders priority kind x) = Inr c"
      using mapr_in [OF mig' cm] by blast
    then show ?thesis using isov [of x] reset_override_is(1) [of env names f reminders priority kind x c] ok
      by (auto split: if_splits)
  qed
  note N = series_ical_series [OF ok isov' new]
  have mid': "mapr (\<lambda>ov. bindr shift (\<lambda>d. shift_override d (Some (new_uid env)) kind False ov))
      (filter (\<lambda>c. \<not> stays (before_pivot ?db pivot) c) (overrides ?n cal)) = Inr mid"
    using mid P(2) by simp
  have "early = filter (\<lambda>t. before_pivot ?db pivot t = Inr True) ex'"
    and "late = filter (\<lambda>t. from_pivot ?db pivot t = Inr True) ex'"
    using filterr_eq_Inr [OF early] filterr_eq_Inr [OF late] by blast+
  moreover have "overrides ?n old = filter (stays (before_pivot ?db pivot)) (overrides ?n cal)"
    and "others ?n old = others ?n cal"
    using S(3,4) P(1,5) by simp_all
  moreover have "mapr (\<lambda>c. if names = [] then Inr c else reset_override env names f reminders priority kind c) mid
      = Inr (overrides ?n new)"
    using mig' N(3) by simp
  ultimately show thesis
    by (intro that [of ex' early late late' m' mid]) (use ex late' m' S(1,2) mid' N(1,2,4) in simp_all)
qed

section \<open>Deleting\<close>

lemma delete_this:
  assumes "scoped_delete env kind bkey ''this'' rid cal = Inr p"
    and "has_master (k_name kind) cal" and "master_vevent (k_name kind) cal = Some m"
    and "has_rrule m" and "truthy rid"
  shows "\<exists>base pivot cal'. p = Rewrite cal' \<and> decoded (bkey m) m = Inr base
     \<and> occurrence_dt (e_tz env) (the rid) base = Inr pivot
     \<and> master_vevent (k_name kind) cal' = Some (add_exdate pivot m)
     \<and> overrides (k_name kind) cal' = overrides (k_name kind) cal
     \<and> others (k_name kind) cal' = others (k_name kind) cal"
proof -
  from assms obtain base pivot where
    b: "decoded (bkey m) m = Inr base" "occurrence_dt (e_tz env) (the rid) base = Inr pivot"
    and p: "p = Rewrite (set_master (k_name kind) (add_exdate pivot m) cal)"
    by (auto simp: scoped_delete_def Let_def bindr_eq_Inr with_master_def)
  have "is_plain (k_name kind) (add_exdate pivot m)"
    using same_but_plain [OF same_but_add_exdate] master_plain [OF assms(2,3)] by blast
  from set_master_series [OF assms(2) this] show ?thesis using b p by blast
qed

lemma delete_future:
  assumes "scoped_delete env kind bkey ''thisfuture'' rid cal = Inr p"
    and "has_master (k_name kind) cal" and "master_vevent (k_name kind) cal = Some m"
    and "has_rrule m" and "truthy rid" and ok: "rules_ok env occ"
  shows "\<exists>base pivot. decoded (bkey m) m = Inr base \<and> occurrence_dt (e_tz env) (the rid) base = Inr pivot
     \<and> (tm_leq (e_tz env) (as_dt pivot) (as_dt base) = Inr True \<and> p = DropObject
        \<or> tm_leq (e_tz env) (as_dt pivot) (as_dt base) = Inr False
          \<and> (\<exists>cal' m'. p = Rewrite cal' \<and> cut_before env occ pivot m m' \<and> same_but {RRULE} m m'
               \<and> master_vevent (k_name kind) cal' = Some m'
               \<and> overrides (k_name kind) cal' = filter (stays (before_pivot (e_tz env) pivot)) (overrides (k_name kind) cal)
               \<and> others (k_name kind) cal' = others (k_name kind) cal))"
proof -
  let ?n = "k_name kind" and ?db = "e_tz env"
  from assms obtain base pivot first where
    b: "decoded (bkey m) m = Inr base" "occurrence_dt ?db (the rid) base = Inr pivot"
    and f: "tm_leq ?db (as_dt pivot) (as_dt base) = Inr first"
    and p: "(if first then Inr DropObject
             else bindr (with_master ?n (truncate_until env pivot) cal) (\<lambda>c1.
                  bindr (pop_overrides (before_pivot ?db pivot) ?n c1) (\<lambda>(c2, _). Inr (Rewrite c2)))) = Inr p"
    by (auto simp: scoped_delete_def Let_def bindr_eq_Inr)
  show ?thesis
  proof (cases first)
    case True
    then show ?thesis using b f p by auto
  next
    case False
    then obtain c1 c2 gone where c1: "with_master ?n (truncate_until env pivot) cal = Inr c1"
      and po: "pop_overrides (before_pivot ?db pivot) ?n c1 = Inr (c2, gone)" and p': "p = Rewrite c2"
      using p by (auto simp: bindr_eq_Inr)
    obtain m' where m': "truncate_until env pivot m = Inr m'" and c1': "c1 = set_master ?n m' cal"
      using c1 assms(3) by (auto simp: with_master_def bindr_eq_Inr)
    have "is_plain ?n m'"
      using same_but_plain [OF same_but_truncate [OF m']] master_plain [OF assms(2,3)] by simp
    note S = set_master_series [OF assms(2) this, folded c1']
    note P = pop_overrides_series [OF po]
    have "master_vevent ?n c2 = Some m'" using P(4) S(1,2) by simp
    moreover have "overrides ?n c2 = filter (stays (before_pivot ?db pivot)) (overrides ?n cal)" using P(1) S(3) by simp
    moreover have "others ?n c2 = others ?n cal" using P(5) S(4) by simp
    ultimately show ?thesis
      using b f p' truncate_cuts [OF m' ok] same_but_truncate [OF m'] False by auto
  qed
qed

end
