(* ===== verification/Samples.thy ===== *)
theory Samples
  imports Series
begin

text \<open>
  Concrete values at which the development's statements are exercised: a time zone database, an
  occurrence engine for daily rules, and calendar objects holding a daily series with an exclusion
  and an override. Nothing of the model depends on them.
\<close>

definition sample_tz :: tzdb where
  "sample_tz = \<lparr>tz_known = (\<lambda>k. k = ''Europe/Prague''), tz_off = (\<lambda>k w f. HOUR),
     tz_from_utc = (\<lambda>k u. (u + HOUR, 0)), tz_system = Utc\<rparr>"

lemma sample_tz_ok: "tzdb_ok sample_tz"
  by (simp add: tzdb_ok_def sample_tz_def)

text \<open>Daily rules with a COUNT: the occurrences themselves stand for the rule object.\<close>

definition sample_upto :: "bool \<Rightarrow> tm \<Rightarrow> tm \<Rightarrow> bool res" where
  "sample_upto inc a b = (if inc then tm_leq sample_tz a b else tm_less sample_tz a b)"

definition sample_rr :: "tm list rrule_eng" where
  "sample_rr = \<lparr>
     rr_str = (\<lambda>parts base. case part COUNT parts of
                 Some (RInt n # _) \<Rightarrow> mapr (\<lambda>i. tm_add base (int i * DAY)) [0..<nat n]
               | _ \<Rightarrow> Inr [base]),
     rr_between = (\<lambda>r a b inc. filterr (\<lambda>t. bindr (sample_upto inc a t) (\<lambda>x.
                    bindr (sample_upto inc t b) (\<lambda>y. Inr (x \<and> y)))) r),
     rr_before = (\<lambda>r t inc. bindr (filterr (\<lambda>x. sample_upto inc x t) r) (\<lambda>ts.
                    Inr (if ts = [] then None else Some (last ts)))),
     rr_list = (\<lambda>r. r)\<rparr>"

text \<open>2024-01-01 is the ordinal 738886.\<close>

definition jan :: "int \<Rightarrow> int \<Rightarrow> tm" where   \<comment> \<open>January \<open>d\<close>, 2024, \<open>h\<close> o'clock UTC\<close>
  "jan d h = Stamp ((738885 + d) * DAY + h * HOUR) 0 (Some Utc)"

definition sample_env :: "tm list env" where
  "sample_env = \<lparr>e_now = jan 1 8, e_uuid = ''u2'', e_tz = sample_tz, e_rr = sample_rr\<rparr>"

text \<open>The occurrences are in order, so the engine answers as dateutil does.\<close>

lemma sample_occurrences:
  assumes "mapr (\<lambda>i. tm_add base (int i * DAY)) [0..<n] = Inr xs"
  shows "sorted_wrt (\<lambda>x y. tm_less db x y = Inr True) xs"
proof -
  have n: "length xs = n" using mapr_length [OF assms] by simp
  have x: "tm_add base (int i * DAY) = Inr (xs ! i)" if "i < n" for i
    using assms that by (auto simp: mapr_eq_Inr list_all2_conv_all_nth)
  have less: "tm_less db x y = Inr True"
    if "tm_add base (int i * DAY) = Inr x" "tm_add base (int j * DAY) = Inr y" "i < j" for x y i j
    using that DAY_pos(1) by (cases base; cases "tzinfo base") (auto simp: tm_less_def mult_less_0_iff split: if_splits)
  have "tm_less db (xs ! i) (xs ! j) = Inr True" if "i < j" "j < n" for i j
    using less [OF x x] that by simp
  then show ?thesis using n by (simp add: sorted_wrt_iff_nth_less)
qed

lemma tm_less_leq: "tm_less db x y = Inr True \<Longrightarrow> tm_leq db x y = Inr True"
  by (auto simp: tm_less_def tm_leq_def bindr_eq_Inr)

lemma tm_leq_refl: "tm_leq db x y = Inr b \<Longrightarrow> tm_leq db x x = Inr True"
  by (cases x; cases y; cases "tzinfo x") (auto simp: tm_leq_def)

lemma sample_rules_ok: "rules_ok sample_env set"
  unfolding rules_ok_def
proof (intro allI impI)
  fix parts b r
  assume "rr_str (e_rr sample_env) parts b = Inr r"
  then have "(\<exists>n. mapr (\<lambda>i. tm_add b (int i * DAY)) [0..<n] = Inr r) \<or> r = [b]"
    by (auto simp: sample_env_def sample_rr_def split: option.splits list.splits rval.splits)
  then have sorted: "sorted_wrt (\<lambda>x y. tm_less sample_tz x y = Inr True) r"
    using sample_occurrences by auto
  have irrefl: "tm_less sample_tz x x \<noteq> Inr True" for x
    by (cases x; cases "tzinfo x") (auto simp: tm_less_def)
  have dist: "distinct r"
    using sorted irrefl by (induction r) auto
  have last: "last_up_to sample_tz inc (set r) t l"
    if b: "rr_before (e_rr sample_env) r t inc = Inr (Some l)" for t inc l
  proof -
    let ?P = "\<lambda>x. sample_upto inc x t = Inr True"
    obtain ts where ts: "filterr (\<lambda>x. sample_upto inc x t) r = Inr ts" "ts \<noteq> []" "l = last ts"
      using b by (auto simp: sample_env_def sample_rr_def bindr_eq_Inr split: if_splits)
    then have f: "ts = filter ?P r" using filterr_eq_Inr by blast
    have s: "sorted_wrt (\<lambda>x y. tm_less sample_tz x y = Inr True) (butlast ts @ [l])"
      using sorted ts(2,3) by (simp add: f sorted_wrt_filter)
    have l: "l \<in> set r" "sample_upto inc l t = Inr True" using ts(2,3) f last_in_set [of ts] by auto
    have "tm_leq sample_tz l l = Inr True"
      using l(2) tm_leq_refl tm_less_leq by (auto simp: sample_upto_def split: if_splits)
    moreover have "set ts = insert l (set (butlast ts))"
      using ts(2,3) append_butlast_last_id [of ts] by (metis list.simps(15) rotate1.simps(2) set_rotate1)
    ultimately have "tm_leq sample_tz x l = Inr True" if "x \<in> set ts" for x
      using that s tm_less_leq by (auto simp: sorted_wrt_append)
    then show ?thesis using l f by (auto simp: last_up_to_def up_to_def sample_upto_def)
  qed
  have none: "\<not> up_to sample_tz inc x t" if "rr_before (e_rr sample_env) r t inc = Inr None" "x \<in> set r" for t inc x
  proof -
    have "filterr (\<lambda>x. sample_upto inc x t) r = Inr []"
      using that(1) by (auto simp: sample_env_def sample_rr_def bindr_eq_Inr split: if_splits)
    then have "filter (\<lambda>x. sample_upto inc x t = Inr True) r = []" using filterr_eq_Inr by metis
    then show ?thesis using that(2) by (auto simp: filter_empty_conv up_to_def sample_upto_def)
  qed
  have btw: "distinct xs \<and> set xs = {x \<in> set r. up_to sample_tz inc a x \<and> up_to sample_tz inc x t}"
    if "rr_between (e_rr sample_env) r a t inc = Inr xs" for a t inc xs
  proof -
    let ?P = "\<lambda>x. bindr (sample_upto inc a x) (\<lambda>p. bindr (sample_upto inc x t) (\<lambda>q. Inr (p \<and> q)))"
    have "filterr ?P r = Inr xs" using that by (simp add: sample_env_def sample_rr_def)
    then have "xs = filter (\<lambda>x. ?P x = Inr True) r" using filterr_eq_Inr by blast
    then show ?thesis using dist by (auto simp: bindr_eq_Inr up_to_def sample_upto_def)
  qed
  have tz: "e_tz sample_env = sample_tz" by (simp add: sample_env_def)
  show "(\<forall>t inc l. rr_before (e_rr sample_env) r t inc = Inr (Some l) \<longrightarrow> last_up_to (e_tz sample_env) inc (set r) t l)
     \<and> (\<forall>t inc. rr_before (e_rr sample_env) r t inc = Inr None \<longrightarrow> (\<forall>x \<in> set r. \<not> up_to (e_tz sample_env) inc x t))
     \<and> (\<forall>a t inc xs. rr_between (e_rr sample_env) r a t inc = Inr xs \<longrightarrow>
          distinct xs \<and> set xs = {x \<in> set r. up_to (e_tz sample_env) inc a x \<and> up_to (e_tz sample_env) inc x t})"
    unfolding tz using last none btw by blast
qed

definition sample_fields :: item_fields where
  "sample_fields = \<lparr>f_title = ''Standup'', f_start = None, f_end = None, f_location = None,
     f_description = None\<rparr>"

text \<open>A daily series of five one-hour items from January 1, 10:00, without January 2, and with
  January 4 moved to 15:00.\<close>

definition sample_alarm :: valarm where
  "sample_alarm = display_alarm True (- 10 * MINUTE, ''START'')"

definition sample_master :: "string \<Rightarrow> pkey \<Rightarrow> vcomp" where
  "sample_master name end_key =
     (cadd EXDATE (VTms [jan 2 10]) (cadd RRULE (VRecur [(FREQ, [RStr ''DAILY'']), (COUNT, [RInt 5])])
       (cadd end_key (VTm (jan 1 11)) (cadd DTSTART (VTm (jan 1 10)) (cadd SUMMARY (VText ''Standup'')
         (cadd UID (VText ''u1'') (new_comp name)))))))\<lparr>csubs := [sample_alarm]\<rparr>"

definition sample_override :: "string \<Rightarrow> pkey \<Rightarrow> vcomp" where
  "sample_override name end_key =
     cadd end_key (VTm (jan 4 16)) (cadd DTSTART (VTm (jan 4 15)) (cadd SUMMARY (VText ''Late'')
       (cadd RECURRENCE_ID (VTm (jan 4 10)) (cadd UID (VText ''u1'') (new_comp name)))))"

definition sample_cal :: "string \<Rightarrow> pkey \<Rightarrow> vcal" where
  "sample_cal name end_key = new_cal\<lparr>vsubs := [sample_master name end_key, sample_override name end_key]\<rparr>"

text \<open>An all-day daily series, and a server that stores objects by UID and may refuse new ones.\<close>

definition sample_allday :: "string \<Rightarrow> vcomp" where
  "sample_allday name =
     cadd RRULE (VRecur [(FREQ, [RStr ''DAILY''])]) (cadd DTSTART (VTm (Day 738886))
       (cadd UID (VText ''u1'') (new_comp name)))"

definition sample_dav :: "bool \<Rightarrow> (string \<times> vcal) list dav" where
  "sample_dav accepts = \<lparr>
     d_by_uid = (\<lambda>cn url name uid s. (case map_of s uid of
                   None \<Rightarrow> Inl DavNotFound | Some c \<Rightarrow> Inr \<lparr>o_url = uid, o_ical = Inr c\<rparr>, s)),
     d_save = (\<lambda>cn obj c s. (Inr (), AList.update (o_url obj) c s)),
     d_delete = (\<lambda>cn obj s. (Inr (), AList.delete (o_url obj) s)),
     d_create = (\<lambda>cn url name c s. if accepts then (Inr (), s @ [(''new'', c)]) else (Inl DavError, s)),
     d_search = (\<lambda>cn url q s. (Inr (map (\<lambda>(u, c). \<lparr>o_url = u, o_ical = Inr c\<rparr>) s), s)),
     d_sync_token = (\<lambda>cn url s. (Inr ''token'', s)),
     d_calendars = (\<lambda>cn s. (Inr [], s))\<rparr>"

definition sample_cn :: conn where
  "sample_cn = \<lparr>cn_url = ''https://dav'', cn_user = ''ann'', cn_password = ''pw''\<rparr>"

definition sample_world :: "(string \<times> vcal) list world" where
  "sample_world = \<lparr>w_dav = [(''u1'', sample_cal ''VEVENT'' DTEND)], w_errors = (\<lambda>_. 0)\<rparr>"

lemma isr_obtain: "(case r of Inl _ \<Rightarrow> False | Inr _ \<Rightarrow> True) \<Longrightarrow> \<exists>x. r = Inr x"
  by (cases r) simp_all

end
