(* ===== verification/Urls.thy ===== *)
theory Urls
  imports Samples "HOL-Library.Monad_Syntax"
begin

text \<open>
  The SSRF guard on CalDAV URLs, the colours and the discovery of calendars, and the external
  origin used in share links. Of the standard library this theory models what the guard rests on,
  as CPython 3.12 has it: \<open>urlsplit\<close> with its \<open>hostname\<close> and \<open>port\<close>, and the parsing and
  classification of addresses by \<open>ipaddress\<close>. Name resolution is a parameter. URLs are ASCII.
\<close>

section \<open>Strings\<close>

definition is_alpha :: "char \<Rightarrow> bool" where
  "is_alpha c \<longleftrightarrow> (65 \<le> ccode c \<and> ccode c \<le> 90) \<or> (97 \<le> ccode c \<and> ccode c \<le> 122)"

text \<open>\<open>s.partition(c)\<close>: the parts around the first occurrence, if there is one.\<close>

definition partition_at :: "char \<Rightarrow> string \<Rightarrow> string \<times> string option" where
  "partition_at c s =
     (case dropWhile (\<lambda>x. x \<noteq> c) s of [] \<Rightarrow> (s, None) | _ # rest \<Rightarrow> (takeWhile (\<lambda>x. x \<noteq> c) s, Some rest))"

definition after_last :: "char \<Rightarrow> string \<Rightarrow> string" where   \<comment> \<open>\<open>s.rpartition(c)[2]\<close>\<close>
  "after_last c s = rev (takeWhile (\<lambda>x. x \<noteq> c) (rev s))"

definition is_hex :: "char \<Rightarrow> bool" where
  "is_hex c \<longleftrightarrow> is_digit c \<or> (65 \<le> ccode c \<and> ccode c \<le> 70) \<or> (97 \<le> ccode c \<and> ccode c \<le> 102)"

definition hex_val :: "char \<Rightarrow> int" where
  "hex_val c = (if is_digit c then digit_val c else int (ccode (to_lower c)) - 87)"

section \<open>Addresses\<close>

text \<open>\<open>ipaddress.ip_address\<close>: an IPv4 or IPv6 address as its number.\<close>

datatype ip = V4 int | V6 int

definition parse_octet :: "string \<Rightarrow> int option" where
  "parse_octet s =
     (if all_digits s \<and> length s \<le> 3 \<and> (s = ''0'' \<or> hd s \<noteq> CHR ''0'') \<and> digits_val s \<le> 255
      then Some (digits_val s) else None)"

definition parse_v4 :: "string \<Rightarrow> int option" where
  "parse_v4 s =
     (case map parse_octet (split_on (CHR ''.'') s) of
        [Some a, Some b, Some c, Some d] \<Rightarrow> Some (((a * 256 + b) * 256 + c) * 256 + d)
      | _ \<Rightarrow> None)"

definition parse_hextet :: "string \<Rightarrow> int option" where
  "parse_hextet s =
     (if s \<noteq> [] \<and> list_all is_hex s \<and> length s \<le> 4 then Some (foldl (\<lambda>v c. 16 * v + hex_val c) 0 s) else None)"

fun all_some :: "'a option list \<Rightarrow> 'a list option" where
  "all_some [] = Some []"
| "all_some (None # xs) = None"
| "all_some (Some x # xs) = map_option (Cons x) (all_some xs)"

definition hextets :: "string list \<Rightarrow> int list option" where
  "hextets ps = all_some (map parse_hextet ps)"

definition join_hextets :: "int list \<Rightarrow> int" where
  "join_hextets hs = foldl (\<lambda>v h. 65536 * v + h) 0 hs"

text \<open>The parts between the colons; a dotted last part stands for two groups. At most one inner part
  is empty (\<open>::\<close>), and a leading or trailing empty part must belong to it.\<close>

definition v6_groups :: "string \<Rightarrow> int list option option" where
  "v6_groups s =
     (let parts = split_on (CHR '':'') s in
      if length parts < 3 then None
      else if CHR ''.'' \<in> set (last parts)
      then map_option (\<lambda>v. Some [v div 65536, v mod 65536]) (parse_v4 (last parts))
      else Some None)"

definition fill_gap :: "string list \<Rightarrow> int list \<Rightarrow> nat \<Rightarrow> int option" where
  "fill_gap parts tail i =
     (let n = length parts + length tail;
          hi = (if hd parts = [] then i - 1 else i);
          at_end = (tail = [] \<and> last parts = []);
          lo = (if at_end then n - i - 2 else n - i - 1) in
      if hd parts = [] \<and> hi \<noteq> 0 \<or> at_end \<and> lo \<noteq> 0 \<or> 8 \<le> hi + lo then None
      else
        (case (hextets (take hi parts), hextets (if lo = 0 then [] else drop (i + 1) parts)) of
           (Some hs, Some ls) \<Rightarrow> Some (join_hextets (hs @ replicate (8 - (hi + lo)) 0 @ ls @ tail))
         | _ \<Rightarrow> None))"

definition expand_groups :: "string list \<Rightarrow> int list \<Rightarrow> int option" where
  "expand_groups parts tail =
     (let n = length parts + length tail in
      if n > 9 then None
      else (case filter (\<lambda>i. i < length parts \<and> parts ! i = []) [1..<n - 1] of
          [] \<Rightarrow> if n \<noteq> 8 then None else map_option (\<lambda>hs. join_hextets (hs @ tail)) (hextets parts)
        | [i] \<Rightarrow> fill_gap parts tail i
        | _ \<Rightarrow> None))"

definition parse_v6 :: "string \<Rightarrow> int option" where
  "parse_v6 s =
     (case partition_at (CHR ''%'') s of
        (addr, scope) \<Rightarrow>
          (case scope of
             Some z \<Rightarrow> if z = [] \<or> CHR ''%'' \<in> set z then None else Some ()
           | None \<Rightarrow> Some ()) \<bind> (\<lambda>_.
          if addr = [] \<or> length addr > 45 then None
          else v6_groups addr \<bind> (\<lambda>g.
            let parts = split_on (CHR '':'') addr in
            case g of None \<Rightarrow> expand_groups parts [] | Some tail \<Rightarrow> expand_groups (butlast parts) tail)))"

definition ip_address :: "string \<Rightarrow> ip res" where
  "ip_address s =
     (if CHR ''/'' \<in> set s then Inl ValueError
      else case parse_v4 s of
             Some a \<Rightarrow> Inr (V4 a)
           | None \<Rightarrow> (case parse_v6 s of Some a \<Rightarrow> Inr (V6 a) | None \<Rightarrow> Inl ValueError))"

text \<open>Networks: an address lies in one when they agree on the prefix.\<close>

definition in_net :: "nat \<Rightarrow> int \<times> nat \<Rightarrow> int \<Rightarrow> bool" where
  "in_net width net a \<longleftrightarrow> a div 2 ^ (width - snd net) = fst net div 2 ^ (width - snd net)"

definition v4 :: "int \<Rightarrow> int \<Rightarrow> int \<Rightarrow> int \<Rightarrow> int" where
  "v4 a b c d = ((a * 256 + b) * 256 + c) * 256 + d"

definition v6 :: "int list \<Rightarrow> int" where   \<comment> \<open>the leading groups, the rest zero\<close>
  "v6 hs = join_hextets (hs @ replicate (8 - length hs) 0)"

definition v4_private :: "(int \<times> nat) list" where
  "v4_private = [(v4 0 0 0 0, 8), (v4 10 0 0 0, 8), (v4 127 0 0 0, 8), (v4 169 254 0 0, 16),
     (v4 172 16 0 0, 12), (v4 192 0 0 0, 24), (v4 192 0 0 170, 31), (v4 192 0 2 0, 24),
     (v4 192 168 0 0, 16), (v4 198 18 0 0, 15), (v4 198 51 100 0, 24), (v4 203 0 113 0, 24),
     (v4 240 0 0 0, 4), (v4 255 255 255 255, 32)]"

definition v4_private_except :: "(int \<times> nat) list" where
  "v4_private_except = [(v4 192 0 0 9, 32), (v4 192 0 0 10, 32)]"

definition v6_private :: "(int \<times> nat) list" where
  "v6_private = [(1, 128), (0, 128), (v6 [0, 0, 0, 0, 0, 0xffff], 96), (v6 [0x64, 0xff9b, 1], 48),
     (v6 [0x100], 64), (v6 [0x2001], 23), (v6 [0x2001, 0xdb8], 32), (v6 [0x2002], 16), (v6 [0x3fff], 20),
     (v6 [0xfc00], 7), (v6 [0xfe80], 10)]"

definition v6_private_except :: "(int \<times> nat) list" where
  "v6_private_except = [(v6 [0x2001, 1] + 1, 128), (v6 [0x2001, 1] + 2, 128), (v6 [0x2001, 3], 32),
     (v6 [0x2001, 4, 0x112], 48), (v6 [0x2001, 0x20], 28), (v6 [0x2001, 0x30], 28)]"

definition v6_reserved :: "(int \<times> nat) list" where
  "v6_reserved = [(0, 8), (v6 [0x100], 8), (v6 [0x200], 7), (v6 [0x400], 6), (v6 [0x800], 5), (v6 [0x1000], 4),
     (v6 [0x4000], 3), (v6 [0x6000], 3), (v6 [0x8000], 3), (v6 [0xa000], 3), (v6 [0xc000], 3), (v6 [0xe000], 4),
     (v6 [0xf000], 5), (v6 [0xf800], 6), (v6 [0xfe00], 9)]"

definition in_any :: "nat \<Rightarrow> (int \<times> nat) list \<Rightarrow> int \<Rightarrow> bool" where
  "in_any width nets a \<longleftrightarrow> list_ex (\<lambda>n. in_net width n a) nets"

fun is_private :: "ip \<Rightarrow> bool" where
  "is_private (V4 a) = (in_any 32 v4_private a \<and> \<not> in_any 32 v4_private_except a)"
| "is_private (V6 a) = (in_any 128 v6_private a \<and> \<not> in_any 128 v6_private_except a)"

fun is_loopback :: "ip \<Rightarrow> bool" where
  "is_loopback (V4 a) = in_net 32 (v4 127 0 0 0, 8) a"
| "is_loopback (V6 a) = (a = 1)"

fun is_link_local :: "ip \<Rightarrow> bool" where
  "is_link_local (V4 a) = in_net 32 (v4 169 254 0 0, 16) a"
| "is_link_local (V6 a) = in_net 128 (v6 [0xfe80], 10) a"

fun is_reserved :: "ip \<Rightarrow> bool" where
  "is_reserved (V4 a) = in_net 32 (v4 240 0 0 0, 4) a"
| "is_reserved (V6 a) = in_any 128 v6_reserved a"

fun is_multicast :: "ip \<Rightarrow> bool" where
  "is_multicast (V4 a) = in_net 32 (v4 224 0 0 0, 4) a"
| "is_multicast (V6 a) = in_net 128 (v6 [0xff00], 8) a"

fun is_unspecified :: "ip \<Rightarrow> bool" where
  "is_unspecified (V4 a) = (a = 0)"
| "is_unspecified (V6 a) = (a = 0)"

text \<open>\<open>_ip_is_unsafe\<close>, with the \<open>ipv4_mapped\<close> address of an IPv6 address unwrapped.\<close>

fun unmapped :: "ip \<Rightarrow> ip" where
  "unmapped (V4 a) = V4 a"
| "unmapped (V6 a) = (if a div 2 ^ 32 = 0xffff then V4 (a mod 2 ^ 32) else V6 a)"

definition ip_is_unsafe :: "ip \<Rightarrow> bool" where
  "ip_is_unsafe addr =
     (let a = unmapped addr in
      is_private a \<or> is_loopback a \<or> is_link_local a \<or> is_reserved a \<or> is_multicast a \<or> is_unspecified a)"

section \<open>URLs\<close>

definition is_scheme_char :: "char \<Rightarrow> bool" where
  "is_scheme_char c \<longleftrightarrow> is_alpha c \<or> is_digit c \<or> c \<in> {CHR ''+'', CHR ''-'', CHR ''.''}"

text \<open>\<open>urlsplit\<close>: the scheme and the network location.\<close>

definition clean_url :: "string \<Rightarrow> string" where
  "clean_url url =
     filter (\<lambda>c. ccode c \<notin> {9, 10, 13}) (dropWhile (\<lambda>c. ccode c \<le> 32) url)"

definition split_scheme :: "string \<Rightarrow> string \<times> string" where
  "split_scheme url =
     (case partition_at (CHR '':'') url of
        (s, Some rest) \<Rightarrow>
          if s \<noteq> [] \<and> is_alpha (hd s) \<and> list_all is_scheme_char s then (lower s, rest) else ([], url)
      | (s, None) \<Rightarrow> ([], url))"

definition bracketed_ok :: "string \<Rightarrow> bool" where
  "bracketed_ok netloc =
     (case partition_at (CHR ''['') (after_last (CHR ''@'') netloc) of
        (lead, Some bracketed) \<Rightarrow>
          lead = [] \<and>
          (case partition_at (CHR '']'') bracketed of
             (host, port) \<Rightarrow>
               (case port of Some (c # cs) \<Rightarrow> c = CHR '':'' | _ \<Rightarrow> True) \<and>
               (if startswith ''v'' host then
                  (case dropWhile is_hex (drop 1 host) of
                     d # rest \<Rightarrow> takeWhile is_hex (drop 1 host) \<noteq> [] \<and> d = CHR ''.'' \<and> rest \<noteq> []
                   | [] \<Rightarrow> False)
                else (case ip_address host of Inr (V6 _) \<Rightarrow> True | _ \<Rightarrow> False)))
      | (host, None) \<Rightarrow> (case ip_address (fst (partition_at (CHR '':'') host)) of Inr (V6 _) \<Rightarrow> True | _ \<Rightarrow> False))"

record url_parts =
  u_scheme :: string
  u_netloc :: string

definition urlsplit :: "string \<Rightarrow> url_parts res" where
  "urlsplit url0 =
     (case split_scheme (clean_url url0) of
        (scheme, url) \<Rightarrow>
          let netloc = (if startswith ''//'' url
                        then takeWhile (\<lambda>c. c \<notin> {CHR ''/'', CHR ''?'', CHR ''#''}) (drop 2 url) else []);
              lb = CHR ''['' \<in> set netloc; rb = CHR '']'' \<in> set netloc in
          if lb \<noteq> rb then Inl ValueError
          else if lb \<and> \<not> bracketed_ok netloc then Inl ValueError
          else Inr \<lparr>u_scheme = scheme, u_netloc = netloc\<rparr>)"

definition hostinfo :: "string \<Rightarrow> string \<times> string option" where
  "hostinfo netloc =
     (let info = after_last (CHR ''@'') netloc in
      case partition_at (CHR ''['') info of
        (_, Some bracketed) \<Rightarrow>
          (case partition_at (CHR '']'') bracketed of
             (host, rest) \<Rightarrow>
               (host, snd (partition_at (CHR '':'') (case rest of Some r \<Rightarrow> r | None \<Rightarrow> []))))
      | (_, None) \<Rightarrow> partition_at (CHR '':'') info)"

definition url_hostname :: "string \<Rightarrow> string option" where
  "url_hostname netloc =
     (let host = fst (hostinfo netloc) in
      if host = [] then None
      else (case partition_at (CHR ''%'') host of
              (h, Some zone) \<Rightarrow> Some (lower h @ [CHR ''%''] @ zone)
            | (h, None) \<Rightarrow> Some (lower h)))"

definition url_port :: "string \<Rightarrow> int option res" where
  "url_port netloc =
     (case snd (hostinfo netloc) of
        None \<Rightarrow> Inr None
      | Some p \<Rightarrow>
          if all_digits p then (if digits_val p \<le> 65535 then Inr (Some (digits_val p)) else Inl ValueError)
          else Inl ValueError)"

section \<open>The guard\<close>

text \<open>\<open>socket.getaddrinfo\<close>: the addresses, or its failure to resolve, or another exception.\<close>

datatype dns_answer = Addresses "string list" | Unresolved | Failed exn

definition check_address :: "string \<Rightarrow> unit res" where
  "check_address addr =
     (case ip_address addr of
        Inl _ \<Rightarrow> Inl (UnsafeURLError (''unparseable address: '' @ addr))
      | Inr a \<Rightarrow> if ip_is_unsafe a then Inl (UnsafeURLError (''address not allowed: '' @ addr)) else Inr ())"

definition validate_caldav_url :: "(string \<Rightarrow> int option \<Rightarrow> dns_answer) \<Rightarrow> string \<Rightarrow> unit res" where
  "validate_caldav_url dns url =
     bindr (urlsplit url) (\<lambda>parts.
     if u_scheme parts \<notin> {''http'', ''https''} then Inl (UnsafeURLError (''unsupported scheme: '' @ u_scheme parts))
     else (case url_hostname (u_netloc parts) of
        None \<Rightarrow> Inl (UnsafeURLError ''missing host'')
      | Some host \<Rightarrow>
          bindr (url_port (u_netloc parts)) (\<lambda>port.
            case dns host (if port = Some 0 then None else port) of
              Failed e \<Rightarrow> Inl e
            | Unresolved \<Rightarrow> Inl (UnsafeURLError (''could not resolve host: '' @ host))
            | Addresses as \<Rightarrow>
                if as = [] then Inl (UnsafeURLError (''could not resolve host: '' @ host))
                else bindr (mapr check_address (remdups as)) (\<lambda>_. Inr ()))))"

section \<open>Colours and discovery\<close>

text \<open>\<open>_normalize_color\<close>.\<close>

definition normalize_color :: "string option \<Rightarrow> string option" where
  "normalize_color val =
     (case val of
        None \<Rightarrow> None
      | Some raw \<Rightarrow>
          if raw = [] then None
          else
            let s = strip raw;
                s = (if startswith ''#'' s then s else CHR ''#'' # s);
                s = (if length s = 9 then take 7 s else if length s = 5 then take 4 s else s) in
            if length s = 4 \<or> length s = 7 then Some s else None)"

record cal_info =
  ci_id :: string
  ci_name :: string
  ci_color :: string

definition cal_info_of :: "string \<times> string option res \<times> string option res \<Rightarrow> cal_info" where
  "cal_info_of c =
     (case c of (url, display, color) \<Rightarrow>
        \<lparr>ci_id = url,
         ci_name = (case display of Inr (Some (x # xs)) \<Rightarrow> x # xs | _ \<Rightarrow> ''Unnamed''),
         ci_color = (case color of
                       Inl _ \<Rightarrow> ''#3788d8''
                     | Inr v \<Rightarrow> (case normalize_color v of Some s \<Rightarrow> s | None \<Rightarrow> ''#3788d8''))\<rparr>)"

definition sync_discover_calendars :: "'s dav \<Rightarrow> conn \<Rightarrow> ('s world, cal_info list) io" where
  "sync_discover_calendars dav cn =
     bindi (request (d_calendars dav cn)) (\<lambda>cs. reti (map cal_info_of cs))"

definition discover_calendars :: "'s dav \<Rightarrow> conn \<Rightarrow> ('s world, cal_info list) io" where
  "discover_calendars dav cn = observed ''discover'' False (sync_discover_calendars dav cn)"

section \<open>The external origin\<close>

record http_req =
  hr_scheme :: string
  hr_netloc :: string
  hr_header :: "string \<Rightarrow> string option"

definition base_url :: "string option \<Rightarrow> http_req \<Rightarrow> string" where
  "base_url public req =
     (case public of
        Some (c # cs) \<Rightarrow> rstrip_char (CHR ''/'') (c # cs)
      | _ \<Rightarrow>
          let proto = (case hr_header req ''x-forwarded-proto'' of Some p \<Rightarrow> p | None \<Rightarrow> hr_scheme req);
              host = (case hr_header req ''x-forwarded-host'' of
                        Some (c # cs) \<Rightarrow> strip (hd (split_on (CHR '','') (c # cs)))
                      | _ \<Rightarrow> (case hr_header req ''host'' of Some (c # cs) \<Rightarrow> c # cs | _ \<Rightarrow> hr_netloc req)) in
          proto @ ''://'' @ host)"

section \<open>Facts\<close>

text \<open>Parsed addresses are numbers of their width.\<close>

fun ip_ok :: "ip \<Rightarrow> bool" where
  "ip_ok (V4 a) = (0 \<le> a \<and> a < 2 ^ 32)"
| "ip_ok (V6 a) = (0 \<le> a \<and> a < 2 ^ 128)"

lemma parse_octet_range: "parse_octet s = Some n \<Longrightarrow> 0 \<le> n \<and> n < 256"
  by (auto simp: parse_octet_def all_digits_def intro: digits_val_nonneg split: if_splits)

lemma parse_v4_range:
  assumes "parse_v4 s = Some n"
  shows "0 \<le> n \<and> n < 2 ^ 32"
proof -
  obtain a b c d where m: "map parse_octet (split_on (CHR ''.'') s) = [Some a, Some b, Some c, Some d]"
    and n: "n = ((a * 256 + b) * 256 + c) * 256 + d"
    using assms by (auto simp: parse_v4_def split: list.splits option.splits)
  have "\<exists>x. parse_octet x = Some v" if "v \<in> {a, b, c, d}" for v
  proof -
    have "Some v \<in> set (map parse_octet (split_on (CHR ''.'') s))" using that unfolding m by auto
    then show ?thesis by auto
  qed
  then have "0 \<le> v \<and> v < 256" if "v \<in> {a, b, c, d}" for v
    using that parse_octet_range by blast
  then have "0 \<le> a" "a < 256" "0 \<le> b" "b < 256" "0 \<le> c" "c < 256" "0 \<le> d" "d < 256" by auto
  then show ?thesis unfolding n by simp
qed

lemma hex_val_range: "is_hex c \<Longrightarrow> 0 \<le> hex_val c \<and> hex_val c < 16"
  using digit_val_range [of c]
  by (auto simp: is_hex_def hex_val_def to_lower_def ccode_def of_char_of)

lemma foldl_range:
  fixes B :: int
  assumes "list_all P xs" and "\<And>x. P x \<Longrightarrow> 0 \<le> f x \<and> f x < B" and "0 < B"
  shows "0 \<le> foldl (\<lambda>v x. B * v + f x) 0 xs \<and> foldl (\<lambda>v x. B * v + f x) 0 xs < B ^ length xs"
  using assms(1)
proof (induction xs rule: rev_induct)
  case (snoc x xs)
  let ?v = "foldl (\<lambda>v x. B * v + f x) 0 xs"
  have v: "0 \<le> ?v" "?v + 1 \<le> B ^ length xs" and x: "0 \<le> f x" "f x < B"
    using snoc assms(2) [of x] by auto
  have "B * (?v + 1) \<le> B * B ^ length xs" using v(2) assms(3) by (intro mult_left_mono) auto
  then show ?case using v x assms(3) by (auto simp: distrib_left)
qed simp

lemma parse_hextet_range: 
  assumes "parse_hextet s = Some n" 
  shows "0 \<le> n \<and> n < 65536"
proof -
  have h: "list_all is_hex s" "length s \<le> 4" and n: "n = foldl (\<lambda>v c. 16 * v + hex_val c) 0 s"
    using assms by (auto simp: parse_hextet_def split: if_splits)
  have "0 \<le> n \<and> n < 16 ^ length s" unfolding n by (rule foldl_range [OF h(1) hex_val_range]) simp_all
  moreover have "(16 :: int) ^ length s \<le> 16 ^ 4" using h(2) by (intro power_increasing) simp_all
  ultimately show ?thesis by simp
qed

lemma all_some_map: "all_some xs = Some ys \<Longrightarrow> map Some ys = xs"
  by (induction xs arbitrary: ys rule: all_some.induct) auto

definition groups_ok :: "int list \<Rightarrow> bool" where
  "groups_ok = list_all (\<lambda>h. 0 \<le> h \<and> h < 65536)"

lemma hextets_ok: 
  assumes "hextets ps = Some hs"
  shows "length hs = length ps \<and> groups_ok hs"
proof -
  have m: "map Some hs = map parse_hextet ps" using assms all_some_map by (auto simp: hextets_def)
  have "0 \<le> h \<and> h < 65536" if "h \<in> set hs" for h
  proof -
    have "Some h \<in> set (map parse_hextet ps)" using that unfolding m [symmetric] by simp
    then show ?thesis using parse_hextet_range by auto
  qed
  then show ?thesis using arg_cong [OF m, of length] by (auto simp: groups_ok_def list_all_iff)
qed

lemma join_hextets_range: "groups_ok hs \<Longrightarrow> length hs = 8 \<Longrightarrow> ip_ok (V6 (join_hextets hs))"
  using foldl_range [of "\<lambda>h. 0 \<le> h \<and> h < 65536" hs "\<lambda>h. h" 65536]
  by (simp add: groups_ok_def join_hextets_def)

lemma groups_ok_append [simp]: "groups_ok (xs @ ys) \<longleftrightarrow> groups_ok xs \<and> groups_ok ys"
  and groups_ok_zeros [simp]: "groups_ok (replicate n 0)" and groups_ok_Nil [simp]: "groups_ok []"
  by (auto simp: groups_ok_def list_all_iff)

lemma fill_gap_range:
  assumes "fill_gap parts tail i = Some n" and "groups_ok tail" and i: "i < length parts" "1 \<le> i" "i + 1 < length parts + length tail"
  shows "ip_ok (V6 n)"
proof -
  let ?hi = "if hd parts = [] then i - 1 else i"
  let ?open_end = "tail = [] \<and> last parts = []"
  let ?lo = "if ?open_end then length parts + length tail - i - 2 else length parts + length tail - i - 1"
  obtain hs ls where h: "hextets (take ?hi parts) = Some hs"
    and l: "hextets (if ?lo = 0 then [] else drop (i + 1) parts) = Some ls"
    and n: "n = join_hextets (hs @ replicate (8 - (?hi + ?lo)) 0 @ ls @ tail)" and s: "?hi + ?lo < 8"
    and z: "\<not> (?open_end \<and> ?lo \<noteq> 0)"
    using assms(1) unfolding fill_gap_def Let_def by (simp split: if_split_asm option.split_asm)
  have "length hs = ?hi" using hextets_ok [OF h] i by auto
  moreover have "length ls + length tail = ?lo"
    using hextets_ok [OF l] i z by (cases "?lo = 0") (auto split: if_split_asm)
  moreover have "groups_ok hs" "groups_ok ls" using hextets_ok [OF h] hextets_ok [OF l] by blast+
  ultimately have "groups_ok (hs @ replicate (8 - (?hi + ?lo)) 0 @ ls @ tail)"
      "length (hs @ replicate (8 - (?hi + ?lo)) 0 @ ls @ tail) = 8"
    using assms(2) s by simp_all
  then show ?thesis unfolding n by (rule join_hextets_range)
qed

lemma expand_groups_range:
  assumes "expand_groups parts tail = Some n" and "groups_ok tail"
  shows "ip_ok (V6 n)"
proof -
  let ?E = "filter (\<lambda>i. i < length parts \<and> parts ! i = []) [1..<length parts + length tail - 1]"
  consider "?E = []" "length parts + length tail = 8" "map_option (\<lambda>hs. join_hextets (hs @ tail)) (hextets parts) = Some n"
    | i where "?E = [i]" "fill_gap parts tail i = Some n"
    using assms(1) by (auto simp: expand_groups_def Let_def split: if_split_asm list.split_asm)
  then show ?thesis
  proof cases
    case 1
    then obtain hs where h: "hextets parts = Some hs" and n: "n = join_hextets (hs @ tail)" by auto
    show ?thesis unfolding n using hextets_ok [OF h] 1(2) assms(2) by (intro join_hextets_range) simp_all
  next
    case 2
    then have "i \<in> set ?E" by simp
    then show ?thesis using fill_gap_range [OF 2(2) assms(2)] by auto
  qed
qed

lemma v6_groups_ok: 
  assumes "v6_groups s = Some (Some tail)"
  shows "groups_ok tail"
proof -
  obtain v where "parse_v4 (last (split_on (CHR '':'') s)) = Some v" and t: "tail = [v div 65536, v mod 65536]"
    using assms by (auto simp: v6_groups_def Let_def split: if_splits)
  from parse_v4_range [OF this(1)] show ?thesis by (auto simp: t groups_ok_def)
qed

theorem ip_address_range:
  assumes "ip_address s = Inr a"
  shows "ip_ok a"
proof (cases a)
  case (V4 n)
  then show ?thesis using assms parse_v4_range by (auto simp: ip_address_def split: if_splits option.splits)
next
  case (V6 n)
  then have "parse_v6 s = Some n" using assms by (auto simp: ip_address_def split: if_splits option.splits)
  then obtain addr g where "v6_groups addr = Some g"
    and "(case g of None \<Rightarrow> expand_groups (split_on (CHR '':'') addr) []
          | Some tail \<Rightarrow> expand_groups (butlast (split_on (CHR '':'') addr)) tail) = Some n"
    by (auto simp: parse_v6_def Let_def bind_eq_Some_conv split: prod.splits if_split_asm)
  then show ?thesis
    using V6 expand_groups_range v6_groups_ok by (cases g) auto
qed

section \<open>The addresses the guard admits\<close>

text \<open>An independent account of the admitted addresses, by their leading octets or groups.\<close>

definition public_v4 :: "int \<Rightarrow> bool" where
  "public_v4 a \<longleftrightarrow>
     (let o1 = a div 2 ^ 24; o2 = a div 2 ^ 16 mod 256 in
      0 < o1 \<and> o1 < 224 \<and> o1 \<noteq> 10 \<and> o1 \<noteq> 127
      \<and> \<not> (o1 = 169 \<and> o2 = 254) \<and> \<not> (o1 = 172 \<and> 16 \<le> o2 \<and> o2 < 32) \<and> \<not> (o1 = 192 \<and> o2 = 168))"

definition public_v6 :: "int \<Rightarrow> bool" where
  "public_v6 a \<longleftrightarrow>
     (let g = a div 2 ^ 112 in 0x2000 \<le> g \<and> g < 0x4000 \<or> 0xfec0 \<le> g \<and> g < 0xff00)"

fun admitted :: "ip \<Rightarrow> bool" where
  "admitted (V4 a) = public_v4 a"
| "admitted (V6 a) = public_v6 a"

lemma safe_v4:
  assumes "0 \<le> a" and "a < 2 ^ 32" and "\<not> ip_is_unsafe (V4 a)"
  shows "public_v4 a"
proof -
  have p: "\<not> in_any 32 v4_private a \<or> in_any 32 v4_private_except a" and r: "\<not> in_net 32 (v4 240 0 0 0, 4) a"
    and m: "\<not> in_net 32 (v4 224 0 0 0, 4) a" and l: "\<not> in_net 32 (v4 127 0 0 0, 8) a"
    and k: "\<not> in_net 32 (v4 169 254 0 0, 16) a"
    using assms(3) by (auto simp: ip_is_unsafe_def)
  have o1: "a div 2 ^ 24 < 224" "a div 2 ^ 24 \<noteq> 127"
    using r m l assms(1,2) by (auto simp: in_net_def v4_def)
  show ?thesis
  proof (cases "in_any 32 v4_private_except a")
    case True
    then show ?thesis by (auto simp: in_any_def v4_private_except_def in_net_def v4_def public_v4_def)
  next
    case False
    then have "\<not> in_any 32 v4_private a" using p by simp
    then have n: "a div 2 ^ 24 \<noteq> 0" "a div 2 ^ 24 \<noteq> 10" "a div 2 ^ 20 \<noteq> 2753" "a div 2 ^ 16 \<noteq> 49320" "a div 2 ^ 16 \<noteq> 43518"
      by (auto simp: in_any_def v4_private_def in_net_def v4_def)
    obtain b where b0: "a div 2 ^ 16 = b" by blast
    have b: "a div 2 ^ 24 = b div 256" "a div 2 ^ 20 = b div 16" "0 \<le> b"
      using assms(1) by (simp_all add: b0 [symmetric] zdiv_zmult2_eq [symmetric])
    have e: "b = b div 256 * 256 + b mod 256" by simp
    have x: "\<not> (b div 256 = 169 \<and> b mod 256 = 254)" and y: "\<not> (b div 256 = 192 \<and> b mod 256 = 168)"
      using n(4,5) e unfolding b0 by linarith+
    have z: "\<not> (b div 256 = 172 \<and> 16 \<le> b mod 256 \<and> b mod 256 < 32)"
    proof
      assume "b div 256 = 172 \<and> 16 \<le> b mod 256 \<and> b mod 256 < 32"
      then have "44048 \<le> b" "b < 44064" using e by linarith+
      then have "b div 16 = 2753" by presburger
      then show False using n(3) b(2) by simp
    qed
    have "0 < b div 256" using n(1) b(1,3) by (simp add: pos_imp_zdiv_nonneg_iff order_less_le)
    with x y z have "0 < b div 256 \<and> \<not> (b div 256 = 169 \<and> b mod 256 = 254)
        \<and> \<not> (b div 256 = 172 \<and> 16 \<le> b mod 256 \<and> b mod 256 < 32) \<and> \<not> (b div 256 = 192 \<and> b mod 256 = 168)"
      by blast
    then show ?thesis using o1 n(2) unfolding public_v4_def Let_def b0 b(1) by blast
  qed
qed

lemma v6_one: "v6 [h] = h * 2 ^ 112"
  by (simp add: v6_def join_hextets_def numeral_eq_Suc)

lemma div_split: "j \<le> k \<Longrightarrow> a div 2 ^ k = a div 2 ^ j div 2 ^ (k - j)" for a :: int
  by (simp add: zdiv_zmult2_eq [symmetric] power_add [symmetric])

text \<open>A network with a prefix within the first group, and one with a longer prefix.\<close>

lemma in_net_group:
  assumes "p \<le> 16"
  shows "in_net 128 (v6 [h], p) a \<longleftrightarrow> a div 2 ^ 112 div 2 ^ (16 - p) = h div 2 ^ (16 - p)"
proof -
  have "x div 2 ^ (128 - p) = x div 2 ^ 112 div 2 ^ (16 - p)" for x :: int
    using div_split [of 112 "128 - p" x] assms by simp
  then show ?thesis by (simp add: in_net_def v6_one del: power_numeral)
qed

lemma in_net_long:
  assumes "16 \<le> p" and "p \<le> 128" and "in_net 128 (n, p) a"
  shows "a div 2 ^ 112 = n div 2 ^ 112"
proof -
  have "x div 2 ^ 112 = x div 2 ^ (128 - p) div 2 ^ (p - 16)" for x :: int
    using div_split [of "128 - p" 112 x] assms(1,2) by simp
  then show ?thesis using assms(3) by (simp add: in_net_def del: power_numeral)
qed

lemma in_net_zero: "in_net 128 (0, 8) a \<longleftrightarrow> a div 2 ^ 112 div 2 ^ 8 = 0"
  using in_net_group [of 8 0 a] by (simp add: v6_one)

lemma private_except_group:
  assumes "in_any 128 v6_private_except a"
  shows "a div 2 ^ 112 = 0x2001"
proof -
  obtain n p where np: "(n, p) \<in> set v6_private_except" and i: "in_net 128 (n, p) a"
    using assms by (auto simp: in_any_def list_ex_iff)
  have "list_all (\<lambda>(n, p). 16 \<le> p \<and> p \<le> 128 \<and> n div 2 ^ 112 = 0x2001) v6_private_except" by code_simp
  then show ?thesis using np in_net_long [OF _ _ i] by (auto simp: list_all_iff)
qed

lemma div_above: "q * d \<le> g \<Longrightarrow> g div d \<noteq> q \<Longrightarrow> 0 < d \<Longrightarrow> (q + 1) * d \<le> g" for g q d :: int
proof -
  assume a: "q * d \<le> g" "g div d \<noteq> q" "0 < d"
  have "q \<le> g div d" using zdiv_mono1 [OF a(1,3)] a(3) by simp
  then have "q + 1 \<le> g div d" using a(2) by simp
  then have "(q + 1) * d \<le> g div d * d" using a(3) by (intro mult_right_mono) simp_all
  then show "(q + 1) * d \<le> g" using div_bracket(1) [OF a(3), of g] by linarith
qed

lemma group_range:
  fixes g :: int
  assumes "0 \<le> g" and "g < 65536"
    and "g div 256 \<noteq> 0" "g div 256 \<noteq> 1" "g div 512 \<noteq> 1" "g div 1024 \<noteq> 1" "g div 2048 \<noteq> 1" "g div 4096 \<noteq> 1"
    and "g div 8192 \<notin> {2, 3, 4, 5, 6}" "g div 4096 \<noteq> 14" "g div 2048 \<noteq> 30" "g div 1024 \<noteq> 62" "g div 128 \<noteq> 508"
    and "g div 256 \<noteq> 255" "g div 64 \<noteq> 1018" "g div 512 \<noteq> 126"
  shows "0x2000 \<le> g \<and> g < 0x4000 \<or> 0xfec0 \<le> g \<and> g < 0xff00"
proof -
  have n2: "g div 8192 \<noteq> 2" and n3: "g div 8192 \<noteq> 3" and n4: "g div 8192 \<noteq> 4" and n5: "g div 8192 \<noteq> 5"
    and n6: "g div 8192 \<noteq> 6" using assms(9) by blast+
  have "256 \<le> g" using assms(1) div_above [OF _ assms(3)] by simp
  then have "512 \<le> g" using div_above [OF _ assms(4)] by simp
  then have "1024 \<le> g" using div_above [OF _ assms(5)] by simp
  then have "2048 \<le> g" using div_above [OF _ assms(6)] by simp
  then have "4096 \<le> g" using div_above [OF _ assms(7)] by simp
  then have low: "8192 \<le> g" using div_above [OF _ assms(8)] by simp
  show ?thesis
  proof (cases "g < 16384")
    case False
    then have "24576 \<le> g" using div_above [OF _ n2] by simp
    then have "32768 \<le> g" using div_above [OF _ n3] by simp
    then have "40960 \<le> g" using div_above [OF _ n4] by simp
    then have "49152 \<le> g" using div_above [OF _ n5] by simp
    then have "57344 \<le> g" using div_above [OF _ n6] by simp
    then have "61440 \<le> g" using div_above [OF _ assms(10)] by simp
    then have "63488 \<le> g" using div_above [OF _ assms(11)] by simp
    then have "64512 \<le> g" using div_above [OF _ assms(12)] by simp
    then have "65024 \<le> g" using div_above [OF _ assms(16)] by simp
    then have "65152 \<le> g" using div_above [OF _ assms(13)] by simp
    then have "65216 \<le> g" using div_above [OF _ assms(15)] by simp
    moreover have "g < 65280"
    proof (rule ccontr)
      assume "\<not> g < 65280"
      then show False using div_above [OF _ assms(14)] assms(2) by simp
    qed
    ultimately show ?thesis by simp
  qed (use low in simp)
qed

lemma safe_v6:
  assumes "0 \<le> a" and "a < 2 ^ 128" and "\<not> ip_is_unsafe (V6 a)" and "a div 2 ^ 32 \<noteq> 0xffff"
  shows "public_v6 a"
proof -
  obtain g where g0: "a div 2 ^ 112 = g" by blast
  have b: "0 \<le> g" "g < 65536" using assms(1,2) by (simp_all add: g0 [symmetric])
  note g1 = g0 [simplified]
  have p: "\<not> in_any 128 v6_private a \<or> in_any 128 v6_private_except a" and r: "\<not> in_any 128 v6_reserved a"
    and m: "\<not> in_net 128 (v6 [0xff00], 8) a" and k: "\<not> in_net 128 (v6 [0xfe80], 10) a"
    using assms(3,4) by (auto simp: ip_is_unsafe_def)
  have r1: "g div 256 \<noteq> 0" "g div 256 \<noteq> 1" "g div 512 \<noteq> 1" "g div 1024 \<noteq> 1" "g div 2048 \<noteq> 1" "g div 4096 \<noteq> 1"
     "g div 8192 \<notin> {2, 3, 4, 5, 6}" "g div 4096 \<noteq> 14" "g div 2048 \<noteq> 30" "g div 1024 \<noteq> 62" "g div 128 \<noteq> 508"
    using r unfolding in_any_def v6_reserved_def
    by (simp_all add: in_net_group in_net_zero g1)
  have m1: "g div 256 \<noteq> 255" "g div 64 \<noteq> 1018"
    using m k by (simp_all add: in_net_group g1)
  have f1: "g div 512 \<noteq> 126"
  proof (cases "in_any 128 v6_private a")
    case True
    then have "g = 0x2001" using p private_except_group g0 by blast
    then show ?thesis by simp
  next
    case False
    then have "\<not> in_net 128 (v6 [0xfc00], 7) a" by (auto simp: in_any_def v6_private_def)
    then show ?thesis by (simp add: in_net_group g1)
  qed
  show ?thesis
    unfolding public_v6_def Let_def g0 by (rule group_range [OF b r1 m1 f1])
qed

lemma mapr_fails:
  "mapr f xs = Inl e \<Longrightarrow> \<exists>x \<in> set xs. f x = Inl e"
  "x \<in> set xs \<Longrightarrow> f x = Inl e \<Longrightarrow> \<exists>e'. mapr f xs = Inl e'"
  by (induction xs) (auto simp: bindr_eq_Inl bindr_def split: sum.splits)

lemma check_address_fails: "check_address s = Inl e \<Longrightarrow> \<exists>why. e = UnsafeURLError why"
  by (auto simp: check_address_def split: sum.splits if_splits)

lemma validate_addresses:
  assumes "urlsplit url = Inr parts" and "url_hostname (u_netloc parts) = Some host" and "url_port (u_netloc parts) = Inr port"
    and "dns host (if port = Some 0 then None else port) = Addresses as"
  shows "validate_caldav_url dns url =
    (if u_scheme parts \<notin> {''http'', ''https''} then Inl (UnsafeURLError (''unsupported scheme: '' @ u_scheme parts))
     else if as = [] then Inl (UnsafeURLError (''could not resolve host: '' @ host))
     else bindr (mapr check_address (remdups as)) (\<lambda>_. Inr ()))"
  using assms by (simp add: validate_caldav_url_def)

lemma safe_address:
  assumes "ip_address s = Inr a" and "\<not> ip_is_unsafe a"
  shows "admitted (unmapped a)"
proof (cases a)
  case (V4 n)
  then show ?thesis using assms ip_address_range [OF assms(1)] safe_v4 by simp
next
  case (V6 n)
  then have r: "0 \<le> n" "n < 2 ^ 128" using ip_address_range [OF assms(1)] by auto
  show ?thesis
  proof (cases "n div 2 ^ 32 = 0xffff")
    case True
    then show ?thesis using assms V6 safe_v4 [of "n mod 2 ^ 32"] by (simp add: ip_is_unsafe_def)
  next
    case False
    then show ?thesis using assms V6 safe_v6 [OF r] by simp
  qed
qed

lemma accepted_url:
  assumes ok: "validate_caldav_url dns url = Inr ()"
  shows "\<exists>parts host port as. urlsplit url = Inr parts \<and> u_scheme parts \<in> {''http'', ''https''}
     \<and> url_hostname (u_netloc parts) = Some host \<and> host \<noteq> []
     \<and> dns host port = Addresses as \<and> as \<noteq> []
     \<and> (\<forall>s \<in> set as. \<exists>a. ip_address s = Inr a \<and> admitted (unmapped a))"
proof -
  have each: "\<exists>a. ip_address s = Inr a \<and> \<not> ip_is_unsafe a" if "check_address s = Inr ()" for s
    using that by (auto simp: check_address_def split: sum.splits if_splits)
  obtain parts where p: "urlsplit url = Inr parts" and sc: "u_scheme parts \<in> {''http'', ''https''}"
    using ok by (auto simp: validate_caldav_url_def bindr_eq_Inr split: if_split_asm)
  obtain host where h: "url_hostname (u_netloc parts) = Some host"
    using ok p sc by (auto simp: validate_caldav_url_def split: option.split_asm)
  obtain port where pt: "url_port (u_netloc parts) = Inr port"
    using ok p sc h by (auto simp: validate_caldav_url_def bindr_eq_Inr)
  obtain as where a: "dns host (if port = Some 0 then None else port) = Addresses as"
    using ok p sc h pt by (auto simp: validate_caldav_url_def simp del: if_split split: dns_answer.split_asm)
  have r: "as \<noteq> []" "\<exists>us. mapr check_address (remdups as) = Inr us"
    using ok sc unfolding validate_addresses [where dns = dns and url = url, OF p h pt a] by (auto simp: bindr_eq_Inr split: if_split_asm)
  have "check_address s = Inr ()" if "s \<in> set as" for s
    using r(2) that mapr_fails(2) [of s "remdups as" check_address] by (cases "check_address s") fastforce+
  then have "\<forall>s \<in> set as. \<exists>a. ip_address s = Inr a \<and> admitted (unmapped a)"
    using each safe_address by meson
  moreover have "host \<noteq> []"
    using h by (auto simp: url_hostname_def Let_def partition_at_def lower_def split: if_split_asm prod.split_asm option.split_asm list.split_asm)
  ultimately show ?thesis
    using p sc h a r(1) by blast
qed

text \<open>C35: The SSRF guard lets a URL pass only to hosts whose every resolved address is public: the
  scheme is http or https, the host resolves, and each address it resolves to parses and lies outside
  the private, loopback, link-local, multicast and reserved ranges, IPv4-mapped addresses included.
  A host with a single address the guard classifies as unsafe is rejected.\<close>

theorem guard_admits_public_only:
  "(validate_caldav_url dns url = Inr () \<longrightarrow>
     (\<exists>parts host port as. urlsplit url = Inr parts \<and> u_scheme parts \<in> {''http'', ''https''}
        \<and> url_hostname (u_netloc parts) = Some host \<and> host \<noteq> []
        \<and> dns host port = Addresses as \<and> as \<noteq> []
        \<and> (\<forall>s \<in> set as. \<exists>a. ip_address s = Inr a \<and> admitted (unmapped a))))
   \<and> (\<forall>parts host port as s a. urlsplit url = Inr parts \<longrightarrow> url_hostname (u_netloc parts) = Some host \<longrightarrow>
        url_port (u_netloc parts) = Inr port \<longrightarrow> dns host (if port = Some 0 then None else port) = Addresses as \<longrightarrow>
        s \<in> set as \<longrightarrow> ip_address s = Inr a \<longrightarrow> ip_is_unsafe a \<longrightarrow>
        (\<exists>why. validate_caldav_url dns url = Inl (UnsafeURLError why)))"
  (is "?pass \<and> ?reject")
proof
  show ?pass using accepted_url [of dns url] by blast
  show ?reject
  proof (intro allI impI)
    fix parts host port as s a
    assume p: "urlsplit url = Inr parts" "url_hostname (u_netloc parts) = Some host" "url_port (u_netloc parts) = Inr port"
        "dns host (if port = Some 0 then None else port) = Addresses as"
      and s: "s \<in> set as" "ip_address s = Inr a" "ip_is_unsafe a"
    then have "check_address s = Inl (UnsafeURLError (''address not allowed: '' @ s))" by (simp add: check_address_def)
    then obtain e where e: "mapr check_address (remdups as) = Inl e"
      using s(1) mapr_fails(2) [of s "remdups as" check_address] by auto
    then obtain why where "e = UnsafeURLError why" using mapr_fails(1) check_address_fails by blast
    then show "\<exists>why. validate_caldav_url dns url = Inl (UnsafeURLError why)"
      using e s(1) by (auto simp: validate_addresses [where dns = dns and url = url, OF p])
  qed
qed

theorem guard_admits_public_only_witness:
  "validate_caldav_url (\<lambda>host port. Addresses [''93.184.216.34'', ''2606:2800:220:1::1'']) ''https://dav.example/cal'' = Inr ()
   \<and> (\<exists>a. ip_address ''93.184.216.34'' = Inr a \<and> admitted (unmapped a))
   \<and> (\<exists>why. validate_caldav_url (\<lambda>host port. Addresses [''93.184.216.34'', ''::ffff:10.0.0.1'']) ''https://dav.example/cal''
        = Inl (UnsafeURLError why))"
proof -
  have ok: "validate_caldav_url (\<lambda>host port. Addresses [''93.184.216.34'', ''2606:2800:220:1::1'']) ''https://dav.example/cal'' = Inr ()"
    and p: "urlsplit ''https://dav.example/cal'' = Inr \<lparr>u_scheme = ''https'', u_netloc = ''dav.example''\<rparr>"
    and h: "url_hostname ''dav.example'' = Some ''dav.example''" and t: "url_port ''dav.example'' = Inr None"
    and a: "ip_address ''::ffff:10.0.0.1'' = Inr (V6 281470849515521)" "ip_is_unsafe (V6 281470849515521)"
    by code_simp+
  have "\<exists>why. validate_caldav_url (\<lambda>host port. Addresses [''93.184.216.34'', ''::ffff:10.0.0.1'']) ''https://dav.example/cal''
        = Inl (UnsafeURLError why)"
    using guard_admits_public_only [of "\<lambda>host port. Addresses [''93.184.216.34'', ''::ffff:10.0.0.1'']" "''https://dav.example/cal''"]
      p h t a by fastforce
  moreover have "\<exists>a. ip_address ''93.184.216.34'' = Inr a \<and> admitted (unmapped a)"
    using guard_admits_public_only [of "\<lambda>host port. Addresses [''93.184.216.34'', ''2606:2800:220:1::1'']" "''https://dav.example/cal''"]
      ok by auto
  ultimately show ?thesis using ok by blast
qed

text \<open>Not every address the guard admits is public: the shared address space 100.64.0.0/10
  (carrier-grade NAT, also used by overlay networks) and the deprecated site-local IPv6 range
  fec0::/10 pass.\<close>

theorem guard_admits_shared_space:
  "validate_caldav_url (\<lambda>host port. Addresses [''100.64.0.1'', ''fec0::1'']) ''http://nas/'' = Inr ()"
  by code_simp

section \<open>Discovered calendars\<close>

lemma normalize_color_shape:
  assumes "normalize_color v = Some s"
  shows "(length s = 4 \<or> length s = 7) \<and> hd s = CHR ''#''"
proof -
  have hd_take: "hd (take 7 u) = hd u" "hd (take 4 u) = hd u" for u :: string by (cases u; simp)+
  have lead: "hd (if startswith ''#'' x then x else CHR ''#'' # x) = CHR ''#''" for x
    by (cases x) (simp_all add: startswith_def)
  obtain raw where r: "v = Some raw" using assms by (cases v) (simp_all add: normalize_color_def)
  show ?thesis
    using assms lead [of "strip raw"]
    by (auto simp: normalize_color_def r Let_def hd_take simp del: if_split split: if_split_asm)
qed

text \<open>Discovery returns every calendar of the principal, in order, whatever its properties answer:
  each with a name, and a colour of the form \<open>#rgb\<close> or \<open>#rrggbb\<close>, defaulted where the server's
  answer is missing, unusable or an error.\<close>

theorem discovery_total:
  assumes "d_calendars dav cn (w_dav w) = (Inr cs, s)"
  shows "\<exists>infos. fst (discover_calendars dav cn w) = Inr infos \<and> map ci_id infos = map fst cs
     \<and> (\<forall>i \<in> set infos. ci_name i \<noteq> [] \<and> hd (ci_color i) = CHR ''#'' \<and> length (ci_color i) \<in> {4, 7})
     \<and> w_errors (snd (discover_calendars dav cn w)) = w_errors w"
proof -
  have "discover_calendars dav cn w = (Inr (map cal_info_of cs), w\<lparr>w_dav := s\<rparr>)"
    using assms by (simp add: discover_calendars_def sync_discover_calendars_def bindi_def request_def observed_ok)
  moreover have "map ci_id (map cal_info_of cs) = map fst cs"
    by (auto simp: cal_info_of_def)
  moreover have "ci_name i \<noteq> [] \<and> hd (ci_color i) = CHR ''#'' \<and> length (ci_color i) \<in> {4, 7}"
    if "i \<in> set (map cal_info_of cs)" for i
    using that
    by (auto simp: cal_info_of_def dest: normalize_color_shape split: prod.splits sum.splits option.splits list.splits)
  ultimately show ?thesis by simp
qed

definition listing_dav :: "(string \<times> vcal) list dav" where
  "listing_dav = (sample_dav True)\<lparr>d_calendars := (\<lambda>cn s.
     (Inr [(''/a/'', Inl DavError, Inr (Some ''#11223344'')), (''/b/'', Inr (Some ''Work''), Inl DavError)], s))\<rparr>"

theorem discovery_total_witness:
  "\<exists>infos. fst (discover_calendars listing_dav sample_cn sample_world) = Inr infos
     \<and> map ci_id infos = [''/a/'', ''/b/''] \<and> map ci_color infos = [''#112233'', ''#3788d8'']"
proof -
  have c: "d_calendars listing_dav sample_cn (w_dav sample_world) =
      (Inr [(''/a/'', Inl DavError, Inr (Some ''#11223344'')), (''/b/'', Inr (Some ''Work''), Inl DavError)], w_dav sample_world)"
    by (simp add: listing_dav_def)
  have d: "fst (discover_calendars listing_dav sample_cn sample_world) = Inr
      [\<lparr>ci_id = ''/a/'', ci_name = ''Unnamed'', ci_color = ''#112233''\<rparr>, \<lparr>ci_id = ''/b/'', ci_name = ''Work'', ci_color = ''#3788d8''\<rparr>]"
    by code_simp
  from discovery_total [OF c] d show ?thesis by auto
qed

text \<open>A colour the server reports without alpha in three digits stays in three digits: the result
  is not always the six-digit form a colour input accepts.\<close>

theorem short_colour_kept: "normalize_color (Some ''#abc'') = Some ''#abc'' \<and> normalize_color (Some '' f00f '') = Some ''#f00''"
  by code_simp

end
