(* ===== verification/Tasks.thy ===== *)
theory Tasks
  imports Samples
begin

text \<open>
  The task operations of \<open>caldav_client.py\<close>: creation, the scoped update and delete of VTODO
  series (anchored on DTSTART or DUE, possibly undated), and the completion toggle.
\<close>

section \<open>Status\<close>

text \<open>\<open>_task_completed\<close> and \<open>_set_status\<close>.\<close>

definition task_completed :: "vcomp \<Rightarrow> bool" where
  "task_completed c \<longleftrightarrow>
     (case text_of STATUS c of Some s \<Rightarrow> upper s = ''COMPLETED'' | None \<Rightarrow> False)
     \<or> chas COMPLETED c
     \<or> (case cvals c PERCENT_COMPLETE of [] \<Rightarrow> False
        | vs \<Rightarrow> (case int_of vs of Inr n \<Rightarrow> n \<ge> 100 | Inl _ \<Rightarrow> False))"

definition set_status :: "'r env \<Rightarrow> bool \<Rightarrow> vcomp \<Rightarrow> vcomp" where
  "set_status env completed c =
     (let c1 = cpop PERCENT_COMPLETE (cpop COMPLETED (cpop STATUS c));
          c2 = (if completed
                then cadd COMPLETED (VTm (e_now env)) (cadd PERCENT_COMPLETE (VInt 100)
                       (cadd STATUS (VText ''COMPLETED'') c1))
                else cadd PERCENT_COMPLETE (VInt 0) (cadd STATUS (VText ''NEEDS-ACTION'') c1))
      in cadd LAST_MODIFIED (VTm (e_now env)) (cpop LAST_MODIFIED c2))"

text \<open>An optional property, decoded, and an optional value moved.\<close>

definition decoded_opt :: "pkey \<Rightarrow> vcomp \<Rightarrow> tm option res" where
  "decoded_opt k c = (if chas k c then bindr (decoded k c) (\<lambda>t. Inr (Some t)) else Inr None)"

definition add_opt :: "tm option \<Rightarrow> delta \<Rightarrow> tm option res" where
  "add_opt t d = (case t of None \<Rightarrow> Inr None | Some x \<Rightarrow> bindr (tm_add x d) (\<lambda>y. Inr (Some y)))"

text \<open>\<open>_occurrence_span\<close>.\<close>

definition occurrence_span :: "tzdb \<Rightarrow> vcomp \<Rightarrow> tm \<Rightarrow> (tm option \<times> tm option) res" where
  "occurrence_span db master pivot =
     bindr (decoded (base_key TODO master) master) (\<lambda>base.
     bindr (tm_sub db (as_dt pivot) (as_dt base)) (\<lambda>delta.
     bindr (decoded_opt DTSTART master) (\<lambda>s. bindr (add_opt s delta) (\<lambda>start.
     bindr (decoded_opt DUE master) (\<lambda>e. bindr (add_opt e delta) (\<lambda>due.
       Inr (start, due)))))))"

section \<open>Creating and updating\<close>

definition spanned :: "item_fields \<Rightarrow> tm option \<Rightarrow> tm option \<Rightarrow> item_fields" where
  "spanned f s e = f\<lparr>f_start := s, f_end := e\<rparr>"

lemma spanned_simps [simp]:
  "f_start (spanned f s e) = s" "f_end (spanned f s e) = e" "f_title (spanned f s e) = f_title f"
  by (simp_all add: spanned_def)

definition first_some :: "'a option \<Rightarrow> 'a option \<Rightarrow> 'a option" where   \<comment> \<open>\<open>a or b\<close>\<close>
  "first_some a b = (case a of Some x \<Rightarrow> Some x | None \<Rightarrow> b)"

text \<open>The \<open>all\<close> branch of \<open>_sync_update_task\<close>.\<close>

definition task_all ::
  "'r env \<Rightarrow> item_fields \<Rightarrow> tm option \<Rightarrow> tm option \<Rightarrow> string option \<Rightarrow> rule_in option \<Rightarrow>
   (delta \<times> string) list option \<Rightarrow> int option \<Rightarrow> string list \<Rightarrow> vcomp \<Rightarrow> vcal \<Rightarrow> vcal res"
where
  "task_all env f start due rid rrule reminders priority names master ical =
     (let db = e_tz env in
      if has_rrule master \<and> truthy rid then
        bindr (resolve_pivot db ical (the rid) master TODO) (\<lambda>pivot.
        bindr (case (if chas DTSTART master then start else due) of
                 Some a \<Rightarrow> tm_sub db (as_dt a) (as_dt pivot) | None \<Rightarrow> Inr 0) (\<lambda>delta.
        bindr (decoded_opt DTSTART master) (\<lambda>old_start.
        bindr (decoded_opt DUE master) (\<lambda>old_due.
        bindr (add_opt old_start delta) (\<lambda>s.
        bindr (add_opt old_due delta) (\<lambda>e.
          rebase_series env TODO (Some delta) (spanned f s e) reminders (set_priority priority)
            (update_rule db rrule (first_some s e) (Some delta)) names priority ical))))))
      else
        rebase_series env TODO None (spanned f start due) reminders (set_priority priority)
          (update_rule db rrule (first_some start due) None) names priority ical)"

text \<open>The \<open>this\<close> branch: a prior override's completion is carried over.\<close>

definition carried_status :: "'r env \<Rightarrow> tm \<Rightarrow> vcal \<Rightarrow> (string option \<times> tm option) res" where
  "carried_status env pivot ical =
     (case find (has_rid (e_tz env) pivot) (overrides ''VTODO'' ical) of
        None \<Rightarrow> Inr (None, None)
      | Some prev \<Rightarrow>
          if task_completed prev
          then bindr (if chas COMPLETED prev then decoded COMPLETED prev else Inr (e_now env)) (\<lambda>t.
                 Inr (Some ''COMPLETED'', Some t))
          else Inr (None, None))"

definition task_this ::
  "'r env \<Rightarrow> item_fields \<Rightarrow> tm option \<Rightarrow> tm option \<Rightarrow> tm \<Rightarrow> (delta \<times> string) list option \<Rightarrow> vcomp \<Rightarrow> vcal \<Rightarrow> vcal res"
where
  "task_this env f start due pivot reminders master ical =
     bindr (carried_status env pivot ical) (\<lambda>(status, completed).
       Inr (upsert_override env master pivot (spanned f start due) reminders TODO status completed ical))"

text \<open>The \<open>thisfuture\<close> branch.\<close>

definition task_future ::
  "'r env \<Rightarrow> item_fields \<Rightarrow> tm option \<Rightarrow> tm option \<Rightarrow> tm \<Rightarrow> rule_in option \<Rightarrow> (delta \<times> string) list option \<Rightarrow>
   int option \<Rightarrow> string list \<Rightarrow> vcomp \<Rightarrow> vcal \<Rightarrow> (vcal \<times> vcal option) res"
where
  "task_future env f start due pivot rrule reminders priority names master ical =
     (let db = e_tz env in
      bindr (drop_at_pivot db ''VTODO'' pivot ical) (\<lambda>ical1.
      bindr (decoded (base_key TODO master) master) (\<lambda>base0.
      let base = as_dt base0;
          anchor = (case (if chas DTSTART master then start else due) of Some a \<Rightarrow> a | None \<Rightarrow> pivot) in
      bindr (case rrule of Some r \<Rightarrow> build_rrule db r anchor | None \<Rightarrow> remaining_rule_parts env master pivot) (\<lambda>rule.
      bindr (tm_leq db (as_dt pivot) base) (\<lambda>first.
        if first then
          bindr (tm_sub db (as_dt anchor) base) (\<lambda>d.
          bindr (if rrule = None then shift_until_in_parts d rule else Inr rule) (\<lambda>rule'.
          bindr (rebase_series env TODO (Some d) (spanned f start due) reminders (set_priority priority)
                   (\<lambda>m. Inr (set_rrule rule' m)) names priority ical1) (\<lambda>ical2.
            Inr (ical2, None))))
        else
          bindr (tm_sub db (as_dt anchor) (as_dt pivot)) (\<lambda>shift.
          bindr (if rrule = None then shift_until_in_parts shift rule else Inr rule) (\<lambda>rule'.
          bindr (split_series env TODO pivot (Inr shift) (spanned f start due) reminders (Some ''NEEDS-ACTION'')
                   priority rule' names master ical1)
            (\<lambda>(old, new). Inr (old, Some new)))))))))"

definition task_edit_plan ::
  "'r env \<Rightarrow> string \<Rightarrow> item_fields \<Rightarrow> tm option \<Rightarrow> tm option \<Rightarrow> string \<Rightarrow> string option \<Rightarrow> rule_in option \<Rightarrow>
   (delta \<times> string) list option \<Rightarrow> int option \<Rightarrow> string list \<Rightarrow> vcal \<Rightarrow> (vcal \<times> vcal option) res"
where
  "task_edit_plan env uid f start due scope0 rid rrule reminders priority names ical =
     (case master_vevent ''VTODO'' ical of
        None \<Rightarrow> Inl (EventNotFoundError uid)
      | Some master \<Rightarrow>
          let scope = (if \<not> has_rrule master \<or> \<not> truthy rid then ''all'' else scope0) in
          if scope = ''all''
          then bindr (task_all env f start due rid rrule reminders priority names master ical) (\<lambda>c. Inr (c, None))
          else bindr (resolve_pivot (e_tz env) ical (the rid) master TODO) (\<lambda>pivot.
            if scope = ''this''
            then bindr (task_this env f start due pivot reminders master ical) (\<lambda>c. Inr (c, None))
            else if scope = ''thisfuture''
            then task_future env f start due pivot rrule reminders priority names master ical
            else Inl ValueError))"

definition sync_update_task ::
  "'s dav \<Rightarrow> 'r env \<Rightarrow> conn \<Rightarrow> string \<Rightarrow> string \<Rightarrow> item_fields \<Rightarrow> tm option \<Rightarrow> tm option \<Rightarrow> string \<Rightarrow> string option \<Rightarrow>
   rule_in option \<Rightarrow> (delta \<times> string) list option \<Rightarrow> int option \<Rightarrow> string list \<Rightarrow> ('s world, unit) io"
where
  "sync_update_task dav env cn url uid f start due scope rid rrule reminders priority names =
     bindi (find_item dav cn url ''VTODO'' uid) (\<lambda>obj.
     bindi (liftr (o_ical obj)) (\<lambda>ical.
     bindi (liftr (task_edit_plan env uid f start due scope rid rrule reminders priority names ical))
       (execute_plan dav cn url ''VTODO'' obj)))"

definition update_task ::
  "'s dav \<Rightarrow> 'r env \<Rightarrow> conn \<Rightarrow> string \<Rightarrow> string \<Rightarrow> item_fields \<Rightarrow> tm option \<Rightarrow> tm option \<Rightarrow> string \<Rightarrow> string option \<Rightarrow>
   rule_in option \<Rightarrow> (delta \<times> string) list option \<Rightarrow> int option \<Rightarrow> string list \<Rightarrow> ('s world, unit) io"
where
  "update_task dav env cn url uid f start due scope rid rrule reminders priority names =
     observed ''update_task'' True
       (sync_update_task dav env cn url uid f start due scope rid rrule reminders priority names)"

text \<open>\<open>_sync_create_task\<close>: a rule needs a start or a due date to anchor on.\<close>

definition sync_create_task ::
  "'s dav \<Rightarrow> 'r env \<Rightarrow> conn \<Rightarrow> string \<Rightarrow> string \<Rightarrow> item_fields \<Rightarrow> tm option \<Rightarrow> tm option \<Rightarrow> rule_in option \<Rightarrow>
   (delta \<times> string) list option \<Rightarrow> int option \<Rightarrow> ('s world, unit) io"
where
  "sync_create_task dav env cn url uid f start due rrule reminders priority =
     bindi (liftr (opt_rule (e_tz env) rrule (first_some start due))) (\<lambda>rule.
       request (d_create dav cn url ''VTODO''
         (series_ical env uid (spanned f start due) rule [] [] reminders [] TODO (Some ''NEEDS-ACTION'') priority)))"

definition create_task ::
  "'s dav \<Rightarrow> 'r env \<Rightarrow> conn \<Rightarrow> string \<Rightarrow> string \<Rightarrow> item_fields \<Rightarrow> tm option \<Rightarrow> tm option \<Rightarrow> rule_in option \<Rightarrow>
   (delta \<times> string) list option \<Rightarrow> int option \<Rightarrow> ('s world, unit) io"
where
  "create_task dav env cn url uid f start due rrule reminders priority =
     observed ''create_task'' False (sync_create_task dav env cn url uid f start due rrule reminders priority)"

section \<open>Deleting\<close>

definition delete_task_plan :: "'r env \<Rightarrow> string \<Rightarrow> string option \<Rightarrow> vcal \<Rightarrow> del_plan res" where
  "delete_task_plan env scope rid ical = scoped_delete env TODO (base_key TODO) scope rid ical"

definition sync_delete_task ::
  "'s dav \<Rightarrow> 'r env \<Rightarrow> conn \<Rightarrow> string \<Rightarrow> string \<Rightarrow> string \<Rightarrow> string option \<Rightarrow> ('s world, unit) io"
where
  "sync_delete_task dav env cn url uid scope rid =
     bindi (find_item dav cn url ''VTODO'' uid) (\<lambda>obj.
     bindi (liftr (o_ical obj)) (\<lambda>ical.
     bindi (liftr (delete_task_plan env scope rid ical)) (execute_delete dav cn obj)))"

definition delete_task ::
  "'s dav \<Rightarrow> 'r env \<Rightarrow> conn \<Rightarrow> string \<Rightarrow> string \<Rightarrow> string \<Rightarrow> string option \<Rightarrow> ('s world, unit) io"
where
  "delete_task dav env cn url uid scope rid =
     observed ''delete_task'' True (sync_delete_task dav env cn url uid scope rid)"

section \<open>Completing\<close>

text \<open>\<open>_sync_set_task_status\<close>. On a series the completion is an override of the occurrence; an
  override that only carries the status is removed again when it is undone.\<close>

definition opt_eq :: "tzdb \<Rightarrow> tm option \<Rightarrow> tm option \<Rightarrow> bool" where
  "opt_eq db a b = (case (a, b) of (None, None) \<Rightarrow> True | (Some x, Some y) \<Rightarrow> tm_eq db x y | _ \<Rightarrow> False)"

definition at_pivot :: "tzdb \<Rightarrow> tm \<Rightarrow> vcomp \<Rightarrow> bool" where
  "at_pivot db pivot c \<longleftrightarrow> is_override ''VTODO'' c \<and> has_rid db pivot c"

definition status_plan :: "'r env \<Rightarrow> string \<Rightarrow> bool \<Rightarrow> string option \<Rightarrow> vcal \<Rightarrow> vcal res" where
  "status_plan env uid completed rid ical =
     (let db = e_tz env in
      case master_vevent ''VTODO'' ical of
        None \<Rightarrow> Inl (EventNotFoundError uid)
      | Some master \<Rightarrow>
          if \<not> has_rrule master \<or> \<not> truthy rid
          then with_master ''VTODO'' (\<lambda>m. Inr (set_status env completed m)) ical
          else
            bindr (resolve_pivot db ical (the rid) master TODO) (\<lambda>pivot.
              case find (at_pivot db pivot) (vsubs ical) of
                Some existing \<Rightarrow>
                  bindr (occurrence_span db master pivot) (\<lambda>(occ_start, occ_due).
                  bindr (decoded_opt DTSTART existing) (\<lambda>s.
                  bindr (if opt_eq db s occ_start
                         then bindr (decoded_opt DUE existing) (\<lambda>e. Inr (\<not> opt_eq db e occ_due))
                         else Inr True) (\<lambda>moved.
                    Inr (ical\<lparr>vsubs :=
                      (if \<not> completed \<and> \<not> moved then remove_first (at_pivot db pivot) (vsubs ical)
                       else update_first (at_pivot db pivot) (set_status env completed) (vsubs ical))\<rparr>))))
              | None \<Rightarrow>
                  if completed then
                    bindr (occurrence_span db master pivot) (\<lambda>(occ_start, occ_due).
                      Inr (upsert_override env master pivot
                             \<lparr>f_title = (case text_of SUMMARY master of Some t \<Rightarrow> t | None \<Rightarrow> []),
                              f_start = occ_start, f_end = occ_due, f_location = None, f_description = None\<rparr>
                             None TODO (Some ''COMPLETED'') (Some (e_now env)) ical))
                  else Inr ical))"

definition sync_set_task_status ::
  "'s dav \<Rightarrow> 'r env \<Rightarrow> conn \<Rightarrow> string \<Rightarrow> string \<Rightarrow> bool \<Rightarrow> string option \<Rightarrow> ('s world, unit) io"
where
  "sync_set_task_status dav env cn url uid completed rid =
     bindi (find_item dav cn url ''VTODO'' uid) (\<lambda>obj.
     bindi (liftr (o_ical obj)) (\<lambda>ical.
     bindi (liftr (status_plan env uid completed rid ical)) (\<lambda>ical'.
       request (d_save dav cn obj ical'))))"

definition set_task_status ::
  "'s dav \<Rightarrow> 'r env \<Rightarrow> conn \<Rightarrow> string \<Rightarrow> string \<Rightarrow> bool \<Rightarrow> string option \<Rightarrow> ('s world, unit) io"
where
  "set_task_status dav env cn url uid completed rid =
     observed ''set_task_status'' True (sync_set_task_status dav env cn url uid completed rid)"

section \<open>Facts\<close>

interpretation task_edit: master_edit "set_priority p" "update_rule db rrule anchor move"
  for p db rrule anchor move
  by unfold_locales (auto simp: same_but_def [of "{PRIORITY}"] intro: same_but_update_rule)

interpretation task_first: master_edit "set_priority p" "\<lambda>m. Inr (set_rrule rule m)"
  for p rule
  by unfold_locales (auto simp: same_but_def)

lemma set_status_vals:
  "cvals (set_status env b c) k =
     (if k = STATUS then [VText (if b then ''COMPLETED'' else ''NEEDS-ACTION'')]
      else if k = PERCENT_COMPLETE then [VInt (if b then 100 else 0)]
      else if k = COMPLETED then (if b then [VTm (e_now env)] else [])
      else if k = LAST_MODIFIED then [VTm (e_now env)]
      else cvals c k)"
  by (simp add: set_status_def Let_def)

lemma set_status_frame [simp]:
  "cname (set_status env b c) = cname c" "csubs (set_status env b c) = csubs c"
  by (simp_all add: set_status_def Let_def)

lemma task_completed_set_status: "task_completed (set_status env b c) = b"
proof -
  have u: "upper ''COMPLETED'' = ''COMPLETED''" "upper ''NEEDS-ACTION'' \<noteq> ''COMPLETED''" by code_simp+
  show ?thesis
    by (simp add: task_completed_def text_of_def chas_def set_status_vals int_of_def u)
qed

lemma set_status_override [simp]:
  "is_override name (set_status env b c) = is_override name c"
  "has_rid db p (set_status env b c) = has_rid db p c"
  by (simp_all add: is_override_def chas_def has_rid_def decoded_def set_status_vals)

lemma set_status_plain [simp]: "is_plain name (set_status env b c) = is_plain name c"
  by (simp add: is_plain_def chas_def set_status_vals)

text \<open>Looking a pivot up once more, when an override has been written at it.\<close>

lemma moved_to_rid: "moved_to db kind cand ovs = Some r \<Longrightarrow> \<exists>ov \<in> set ovs. has_rid db r ov"
  by (induction ovs) (auto simp: has_rid_def split: option.splits sum.splits if_splits)

lemma resolve_pivot_again:
  assumes "resolve_pivot db cal rid m kind = Inr pivot"
    and "\<And>ov. ov \<in> set (overrides (k_name kind) cal) \<Longrightarrow> \<not> has_rid db pivot ov"
    and "ov \<in> set (overrides (k_name kind) cal')" and "has_rid db pivot ov"
  shows "resolve_pivot db cal' rid m kind = Inr pivot"
proof -
  obtain base cand where b: "decoded (base_key kind m) m = Inr base" and c: "occurrence_dt db rid base = Inr cand"
    and p: "(if list_ex (has_rid db cand) (overrides (k_name kind) cal) then cand
             else (case moved_to db kind cand (overrides (k_name kind) cal) of Some r \<Rightarrow> r | None \<Rightarrow> cand)) = pivot"
    using assms(1) by (auto simp: resolve_pivot_def bindr_eq_Inr Let_def split: if_splits option.splits)
  have "cand = pivot"
    using p assms(2) moved_to_rid by (fastforce simp: list_ex_iff split: if_splits option.splits)
  then show ?thesis using assms(3,4) b c by (auto simp: resolve_pivot_def list_ex_iff Let_def)
qed

lemma decoded_opt_vals: "cvals c k = tm_vals t \<Longrightarrow> decoded_opt k c = Inr t"
  by (cases t) (simp_all add: decoded_opt_def chas_def decoded_def tm_vals_def)

lemma opt_eq_refl [simp]: "opt_eq db t t"
  by (cases t) (simp_all add: opt_eq_def)

lemma remove_first_snoc: "(\<And>x. x \<in> set xs \<Longrightarrow> \<not> P x) \<Longrightarrow> P y \<Longrightarrow> remove_first P (xs @ [y]) = xs"
  by (induction xs) auto

section \<open>Properties\<close>

text \<open>The override that completing an occurrence writes.\<close>

lemma complete_occurrence:
  assumes "master_vevent ''VTODO'' cal = Some m" and "has_rrule m" and "truthy rid"
    and "resolve_pivot (e_tz env) cal (the rid) m TODO = Inr pivot"
    and none: "find (at_pivot (e_tz env) pivot) (vsubs cal) = None"
    and "status_plan env uid True rid cal = Inr cal1"
  obtains s e ov where "occurrence_span (e_tz env) m pivot = Inr (s, e)"
    and "vsubs cal1 = vsubs cal @ [ov]" and "vprops cal1 = vprops cal" and "at_pivot (e_tz env) pivot ov"
    and "cvals ov DTSTART = tm_vals s" and "cvals ov DUE = tm_vals e" and "task_completed ov"
    and "cal1 = cal\<lparr>vsubs := vsubs cal @ [ov]\<rparr>"
proof -
  let ?f = "\<lambda>s e. \<lparr>f_title = (case text_of SUMMARY m of Some t \<Rightarrow> t | None \<Rightarrow> []),
              f_start = s, f_end = e, f_location = None, f_description = None\<rparr>"
  obtain s e where sp: "occurrence_span (e_tz env) m pivot = Inr (s, e)"
    and c1: "cal1 = upsert_override env m pivot (?f s e) None TODO (Some ''COMPLETED'') (Some (e_now env)) cal"
    using assms by (auto simp: status_plan_def Let_def bindr_eq_Inr)
  let ?ov = "make_override env m pivot (?f s e) None TODO (Some ''COMPLETED'') (Some (e_now env))"
  have ne: "k_end_key TODO \<noteq> NoKey \<or> f_end (?f s e) = None" by simp
  note V = make_override_vals [OF kind_ok_kinds(2) ne, of env m pivot None "Some ''COMPLETED''" "Some (e_now env)"]
  have nov: "\<not> (is_override ''VTODO'' c \<and> has_rid (e_tz env) pivot c)" if "c \<in> set (vsubs cal)" for c
    using none that by (auto simp: find_None_iff at_pivot_def)
  have "filter (\<lambda>c. \<not> (is_override (k_name TODO) c \<and> has_rid (e_tz env) pivot c)) (vsubs cal) = vsubs cal"
    using nov by (auto intro!: filter_True)
  then have c1': "cal1 = cal\<lparr>vsubs := vsubs cal @ [?ov]\<rparr>"
    by (simp add: c1 upsert_override_def)
  have at: "at_pivot (e_tz env) pivot ?ov"
    using make_override_is [OF kind_ok_kinds(2) ne, of env m pivot None "Some ''COMPLETED''" "Some (e_now env)"]
    by (simp add: at_pivot_def has_rid_def)
  have u: "upper ''COMPLETED'' = ''COMPLETED''" by code_simp
  have fin: "task_completed ?ov" by (simp add: task_completed_def chas_def V tm_vals_def)
  show thesis
    by (rule that [OF sp _ _ at _ _ fin c1']) (simp_all add: c1' V)
qed

text \<open>C13: Completing an occurrence of a recurring task that has no override, and then taking it
  back, restores the calendar object exactly: no trace of the toggle is left in the series.\<close>

theorem toggle_occurrence_roundtrip:
  assumes "has_master ''VTODO'' cal" and "master_vevent ''VTODO'' cal = Some m" and "has_rrule m" and "truthy rid"
    and "resolve_pivot (e_tz env) cal (the rid) m TODO = Inr pivot"
    and "find (at_pivot (e_tz env) pivot) (vsubs cal) = None"
    and "status_plan env uid True rid cal = Inr cal1"
  shows "status_plan env uid False rid cal1 = Inr cal"
proof -
  obtain s e ov where sp: "occurrence_span (e_tz env) m pivot = Inr (s, e)"
    and v: "vsubs cal1 = vsubs cal @ [ov]" and at: "at_pivot (e_tz env) pivot ov"
    and s: "cvals ov DTSTART = tm_vals s" and e: "cvals ov DUE = tm_vals e"
    and c1: "cal1 = cal\<lparr>vsubs := vsubs cal @ [ov]\<rparr>"
    by (rule complete_occurrence [OF assms(2-7)]) blast
  have nov: "\<not> at_pivot (e_tz env) pivot c" if "c \<in> set (vsubs cal)" for c
    using assms(6) that by (auto simp: find_None_iff)
  have np: "\<not> is_plain ''VTODO'' ov" using at plain_not_override by (auto simp: at_pivot_def)
  have "find (is_plain ''VTODO'') (vsubs cal1) = find (is_plain ''VTODO'') (vsubs cal)"
    using np by (simp add: v find_append split: option.split)
  then have m1: "master_vevent ''VTODO'' cal1 = Some m"
    using assms(1,2) by (simp add: master_vevent_find master_sel_def has_master_def v)
  have "resolve_pivot (e_tz env) cal1 (the rid) m TODO = Inr pivot"
    by (rule resolve_pivot_again [OF assms(5), of ov])
      (use nov at v in \<open>auto simp: at_pivot_def overrides_def\<close>)
  moreover have "find (at_pivot (e_tz env) pivot) (vsubs cal1) = Some ov"
    using assms(6) at by (simp add: v find_append)
  moreover have "remove_first (at_pivot (e_tz env) pivot) (vsubs cal1) = vsubs cal"
    unfolding v by (rule remove_first_snoc) (use nov at in auto)
  ultimately show ?thesis
    using m1 assms(3,4) sp decoded_opt_vals [OF s] decoded_opt_vals [OF e]
    by (simp add: status_plan_def Let_def c1)
qed

lemma sample_task:
  "has_master ''VTODO'' (sample_cal ''VTODO'' DUE)"
  "master_vevent ''VTODO'' (sample_cal ''VTODO'' DUE) = Some (sample_master ''VTODO'' DUE)"
  "has_rrule (sample_master ''VTODO'' DUE)" "truthy (Some ''2024-01-03T10:00:00+00:00'')"
  "resolve_pivot (e_tz sample_env) (sample_cal ''VTODO'' DUE) (the (Some ''2024-01-03T10:00:00+00:00''))
     (sample_master ''VTODO'' DUE) TODO = Inr (jan 3 10)"
  "find (at_pivot (e_tz sample_env) (jan 3 10)) (vsubs (sample_cal ''VTODO'' DUE)) = None"
  by code_simp+

theorem toggle_occurrence_roundtrip_witness:
  "\<exists>cal1. status_plan sample_env ''u1'' True (Some ''2024-01-03T10:00:00+00:00'') (sample_cal ''VTODO'' DUE) = Inr cal1
     \<and> status_plan sample_env ''u1'' False (Some ''2024-01-03T10:00:00+00:00'') cal1 = Inr (sample_cal ''VTODO'' DUE)"
proof -
  have "case status_plan sample_env ''u1'' True (Some ''2024-01-03T10:00:00+00:00'') (sample_cal ''VTODO'' DUE)
      of Inl _ \<Rightarrow> False | Inr _ \<Rightarrow> True"
    by code_simp
  then obtain cal1 where
    r: "status_plan sample_env ''u1'' True (Some ''2024-01-03T10:00:00+00:00'') (sample_cal ''VTODO'' DUE) = Inr cal1"
    using isr_obtain by blast
  from toggle_occurrence_roundtrip [OF sample_task r] r show ?thesis by blast
qed

text \<open>A change that is confined to the overrides at one slot.\<close>

lemma touch_series:
  assumes "filter (\<lambda>c. \<not> P c) zs = filter (\<lambda>c. \<not> P c) (vsubs cal)" and "\<And>c. P c \<Longrightarrow> is_override name c"
    and "cal' = cal\<lparr>vsubs := zs\<rparr>"
  shows "has_master name cal' = has_master name cal"
    and "has_master name cal \<Longrightarrow> master_vevent name cal' = master_vevent name cal"
    and "others name cal' = others name cal"
    and "filter (\<lambda>c. \<not> P c) (overrides name cal') = filter (\<lambda>c. \<not> P c) (overrides name cal)"
proof -
  have np: "is_plain name c \<Longrightarrow> \<not> P c" for c using assms(2) plain_not_override by blast
  have ex: "list_ex Q ys \<longleftrightarrow> find Q ys \<noteq> None" for Q and ys :: "vcomp list"
    by (induction ys) auto
  have "find (is_plain name) (filter (\<lambda>c. \<not> P c) ys) = find (is_plain name) ys" for ys
    using np by (intro find_filter_keep) blast
  then have fp: "find (is_plain name) (vsubs cal') = find (is_plain name) (vsubs cal)"
    using assms(1,3) by (metis vcal.select_convs(2) vcal.surjective vcal.update_convs(2))
  then show hm: "has_master name cal' = has_master name cal" by (simp add: has_master_def ex)
  show "master_vevent name cal' = master_vevent name cal" if "has_master name cal"
    using hm that fp by (simp add: master_vevent_find master_sel_def has_master_def)
  have "filter (\<lambda>c. cname c \<noteq> name) ys = filter (\<lambda>c. cname c \<noteq> name) (filter (\<lambda>c. \<not> P c) ys)" for ys
    using assms(2) by (induction ys) (auto simp: is_override_def)
  then have "filter (\<lambda>c. cname c \<noteq> name) zs = filter (\<lambda>c. cname c \<noteq> name) (vsubs cal)" using assms(1) by metis
  then show "others name cal' = others name cal" by (simp add: others_def assms(3))
  have "filter (\<lambda>c. \<not> P c) (filter (is_override name) ys) = filter (is_override name) (filter (\<lambda>c. \<not> P c) ys)" for ys
    by (induction ys) auto
  then have "filter (\<lambda>c. \<not> P c) (filter (is_override name) zs) =
      filter (\<lambda>c. \<not> P c) (filter (is_override name) (vsubs cal))" using assms(1) by metis
  then show "filter (\<lambda>c. \<not> P c) (overrides name cal') = filter (\<lambda>c. \<not> P c) (overrides name cal)"
    unfolding overrides_def assms(3) by (simp del: filter_filter)
qed

lemma filter_not_remove_first: "filter (\<lambda>c. \<not> P c) (remove_first P zs) = filter (\<lambda>c. \<not> P c) zs"
  by (induction zs) auto

lemma filter_not_update_first:
  "(\<And>c. P c \<Longrightarrow> P (g c)) \<Longrightarrow> filter (\<lambda>c. \<not> P c) (update_first P g zs) = filter (\<lambda>c. \<not> P c) zs"
  by (induction zs) auto

lemma remove_first_only:
  "length (filter P zs) \<le> 1 \<Longrightarrow> find P zs = Some x \<Longrightarrow> find P (remove_first P zs) = None"
  by (induction zs) (auto simp: find_None_iff filter_empty_conv split: if_splits)

text \<open>The four ways toggling one occurrence changes the object: the override of its slot goes, is
  updated or is added, or nothing happens.\<close>

lemma status_plan_cases:
  assumes "status_plan env uid b rid cal = Inr cal'"
    and "has_master ''VTODO'' cal" and "master_vevent ''VTODO'' cal = Some m" and "has_rrule m" and "truthy rid"
    and "resolve_pivot (e_tz env) cal (the rid) m TODO = Inr pivot"
  obtains (removed) x where "find (at_pivot (e_tz env) pivot) (vsubs cal) = Some x" "\<not> b"
      "cal' = cal\<lparr>vsubs := remove_first (at_pivot (e_tz env) pivot) (vsubs cal)\<rparr>"
    | (updated) x where "find (at_pivot (e_tz env) pivot) (vsubs cal) = Some x"
      "cal' = cal\<lparr>vsubs := update_first (at_pivot (e_tz env) pivot) (set_status env b) (vsubs cal)\<rparr>"
    | (added) ov where "find (at_pivot (e_tz env) pivot) (vsubs cal) = None" "b" "cal' = cal\<lparr>vsubs := vsubs cal @ [ov]\<rparr>"
      "at_pivot (e_tz env) pivot ov" "task_completed ov"
    | (same) "find (at_pivot (e_tz env) pivot) (vsubs cal) = None" "\<not> b" "cal' = cal"
proof (cases "find (at_pivot (e_tz env) pivot) (vsubs cal)")
  case None
  then show ?thesis
  proof (cases b)
    case True
    with None assms show ?thesis using complete_occurrence [of cal m rid env pivot uid cal'] added by metis
  next
    case False
    with None assms show ?thesis by (intro same) (auto simp: status_plan_def Let_def)
  qed
next
  case (Some x)
  then show ?thesis
    using assms removed updated
    by (auto simp: status_plan_def Let_def bindr_eq_Inr split: if_splits)
qed

text \<open>C17: Toggling an occurrence of a recurring task never touches the series itself: the master,
  every component of another kind and every override of another slot stay. After completing, the
  occurrence's override counts as completed; after taking it back (when the slot had at most one
  override) the occurrence has no override or one that does not count as completed.\<close>

theorem toggle_keeps_series:
  assumes "status_plan env uid b rid cal = Inr cal'"
    and "has_master ''VTODO'' cal" and "master_vevent ''VTODO'' cal = Some m" and "has_rrule m" and "truthy rid"
  shows "\<exists>pivot. resolve_pivot (e_tz env) cal (the rid) m TODO = Inr pivot
     \<and> master_vevent ''VTODO'' cal' = Some m \<and> others ''VTODO'' cal' = others ''VTODO'' cal
     \<and> filter (\<lambda>c. \<not> at_pivot (e_tz env) pivot c) (overrides ''VTODO'' cal') =
         filter (\<lambda>c. \<not> at_pivot (e_tz env) pivot c) (overrides ''VTODO'' cal)
     \<and> (b \<longrightarrow> (\<exists>ov. find (at_pivot (e_tz env) pivot) (vsubs cal') = Some ov \<and> task_completed ov))
     \<and> (\<not> b \<longrightarrow> length (filter (at_pivot (e_tz env) pivot) (vsubs cal)) \<le> 1 \<longrightarrow>
         (case find (at_pivot (e_tz env) pivot) (vsubs cal') of None \<Rightarrow> True | Some ov \<Rightarrow> \<not> task_completed ov))"
proof -
  obtain pivot where pv: "resolve_pivot (e_tz env) cal (the rid) m TODO = Inr pivot"
    using assms by (auto simp: status_plan_def Let_def bindr_eq_Inr)
  let ?P = "at_pivot (e_tz env) pivot"
  have isov: "?P c \<Longrightarrow> is_override ''VTODO'' c" for c by (simp add: at_pivot_def)
  have keep: "?P (set_status env b c) = ?P c" for c by (simp add: at_pivot_def)
  show ?thesis
    using assms pv
  proof (cases rule: status_plan_cases)
    case (removed x)
    note T = touch_series [OF filter_not_remove_first isov removed(3)]
    show ?thesis
      using T assms(2,3) pv removed remove_first_only [OF _ removed(1)]
      by (intro exI [of _ pivot]) (auto split: option.split)
  next
    case (updated x)
    have "find ?P (vsubs cal') = Some (set_status env b x)"
      using find_update_first [OF updated(1), of "set_status env b"] keep find_SomeD [OF updated(1)] by (simp add: updated(2))
    moreover note T = touch_series [OF filter_not_update_first isov updated(2)]
    ultimately show ?thesis
      using T keep assms(2,3) pv by (intro exI [of _ pivot]) (simp add: task_completed_set_status)
  next
    case (added ov)
    have "filter (\<lambda>c. \<not> ?P c) (vsubs cal @ [ov]) = filter (\<lambda>c. \<not> ?P c) (vsubs cal)" using added by simp
    note T = touch_series [OF this isov added(3)]
    show ?thesis
      using T assms(2,3) pv added by (intro exI [of _ pivot]) (simp add: find_append)
  next
    case same
    then show ?thesis using assms(2,3) pv by (intro exI [of _ pivot]) simp
  qed
qed

theorem toggle_keeps_series_witness:
  "\<exists>cal'. status_plan sample_env ''u1'' True (Some ''2024-01-03T10:00:00+00:00'') (sample_cal ''VTODO'' DUE) = Inr cal'
     \<and> master_vevent ''VTODO'' cal' = Some (sample_master ''VTODO'' DUE)"
proof -
  have "case status_plan sample_env ''u1'' True (Some ''2024-01-03T10:00:00+00:00'') (sample_cal ''VTODO'' DUE)
      of Inl _ \<Rightarrow> False | Inr _ \<Rightarrow> True"
    by code_simp
  then obtain cal' where
    r: "status_plan sample_env ''u1'' True (Some ''2024-01-03T10:00:00+00:00'') (sample_cal ''VTODO'' DUE) = Inr cal'"
    using isr_obtain by blast
  from toggle_keeps_series [OF r sample_task(1-4)] r show ?thesis by blast
qed

text \<open>Editing a single occurrence of a recurring task rewrites its override from scratch but
  keeps its completion: the new override at the pivot counts as completed exactly when the one
  it replaces did.\<close>

theorem edit_occurrence_keeps_completion:
  assumes "task_this env f start due pivot reminders m cal = Inr cal'"
  shows "\<exists>ov. overrides ''VTODO'' cal' = filter (\<lambda>c. \<not> has_rid (e_tz env) pivot c) (overrides ''VTODO'' cal) @ [ov]
     \<and> decoded RECURRENCE_ID ov = Inr pivot
     \<and> cvals ov DTSTART = tm_vals start \<and> cvals ov DUE = tm_vals due
     \<and> task_completed ov = (case find (has_rid (e_tz env) pivot) (overrides ''VTODO'' cal) of
           None \<Rightarrow> False | Some prev \<Rightarrow> task_completed prev)"
proof -
  obtain st co where cs: "carried_status env pivot cal = Inr (st, co)"
    and c': "cal' = upsert_override env m pivot (spanned f start due) reminders TODO st co cal"
    using assms by (auto simp: task_this_def bindr_eq_Inr)
  let ?ov = "make_override env m pivot (spanned f start due) reminders TODO st co"
  have ne: "k_end_key TODO \<noteq> NoKey \<or> f_end (spanned f start due) = None" by simp
  note V = make_override_vals [OF kind_ok_kinds(2) ne]
  have co: "task_completed ?ov = (co \<noteq> None)" if "co = None \<longrightarrow> st = None"
  proof (cases co)
    case None
    with that show ?thesis by (simp add: task_completed_def chas_def V text_of_def text_vals_def tm_vals_def)
  next
    case (Some t)
    then show ?thesis by (simp add: task_completed_def chas_def V tm_vals_def)
  qed
  have "(co = None \<longrightarrow> st = None) \<and> (co \<noteq> None) =
      (case find (has_rid (e_tz env) pivot) (overrides ''VTODO'' cal) of None \<Rightarrow> False | Some prev \<Rightarrow> task_completed prev)"
    using cs by (auto simp: carried_status_def bindr_eq_Inr split: option.splits if_splits)
  with co have "task_completed ?ov =
      (case find (has_rid (e_tz env) pivot) (overrides ''VTODO'' cal) of None \<Rightarrow> False | Some prev \<Rightarrow> task_completed prev)"
    by blast
  then show ?thesis
    using upsert_series(1) [OF kind_ok_kinds(2) ne c']
    by (intro exI [of _ ?ov]) (simp add: V decoded_def)
qed

theorem edit_occurrence_keeps_completion_witness:
  "\<exists>cal1 cal2 ov. status_plan sample_env ''u1'' True (Some ''2024-01-03T10:00:00+00:00'') (sample_cal ''VTODO'' DUE) = Inr cal1
     \<and> task_this sample_env sample_fields (Some (jan 3 12)) (Some (jan 3 13)) (jan 3 10) None (sample_master ''VTODO'' DUE) cal1 = Inr cal2
     \<and> ov \<in> set (overrides ''VTODO'' cal2) \<and> task_completed ov"
proof -
  let ?cal1 = "status_plan sample_env ''u1'' True (Some ''2024-01-03T10:00:00+00:00'') (sample_cal ''VTODO'' DUE)"
  have "case ?cal1 of Inl _ \<Rightarrow> False | Inr c \<Rightarrow>
      (case task_this sample_env sample_fields (Some (jan 3 12)) (Some (jan 3 13)) (jan 3 10) None (sample_master ''VTODO'' DUE) c of
         Inl _ \<Rightarrow> False | Inr _ \<Rightarrow>
         (case find (has_rid (e_tz sample_env) (jan 3 10)) (overrides ''VTODO'' c) of None \<Rightarrow> False | Some prev \<Rightarrow> task_completed prev))"
    by code_simp
  then obtain cal1 cal2 where c1: "?cal1 = Inr cal1"
    and r: "task_this sample_env sample_fields (Some (jan 3 12)) (Some (jan 3 13)) (jan 3 10) None (sample_master ''VTODO'' DUE) cal1 = Inr cal2"
    and p: "case find (has_rid (e_tz sample_env) (jan 3 10)) (overrides ''VTODO'' cal1) of None \<Rightarrow> False | Some prev \<Rightarrow> task_completed prev"
    by (auto split: sum.splits)
  from edit_occurrence_keeps_completion [OF r] p
  obtain ov where ov: "overrides ''VTODO'' cal2 =
      filter (\<lambda>c. \<not> has_rid (e_tz sample_env) (jan 3 10) c) (overrides ''VTODO'' cal1) @ [ov]" "task_completed ov"
    by blast
  then have "ov \<in> set (overrides ''VTODO'' cal2)" by simp
  then show ?thesis using c1 r ov(2) by blast
qed

text \<open>Editing a whole recurring task moves DTSTART, DUE, the exclusions and the overrides' slots
  by one delta (none, if the edit gives no anchor date), and leaves the overrides' own times alone
  unless a reset was asked for; a property the task does not have is not invented.\<close>

theorem update_task_all_slots:
  assumes "task_edit_plan env uid f start due ''all'' rid rrule reminders priority names cal = Inr (cal', new)"
    and "has_master ''VTODO'' cal" and "master_vevent ''VTODO'' cal = Some m"
    and "has_rrule m" and "truthy rid" and "exdates m = Inr ex"
  shows "\<exists>pivot d s e m' ex'. resolve_pivot (e_tz env) cal (the rid) m TODO = Inr pivot
     \<and> (case (if chas DTSTART m then start else due) of
          None \<Rightarrow> d = 0 | Some a \<Rightarrow> tm_sub (e_tz env) (as_dt a) (as_dt pivot) = Inr d)
     \<and> bindr (decoded_opt DTSTART m) (\<lambda>t. add_opt t d) = Inr s \<and> bindr (decoded_opt DUE m) (\<lambda>t. add_opt t d) = Inr e
     \<and> master_vevent ''VTODO'' cal' = Some m' \<and> cvals m' DTSTART = tm_vals s \<and> cvals m' DUE = tm_vals e
     \<and> exdates m' = Inr ex' \<and> list_all2 (moved_by d) ex ex'
     \<and> list_all2 (rebound d None names TODO) (overrides ''VTODO'' cal) (overrides ''VTODO'' cal')
     \<and> others ''VTODO'' cal' = others ''VTODO'' cal \<and> new = None"
proof -
  have run: "task_all env f start due rid rrule reminders priority names m cal = Inr cal'" and new: "new = None"
    using assms(1,3) by (auto simp: task_edit_plan_def bindr_eq_Inr)
  obtain pivot d s0 e0 s e where
    p: "resolve_pivot (e_tz env) cal (the rid) m TODO = Inr pivot"
    and d: "(case (if chas DTSTART m then start else due) of
               Some a \<Rightarrow> tm_sub (e_tz env) (as_dt a) (as_dt pivot) | None \<Rightarrow> Inr 0) = Inr d"
    and s: "decoded_opt DTSTART m = Inr s0" "add_opt s0 d = Inr s"
    and e: "decoded_opt DUE m = Inr e0" "add_opt e0 d = Inr e"
    and r: "rebase_series env TODO (Some d) (spanned f s e) reminders (set_priority priority)
              (update_rule (e_tz env) rrule (first_some s e) (Some d)) names priority cal = Inr cal'"
    using run assms(4,5) by (auto simp: task_all_def Let_def bindr_eq_Inr)
  from task_edit.rebase [OF r] assms(2,3) obtain m' mid where
    m': "master_vevent ''VTODO'' cal' = Some m'"
    and run': "bindr (shift_exdate d m) (\<lambda>m1. update_rule (e_tz env) rrule (first_some s e) (Some d)
                 (set_priority priority (apply_alarms reminders DUE (apply_fields env (spanned f s e) TODO m1)))) = Inr m'"
    and o1: "mapr (shift_override d None TODO False) (overrides ''VTODO'' cal) = Inr mid"
    and o2: "mapr (\<lambda>c. if names = [] then Inr c else reset_override env names (spanned f s e) reminders priority TODO c) mid
               = Inr (overrides ''VTODO'' cal')"
    and oth: "others ''VTODO'' cal' = others ''VTODO'' cal"
    by auto
  obtain m1 where m1: "shift_exdate d m = Inr m1"
    and u: "update_rule (e_tz env) rrule (first_some s e) (Some d)
        (set_priority priority (apply_alarms reminders DUE (apply_fields env (spanned f s e) TODO m1))) = Inr m'"
    using run' by (auto simp: bindr_eq_Inr)
  have V: "k \<noteq> RRULE \<Longrightarrow> cvals m' k = cvals (set_priority priority (apply_alarms reminders DUE (apply_fields env (spanned f s e) TODO m1))) k" for k
    using same_but_update_rule [OF u] by (simp add: same_but_def)
  have span: "cvals m' DTSTART = tm_vals s" "cvals m' DUE = tm_vals e"
    using V [of DTSTART] V [of DUE] by (simp_all add: apply_fields_vals)
  have X: "exdates m' = exdates m1" using V [of EXDATE] by (simp add: exdates_def apply_fields_vals)
  obtain ex' where "exdates m1 = Inr ex'" "list_all2 (moved_by d) ex ex'"
    using exdates_move [where move = "Some d" and m = m and ?m1.0 = m1 and ex = ex] m1 assms(6) by auto
  moreover have "list_all2 (rebound d None names TODO) (overrides ''VTODO'' cal) (overrides ''VTODO'' cal')"
    using rebound_all [where move = "Some d", OF _ o2] o1 by simp
  moreover have "case (if chas DTSTART m then start else due) of
          None \<Rightarrow> d = 0 | Some a \<Rightarrow> tm_sub (e_tz env) (as_dt a) (as_dt pivot) = Inr d"
    using d by (cases "chas DTSTART m"; cases start; cases due) auto
  ultimately show ?thesis using p s e m' span X oth new by auto
qed

theorem update_task_all_slots_witness:
  "\<exists>cal' new m'. task_edit_plan sample_env ''u1'' sample_fields (Some (jan 3 11)) (Some (jan 3 12)) ''all''
        (Some ''2024-01-03T10:00:00+00:00'') None None (Some 5) [''title''] (sample_cal ''VTODO'' DUE) = Inr (cal', new)
     \<and> master_vevent ''VTODO'' cal' = Some m'"
proof -
  have "case task_edit_plan sample_env ''u1'' sample_fields (Some (jan 3 11)) (Some (jan 3 12)) ''all''
      (Some ''2024-01-03T10:00:00+00:00'') None None (Some 5) [''title''] (sample_cal ''VTODO'' DUE)
      of Inl _ \<Rightarrow> False | Inr _ \<Rightarrow> True"
    by code_simp
  then obtain cal' new where
    r: "task_edit_plan sample_env ''u1'' sample_fields (Some (jan 3 11)) (Some (jan 3 12)) ''all''
      (Some ''2024-01-03T10:00:00+00:00'') None None (Some 5) [''title''] (sample_cal ''VTODO'' DUE) = Inr (cal', new)"
    using isr_obtain by fastforce
  have x: "exdates (sample_master ''VTODO'' DUE) = Inr [jan 2 10]" by code_simp
  from update_task_all_slots [OF r sample_task(1-4) x] r show ?thesis by blast
qed

end
