(* ===== verification/Fetch.thy ===== *)
theory Fetch
  imports Tasks
begin

text \<open>
  Reading calendars: the parsing of components into the dicts the client shows, the windowed
  fetches of events, tasks and journals (one bad object or calendar must not sink the rest), the
  single-item fetch of shares, and the exports.
\<close>

section \<open>Dicts\<close>

text \<open>What \<open>_extract_props\<close> pulls out of a component, with the tasks' priority. An absent key is
  \<open>None\<close> (no reminders: the empty list).\<close>

record props =
  p_description :: "string option"
  p_location :: "string option"
  p_recurrence :: "string option"
  p_rule :: "rstruct option"
  p_reminders :: "rem_entry list"
  p_priority :: "int option"

record task_ext =
  t_completed :: bool
  t_undated :: bool
  t_status :: string
  t_percent :: "int option"

text \<open>The client's dict with its \<open>extendedProps\<close>; \<open>ev_raw_end\<close> is \<open>rawDue\<close> for a task.\<close>

datatype item_kind = AnEvent | ATask task_ext | AJournal

record ev_dict =
  ev_id :: string
  ev_title :: string
  ev_start :: "string option"
  ev_end :: "string option"
  ev_all_day :: bool
  ev_color :: string
  ev_calendar :: int
  ev_raw_start :: "string option"
  ev_raw_end :: "string option"
  ev_rid :: "string option"
  ev_props :: props
  ev_kind :: item_kind

definition no_props :: props where
  "no_props = \<lparr>p_description = None, p_location = None, p_recurrence = None, p_rule = None,
     p_reminders = [], p_priority = None\<rparr>"

text \<open>\<open>_extract_props\<close> and \<open>_extract_task_props\<close>.\<close>

definition extract_props :: "tzdb \<Rightarrow> vcomp \<Rightarrow> props" where
  "extract_props db c =
     \<lparr>p_description = text_of DESCRIPTION c, p_location = text_of LOCATION c,
      p_recurrence = (if has_rrule c then Some (rrule_to_text db (cvals c RRULE)) else None),
      p_rule = (if has_rrule c
                then (case (rrule_to_struct db (cvals c RRULE), decoded DTSTART c) of
                        (Inr s, Inr _) \<Rightarrow> Some s | _ \<Rightarrow> None)
                else None),
      p_reminders = extract_reminders db c, p_priority = None\<rparr>"

definition extract_task_props :: "tzdb \<Rightarrow> vcomp \<Rightarrow> props" where
  "extract_task_props db c =
     (extract_props db c)\<lparr>p_priority :=
        (case cvals c PRIORITY of [] \<Rightarrow> None
         | vs \<Rightarrow> (case int_of vs of Inr n \<Rightarrow> Some n | Inl _ \<Rightarrow> None))\<rparr>"

text \<open>\<open>d.update(props)\<close>, and \<open>inst.get(key, master_props.get(key))\<close> with its truth test: a present
  priority of zero is dropped, not replaced.\<close>

definition update_props :: "props \<Rightarrow> props \<Rightarrow> props" where
  "update_props old p =
     \<lparr>p_description = first_some (p_description p) (p_description old),
      p_location = first_some (p_location p) (p_location old),
      p_recurrence = first_some (p_recurrence p) (p_recurrence old),
      p_rule = first_some (p_rule p) (p_rule old),
      p_reminders = (if p_reminders p = [] then p_reminders old else p_reminders p),
      p_priority = first_some (p_priority p) (p_priority old)\<rparr>"

definition merge_props :: "props \<Rightarrow> props \<Rightarrow> props" where
  "merge_props inst master =
     (let p = update_props master inst
      in p\<lparr>p_priority := (if p_priority p = Some 0 then None else p_priority p)\<rparr>)"

section \<open>Masters\<close>

text \<open>\<open>_parse_masters\<close>: UID to master properties, and (UID, recurrence id) to override reminders.
  An object whose parsing fails keeps what was read of it before.\<close>

type_synonym meta = "(string \<times> props) list"
type_synonym ovr_reminders = "((string \<times> string) \<times> rem_entry list) list"

definition master_step :: "tzdb \<Rightarrow> vcomp \<Rightarrow> meta \<times> ovr_reminders \<Rightarrow> (meta \<times> ovr_reminders) res" where
  "master_step db c st =
     (case text_of UID c of
        None \<Rightarrow> Inr st
      | Some uid \<Rightarrow>
          if chas RECURRENCE_ID c then
            bindr (decoded RECURRENCE_ID c) (\<lambda>r.
              let rem = extract_reminders db c in
              Inr (fst st, if rem = [] then snd st else AList.update (uid, dt_to_iso db r) rem (snd st)))
          else
            let p = extract_props db c in
            Inr (if p = no_props then st
                 else (AList.update uid (update_props (case map_of (fst st) uid of Some q \<Rightarrow> q | None \<Rightarrow> no_props) p) (fst st),
                       snd st)))"

fun scan :: "('a \<Rightarrow> 's \<Rightarrow> 's res) \<Rightarrow> 'a list \<Rightarrow> 's \<Rightarrow> 's" where
  "scan step [] st = st"
| "scan step (x # xs) st = (case step x st of Inl _ \<Rightarrow> st | Inr st' \<Rightarrow> scan step xs st')"

definition walk_obj :: "string \<Rightarrow> dobj \<Rightarrow> vcomp list" where
  "walk_obj name obj = (case o_ical obj of Inl _ \<Rightarrow> [] | Inr cal \<Rightarrow> walk name cal)"

definition parse_masters :: "tzdb \<Rightarrow> string \<Rightarrow> dobj list \<Rightarrow> meta \<times> ovr_reminders" where
  "parse_masters db name masters =
     fold (\<lambda>obj st. scan (master_step db) (walk_obj name obj) st) masters ([], [])"

section \<open>Events\<close>

definition item_uid :: "string \<Rightarrow> vcomp \<Rightarrow> string" where
  "item_uid fallback c = (case text_of UID c of Some u \<Rightarrow> u | None \<Rightarrow> fallback)"

definition item_title :: "vcomp \<Rightarrow> string" where
  "item_title c = (case text_of SUMMARY c of Some t \<Rightarrow> t | None \<Rightarrow> ''(No title)'')"

text \<open>The end of an event: DTEND, or DTSTART plus DURATION.\<close>

definition event_end :: "tzdb \<Rightarrow> vcomp \<Rightarrow> tm \<Rightarrow> string option res" where
  "event_end db c dtstart =
     (if chas DTEND c then bindr (decoded DTEND c) (\<lambda>t. Inr (Some (dt_to_iso db t)))
      else (case cvals c DURATION of
              [VDur d] \<Rightarrow> bindr (tm_add dtstart d) (\<lambda>t. Inr (Some (dt_to_iso db t)))
            | [VBroken] \<Rightarrow> Inl ValueError
            | _ \<Rightarrow> Inr None))"

text \<open>The recurrence id of an override, and its reminders recovered from the unexpanded data.\<close>

definition with_rid ::
  "tzdb \<Rightarrow> string \<Rightarrow> vcomp \<Rightarrow> ovr_reminders \<Rightarrow> props \<Rightarrow> (string option \<times> props) res"
where
  "with_rid db uid c ovr inst =
     (if chas RECURRENCE_ID c then
        bindr (decoded RECURRENCE_ID c) (\<lambda>r.
          let rid = dt_to_iso db r in
          Inr (Some rid,
               if p_reminders inst = []
               then (case map_of ovr (uid, rid) of Some rem \<Rightarrow> inst\<lparr>p_reminders := rem\<rparr> | None \<Rightarrow> inst)
               else inst))
      else Inr (None, inst))"

text \<open>\<open>_vevent_to_dict\<close>.\<close>

definition vevent_to_dict ::
  "tzdb \<Rightarrow> vcomp \<Rightarrow> string \<Rightarrow> int \<Rightarrow> string \<Rightarrow> props \<Rightarrow> ovr_reminders \<Rightarrow> ev_dict option res"
where
  "vevent_to_dict db c color cal_id fallback master ovr =
     (if \<not> chas DTSTART c then Inr None
      else
        let uid = item_uid fallback c in
        bindr (decoded DTSTART c) (\<lambda>dtstart.
        bindr (event_end db c dtstart) (\<lambda>stop.
        bindr (with_rid db uid c ovr (extract_props db c)) (\<lambda>(rid, inst).
          Inr (Some \<lparr>ev_id = uid, ev_title = item_title c, ev_start = Some (dt_to_iso db dtstart),
             ev_end = stop, ev_all_day = is_all_day dtstart, ev_color = color, ev_calendar = cal_id,
             ev_raw_start = Some (dt_to_iso db dtstart), ev_raw_end = stop, ev_rid = rid,
             ev_props = merge_props inst master, ev_kind = AnEvent\<rparr>)))))"

text \<open>The slots a detached override covers, over all fetched objects.\<close>

definition override_step :: "tzdb \<Rightarrow> string \<Rightarrow> vcomp \<Rightarrow> (string \<times> string) list \<Rightarrow> (string \<times> string) list res" where
  "override_step db url c st =
     (if chas RECURRENCE_ID c
      then bindr (decoded RECURRENCE_ID c) (\<lambda>r. Inr ((item_uid url c, dt_to_iso db r) # st))
      else Inr st)"

definition overridden :: "tzdb \<Rightarrow> string \<Rightarrow> dobj list \<Rightarrow> (string \<times> string) list" where
  "overridden db name objs =
     fold (\<lambda>obj st. scan (override_step db (o_url obj)) (walk_obj name obj) st) objs []"

text \<open>The items of one object, up to the first component that fails.\<close>

fun collect :: "('a \<Rightarrow> 'b option res) \<Rightarrow> 'a list \<Rightarrow> 'b list" where
  "collect f [] = []"
| "collect f (x # xs) =
     (case f x of Inl _ \<Rightarrow> [] | Inr None \<Rightarrow> collect f xs | Inr (Some y) \<Rightarrow> y # collect f xs)"

definition meta_of :: "meta \<Rightarrow> string \<Rightarrow> props" where
  "meta_of m uid = (case map_of m uid of Some p \<Rightarrow> p | None \<Rightarrow> no_props)"

definition event_item ::
  "tzdb \<Rightarrow> string \<Rightarrow> int \<Rightarrow> meta \<Rightarrow> ovr_reminders \<Rightarrow> (string \<times> string) list \<Rightarrow> string \<Rightarrow> vcomp \<Rightarrow> ev_dict option res"
where
  "event_item db color cal_id meta ovr covered url c =
     (if \<not> chas DTSTART c then Inr None
      else
        let uid = item_uid url c in
        bindr (if chas RECURRENCE_ID c then Inr False
               else bindr (decoded DTSTART c) (\<lambda>t. Inr ((uid, dt_to_iso db t) \<in> set covered))) (\<lambda>dup.
          if dup then Inr None
          else vevent_to_dict db c color cal_id url (meta_of meta uid) ovr))"

definition events_of :: "tzdb \<Rightarrow> string \<Rightarrow> int \<Rightarrow> meta \<times> ovr_reminders \<Rightarrow> dobj list \<Rightarrow> ev_dict list" where
  "events_of db color cal_id ms objs =
     concat (map (\<lambda>obj. collect (event_item db color cal_id (fst ms) (snd ms) (overridden db ''VEVENT'' objs) (o_url obj))
                          (walk_obj ''VEVENT'' obj)) objs)"

text \<open>\<open>_master_meta\<close> and \<open>_events_from_cal\<close>.\<close>

definition master_meta ::
  "'s dav \<Rightarrow> 'r env \<Rightarrow> conn \<Rightarrow> string \<Rightarrow> tm \<Rightarrow> tm \<Rightarrow> ('s world, meta \<times> ovr_reminders) io"
where
  "master_meta dav env cn url from_dt to_dt =
     bindi (recover (bindi (request (d_search dav cn url
              \<lparr>q_kind = Some ''VEVENT'', q_window = Some (from_dt, to_dt), q_expand = False, q_completed = False\<rparr>))
              (\<lambda>objs. reti (Some objs))) None)
       (\<lambda>r. reti (case r of None \<Rightarrow> ([], []) | Some objs \<Rightarrow> parse_masters (e_tz env) ''VEVENT'' objs))"

definition events_from_cal ::
  "'s dav \<Rightarrow> 'r env \<Rightarrow> conn \<Rightarrow> string \<Rightarrow> tm \<Rightarrow> tm \<Rightarrow> string \<Rightarrow> int \<Rightarrow> ('s world, ev_dict list) io"
where
  "events_from_cal dav env cn url from_dt to_dt color cal_id =
     bindi (request (d_search dav cn url
       \<lparr>q_kind = Some ''VEVENT'', q_window = Some (from_dt, to_dt), q_expand = True, q_completed = False\<rparr>)) (\<lambda>objs.
     bindi (master_meta dav env cn url from_dt to_dt) (\<lambda>ms.
       reti (events_of (e_tz env) color cal_id ms objs)))"

section \<open>Tasks\<close>

text \<open>\<open>_build_task_event\<close>: the anchor is DUE, else DTSTART; a task with both spans start to due.\<close>

definition build_task_event ::
  "tzdb \<Rightarrow> vcomp \<Rightarrow> string \<Rightarrow> int \<Rightarrow> meta \<Rightarrow> ovr_reminders \<Rightarrow> string \<Rightarrow> bool \<Rightarrow> ev_dict option res"
where
  "build_task_event db c color cal_id meta ovr fallback undated =
     (let uid = item_uid fallback c in
      bindr (decoded_opt DTSTART c) (\<lambda>dtstart.
      bindr (decoded_opt DUE c) (\<lambda>due.
      bindr (with_rid db uid c ovr (extract_task_props db c)) (\<lambda>(rid, inst).
        let anchor = first_some due dtstart; completed = task_completed c;
            iso = map_option (dt_to_iso db) in
        Inr (Some \<lparr>ev_id = uid, ev_title = item_title c,
           ev_start = iso (if dtstart \<noteq> None \<and> due \<noteq> None then dtstart else anchor),
           ev_end = (if dtstart \<noteq> None \<and> due \<noteq> None then iso due else None),
           ev_all_day = (case anchor of Some a \<Rightarrow> is_all_day a | None \<Rightarrow> False),
           ev_color = color, ev_calendar = cal_id, ev_raw_start = iso dtstart, ev_raw_end = iso due, ev_rid = rid,
           ev_props = merge_props inst (meta_of meta uid),
           ev_kind = ATask \<lparr>t_completed = completed, t_undated = undated,
              t_status = upper (case text_of STATUS c of Some s \<Rightarrow> s
                                | None \<Rightarrow> if completed then ''COMPLETED'' else ''NEEDS-ACTION''),
              t_percent = (case cvals c PERCENT_COMPLETE of [] \<Rightarrow> None
                           | vs \<Rightarrow> (case int_of vs of Inr n \<Rightarrow> Some n | Inl _ \<Rightarrow> None))\<rparr>\<rparr>)))))"

definition task_item ::
  "tzdb \<Rightarrow> string \<Rightarrow> int \<Rightarrow> meta \<Rightarrow> ovr_reminders \<Rightarrow> (string \<times> string) list \<Rightarrow> string \<Rightarrow> vcomp \<Rightarrow> ev_dict option res"
where
  "task_item db color cal_id meta ovr covered url c =
     (if \<not> chas DTSTART c \<and> \<not> chas DUE c then Inr None
      else
        bindr (if chas RECURRENCE_ID c then Inr False
               else bindr (decoded (if chas DUE c then DUE else DTSTART) c) (\<lambda>t.
                      Inr ((item_uid url c, dt_to_iso db t) \<in> set covered))) (\<lambda>dup.
          if dup then Inr None else build_task_event db c color cal_id meta ovr url False))"

definition undated_item :: "tzdb \<Rightarrow> string \<Rightarrow> int \<Rightarrow> string \<Rightarrow> vcomp \<Rightarrow> ev_dict option res" where
  "undated_item db color cal_id url c =
     (if chas RECURRENCE_ID c \<or> chas DTSTART c \<or> chas DUE c then Inr None
      else build_task_event db c color cal_id [] [] url True)"

definition tasks_of :: "tzdb \<Rightarrow> string \<Rightarrow> int \<Rightarrow> dobj list \<Rightarrow> dobj list \<Rightarrow> ev_dict list" where
  "tasks_of db color cal_id masters objs =
     (let ms = parse_masters db ''VTODO'' masters in
      concat (map (\<lambda>obj. collect (task_item db color cal_id (fst ms) (snd ms) (overridden db ''VTODO'' objs) (o_url obj))
                           (walk_obj ''VTODO'' obj)) objs)
      @ concat (map (\<lambda>obj. collect (undated_item db color cal_id (o_url obj)) (walk_obj ''VTODO'' obj)) masters))"

text \<open>\<open>_tasks_from_cal\<close>.\<close>

definition tasks_from_cal ::
  "'s dav \<Rightarrow> 'r env \<Rightarrow> conn \<Rightarrow> string \<Rightarrow> tm \<Rightarrow> tm \<Rightarrow> string \<Rightarrow> int \<Rightarrow> ('s world, ev_dict list) io"
where
  "tasks_from_cal dav env cn url from_dt to_dt color cal_id =
     bindi (request (d_search dav cn url
       \<lparr>q_kind = Some ''VTODO'', q_window = Some (from_dt, to_dt), q_expand = True, q_completed = True\<rparr>)) (\<lambda>objs.
     bindi (recover (request (d_search dav cn url
       \<lparr>q_kind = Some ''VTODO'', q_window = None, q_expand = False, q_completed = True\<rparr>)) []) (\<lambda>masters.
       reti (tasks_of (e_tz env) color cal_id masters objs)))"

section \<open>Journals\<close>

definition vjournal_to_dict :: "tzdb \<Rightarrow> vcomp \<Rightarrow> string \<Rightarrow> int \<Rightarrow> string \<Rightarrow> ev_dict option res" where
  "vjournal_to_dict db c color cal_id fallback =
     (if \<not> chas DTSTART c then Inr None
      else bindr (decoded DTSTART c) (\<lambda>t.
        Inr (Some \<lparr>ev_id = item_uid fallback c, ev_title = item_title c, ev_start = Some (dt_to_iso db t),
           ev_end = None, ev_all_day = is_all_day t, ev_color = color, ev_calendar = cal_id,
           ev_raw_start = Some (dt_to_iso db t), ev_raw_end = None, ev_rid = None,
           ev_props = no_props\<lparr>p_description := text_of DESCRIPTION c\<rparr>, ev_kind = AJournal\<rparr>)))"

definition journals_of :: "tzdb \<Rightarrow> string \<Rightarrow> int \<Rightarrow> dobj list \<Rightarrow> ev_dict list" where
  "journals_of db color cal_id objs =
     concat (map (\<lambda>obj. collect (\<lambda>c. vjournal_to_dict db c color cal_id (o_url obj)) (walk_obj ''VJOURNAL'' obj)) objs)"

definition journals_from_cal ::
  "'s dav \<Rightarrow> 'r env \<Rightarrow> conn \<Rightarrow> string \<Rightarrow> tm \<Rightarrow> tm \<Rightarrow> string \<Rightarrow> int \<Rightarrow> ('s world, ev_dict list) io"
where
  "journals_from_cal dav env cn url from_dt to_dt color cal_id =
     bindi (request (d_search dav cn url
       \<lparr>q_kind = Some ''VJOURNAL'', q_window = Some (from_dt, to_dt), q_expand = False, q_completed = False\<rparr>)) (\<lambda>objs.
       reti (journals_of (e_tz env) color cal_id objs))"

section \<open>Requests\<close>

text \<open>The public coroutines of a single calendar.\<close>

definition fetch_events ::
  "'s dav \<Rightarrow> 'r env \<Rightarrow> conn \<Rightarrow> string \<Rightarrow> tm \<Rightarrow> tm \<Rightarrow> string \<Rightarrow> int \<Rightarrow> ('s world, ev_dict list) io"
where
  "fetch_events dav env cn url from_dt to_dt color cal_id =
     observed ''fetch_events'' False (events_from_cal dav env cn url from_dt to_dt color cal_id)"

definition fetch_tasks ::
  "'s dav \<Rightarrow> 'r env \<Rightarrow> conn \<Rightarrow> string \<Rightarrow> tm \<Rightarrow> tm \<Rightarrow> string \<Rightarrow> int \<Rightarrow> ('s world, ev_dict list) io"
where
  "fetch_tasks dav env cn url from_dt to_dt color cal_id =
     observed ''fetch_tasks'' False (tasks_from_cal dav env cn url from_dt to_dt color cal_id)"

definition fetch_journals ::
  "'s dav \<Rightarrow> 'r env \<Rightarrow> conn \<Rightarrow> string \<Rightarrow> tm \<Rightarrow> tm \<Rightarrow> string \<Rightarrow> int \<Rightarrow> ('s world, ev_dict list) io"
where
  "fetch_journals dav env cn url from_dt to_dt color cal_id =
     observed ''fetch_journals'' False (journals_from_cal dav env cn url from_dt to_dt color cal_id)"

definition fetch_sync_token :: "'s dav \<Rightarrow> conn \<Rightarrow> string \<Rightarrow> ('s world, string) io" where
  "fetch_sync_token dav cn url = observed ''fetch_sync_token'' False (request (d_sync_token dav cn url))"

text \<open>The combined fetch of one account: every kind of every calendar, one at a time; what raises
  is skipped (\<open>_ACCOUNT_FETCHERS\<close>, \<open>_sync_fetch_account_data\<close>).\<close>

record cal_ref =
  cr_url :: string
  cr_color :: string
  cr_id :: int

record fetched =
  fd_events :: "ev_dict list"
  fd_tasks :: "ev_dict list"
  fd_journals :: "ev_dict list"

definition no_data :: fetched where
  "no_data = \<lparr>fd_events = [], fd_tasks = [], fd_journals = []\<rparr>"

definition ref_kind ::
  "string list \<Rightarrow> string \<Rightarrow> ('s world, ev_dict list) io \<Rightarrow> ('s world, ev_dict list) io"
where
  "ref_kind kinds kind fetcher = (if kind \<in> set kinds then recover fetcher [] else reti [])"

definition fetch_ref ::
  "'s dav \<Rightarrow> 'r env \<Rightarrow> conn \<Rightarrow> tm \<Rightarrow> tm \<Rightarrow> string list \<Rightarrow> cal_ref \<Rightarrow> fetched \<Rightarrow> ('s world, fetched) io"
where
  "fetch_ref dav env cn from_dt to_dt kinds ref acc =
     bindi (ref_kind kinds ''events'' (events_from_cal dav env cn (cr_url ref) from_dt to_dt (cr_color ref) (cr_id ref))) (\<lambda>es.
     bindi (ref_kind kinds ''tasks'' (tasks_from_cal dav env cn (cr_url ref) from_dt to_dt (cr_color ref) (cr_id ref))) (\<lambda>ts.
     bindi (ref_kind kinds ''journals'' (journals_from_cal dav env cn (cr_url ref) from_dt to_dt (cr_color ref) (cr_id ref))) (\<lambda>js.
       reti \<lparr>fd_events = fd_events acc @ es, fd_tasks = fd_tasks acc @ ts, fd_journals = fd_journals acc @ js\<rparr>)))"

fun foldi :: "('a \<Rightarrow> 'b \<Rightarrow> ('w, 'b) io) \<Rightarrow> 'a list \<Rightarrow> 'b \<Rightarrow> ('w, 'b) io" where
  "foldi f [] acc = reti acc"
| "foldi f (x # xs) acc = bindi (f x acc) (foldi f xs)"

definition sync_fetch_account_data ::
  "'s dav \<Rightarrow> 'r env \<Rightarrow> conn \<Rightarrow> cal_ref list \<Rightarrow> tm \<Rightarrow> tm \<Rightarrow> string list \<Rightarrow> ('s world, fetched) io"
where
  "sync_fetch_account_data dav env cn refs from_dt to_dt kinds =
     foldi (fetch_ref dav env cn from_dt to_dt kinds) refs no_data"

definition fetch_account_data ::
  "'s dav \<Rightarrow> 'r env \<Rightarrow> conn \<Rightarrow> cal_ref list \<Rightarrow> tm \<Rightarrow> tm \<Rightarrow> string list \<Rightarrow> ('s world, fetched) io"
where
  "fetch_account_data dav env cn refs from_dt to_dt kinds =
     observed ''fetch_account_data'' False (sync_fetch_account_data dav env cn refs from_dt to_dt kinds)"

section \<open>One item\<close>

text \<open>The lookup by kind (\<open>event_by_uid\<close>, ...); an unknown kind raises before any request.\<close>

definition kind_name :: "string \<Rightarrow> string res" where
  "kind_name item_kind =
     (if item_kind = ''event'' then Inr ''VEVENT'' else if item_kind = ''task'' then Inr ''VTODO''
      else if item_kind = ''journal'' then Inr ''VJOURNAL'' else Inl KeyError)"

definition item_to_dict :: "tzdb \<Rightarrow> string \<Rightarrow> vcomp \<Rightarrow> string \<Rightarrow> int \<Rightarrow> string \<Rightarrow> ev_dict option res" where
  "item_to_dict db name c color cal_id fallback =
     (if name = ''VEVENT'' then vevent_to_dict db c color cal_id fallback no_props []
      else if name = ''VTODO'' then
        build_task_event db c color cal_id [] [] fallback (\<not> chas DTSTART c \<and> \<not> chas DUE c)
      else vjournal_to_dict db c color cal_id fallback)"

fun first_item :: "('a \<Rightarrow> 'b option res) \<Rightarrow> 'a list \<Rightarrow> 'b option res" where
  "first_item f [] = Inr None"
| "first_item f (x # xs) = bindr (f x) (\<lambda>r. case r of None \<Rightarrow> first_item f xs | Some y \<Rightarrow> Inr (Some y))"

text \<open>\<open>sorted\<close> by the presence of a RECURRENCE-ID is stable: the plain components, then the
  overrides.\<close>

definition masters_first :: "string \<Rightarrow> vcal \<Rightarrow> vcomp list" where
  "masters_first name cal = sort_key (\<lambda>c. chas RECURRENCE_ID c) (walk name cal)"

definition item_of :: "tzdb \<Rightarrow> string \<Rightarrow> string \<Rightarrow> int \<Rightarrow> string \<Rightarrow> vcal \<Rightarrow> ev_dict option res" where
  "item_of db name color cal_id fallback cal =
     first_item (\<lambda>c. item_to_dict db name c color cal_id fallback) (masters_first name cal)"

definition sync_fetch_item_by_uid ::
  "'s dav \<Rightarrow> 'r env \<Rightarrow> conn \<Rightarrow> string \<Rightarrow> string \<Rightarrow> string \<Rightarrow> string \<Rightarrow> int \<Rightarrow> ('s world, ev_dict option) io"
where
  "sync_fetch_item_by_uid dav env cn url uid item_kind color cal_id =
     bindi (liftr (kind_name item_kind)) (\<lambda>name.
     bindi (find_item dav cn url name uid) (\<lambda>obj.
     bindi (liftr (o_ical obj)) (\<lambda>cal.
       liftr (item_of (e_tz env) name color cal_id (o_url obj) cal))))"

definition fetch_item_by_uid ::
  "'s dav \<Rightarrow> 'r env \<Rightarrow> conn \<Rightarrow> string \<Rightarrow> string \<Rightarrow> string \<Rightarrow> string \<Rightarrow> int \<Rightarrow> ('s world, ev_dict option) io"
where
  "fetch_item_by_uid dav env cn url uid item_kind color cal_id =
     observed ''fetch_item'' True (sync_fetch_item_by_uid dav env cn url uid item_kind color cal_id)"

section \<open>Exports\<close>

text \<open>\<open>_sync_export_item\<close>: the stored object as it is.\<close>

definition sync_export_item :: "'s dav \<Rightarrow> conn \<Rightarrow> string \<Rightarrow> string \<Rightarrow> string \<Rightarrow> ('s world, vcal) io" where
  "sync_export_item dav cn url uid item_kind =
     bindi (liftr (kind_name item_kind)) (\<lambda>name.
     bindi (find_item dav cn url name uid) (\<lambda>obj. liftr (o_ical obj)))"

definition export_item_ics :: "'s dav \<Rightarrow> conn \<Rightarrow> string \<Rightarrow> string \<Rightarrow> string \<Rightarrow> ('s world, vcal) io" where
  "export_item_ics dav cn url uid item_kind =
     observed ''export_item'' True (sync_export_item dav cn url uid item_kind)"

text \<open>\<open>_sync_collect_components\<close>: the objects that do not parse are skipped.\<close>

definition component_names :: "string list" where
  "component_names = [''VEVENT'', ''VTODO'', ''VJOURNAL'']"

definition exported :: "vcomp \<Rightarrow> bool" where
  "exported c \<longleftrightarrow> cname c \<in> set component_names \<or> cname c = ''VTIMEZONE''"

definition components_of :: "dobj list \<Rightarrow> vcomp list" where
  "components_of objs =
     concat (map (\<lambda>obj. case o_ical obj of Inl _ \<Rightarrow> [] | Inr cal \<Rightarrow> filter exported (vsubs cal)) objs)"

definition sync_collect_components ::
  "'s dav \<Rightarrow> conn \<Rightarrow> string \<Rightarrow> tm \<Rightarrow> tm \<Rightarrow> ('s world, vcomp list) io"
where
  "sync_collect_components dav cn url from_dt to_dt =
     bindi (request (d_search dav cn url
       \<lparr>q_kind = None, q_window = Some (from_dt, to_dt), q_expand = False, q_completed = False\<rparr>)) (\<lambda>objs.
       reti (components_of objs))"

text \<open>\<open>export_range_ics\<close>: the merge of one source into the set of time zones seen and the calendar.\<close>

definition tzid_of :: "vcomp \<Rightarrow> string" where
  "tzid_of c = (case text_of TZID c of Some s \<Rightarrow> s | None \<Rightarrow> [])"

definition merge_comp :: "vcomp \<Rightarrow> string list \<times> vcal \<Rightarrow> string list \<times> vcal" where
  "merge_comp c st =
     (if cname c = ''VTIMEZONE'' then
        if tzid_of c \<in> set (fst st) then st
        else (tzid_of c # fst st, (snd st)\<lparr>vsubs := vsubs (snd st) @ [c]\<rparr>)
      else (fst st, (snd st)\<lparr>vsubs := vsubs (snd st) @ [c]\<rparr>))"

definition merge_source ::
  "'s dav \<Rightarrow> tm \<Rightarrow> tm \<Rightarrow> conn \<times> string \<Rightarrow> string list \<times> vcal \<Rightarrow> ('s world, string list \<times> vcal) io"
where
  "merge_source dav from_dt to_dt src st =
     bindi (observed ''export_range'' False (sync_collect_components dav (fst src) (snd src) from_dt to_dt)) (\<lambda>comps.
       reti (fold merge_comp comps st))"

definition export_range_ics ::
  "'s dav \<Rightarrow> (conn \<times> string) list \<Rightarrow> tm \<Rightarrow> tm \<Rightarrow> ('s world, vcal) io"
where
  "export_range_ics dav sources from_dt to_dt =
     bindi (foldi (merge_source dav from_dt to_dt) sources ([], new_cal)) (\<lambda>st. reti (snd st))"

section \<open>Facts\<close>

lemma collect_in: "y \<in> set (collect f xs) \<Longrightarrow> \<exists>x \<in> set xs. f x = Inr (Some y)"
  by (induction xs) (auto split: sum.splits option.splits if_splits)

lemma collect_reaches:
  "(\<And>x e. x \<in> set xs \<Longrightarrow> f x \<noteq> Inl e) \<Longrightarrow> f c = Inr (Some y) \<Longrightarrow> y \<in> set (collect f (xs @ c # ys))"
proof (induction xs)
  case (Cons x xs)
  then have y: "y \<in> set (collect f (xs @ c # ys))" by simp
  obtain r where "f x = Inr r" using Cons.prems(1) [of x] by (cases "f x") auto
  then show ?case using y by (simp split: option.split)
qed simp

text \<open>An event component that can be read: its recurrence id, its start and its end, if there.\<close>

definition readable :: "tzdb \<Rightarrow> vcomp \<Rightarrow> bool" where
  "readable db c \<longleftrightarrow>
     (chas RECURRENCE_ID c \<longrightarrow> (\<exists>r. decoded RECURRENCE_ID c = Inr r))
     \<and> (chas DTSTART c \<longrightarrow> (\<exists>t e. decoded DTSTART c = Inr t \<and> event_end db c t = Inr e))"

text \<open>The overrides that claim a slot of an event, by its text.\<close>

definition claims :: "tzdb \<Rightarrow> string \<Rightarrow> string \<times> string \<Rightarrow> dobj \<Rightarrow> vcomp \<Rightarrow> bool" where
  "claims db name slot obj c \<longleftrightarrow>
     c \<in> set (walk_obj name obj) \<and> chas RECURRENCE_ID c
     \<and> (\<exists>r. decoded RECURRENCE_ID c = Inr r \<and> slot = (item_uid (o_url obj) c, dt_to_iso db r))"

lemma scan_keeps: "set st \<subseteq> set (scan (override_step db url) cs st)"
proof (induction cs arbitrary: st)
  case (Cons c cs)
  have "set st \<subseteq> set st'" if "override_step db url c st = Inr st'" for st'
    using that by (auto simp: override_step_def bindr_eq_Inr split: if_splits)
  then show ?case using Cons.IH by (auto split: sum.split)
qed simp

lemma scan_reaches:
  assumes "\<And>x. x \<in> set xs \<Longrightarrow> readable db x" and "chas RECURRENCE_ID c" and "decoded RECURRENCE_ID c = Inr r"
  shows "(item_uid url c, dt_to_iso db r) \<in> set (scan (override_step db url) (xs @ c # ys) st)"
  using assms(1)
proof (induction xs arbitrary: st)
  case Nil
  have "override_step db url c st = Inr ((item_uid url c, dt_to_iso db r) # st)"
    using assms(2,3) by (simp add: override_step_def)
  then show ?case
    using scan_keeps [of "(item_uid url c, dt_to_iso db r) # st" db url ys] by simp
next
  case (Cons x xs)
  have "\<exists>st'. override_step db url x st = Inr st'"
    using Cons.prems [of x] by (auto simp: readable_def override_step_def)
  then show ?case using Cons.IH Cons.prems by (auto split: sum.split)
qed

lemma scan_only:
  "p \<in> set (scan (override_step db url) cs st) \<Longrightarrow> p \<in> set st \<or> (\<exists>c \<in> set cs. chas RECURRENCE_ID c
     \<and> (\<exists>r. decoded RECURRENCE_ID c = Inr r \<and> p = (item_uid url c, dt_to_iso db r)))"
proof (induction cs arbitrary: st)
  case (Cons c cs)
  show ?case
  proof (cases "override_step db url c st")
    case (Inr st')
    then have "p \<in> set st' \<or> (\<exists>c \<in> set cs. chas RECURRENCE_ID c
        \<and> (\<exists>r. decoded RECURRENCE_ID c = Inr r \<and> p = (item_uid url c, dt_to_iso db r)))"
      using Cons by simp
    then show ?thesis using Inr by (auto simp: override_step_def bindr_eq_Inr split: if_splits)
  qed (use Cons.prems in simp)
qed simp

lemma fold_keeps: "(\<And>x st. set st \<subseteq> set (f x st)) \<Longrightarrow> set st \<subseteq> set (fold f xs st)"
  by (induction xs arbitrary: st) (simp, force)

lemma fold_reaches:
  "(\<And>x st. set st \<subseteq> set (f x st)) \<Longrightarrow> x \<in> set xs \<Longrightarrow> (\<And>st. p \<in> set (f x st)) \<Longrightarrow> p \<in> set (fold f xs st)"
proof (induction xs arbitrary: st)
  case (Cons y xs)
  then show ?case using fold_keeps [of f "f y st" xs] by auto
qed simp

lemma overridden_has:
  assumes "obj \<in> set objs" and "walk_obj name obj = xs @ c # ys" and "\<And>x. x \<in> set xs \<Longrightarrow> readable db x"
    and "chas RECURRENCE_ID c" and "decoded RECURRENCE_ID c = Inr r"
  shows "(item_uid (o_url obj) c, dt_to_iso db r) \<in> set (overridden db name objs)"
  unfolding overridden_def
  by (rule fold_reaches [OF scan_keeps assms(1)]) (simp add: assms(2) scan_reaches assms(3-5))

lemma overridden_only:
  assumes "p \<in> set (overridden db name objs)"
  shows "\<exists>obj \<in> set objs. \<exists>c. claims db name p obj c"
proof -
  have "p \<in> set (fold (\<lambda>obj st. scan (override_step db (o_url obj)) (walk_obj name obj) st) objs st)
      \<Longrightarrow> p \<in> set st \<or> (\<exists>obj \<in> set objs. \<exists>c. claims db name p obj c)" for st
  proof (induction objs arbitrary: st)
    case (Cons obj objs)
    then show ?case
      using scan_only [of p db "o_url obj" "walk_obj name obj" st] by (auto simp: claims_def)
  qed simp
  from this [of "[]"] assms show ?thesis by (simp add: overridden_def)
qed

text \<open>The items a fetch returns, traced to their components.\<close>

lemma vevent_to_dict_facts:
  assumes "vevent_to_dict db c color cal_id fb master ovr = Inr (Some ev)"
  shows "ev_id ev = item_uid fb c \<and> (\<exists>t. decoded DTSTART c = Inr t \<and> ev_start ev = Some (dt_to_iso db t))
     \<and> (if chas RECURRENCE_ID c then \<exists>r. decoded RECURRENCE_ID c = Inr r \<and> ev_rid ev = Some (dt_to_iso db r)
        else ev_rid ev = None)"
  using assms
  by (auto simp: vevent_to_dict_def with_rid_def bindr_eq_Inr Let_def split: if_splits)

lemma events_of_item:
  assumes "ev \<in> set (events_of db color cal_id ms objs)"
  obtains obj c where "obj \<in> set objs" and "c \<in> set (walk_obj ''VEVENT'' obj)"
    and "event_item db color cal_id (fst ms) (snd ms) (overridden db ''VEVENT'' objs) (o_url obj) c = Inr (Some ev)"
proof -
  obtain obj where "obj \<in> set objs" and "ev \<in> set (collect (event_item db color cal_id (fst ms) (snd ms)
      (overridden db ''VEVENT'' objs) (o_url obj)) (walk_obj ''VEVENT'' obj))"
    using assms by (auto simp: events_of_def)
  with that collect_in show thesis by fast
qed

lemma event_item_facts:
  assumes "event_item db color cal_id meta ovr covered url c = Inr (Some ev)"
  shows "ev_id ev = item_uid url c
     \<and> (if chas RECURRENCE_ID c then \<exists>r. decoded RECURRENCE_ID c = Inr r \<and> ev_rid ev = Some (dt_to_iso db r)
        else ev_rid ev = None \<and> (\<exists>t. ev_start ev = Some t \<and> (item_uid url c, t) \<notin> set covered))"
proof -
  have "(\<exists>dup. (if chas RECURRENCE_ID c then Inr False
          else bindr (decoded DTSTART c) (\<lambda>t. Inr ((item_uid url c, dt_to_iso db t) \<in> set covered))) = Inr dup \<and> \<not> dup)"
    and v: "vevent_to_dict db c color cal_id url (meta_of meta (item_uid url c)) ovr = Inr (Some ev)"
    using assms by (auto simp: event_item_def bindr_eq_Inr Let_def split: if_splits)
  with vevent_to_dict_facts [OF v] show ?thesis
    by (auto simp: bindr_eq_Inr split: if_splits)
qed

lemma event_item_readable:
  assumes "readable db c"
  shows "event_item db color cal_id meta ovr covered url c \<noteq> Inl e"
    and "decoded DTSTART c = Inr t \<Longrightarrow>
      chas RECURRENCE_ID c \<or> (item_uid url c, dt_to_iso db t) \<notin> set covered \<Longrightarrow>
      \<exists>ev. event_item db color cal_id meta ovr covered url c = Inr (Some ev) \<and> ev_id ev = item_uid url c
        \<and> ev_start ev = Some (dt_to_iso db t) \<and> ev_title ev = item_title c
        \<and> ev_rid ev = (case decoded RECURRENCE_ID c of Inr r \<Rightarrow> Some (dt_to_iso db r) | Inl _ \<Rightarrow> None)"
proof -
  have no: "decoded RECURRENCE_ID c = Inr r \<Longrightarrow> chas RECURRENCE_ID c" for r by (rule decoded_chas)
  show "event_item db color cal_id meta ovr covered url c \<noteq> Inl e"
    using assms by (auto simp: event_item_def vevent_to_dict_def with_rid_def readable_def Let_def split: if_splits)
  assume t: "decoded DTSTART c = Inr t"
    and c: "chas RECURRENCE_ID c \<or> (item_uid url c, dt_to_iso db t) \<notin> set covered"
  show "\<exists>ev. event_item db color cal_id meta ovr covered url c = Inr (Some ev) \<and> ev_id ev = item_uid url c
        \<and> ev_start ev = Some (dt_to_iso db t) \<and> ev_title ev = item_title c
        \<and> ev_rid ev = (case decoded RECURRENCE_ID c of Inr r \<Rightarrow> Some (dt_to_iso db r) | Inl _ \<Rightarrow> None)"
    using assms t c no decoded_chas [OF t]
    by (auto simp: event_item_def vevent_to_dict_def with_rid_def readable_def Let_def split: sum.splits)
qed

lemma events_of_reaches:
  assumes "obj \<in> set objs" and "walk_obj ''VEVENT'' obj = xs @ c # ys" and "\<And>x. x \<in> set xs \<Longrightarrow> readable db x"
    and "event_item db color cal_id (fst ms) (snd ms) (overridden db ''VEVENT'' objs) (o_url obj) c = Inr (Some ev)"
  shows "ev \<in> set (events_of db color cal_id ms objs)"
proof -
  have "ev \<in> set (collect (event_item db color cal_id (fst ms) (snd ms) (overridden db ''VEVENT'' objs) (o_url obj))
      (walk_obj ''VEVENT'' obj))"
    unfolding assms(2)
    by (rule collect_reaches [where f = "event_item db color cal_id (fst ms) (snd ms) (overridden db ''VEVENT'' objs) (o_url obj)"])
      (rule event_item_readable(1) [OF assms(3)], assumption, rule assms(4))
  then show ?thesis using assms(1) by (auto simp: events_of_def)
qed

text \<open>C27: An override wins its slot. Let the component \<open>c\<close> of a fetched object have a start, and let it
  and what is before it in the object be readable; the other objects may hold anything. If \<open>c\<close> is a
  detached override, the fetch shows it, at its own start and with its title, and shows no plain
  occurrence of the same event whose start is the override's RECURRENCE-ID, whichever objects hold
  the two. If \<open>c\<close> is a plain occurrence, it is shown, unless an override of the same event claims
  exactly its start. Slots are compared as ISO texts.\<close>

theorem events_override_wins:
  assumes "obj \<in> set objs" and "walk_obj ''VEVENT'' obj = xs @ c # ys"
    and "\<forall>x \<in> set xs \<union> {c}. readable db x" and "decoded DTSTART c = Inr t"
    and "evs = events_of db color cal_id ms objs" and "uid = item_uid (o_url obj) c"
  shows "if chas RECURRENCE_ID c
    then \<exists>r. decoded RECURRENCE_ID c = Inr r
      \<and> (\<exists>ov \<in> set evs. ev_id ov = uid \<and> ev_rid ov = Some (dt_to_iso db r) \<and> ev_start ov = Some (dt_to_iso db t)
            \<and> ev_title ov = item_title c)
      \<and> (\<forall>ev \<in> set evs. ev_id ev = uid \<and> ev_rid ev = None \<longrightarrow> ev_start ev \<noteq> Some (dt_to_iso db r))
    else (\<exists>ev \<in> set evs. ev_id ev = uid \<and> ev_rid ev = None \<and> ev_start ev = Some (dt_to_iso db t)
            \<and> ev_title ev = item_title c)
      \<or> (\<exists>obj' \<in> set objs. \<exists>ov. claims db ''VEVENT'' (uid, dt_to_iso db t) obj' ov)"
proof -
  note ok = assms(3) [rule_format]
  have x: "readable db x" if "x \<in> set xs" for x using ok that by blast
  have rc: "readable db c" using ok by blast
  let ?cov = "overridden db ''VEVENT'' objs"
  have plain: "\<exists>t. ev_start ev = Some t \<and> (ev_id ev, t) \<notin> set ?cov" if "ev \<in> set evs" "ev_rid ev = None" for ev
  proof -
    obtain obj' c' where "obj' \<in> set objs" "c' \<in> set (walk_obj ''VEVENT'' obj')"
      "event_item db color cal_id (fst ms) (snd ms) ?cov (o_url obj') c' = Inr (Some ev)"
      using \<open>ev \<in> set evs\<close> unfolding assms(5) by (rule events_of_item)
    from event_item_facts [OF this(3)] show ?thesis using \<open>ev_rid ev = None\<close> by (auto split: if_splits)
  qed
  show ?thesis
  proof (cases "chas RECURRENCE_ID c")
    case True
    then obtain r where r: "decoded RECURRENCE_ID c = Inr r" using rc by (auto simp: readable_def)
    have cov: "(uid, dt_to_iso db r) \<in> set ?cov"
      unfolding assms(6) by (rule overridden_has [OF assms(1,2) x True r])
    obtain ov where ov: "event_item db color cal_id (fst ms) (snd ms) ?cov (o_url obj) c = Inr (Some ov)"
      "ev_id ov = uid" "ev_start ov = Some (dt_to_iso db t)" "ev_title ov = item_title c" "ev_rid ov = Some (dt_to_iso db r)"
      using event_item_readable(2) [OF rc assms(4)] True r assms(6) by fastforce
    have "ov \<in> set evs" unfolding assms(5) by (rule events_of_reaches [OF assms(1,2) x ov(1)])
    moreover have "ev_start ev \<noteq> Some (dt_to_iso db r)" if "ev \<in> set evs" "ev_id ev = uid" "ev_rid ev = None" for ev
      using plain [OF that(1,3)] that(2) cov by auto
    ultimately show ?thesis using True r ov(2-5) by auto
  next
    case False
    show ?thesis
    proof (cases "(uid, dt_to_iso db t) \<in> set ?cov")
      case True
      then show ?thesis using False overridden_only by simp
    next
      case nc: False
      have n: "decoded RECURRENCE_ID c = Inr r \<Longrightarrow> False" for r using False decoded_chas by blast
      obtain ev where ev: "event_item db color cal_id (fst ms) (snd ms) ?cov (o_url obj) c = Inr (Some ev)"
        "ev_id ev = uid" "ev_start ev = Some (dt_to_iso db t)" "ev_title ev = item_title c" "ev_rid ev = None"
        using event_item_readable(2) [OF rc assms(4)] nc n assms(6) by (fastforce split: sum.splits)
      have "ev \<in> set evs" unfolding assms(5) by (rule events_of_reaches [OF assms(1,2) x ev(1)])
      then show ?thesis using False nc ev(2-5) by auto
    qed
  qed
qed

definition sample_expansion :: "string \<Rightarrow> pkey \<Rightarrow> dobj list" where
  "sample_expansion name end_key =
     [\<lparr>o_url = ''/u1.ics'', o_ical = Inr (new_cal\<lparr>vsubs :=
        [cadd end_key (VTm (jan 3 11)) (cadd DTSTART (VTm (jan 3 10)) (cadd UID (VText ''u1'') (new_comp name))),
         cadd end_key (VTm (jan 4 11)) (cadd DTSTART (VTm (jan 4 10)) (cadd UID (VText ''u1'') (new_comp name))),
         sample_override name end_key]\<rparr>)\<rparr>,
      \<lparr>o_url = ''/broken.ics'', o_ical = Inl ValueError\<rparr>]"

theorem events_override_wins_witness:
  "\<exists>ov \<in> set (events_of sample_tz [] 1 ([], []) (sample_expansion ''VEVENT'' DTEND)).
     ev_rid ov = Some ''2024-01-04T10:00:00+00:00'' \<and> ev_start ov = Some ''2024-01-04T15:00:00+00:00''
     \<and> (\<forall>ev \<in> set (events_of sample_tz [] 1 ([], []) (sample_expansion ''VEVENT'' DTEND)).
          ev_id ev = ''u1'' \<and> ev_rid ev = None \<longrightarrow> ev_start ev \<noteq> Some ''2024-01-04T10:00:00+00:00'')"
proof -
  let ?objs = "sample_expansion ''VEVENT'' DTEND" and ?c = "sample_override ''VEVENT'' DTEND"
  let ?xs = "take 2 (walk_obj ''VEVENT'' (hd ?objs))"
  have m: "hd ?objs \<in> set ?objs" by (simp add: sample_expansion_def)
  have w: "walk_obj ''VEVENT'' (hd ?objs) = ?xs @ ?c # []" by code_simp
  have e: "\<forall>x \<in> set (?xs @ [?c]). case decoded DTSTART x of Inl _ \<Rightarrow> False
        | Inr t \<Rightarrow> (case event_end sample_tz x t of Inl _ \<Rightarrow> False | Inr _ \<Rightarrow> True)"
    and r: "\<forall>x \<in> set (?xs @ [?c]). chas RECURRENCE_ID x \<longrightarrow> (case decoded RECURRENCE_ID x of Inl _ \<Rightarrow> False | Inr _ \<Rightarrow> True)"
    and d: "decoded DTSTART ?c = Inr (jan 4 15)" "chas RECURRENCE_ID ?c" "decoded RECURRENCE_ID ?c = Inr (jan 4 10)"
    and u: "item_uid (o_url (hd ?objs)) ?c = ''u1''"
    and t: "dt_to_iso sample_tz (jan 4 10) = ''2024-01-04T10:00:00+00:00''" "dt_to_iso sample_tz (jan 4 15) = ''2024-01-04T15:00:00+00:00''"
    by code_simp+
  have "readable sample_tz x" if "x \<in> set (?xs @ [?c])" for x
    using e [rule_format, OF that] r [rule_format, OF that] unfolding readable_def by (auto split: sum.splits)
  then have ok: "\<forall>x \<in> set ?xs \<union> {?c}. readable sample_tz x" by auto
  from events_override_wins [OF m w ok d(1) refl u [symmetric], of "[]" 1 "([], [])"] d(2,3)
  show ?thesis by (auto simp: t)
qed

text \<open>The comparison of texts: an override whose RECURRENCE-ID is written in UTC does not cover the
  occurrence of the same instant that the expansion gives in the event's own zone, and both are
  shown.\<close>

lemma same_instant_shown_twice:
  fixes zoned utc
  defines "zoned \<equiv> Stamp ((738885 + 4) * DAY + 11 * HOUR) 0 (Some (Zone ''Europe/Prague''))"
    and "utc \<equiv> jan 4 10"
    and "objs \<equiv> [\<lparr>o_url = ''/u1.ics'', o_ical = Inr (new_cal\<lparr>vsubs :=
        [cadd DTSTART (VTm zoned) (cadd UID (VText ''u1'') (new_comp ''VEVENT'')),
         cadd RECURRENCE_ID (VTm utc) (cadd DTSTART (VTm (jan 4 15)) (cadd UID (VText ''u1'') (new_comp ''VEVENT'')))]\<rparr>)\<rparr>]"
  shows "tm_eq sample_tz zoned utc \<and> map (\<lambda>ev. (ev_id ev, ev_rid ev)) (events_of sample_tz [] 1 ([], []) objs)
       = [(''u1'', None), (''u1'', Some ''2024-01-04T10:00:00+00:00'')]"
  unfolding zoned_def utc_def objs_def by code_simp

text \<open>What one fetched object contributes; an object that does not parse contributes nothing.\<close>

lemma walk_obj_broken: "o_ical bad = Inl e \<Longrightarrow> walk_obj name bad = []"
  by (simp add: walk_obj_def)

lemma overridden_broken:
  "o_ical bad = Inl e \<Longrightarrow> overridden db name (xs @ bad # ys) = overridden db name (xs @ ys)"
  by (simp add: overridden_def walk_obj_broken)

lemma parse_masters_broken:
  "o_ical bad = Inl e \<Longrightarrow> parse_masters db name (xs @ bad # ys) = parse_masters db name (xs @ ys)"
  by (simp add: parse_masters_def walk_obj_broken)

text \<open>One object that does not parse is skipped: the events, tasks, journals and exported
  components of a calendar are those of its other objects, in their order.\<close>

theorem broken_object_skipped:
  assumes "o_ical bad = Inl e"
  shows "events_of db color cal_id ms (xs @ bad # ys) = events_of db color cal_id ms (xs @ ys)
     \<and> tasks_of db color cal_id (ms1 @ bad # ms2) (xs @ bad # ys) = tasks_of db color cal_id (ms1 @ ms2) (xs @ ys)
     \<and> journals_of db color cal_id (xs @ bad # ys) = journals_of db color cal_id (xs @ ys)
     \<and> components_of (xs @ bad # ys) = components_of (xs @ ys)"
  using assms
  by (simp_all add: events_of_def tasks_of_def journals_of_def components_of_def walk_obj_broken overridden_broken
      parse_masters_broken)


theorem broken_object_skipped_witness:
  "\<exists>good bad. o_ical bad = Inl ValueError
     \<and> length (events_of sample_tz [] 1 ([], []) ([good] @ bad # [])) = 2
     \<and> events_of sample_tz [] 1 ([], []) ([good] @ bad # []) = events_of sample_tz [] 1 ([], []) ([good] @ [])"
proof -
  have b: "o_ical (sample_expansion ''VEVENT'' DTEND ! 1) = Inl ValueError" by (simp add: sample_expansion_def)
  have l: "length (events_of sample_tz [] 1 ([], [])
      ([sample_expansion ''VEVENT'' DTEND ! 0] @ sample_expansion ''VEVENT'' DTEND ! 1 # [])) = 2" by code_simp
  from b l broken_object_skipped [OF b] show ?thesis by blast
qed

text \<open>A VTODO keyed by its start and due: the slot of an override is its start, but a plain
  occurrence is looked up by its due.\<close>

text \<open>The suppression of covered occurrences misses tasks that have both a start and a due
  date: overrides are keyed by the occurrence's start, but the plain occurrence is looked up by its
  due date, so it is shown beside the override that replaced it.\<close>

theorem covered_task_still_shown:
  assumes "decoded DTSTART c = Inr s" and "decoded DUE c = Inr d" and "\<not> chas RECURRENCE_ID c"
    and "(item_uid url c, dt_to_iso db d) \<notin> set covered"
  shows "\<exists>ev. task_item db color cal_id meta ovr covered url c = Inr (Some ev)
     \<and> ev_id ev = item_uid url c \<and> ev_start ev = Some (dt_to_iso db s) \<and> ev_rid ev = None"
  using assms decoded_chas [OF assms(1)] decoded_chas [OF assms(2)]
  by (simp add: task_item_def build_task_event_def Let_def decoded_opt_def with_rid_def)

theorem covered_task_still_shown_witness:
  "\<exists>c ev. c \<in> set (walk_obj ''VTODO'' (hd (sample_expansion ''VTODO'' DUE)))
     \<and> (''u1'', ''2024-01-04T10:00:00+00:00'') \<in> set (overridden sample_tz ''VTODO'' (sample_expansion ''VTODO'' DUE))
     \<and> task_item sample_tz [] 1 [] [] (overridden sample_tz ''VTODO'' (sample_expansion ''VTODO'' DUE)) ''/u1.ics'' c = Inr (Some ev)
     \<and> ev_id ev = ''u1'' \<and> ev_start ev = Some ''2024-01-04T10:00:00+00:00'' \<and> ev_rid ev = None"
proof -
  let ?objs = "sample_expansion ''VTODO'' DUE"
  let ?c = "walk_obj ''VTODO'' (hd ?objs) ! 1"
  have m: "?c \<in> set (walk_obj ''VTODO'' (hd ?objs))" by code_simp
  have o: "(''u1'', ''2024-01-04T10:00:00+00:00'') \<in> set (overridden sample_tz ''VTODO'' ?objs)" by code_simp
  have s: "decoded DTSTART ?c = Inr (jan 4 10)" and d: "decoded DUE ?c = Inr (jan 4 11)"
    and n: "\<not> chas RECURRENCE_ID ?c"
    and k: "(item_uid ''/u1.ics'' ?c, dt_to_iso sample_tz (jan 4 11)) \<notin> set (overridden sample_tz ''VTODO'' ?objs)"
    and u: "item_uid ''/u1.ics'' ?c = ''u1''" and t: "dt_to_iso sample_tz (jan 4 10) = ''2024-01-04T10:00:00+00:00''"
    by code_simp+
  from covered_task_still_shown [OF s d n k] m o show ?thesis unfolding u t by blast
qed

end
