(* ===== verification/Manage.thy ===== *)
theory Manage
  imports Tokens Login Urls Fetch
begin

text \<open>
  The routes that manage what a user has: CalDAV accounts (\<open>routers/caldav_accounts.py\<close>), calendars
  (\<open>routers/calendars.py\<close>) and API tokens (\<open>routers/api_tokens.py\<close>). Each runs under the session of its
  request; what it changes takes effect at its commit.
\<close>

section \<open>Credentials\<close>

definition password_of :: "crypto \<Rightarrow> bytes \<Rightarrow> account \<Rightarrow> string res" where
  "password_of cr dek a = bindr (decrypt_bytes cr (a_password a) (a_nonce a) dek) decode_text"

definition conn_of :: "account \<Rightarrow> string \<Rightarrow> conn" where
  "conn_of a password = \<lparr>cn_url = a_url a, cn_user = a_username a, cn_password = password\<rparr>"

text \<open>\<open>asyncio.gather(..., return_exceptions=True)\<close>: every job runs to its end and the results keep their
  order. The jobs are taken one after the other.\<close>

fun gather :: "('w, 'a) io list \<Rightarrow> ('w, 'a res list) io" where
  "gather [] = reti []"
| "gather (m # ms) = (\<lambda>w. case m w of (r, w') \<Rightarrow> bindi (gather ms) (\<lambda>rs. reti (r # rs)) w')"

definition enabled_calendars :: "db \<Rightarrow> int \<Rightarrow> (calendar \<times> account) list" where
  "enabled_calendars d uid = filter (\<lambda>(c, a). c_enabled c) (owned_calendars d uid)"

section \<open>Accounts\<close>

record account_out =
  ao_id :: int
  ao_url :: string
  ao_username :: string
  ao_created :: string

definition account_view :: "tzdb \<Rightarrow> account \<Rightarrow> account_out" where
  "account_view tz a = \<lparr>ao_id = a_id a, ao_url = a_url a, ao_username = a_username a, ao_created = isoformat tz (a_created a)\<rparr>"

definition list_accounts :: "tzdb \<Rightarrow> int \<Rightarrow> string option \<Rightarrow> ('s app, account_out list) io" where
  "list_accounts tz now cookie =
     bindi (get_unrestricted_session now cookie) (\<lambda>e.
     bindi (ask ap_db) (\<lambda>d.
       reti (map (account_view tz) (filter (\<lambda>a. a_user a = s_user e) (db_accounts d)))))"

definition add_calendar :: "int \<Rightarrow> cal_info \<Rightarrow> db \<Rightarrow> db" where
  "add_calendar aid info d =
     d\<lparr>db_calendars := db_calendars d @ [\<lparr>c_id = next_id (map c_id (db_calendars d)), c_account = aid, c_caldav_id = ci_id info,
         c_name = ci_name info, c_color = ci_color info, c_enabled = True, c_default = False\<rparr>]\<rparr>"

definition add_account :: "account \<Rightarrow> cal_info list \<Rightarrow> db \<Rightarrow> db" where
  "add_account a infos d =
     fold (add_calendar (a_id a))
       (if infos \<noteq> [] then infos else [\<lparr>ci_id = a_url a, ci_name = a_username a, ci_color = ''#3788d8''\<rparr>])
       (d\<lparr>db_accounts := db_accounts d @ [a]\<rparr>)"

text \<open>\<open>create_account\<close>. The text of an exception is a parameter; the resolver of host names is that of the
  URL guard.\<close>

definition create_account ::
  "crypto \<Rightarrow> tzdb \<Rightarrow> config \<Rightarrow> 's dav \<Rightarrow> (string \<Rightarrow> int option \<Rightarrow> dns_answer) \<Rightarrow> (exn \<Rightarrow> string)
     \<Rightarrow> int \<Rightarrow> bytes \<Rightarrow> string option \<Rightarrow> string \<Rightarrow> string \<Rightarrow> string \<Rightarrow> ('s app, account_out) io"
where
  "create_account cr tz g dav dns exn_text now nonce cookie raw_url username password =
     bindi (get_unrestricted_session now cookie) (\<lambda>e.
       let url = rstrip_char (CHR ''/'') raw_url; block = g_block_private g in
       bindi (liftr (if block then
                       (case validate_caldav_url dns url of
                          Inl (UnsafeURLError why) \<Rightarrow> Inl (http 400 ''Invalid CalDAV server URL'')
                        | r \<Rightarrow> r)
                     else Inr ())) (\<lambda>_.
       bindi (\<lambda>a. case on_world (discover_calendars dav \<lparr>cn_url = url, cn_user = username, cn_password = password\<rparr>) a of
                    (Inl x, a') \<Rightarrow> (Inl (http 502 (if block then ''Could not connect to CalDAV server''
                                        else ''Could not connect to CalDAV server: '' @ exn_text x)), a')
                  | r \<Rightarrow> r) (\<lambda>infos.
       bindi (liftr (encrypt_bytes cr nonce (encode_text password) (s_dek e))) (\<lambda>(ct, n).
       bindi (ask ap_db) (\<lambda>d.
         let acc = \<lparr>a_id = next_id (map a_id (db_accounts d)), a_user = s_user e, a_url = url, a_username = username,
                    a_password = ct, a_nonce = n, a_created = stored (utc now)\<rparr> in
         bindi (commit (add_account acc infos d)) (\<lambda>_. reti (account_view tz acc)))))))"

definition delete_account :: "int \<Rightarrow> string option \<Rightarrow> int \<Rightarrow> ('s app, unit) io" where
  "delete_account now cookie aid =
     bindi (get_unrestricted_session now cookie) (\<lambda>e.
     bindi (ask ap_db) (\<lambda>d.
     bindi (require (http 404 ''Account not found'') (find (\<lambda>a. a_id a = aid \<and> a_user a = s_user e) (db_accounts d))) (\<lambda>a.
       commit (drop_accounts (\<lambda>b. a_id b = a_id a) d))))"

section \<open>Calendars\<close>

record calendar_patch =
  cp_color :: "string option"
  cp_enabled :: "bool option"
  cp_default :: "bool option"

definition list_calendars :: "int \<Rightarrow> string option \<Rightarrow> ('s app, calendar list) io" where
  "list_calendars now cookie =
     bindi (get_unrestricted_session now cookie) (\<lambda>e.
     bindi (ask ap_db) (\<lambda>d. reti (map fst (owned_calendars d (s_user e)))))"

text \<open>One job per calendar, each with its account's connection; a password that does not decrypt ends
  the request before any job runs.\<close>

definition per_calendar ::
  "crypto \<Rightarrow> bytes \<Rightarrow> (conn \<Rightarrow> calendar \<Rightarrow> ('s world, 'a) io) \<Rightarrow> (calendar \<times> account) list \<Rightarrow> ('s app, 'a res list) io"
where
  "per_calendar cr dek job rows =
     bindi (liftr (mapr (\<lambda>(c, a). bindr (password_of cr dek a) (\<lambda>pw. Inr (job (conn_of a pw) c))) rows)) (\<lambda>jobs.
       on_world (gather jobs))"

definition calendar_ctags :: "crypto \<Rightarrow> 's dav \<Rightarrow> int \<Rightarrow> string option \<Rightarrow> ('s app, (string \<times> string) list) io" where
  "calendar_ctags cr dav now cookie =
     bindi (get_unrestricted_session now cookie) (\<lambda>e.
     bindi (ask ap_db) (\<lambda>d.
       let rows = enabled_calendars d (s_user e) in
       bindi (per_calendar cr (s_dek e) (\<lambda>cn c. fetch_sync_token dav cn (c_caldav_id c)) rows) (\<lambda>results.
         reti (fold (\<lambda>(row, r) m. case r of Inl x \<Rightarrow> m | Inr tag \<Rightarrow> AList.update (str_int (c_id (fst row))) tag m)
                 (zip rows results) []))))"

definition patch_row :: "calendar_patch \<Rightarrow> calendar \<Rightarrow> calendar" where
  "patch_row p c = c\<lparr>c_color := (case cp_color p of None \<Rightarrow> c_color c | Some x \<Rightarrow> x),
                    c_enabled := (case cp_enabled p of None \<Rightarrow> c_enabled c | Some x \<Rightarrow> x),
                    c_default := (case cp_default p of None \<Rightarrow> c_default c | Some x \<Rightarrow> x)\<rparr>"

definition patched :: "int \<Rightarrow> int \<Rightarrow> calendar_patch \<Rightarrow> db \<Rightarrow> db" where
  "patched uid cid p d =
     (let others = map (c_id \<circ> fst) (filter (\<lambda>(c, a). c_id c \<noteq> cid \<and> c_default c) (owned_calendars d uid)) in
      d\<lparr>db_calendars := map (\<lambda>c. if c_id c = cid then patch_row p c
                                 else if cp_default p = Some True \<and> c_id c \<in> set others then c\<lparr>c_default := False\<rparr>
                                 else c) (db_calendars d)\<rparr>)"

definition patch_calendar :: "int \<Rightarrow> string option \<Rightarrow> int \<Rightarrow> calendar_patch \<Rightarrow> ('s app, calendar) io" where
  "patch_calendar now cookie cid p =
     bindi (get_unrestricted_session now cookie) (\<lambda>e.
     bindi (ask ap_db) (\<lambda>d.
     bindi (require (http 404 ''Calendar not found'') (owned_calendar d (s_user e) cid)) (\<lambda>(c, a).
     bindi (commit (patched (s_user e) cid p d)) (\<lambda>_. reti (patch_row p c)))))"

section \<open>API tokens\<close>

text \<open>An expiry as the token and share routes parse it.\<close>

definition parse_expiry :: "tzdb \<Rightarrow> int \<Rightarrow> string option \<Rightarrow> tm option res" where
  "parse_expiry tz now raw =
     (case raw of
        Some (c # cs) \<Rightarrow>
          (case datetime_fromisoformat (c # cs) of
             Inl e \<Rightarrow> if e = ValueError then Inl (http 400 ''Invalid expires_at'') else Inl e
           | Inr t \<Rightarrow>
               let t' = (if tzinfo t = None then replace_tz t Utc else t) in
               bindr (tm_leq tz t' (utc now)) (\<lambda>past.
                 if past then Inl (http 400 ''expires_at must be in the future'') else Inr (Some t')))
      | _ \<Rightarrow> Inr None)"

record token_in =
  ti_name :: string
  ti_mode :: string
  ti_all :: bool
  ti_calendars :: "int list option"
  ti_expires :: "string option"

text \<open>What the request model admits (\<open>Field(min_length=1, max_length=200)\<close>, \<open>Literal["ro", "rw"]\<close>).\<close>

definition token_valid :: "token_in \<Rightarrow> bool" where
  "token_valid b \<longleftrightarrow> ti_name b \<noteq> [] \<and> length (ti_name b) \<le> 200 \<and> (ti_mode b = ''ro'' \<or> ti_mode b = ''rw'')"

record token_out =
  to_id :: int
  to_name :: string
  to_mode :: string
  to_all :: bool
  to_calendars :: "int list"
  to_expires :: "string option"
  to_created :: string
  to_used :: "string option"

definition token_view :: "tzdb \<Rightarrow> api_token \<Rightarrow> int list \<Rightarrow> token_out" where
  "token_view tz t ids = \<lparr>to_id = t_id t, to_name = t_name t, to_mode = t_mode t, to_all = t_all t, to_calendars = ids,
     to_expires = map_option (isoformat tz) (t_expires t), to_created = isoformat tz (t_created t),
     to_used = map_option (isoformat tz) (t_used t)\<rparr>"

definition token_scope_rows :: "db \<Rightarrow> int \<Rightarrow> int list" where
  "token_scope_rows d tid = map tc_calendar (filter (\<lambda>r. tc_token r = tid) (db_token_calendars d))"

text \<open>The listing, newest first.\<close>

fun wall_of :: "tm \<Rightarrow> int" where
  "wall_of (Day n) = n * DAY"
| "wall_of (Stamp w f z) = w"

definition list_tokens :: "tzdb \<Rightarrow> int \<Rightarrow> string option \<Rightarrow> ('s app, token_out list) io" where
  "list_tokens tz now cookie =
     bindi (get_unrestricted_session now cookie) (\<lambda>e.
     bindi (ask ap_db) (\<lambda>d.
       reti (map (\<lambda>t. token_view tz t (token_scope_rows d (t_id t)))
         (sort_key (\<lambda>t. - wall_of (t_created t)) (filter (\<lambda>t. t_user t = s_user e) (db_tokens d))))))"

text \<open>The ids a scoped token is for: sorted, without duplicates, at least one, all of them the user's.\<close>

definition scoped_ids :: "db \<Rightarrow> int \<Rightarrow> token_in \<Rightarrow> int list res" where
  "scoped_ids d uid b =
     (if ti_all b then Inr []
      else let ids = sort (remdups (case ti_calendars b of None \<Rightarrow> [] | Some xs \<Rightarrow> xs)) in
        if ids = [] then Inl (http 400 ''A scoped token needs at least one calendar'')
        else if \<not> set ids \<subseteq> set (map (c_id \<circ> fst) (owned_calendars d uid))
             then Inl (http 400 ''Unknown calendar in scope'')
        else Inr ids)"

definition create_token ::
  "crypto \<Rightarrow> tzdb \<Rightarrow> config \<Rightarrow> int \<Rightarrow> string \<Rightarrow> bytes \<Rightarrow> string option \<Rightarrow> token_in \<Rightarrow> ('s app, string \<times> token_out) io"
where
  "create_token cr tz g now secret nonce cookie b =
     bindi (get_unrestricted_session now cookie) (\<lambda>e.
       if \<not> g_mcp g then raisei (http 403 ''MCP server is disabled'')
       else
       bindi (liftr (parse_expiry tz now (ti_expires b))) (\<lambda>expires.
       bindi (ask ap_db) (\<lambda>d.
       bindi (liftr (scoped_ids d (s_user e) b)) (\<lambda>ids.
       bindi (liftr (mint_token cr tz secret nonce (s_dek e) (ti_mode b) (ti_all b) (Some ids) expires)) (\<lambda>(full, sha, blob, n).
         let t = \<lparr>t_id = next_id (map t_id (db_tokens d)), t_user = s_user e, t_name = ti_name b, t_sha = sha, t_blob = blob,
                  t_nonce = n, t_mode = ti_mode b, t_all = ti_all b, t_expires = map_option stored expires,
                  t_created = stored (utc now), t_used = None\<rparr> in
         bindi (commit (d\<lparr>db_tokens := db_tokens d @ [t],
                          db_token_calendars := db_token_calendars d @ map (\<lambda>i. \<lparr>tc_token = t_id t, tc_calendar = i\<rparr>) ids\<rparr>)) (\<lambda>_.
           reti (full, token_view tz t ids)))))))"

definition revoke_token :: "int \<Rightarrow> string option \<Rightarrow> int \<Rightarrow> ('s app, unit) io" where
  "revoke_token now cookie tid =
     bindi (get_unrestricted_session now cookie) (\<lambda>e.
     bindi (ask ap_db) (\<lambda>d.
     bindi (require (http 404 ''Token not found'') (find (\<lambda>t. t_id t = tid \<and> t_user t = s_user e) (db_tokens d))) (\<lambda>t.
       commit (drop_tokens (\<lambda>u. t_id u = t_id t) d))))"

end
