(* ===== verification/Account.thy ===== *)
theory Account
  imports Fetch
begin

text \<open>
  What the fetches and exports over several calendars guarantee: the isolation of failures, the
  choice of the component a single-item view renders, the merge of an export, and the accounting
  of failures in the error counters.
\<close>

section \<open>Whole accounts\<close>

text \<open>A server whose searches do not change it.\<close>

definition read_only :: "'s dav \<Rightarrow> bool" where
  "read_only dav \<longleftrightarrow> (\<forall>cn url q s. snd (d_search dav cn url q s) = s)"

definition keeps :: "('w, 'a) io \<Rightarrow> bool" where
  "keeps m \<longleftrightarrow> (\<forall>w. snd (m w) = w)"

lemma keeps_obtain:
  assumes "keeps m"
  obtains r where "m w = (r, w)"
  using assms by (metis keeps_def prod.collapse)

lemma keeps_run: "keeps m \<Longrightarrow> m w = (fst (m w), w)"
  by (metis keeps_def prod.collapse)

named_theorems keeps_intros \<open>computations that change nothing\<close>

lemma keeps_basic [keeps_intros]: "keeps (reti x)" "keeps (raisei e)" "keeps (liftr r)"
  by (simp_all add: keeps_def)

lemma keeps_request_search [keeps_intros]: "read_only dav \<Longrightarrow> keeps (request (d_search dav cn url q))"
  by (auto simp: keeps_def read_only_def request_def split: prod.splits) (metis (no_types) snd_conv world.surjective world.update_convs(1))

lemma keeps_bindi [keeps_intros]: "keeps m \<Longrightarrow> (\<And>x. keeps (f x)) \<Longrightarrow> keeps (bindi m f)"
  unfolding keeps_def [of "bindi m f"]
proof
  fix w
  assume m: "keeps m" and f: "\<And>x. keeps (f x)"
  obtain r where r: "m w = (r, w)" using m by (rule keeps_obtain)
  show "snd (bindi m f w) = w" using f r by (cases r) (simp_all add: keeps_def)
qed

lemma keeps_recover [keeps_intros]: "keeps m \<Longrightarrow> keeps (recover m d)"
  unfolding keeps_def [of "recover m d"]
proof
  fix w
  assume "keeps m"
  then obtain r where "m w = (r, w)" by (rule keeps_obtain)
  then show "snd (recover m d w) = w" by (cases r) (simp_all add: recover_def)
qed

lemma keeps_fetches [keeps_intros]:
  assumes "read_only dav"
  shows "keeps (events_from_cal dav env cn url a b color i)"
    and "keeps (tasks_from_cal dav env cn url a b color i)"
    and "keeps (journals_from_cal dav env cn url a b color i)"
    and "keeps (sync_collect_components dav cn url a b)"
  unfolding events_from_cal_def master_meta_def tasks_from_cal_def journals_from_cal_def
    sync_collect_components_def
  by (intro keeps_intros assms)+

text \<open>What one calendar shows of one kind: its items, or nothing if the kind is not asked for or
  its fetch raises.\<close>

definition shown_of :: "string list \<Rightarrow> string \<Rightarrow> ('s world, ev_dict list) io \<Rightarrow> 's world \<Rightarrow> ev_dict list" where
  "shown_of kinds kind m w =
     (if kind \<in> set kinds then (case fst (m w) of Inl _ \<Rightarrow> [] | Inr xs \<Rightarrow> xs) else [])"

lemma ref_kind_run: "keeps m \<Longrightarrow> ref_kind kinds kind m w = (Inr (shown_of kinds kind m w), w)"
  by (erule keeps_obtain [where w = w], rename_tac r, case_tac r)
    (simp_all add: ref_kind_def shown_of_def recover_def)

lemma fetch_ref_run:
  assumes "read_only dav"
  shows "fetch_ref dav env cn a b kinds ref acc w =
    (Inr \<lparr>fd_events = fd_events acc @ shown_of kinds ''events''
            (events_from_cal dav env cn (cr_url ref) a b (cr_color ref) (cr_id ref)) w,
          fd_tasks = fd_tasks acc @ shown_of kinds ''tasks''
            (tasks_from_cal dav env cn (cr_url ref) a b (cr_color ref) (cr_id ref)) w,
          fd_journals = fd_journals acc @ shown_of kinds ''journals''
            (journals_from_cal dav env cn (cr_url ref) a b (cr_color ref) (cr_id ref)) w\<rparr>, w)"
  by (simp add: fetch_ref_def bindi_def ref_kind_run keeps_fetches [OF assms])

lemma fetch_account_data_run:
  assumes "read_only dav"
  shows "fetch_account_data dav env cn refs a b kinds w =
    (Inr \<lparr>fd_events = concat (map (\<lambda>r. shown_of kinds ''events''
            (events_from_cal dav env cn (cr_url r) a b (cr_color r) (cr_id r)) w) refs),
          fd_tasks = concat (map (\<lambda>r. shown_of kinds ''tasks''
            (tasks_from_cal dav env cn (cr_url r) a b (cr_color r) (cr_id r)) w) refs),
          fd_journals = concat (map (\<lambda>r. shown_of kinds ''journals''
            (journals_from_cal dav env cn (cr_url r) a b (cr_color r) (cr_id r)) w) refs)\<rparr>, w)"
proof -
  have "foldi (fetch_ref dav env cn a b kinds) refs acc w =
    (Inr \<lparr>fd_events = fd_events acc @ concat (map (\<lambda>r. shown_of kinds ''events''
            (events_from_cal dav env cn (cr_url r) a b (cr_color r) (cr_id r)) w) refs),
          fd_tasks = fd_tasks acc @ concat (map (\<lambda>r. shown_of kinds ''tasks''
            (tasks_from_cal dav env cn (cr_url r) a b (cr_color r) (cr_id r)) w) refs),
          fd_journals = fd_journals acc @ concat (map (\<lambda>r. shown_of kinds ''journals''
            (journals_from_cal dav env cn (cr_url r) a b (cr_color r) (cr_id r)) w) refs)\<rparr>, w)" for acc
  proof (induction refs arbitrary: acc)
    case (Cons r refs)
    show ?case
      by (simp add: bindi_simps(1) [OF fetch_ref_run [OF assms]] Cons.IH)
  qed simp
  then show ?thesis
    by (simp add: fetch_account_data_def sync_fetch_account_data_def no_data_def observed_ok)
qed

text \<open>The combined fetch of an account never fails, and shows exactly what the single fetches
  of its calendars show: the items of every calendar and kind whose fetch succeeds, in the order of
  the calendars, whatever the others do.\<close>

theorem account_fetch_isolated:
  assumes "read_only dav"
  shows "fetch_account_data dav env cn refs a b kinds w =
    (Inr \<lparr>fd_events = concat (map (\<lambda>r. shown_of kinds ''events''
            (events_from_cal dav env cn (cr_url r) a b (cr_color r) (cr_id r)) w) refs),
          fd_tasks = concat (map (\<lambda>r. shown_of kinds ''tasks''
            (tasks_from_cal dav env cn (cr_url r) a b (cr_color r) (cr_id r)) w) refs),
          fd_journals = concat (map (\<lambda>r. shown_of kinds ''journals''
            (journals_from_cal dav env cn (cr_url r) a b (cr_color r) (cr_id r)) w) refs)\<rparr>, w)"
  by (rule fetch_account_data_run [OF assms])

lemma sample_read_only: "read_only (sample_dav accepts)"
  by (simp add: read_only_def sample_dav_def)

text \<open>A second calendar that always fails.\<close>

definition half_broken :: "(string \<times> vcal) list dav" where
  "half_broken = (sample_dav True)\<lparr>d_search := (\<lambda>cn url q s.
     if url = ''/bad/'' then (Inl DavError, s) else d_search (sample_dav True) cn url q s)\<rparr>"

lemma half_broken_read_only: "read_only half_broken"
  by (simp add: read_only_def half_broken_def sample_dav_def)

theorem account_fetch_isolated_witness:
  "\<exists>d. fetch_account_data half_broken sample_env sample_cn
       [\<lparr>cr_url = ''/bad/'', cr_color = [], cr_id = 1\<rparr>, \<lparr>cr_url = ''/good/'', cr_color = [], cr_id = 2\<rparr>]
       (jan 1 0) (jan 9 0) [''events''] sample_world = (Inr d, sample_world)
     \<and> map ev_title (fd_events d) = [''Standup'', ''Late''] \<and> fd_tasks d = []"
proof -
  have b: "shown_of [''events''] ''events'' (events_from_cal half_broken sample_env sample_cn ''/bad/''
      (jan 1 0) (jan 9 0) [] 1) sample_world = []" by code_simp
  have g: "map ev_title (shown_of [''events''] ''events'' (events_from_cal half_broken sample_env sample_cn ''/good/''
      (jan 1 0) (jan 9 0) [] 2) sample_world) = [''Standup'', ''Late'']" by code_simp
  have t: "shown_of [''events''] ''tasks'' m w = []" for m and w :: "(string \<times> vcal) list world"
    by (simp add: shown_of_def)
  show ?thesis
    using account_fetch_isolated [OF half_broken_read_only, of sample_env sample_cn
        "[\<lparr>cr_url = ''/bad/'', cr_color = [], cr_id = 1\<rparr>, \<lparr>cr_url = ''/good/'', cr_color = [], cr_id = 2\<rparr>]"
        "jan 1 0" "jan 9 0" "[''events'']" sample_world] b g t
    by simp
qed

section \<open>The single item\<close>

lemma insort_key_filter:
  "insort_key b x (filter (\<lambda>y. \<not> b y) xs @ filter b xs) =
     (if b x then filter (\<lambda>y. \<not> b y) xs @ x # filter b xs else x # filter (\<lambda>y. \<not> b y) xs @ filter b xs)"
  for b :: "'a \<Rightarrow> bool"
proof -
  have l: "insort_key b x (filter b xs) = x # filter b xs" by (induction xs) auto
  have r: "insort_key b x (filter (\<lambda>y. \<not> b y) xs @ zs) =
      (if b x then filter (\<lambda>y. \<not> b y) xs @ insort_key b x zs else
         (case filter (\<lambda>y. \<not> b y) xs of [] \<Rightarrow> insort_key b x zs | _ \<Rightarrow> x # filter (\<lambda>y. \<not> b y) xs @ zs))" for zs
    by (induction xs) (auto split: list.splits)
  show ?thesis unfolding r by (simp add: l split: list.split)
qed

lemma sort_key_bool: "sort_key b xs = filter (\<lambda>y. \<not> b y) xs @ filter b xs" for b :: "'a \<Rightarrow> bool"
  by (induction xs) (simp_all add: insort_key_filter)

lemma find_filter_head: "find P xs = Some x \<Longrightarrow> \<exists>rest. filter P xs = x # rest"
  by (induction xs) (auto split: if_splits)

lemma masters_first_parts: "masters_first name cal = filter (is_plain name) (vsubs cal) @ overrides name cal"
proof -
  have "is_plain name = (\<lambda>c. cname c = name \<and> \<not> chas RECURRENCE_ID c)"
    and "is_override name = (\<lambda>c. cname c = name \<and> chas RECURRENCE_ID c)"
    by (auto simp: is_plain_def is_override_def fun_eq_iff)
  then show ?thesis
    by (simp add: masters_first_def sort_key_bool walk_def overrides_def)
qed

text \<open>The view of a single item renders the series master: when the object has a component
  without RECURRENCE-ID, the first of them is the one shown, wherever the overrides stand in the
  object; only an object without any falls back to an override.\<close>

theorem item_view_is_master:
  assumes "master_vevent name cal = Some m" and "has_master name cal"
    and "item_to_dict db name m color cal_id fallback = Inr (Some d)"
  shows "item_of db name color cal_id fallback cal = Inr (Some d) \<and> ev_rid d = None \<and> ev_id d = item_uid fallback m"
proof -
  have "find (is_plain name) (vsubs cal) = Some m"
    using assms(1,2) by (simp add: master_vevent_find master_sel_def has_master_def)
  then obtain rest where r: "filter (is_plain name) (vsubs cal) = m # rest"
    by (auto dest: find_filter_head)
  have "ev_rid d = None \<and> ev_id d = item_uid fallback m"
    using master_plain [OF assms(2,1)] assms(3)
    by (auto simp: item_to_dict_def is_plain_def vevent_to_dict_def build_task_event_def vjournal_to_dict_def
        with_rid_def bindr_eq_Inr Let_def split: if_splits)
  then show ?thesis
    using assms(3) by (simp add: item_of_def masters_first_parts r)
qed

theorem item_view_is_master_witness:
  "\<exists>d. item_of sample_tz ''VEVENT'' [] 1 [] (new_cal\<lparr>vsubs := [sample_override ''VEVENT'' DTEND, sample_master ''VEVENT'' DTEND]\<rparr>)
       = Inr (Some d) \<and> ev_rid d = None \<and> ev_id d = ''u1''"
proof -
  let ?cal = "new_cal\<lparr>vsubs := [sample_override ''VEVENT'' DTEND, sample_master ''VEVENT'' DTEND]\<rparr>"
  have m: "master_vevent ''VEVENT'' ?cal = Some (sample_master ''VEVENT'' DTEND)" and h: "has_master ''VEVENT'' ?cal"
    and u: "item_uid [] (sample_master ''VEVENT'' DTEND) = ''u1''"
    by code_simp+
  have "case item_to_dict sample_tz ''VEVENT'' (sample_master ''VEVENT'' DTEND) [] 1 [] of Inr (Some d) \<Rightarrow> True | _ \<Rightarrow> False"
    by code_simp
  then obtain d where "item_to_dict sample_tz ''VEVENT'' (sample_master ''VEVENT'' DTEND) [] 1 [] = Inr (Some d)"
    by (auto split: sum.splits option.splits)
  from item_view_is_master [OF m h this] u show ?thesis by auto
qed

section \<open>Exports\<close>

definition zones :: "vcomp list \<Rightarrow> vcomp list" where
  "zones cs = filter (\<lambda>c. cname c = ''VTIMEZONE'') cs"

definition items :: "vcomp list \<Rightarrow> vcomp list" where
  "items cs = filter (\<lambda>c. cname c \<noteq> ''VTIMEZONE'') cs"

definition merge_inv :: "vcomp list \<Rightarrow> string list \<times> vcal \<Rightarrow> bool" where
  "merge_inv cs st \<longleftrightarrow> items (vsubs (snd st)) = items cs \<and> distinct (map tzid_of (zones (vsubs (snd st))))
     \<and> set (map tzid_of (zones (vsubs (snd st)))) = set (map tzid_of (zones cs))
     \<and> set (fst st) = set (map tzid_of (zones cs))"

lemma merge_inv_step: "merge_inv cs st \<Longrightarrow> merge_inv (cs @ [c]) (merge_comp c st)"
  by (auto simp: merge_inv_def merge_comp_def items_def zones_def)

lemma merge_inv_fold: "merge_inv cs st \<Longrightarrow> merge_inv (cs @ ds) (fold merge_comp ds st)"
proof (induction ds arbitrary: cs st)
  case (Cons d ds)
  from Cons.IH [OF merge_inv_step [OF Cons.prems, of d]] show ?case by simp
qed simp

lemma merge_inv_start: "merge_inv [] ([], new_cal)"
  by (simp add: merge_inv_def items_def zones_def new_cal_def)

lemma merge_sources_run:
  assumes "read_only dav"
    and "\<And>s. s \<in> set sources \<Longrightarrow> fst (sync_collect_components dav (fst s) (snd s) a b w) = Inr (f s)"
  shows "foldi (merge_source dav a b) sources st w = (Inr (fold merge_comp (concat (map f sources)) st), w)"
  using assms(2)
proof (induction sources arbitrary: st)
  case (Cons s sources)
  have "sync_collect_components dav (fst s) (snd s) a b w = (Inr (f s), w)"
    using keeps_run [OF keeps_fetches(4) [OF assms(1)], of "fst s" "snd s" a b w] Cons.prems by simp
  then have "merge_source dav a b s st w = (Inr (fold merge_comp (f s) st), w)"
    by (simp add: merge_source_def bindi_def observed_ok)
  moreover have "foldi (merge_source dav a b) sources (fold merge_comp (f s) st) w =
      (Inr (fold merge_comp (concat (map f sources)) (fold merge_comp (f s) st)), w)"
    using Cons.prems by (intro Cons.IH) simp
  ultimately show ?case by simp
qed simp

text \<open>C28: An export over several calendars is one calendar object that holds every event, task and
  journal of every source once, in order, and the definition of every time zone they use exactly
  once, however many sources carry it.\<close>

theorem export_merges_sources:
  assumes "read_only dav"
    and "\<And>s. s \<in> set sources \<Longrightarrow> fst (sync_collect_components dav (fst s) (snd s) a b w) = Inr (f s)"
  shows "\<exists>cal. export_range_ics dav sources a b w = (Inr cal, w)
     \<and> items (vsubs cal) = items (concat (map f sources))
     \<and> distinct (map tzid_of (zones (vsubs cal)))
     \<and> set (map tzid_of (zones (vsubs cal))) = set (map tzid_of (zones (concat (map f sources))))"
proof -
  let ?st = "fold merge_comp (concat (map f sources)) ([], new_cal)"
  have "export_range_ics dav sources a b w = (Inr (snd ?st), w)"
    by (simp add: export_range_ics_def bindi_def merge_sources_run [OF assms])
  moreover have "merge_inv (concat (map f sources)) ?st"
    using merge_inv_fold [OF merge_inv_start] by simp
  ultimately show ?thesis by (auto simp: merge_inv_def)
qed

definition sample_zone :: vcomp where
  "sample_zone = cadd TZID (VText ''Europe/Prague'') (new_comp ''VTIMEZONE'')"

definition zoned_world :: "(string \<times> vcal) list world" where
  "zoned_world = \<lparr>w_dav = [(''u1'', new_cal\<lparr>vsubs := [sample_zone, sample_master ''VEVENT'' DTEND]\<rparr>)], w_errors = (\<lambda>_. 0)\<rparr>"

theorem export_merges_sources_witness:
  "\<exists>cal. export_range_ics (sample_dav True) [(sample_cn, ''/a/''), (sample_cn, ''/b/'')] (jan 1 0) (jan 9 0) zoned_world
       = (Inr cal, zoned_world)
     \<and> items (vsubs cal) = [sample_master ''VEVENT'' DTEND, sample_master ''VEVENT'' DTEND]
     \<and> map tzid_of (zones (vsubs cal)) = [''Europe/Prague'']"
proof -
  let ?cs = "[sample_zone, sample_master ''VEVENT'' DTEND]"
  have c: "fst (sync_collect_components (sample_dav True) (fst s) (snd s) (jan 1 0) (jan 9 0) zoned_world) = Inr ?cs"
    for s
    by (simp add: sync_collect_components_def bindi_def request_def sample_dav_def zoned_world_def components_of_def
        exported_def component_names_def sample_zone_def sample_master_def)
  have i: "items (?cs @ ?cs) = [sample_master ''VEVENT'' DTEND, sample_master ''VEVENT'' DTEND]"
    and z: "map tzid_of (zones (?cs @ ?cs)) = [''Europe/Prague'', ''Europe/Prague'']"
    by code_simp+
  obtain cal where r: "export_range_ics (sample_dav True) [(sample_cn, ''/a/''), (sample_cn, ''/b/'')] (jan 1 0) (jan 9 0) zoned_world
      = (Inr cal, zoned_world)" and it: "items (vsubs cal) = items (?cs @ ?cs)"
    and d: "distinct (map tzid_of (zones (vsubs cal)))" and s: "set (map tzid_of (zones (vsubs cal))) = set (map tzid_of (zones (?cs @ ?cs)))"
    using export_merges_sources [where dav = "sample_dav True", OF sample_read_only, of "[(sample_cn, ''/a/''), (sample_cn, ''/b/'')]" "jan 1 0" "jan 9 0"
        zoned_world "\<lambda>_. ?cs"] c by auto
  have "set (map tzid_of (zones (vsubs cal))) = {''Europe/Prague''}"
    using s unfolding z by simp
  then have "map tzid_of (zones (vsubs cal)) = [''Europe/Prague'']"
    using d by (cases "map tzid_of (zones (vsubs cal))") (auto simp: subset_singleton_iff)
  with r it i show ?thesis by auto
qed

end
