(* ===== verification/Events.thy ===== *)
theory Events
  imports Samples
begin

text \<open>
  The event operations of \<open>caldav_client.py\<close>: create, update (scopes \<open>all\<close>, \<open>this\<close>,
  \<open>thisfuture\<close>) and delete, from the lookup on the server to the save.
\<close>

section \<open>Operations\<close>

definition timed :: "item_fields \<Rightarrow> tm \<Rightarrow> tm \<Rightarrow> item_fields" where
  "timed f s e = f\<lparr>f_start := Some s, f_end := Some e\<rparr>"

lemma timed_simps [simp]:
  "f_start (timed f s e) = Some s" "f_end (timed f s e) = Some e" "f_title (timed f s e) = f_title f"
  by (simp_all add: timed_def)

text \<open>The \<open>all\<close> branch of \<open>_sync_update_event\<close>: an edit of one occurrence of a recurring event is
  applied to the master as a delta.\<close>

definition event_all ::
  "'r env \<Rightarrow> item_fields \<Rightarrow> tm \<Rightarrow> tm \<Rightarrow> string option \<Rightarrow> rule_in option \<Rightarrow> (delta \<times> string) list option \<Rightarrow>
   string list \<Rightarrow> vcomp \<Rightarrow> vcal \<Rightarrow> vcal res"
where
  "event_all env f start stop rid rrule reminders names master ical =
     (let db = e_tz env in
      if has_rrule master \<and> truthy rid then
        bindr (resolve_pivot db ical (the rid) master EVENT) (\<lambda>pivot.
        bindr (tm_sub db (as_dt start) (as_dt pivot)) (\<lambda>delta.
        bindr (decoded DTSTART master) (\<lambda>old_start.
        bindr (tm_add old_start delta) (\<lambda>s.
        bindr (tm_sub db (as_dt stop) (as_dt start)) (\<lambda>span.
        bindr (tm_add s span) (\<lambda>e.
          rebase_series env EVENT (Some delta) (timed f s e) reminders (\<lambda>c. c)
            (update_rule db rrule (Some s) (Some delta)) names None ical))))))
      else
        rebase_series env EVENT None (timed f start stop) reminders (\<lambda>c. c)
          (update_rule db rrule (Some start) None) names None ical)"

text \<open>The \<open>thisfuture\<close> branch: the calendar object to save, and the new series if one is split
  off. The first-occurrence case computes \<open>start - base\<close> from the date or datetime itself.\<close>

definition event_future ::
  "'r env \<Rightarrow> item_fields \<Rightarrow> tm \<Rightarrow> tm \<Rightarrow> tm \<Rightarrow> rule_in option \<Rightarrow> (delta \<times> string) list option \<Rightarrow>
   string list \<Rightarrow> vcomp \<Rightarrow> vcal \<Rightarrow> (vcal \<times> vcal option) res"
where
  "event_future env f start stop pivot rrule reminders names master ical =
     (let db = e_tz env in
      bindr (drop_at_pivot db ''VEVENT'' pivot ical) (\<lambda>ical1.
      bindr (decoded DTSTART master) (\<lambda>dtstart.
      let base = as_dt dtstart in
      bindr (case rrule of Some r \<Rightarrow> build_rrule db r start | None \<Rightarrow> remaining_rule_parts env master pivot) (\<lambda>rule.
      bindr (tm_leq db (as_dt pivot) base) (\<lambda>first.
        if first then
          bindr (tm_sub db start base) (\<lambda>d.
          bindr (if rrule = None then shift_until_in_parts d rule else Inr rule) (\<lambda>rule'.
          bindr (rebase_series env EVENT (Some d) (timed f start stop) reminders (\<lambda>c. c)
                   (\<lambda>m. Inr (set_rrule rule' m)) names None ical1) (\<lambda>ical2.
            Inr (ical2, None))))
        else
          let shift = tm_sub db (as_dt start) (as_dt pivot) in
          bindr (if rrule = None then bindr shift (\<lambda>d. shift_until_in_parts d rule) else Inr rule) (\<lambda>rule'.
          bindr (split_series env EVENT pivot shift (timed f start stop) reminders None None rule' names master ical1)
            (\<lambda>(old, new). Inr (old, Some new))))))))"

text \<open>\<open>_sync_update_event\<close>.\<close>

definition sync_update_event ::
  "'s dav \<Rightarrow> 'r env \<Rightarrow> conn \<Rightarrow> string \<Rightarrow> string \<Rightarrow> item_fields \<Rightarrow> tm \<Rightarrow> tm \<Rightarrow> string \<Rightarrow> string option \<Rightarrow>
   rule_in option \<Rightarrow> (delta \<times> string) list option \<Rightarrow> string list \<Rightarrow> ('s world, unit) io"
where
  "sync_update_event dav env cn url uid f start stop scope0 rid rrule reminders names =
     bindi (find_item dav cn url ''VEVENT'' uid) (\<lambda>obj.
     bindi (liftr (o_ical obj)) (\<lambda>ical.
       case master_vevent ''VEVENT'' ical of
         None \<Rightarrow> raisei (EventNotFoundError uid)
       | Some master \<Rightarrow>
           let scope = (if \<not> has_rrule master \<or> \<not> truthy rid then ''all'' else scope0) in
           if scope = ''all'' then
             bindi (liftr (event_all env f start stop rid rrule reminders names master ical)) (\<lambda>ical'.
               request (d_save dav cn obj ical'))
           else
             bindi (liftr (resolve_pivot (e_tz env) ical (the rid) master EVENT)) (\<lambda>pivot.
               if scope = ''this'' then
                 request (d_save dav cn obj
                   (upsert_override env master pivot (timed f start stop) reminders EVENT None None ical))
               else if scope = ''thisfuture'' then
                 bindi (liftr (event_future env f start stop pivot rrule reminders names master ical)) (\<lambda>(ical', new).
                 bindi (request (d_save dav cn obj ical')) (\<lambda>_.
                   case new of None \<Rightarrow> reti () | Some cal' \<Rightarrow> request (d_create dav cn url ''VEVENT'' cal')))
               else raisei ValueError)))"

definition update_event ::
  "'s dav \<Rightarrow> 'r env \<Rightarrow> conn \<Rightarrow> string \<Rightarrow> string \<Rightarrow> item_fields \<Rightarrow> tm \<Rightarrow> tm \<Rightarrow> string \<Rightarrow> string option \<Rightarrow>
   rule_in option \<Rightarrow> (delta \<times> string) list option \<Rightarrow> string list \<Rightarrow> ('s world, unit) io"
where
  "update_event dav env cn url uid f start stop scope rid rrule reminders names =
     observed ''update_event'' True
       (sync_update_event dav env cn url uid f start stop scope rid rrule reminders names)"

text \<open>\<open>_sync_create_event\<close>.\<close>

definition sync_create_event ::
  "'s dav \<Rightarrow> 'r env \<Rightarrow> conn \<Rightarrow> string \<Rightarrow> string \<Rightarrow> item_fields \<Rightarrow> tm \<Rightarrow> tm \<Rightarrow> rule_in option \<Rightarrow>
   (delta \<times> string) list option \<Rightarrow> ('s world, unit) io"
where
  "sync_create_event dav env cn url uid f start stop rrule reminders =
     bindi (liftr (opt_rule (e_tz env) rrule (Some start))) (\<lambda>rule.
       request (d_create dav cn url ''VEVENT''
         (series_ical env uid (timed f start stop) rule [] [] reminders [] EVENT None None)))"

definition create_event ::
  "'s dav \<Rightarrow> 'r env \<Rightarrow> conn \<Rightarrow> string \<Rightarrow> string \<Rightarrow> item_fields \<Rightarrow> tm \<Rightarrow> tm \<Rightarrow> rule_in option \<Rightarrow>
   (delta \<times> string) list option \<Rightarrow> ('s world, unit) io"
where
  "create_event dav env cn url uid f start stop rrule reminders =
     observed ''create_event'' False (sync_create_event dav env cn url uid f start stop rrule reminders)"

text \<open>\<open>_sync_delete_event\<close>: what happens to the object.\<close>

definition delete_event_plan :: "'r env \<Rightarrow> string \<Rightarrow> string option \<Rightarrow> vcal \<Rightarrow> del_plan res" where
  "delete_event_plan env scope rid ical = scoped_delete env EVENT (\<lambda>m. DTSTART) scope rid ical"

definition sync_delete_event ::
  "'s dav \<Rightarrow> 'r env \<Rightarrow> conn \<Rightarrow> string \<Rightarrow> string \<Rightarrow> string \<Rightarrow> string option \<Rightarrow> ('s world, unit) io"
where
  "sync_delete_event dav env cn url uid scope rid =
     bindi (find_item dav cn url ''VEVENT'' uid) (\<lambda>obj.
     bindi (liftr (o_ical obj)) (\<lambda>ical.
     bindi (liftr (delete_event_plan env scope rid ical)) (execute_delete dav cn obj)))"

definition delete_event ::
  "'s dav \<Rightarrow> 'r env \<Rightarrow> conn \<Rightarrow> string \<Rightarrow> string \<Rightarrow> string \<Rightarrow> string option \<Rightarrow> ('s world, unit) io"
where
  "delete_event dav env cn url uid scope rid =
     observed ''delete_event'' True (sync_delete_event dav env cn url uid scope rid)"

section \<open>Facts\<close>

interpretation event_edit: master_edit "\<lambda>c. c" "update_rule db rrule anchor move"
  for db rrule anchor move
  by unfold_locales (auto intro: same_but_update_rule)

interpretation event_first: master_edit "\<lambda>c. c" "\<lambda>m. Inr (set_rrule rule m)"
  for rule
  by unfold_locales (auto intro: same_but_set_rrule)

text \<open>An event edit as one decision: the object to save and the new object to create, if any. All
  of it is computed before the first write.\<close>

definition event_edit_plan ::
  "'r env \<Rightarrow> string \<Rightarrow> item_fields \<Rightarrow> tm \<Rightarrow> tm \<Rightarrow> string \<Rightarrow> string option \<Rightarrow> rule_in option \<Rightarrow>
   (delta \<times> string) list option \<Rightarrow> string list \<Rightarrow> vcal \<Rightarrow> (vcal \<times> vcal option) res"
where
  "event_edit_plan env uid f start stop scope rid rrule reminders names cal =
     (case master_vevent ''VEVENT'' cal of
        None \<Rightarrow> Inl (EventNotFoundError uid)
      | Some m \<Rightarrow>
          if \<not> has_rrule m \<or> \<not> truthy rid \<or> scope = ''all''
          then bindr (event_all env f start stop rid rrule reminders names m cal) (\<lambda>c. Inr (c, None))
          else bindr (resolve_pivot (e_tz env) cal (the rid) m EVENT) (\<lambda>pivot.
            if scope = ''this''
            then Inr (upsert_override env m pivot (timed f start stop) reminders EVENT None None cal, None)
            else if scope = ''thisfuture''
            then event_future env f start stop pivot rrule reminders names m cal
            else Inl ValueError))"

lemma sync_update_event_plan:
  "sync_update_event dav env cn url uid f start stop scope rid rrule reminders names =
     bindi (find_item dav cn url ''VEVENT'' uid) (\<lambda>obj.
     bindi (liftr (bindr (o_ical obj) (event_edit_plan env uid f start stop scope rid rrule reminders names)))
       (execute_plan dav cn url ''VEVENT'' obj))"
proof -
  have "(case master_vevent ''VEVENT'' cal of
         None \<Rightarrow> raisei (EventNotFoundError uid)
       | Some master \<Rightarrow>
           let sc = (if \<not> has_rrule master \<or> \<not> truthy rid then ''all'' else scope) in
           if sc = ''all'' then
             bindi (liftr (event_all env f start stop rid rrule reminders names master cal)) (\<lambda>ical'.
               request (d_save dav cn obj ical'))
           else
             bindi (liftr (resolve_pivot (e_tz env) cal (the rid) master EVENT)) (\<lambda>pivot.
               if sc = ''this'' then
                 request (d_save dav cn obj
                   (upsert_override env master pivot (timed f start stop) reminders EVENT None None cal))
               else if sc = ''thisfuture'' then
                 bindi (liftr (event_future env f start stop pivot rrule reminders names master cal)) (\<lambda>(ical', new).
                 bindi (request (d_save dav cn obj ical')) (\<lambda>_.
                   case new of None \<Rightarrow> reti () | Some cal' \<Rightarrow> request (d_create dav cn url ''VEVENT'' cal')))
               else raisei ValueError)) =
     bindi (liftr (event_edit_plan env uid f start stop scope rid rrule reminders names cal))
       (execute_plan dav cn url ''VEVENT'' obj)" for cal obj
    by (auto simp: event_edit_plan_def execute_plan_def Let_def liftr_bindr bindi_reti_right case_prod_beta
        split: option.split intro!: bindi_cong)
  then show ?thesis by (simp add: sync_update_event_def liftr_bindr)
qed

section \<open>Properties\<close>

subsection \<open>The whole series\<close>

lemma plan_all:
  "master_vevent ''VEVENT'' cal = Some m \<Longrightarrow>
   event_edit_plan env uid f start stop ''all'' rid rrule reminders names cal =
     bindr (event_all env f start stop rid rrule reminders names m cal) (\<lambda>c. Inr (c, None))"
  by (simp add: event_edit_plan_def)

text \<open>C11: Editing a whole recurring series from one of its occurrences moves the series by the
  distance \<open>d\<close> between the edited start and the occurrence's slot: the master's DTSTART, every
  exclusion, every override's RECURRENCE-ID and the UNTIL of the rule move by the same \<open>d\<close>, so each
  exclusion and override still names its slot. The rest of the rule stays (COUNT too), or the rule is the one that was asked for, anchored at the new start.
  The edited master ends as long after its start as the edited occurrence does, has the edited
  title, location and description, and keeps its other properties; the overrides keep their own
  times, titles, locations, descriptions and alarms unless a reset was asked for, and everything
  else of them; and no other component of the object changes.\<close>

theorem update_event_all_slots:
  assumes "event_edit_plan env uid f start stop ''all'' rid rrule reminders names cal = Inr (cal', new)"
    and "has_master ''VEVENT'' cal" and "master_vevent ''VEVENT'' cal = Some m"
    and "has_rrule m" and "truthy rid" and "decoded DTSTART m = Inr t0" and "exdates m = Inr ex"
  shows "\<exists>pivot d t1 span t2 m' ex'. resolve_pivot (e_tz env) cal (the rid) m EVENT = Inr pivot
     \<and> tm_sub (e_tz env) (as_dt start) (as_dt pivot) = Inr d \<and> tm_add t0 d = Inr t1
     \<and> tm_sub (e_tz env) (as_dt stop) (as_dt start) = Inr span \<and> tm_add t1 span = Inr t2
     \<and> master_vevent ''VEVENT'' cal' = Some m' \<and> decoded DTSTART m' = Inr t1 \<and> decoded DTEND m' = Inr t2
     \<and> exdates m' = Inr ex' \<and> list_all2 (moved_by d) ex ex'
     \<and> (case rrule of
          Some r \<Rightarrow> \<exists>parts. build_rrule (e_tz env) r t1 = Inr parts \<and> rrule_parts m' = Inr parts
        | None \<Rightarrow> rule_carried d m m')
     \<and> cvals m' SUMMARY = text_vals (Some (f_title f)) \<and> cvals m' LOCATION = text_vals (f_location f)
     \<and> cvals m' DESCRIPTION = text_vals (f_description f) \<and> cvals m' UID = cvals m UID
     \<and> (\<forall>k. k \<notin> {LAST_MODIFIED, SEQUENCE, DTSTART, DTEND, DURATION, SUMMARY, LOCATION, DESCRIPTION, EXDATE, RRULE,
            PRIORITY} \<longrightarrow> cvals m' k = cvals m k)
     \<and> (reminders = None \<longrightarrow> csubs m' = csubs m)
     \<and> list_all2 (rebound d None names EVENT) (overrides ''VEVENT'' cal) (overrides ''VEVENT'' cal')
     \<and> others ''VEVENT'' cal' = others ''VEVENT'' cal \<and> new = None"
proof -
  have run: "event_all env f start stop rid rrule reminders names m cal = Inr cal'" and new: "new = None"
    using assms(1) by (auto simp: plan_all [OF assms(3)] bindr_eq_Inr)
  obtain pivot d t1 span e where
    p: "resolve_pivot (e_tz env) cal (the rid) m EVENT = Inr pivot"
    and d: "tm_sub (e_tz env) (as_dt start) (as_dt pivot) = Inr d" and t1: "tm_add t0 d = Inr t1"
    and span: "tm_sub (e_tz env) (as_dt stop) (as_dt start) = Inr span" "tm_add t1 span = Inr e"
    and r: "rebase_series env EVENT (Some d) (timed f t1 e) reminders (\<lambda>c. c)
              (update_rule (e_tz env) rrule (Some t1) (Some d)) names None cal = Inr cal'"
    using run assms(4,5,6) by (auto simp: event_all_def Let_def bindr_eq_Inr)
  from event_edit.rebase [OF r] assms(2,3) obtain m' mid where
    m': "master_vevent ''VEVENT'' cal' = Some m'"
    and run': "bindr (shift_exdate d m) (\<lambda>m1. update_rule (e_tz env) rrule (Some t1) (Some d)
                 (apply_alarms reminders DTEND (apply_fields env (timed f t1 e) EVENT m1))) = Inr m'"
    and o1: "mapr (shift_override d None EVENT False) (overrides ''VEVENT'' cal) = Inr mid"
    and o2: "mapr (\<lambda>c. if names = [] then Inr c else reset_override env names (timed f t1 e) reminders None EVENT c) mid
               = Inr (overrides ''VEVENT'' cal')"
    and oth: "others ''VEVENT'' cal' = others ''VEVENT'' cal"
    by auto
  have "bindr (case Some d of None \<Rightarrow> Inr m | Some d \<Rightarrow> shift_exdate d m) (\<lambda>m1. update_rule (e_tz env) rrule (Some t1) (Some d)
          (apply_alarms reminders (k_end_key EVENT) (apply_fields env (timed f t1 e) EVENT m1))) = Inr m'"
    using run' by simp
  note M = event_edit.edited_master [OF this kind_ok_kinds(1), simplified]
  have E: "decoded DTSTART m' = Inr t1" "decoded DTEND m' = Inr e" and U: "cvals m' UID = cvals m UID"
    and T: "cvals m' SUMMARY = text_vals (Some (f_title f))" "cvals m' LOCATION = text_vals (f_location f)"
      "cvals m' DESCRIPTION = text_vals (f_description f)"
    and X: "shift_exdate d m = Inr m1 \<Longrightarrow> exdates m' = exdates m1"
    and K: "k \<notin> {LAST_MODIFIED, SEQUENCE, DTSTART, DTEND, DURATION, SUMMARY, LOCATION, DESCRIPTION, EXDATE, RRULE,
            PRIORITY} \<Longrightarrow> cvals m' k = cvals m k"
    and A: "reminders = None \<Longrightarrow> csubs m' = csubs m" for m1 k
    using M by (simp_all add: timed_def apply_alarms_def)
  obtain c where "update_rule (e_tz env) rrule (Some t1) (Some d) c = Inr m'" "cvals c RRULE = cvals m RRULE"
    using M(7) by blast
  note R = update_rule_result [OF this]
  obtain m1 where m1: "shift_exdate d m = Inr m1" using run' by (auto simp: bindr_eq_Inr)
  obtain ex' where "exdates m1 = Inr ex'" "list_all2 (moved_by d) ex ex'"
    using exdates_move [where move = "Some d" and m = m and ?m1.0 = m1 and ex = ex] m1 assms(7) by auto
  moreover have "list_all2 (rebound d None names EVENT) (overrides ''VEVENT'' cal) (overrides ''VEVENT'' cal')"
    using rebound_all [where move = "Some d", OF _ o2] o1 by simp
  moreover have "\<forall>k. k \<notin> {LAST_MODIFIED, SEQUENCE, DTSTART, DTEND, DURATION, SUMMARY, LOCATION, DESCRIPTION, EXDATE,
      RRULE, PRIORITY} \<longrightarrow> cvals m' k = cvals m k" using K by blast
  ultimately show ?thesis
    using p d t1 span m' E X [OF m1] U T A R oth new by (intro exI conjI) (assumption | simp)+
qed

lemma sample_event:
  "has_master ''VEVENT'' (sample_cal ''VEVENT'' DTEND)"
  "master_vevent ''VEVENT'' (sample_cal ''VEVENT'' DTEND) = Some (sample_master ''VEVENT'' DTEND)"
  "has_rrule (sample_master ''VEVENT'' DTEND)" "truthy (Some ''2024-01-03T10:00:00+00:00'')"
  "decoded DTSTART (sample_master ''VEVENT'' DTEND) = Inr (jan 1 10)"
  "exdates (sample_master ''VEVENT'' DTEND) = Inr [jan 2 10]"
  "resolve_pivot sample_tz (sample_cal ''VEVENT'' DTEND) ''2024-01-03T10:00:00+00:00''
     (sample_master ''VEVENT'' DTEND) EVENT = Inr (jan 3 10)"
  by code_simp+

theorem update_event_all_slots_witness:
  "\<exists>cal' new. event_edit_plan sample_env ''u1'' sample_fields (jan 3 11) (jan 3 12) ''all''
        (Some ''2024-01-03T10:00:00+00:00'') None None [] (sample_cal ''VEVENT'' DTEND) = Inr (cal', new)
     \<and> (\<exists>d ex'. list_all2 (moved_by d) [jan 2 10] ex'
          \<and> list_all2 (rebound d None [] EVENT) (overrides ''VEVENT'' (sample_cal ''VEVENT'' DTEND))
               (overrides ''VEVENT'' cal'))"
proof -
  have "case event_edit_plan sample_env ''u1'' sample_fields (jan 3 11) (jan 3 12) ''all''
      (Some ''2024-01-03T10:00:00+00:00'') None None [] (sample_cal ''VEVENT'' DTEND)
      of Inl _ \<Rightarrow> False | Inr _ \<Rightarrow> True"
    by code_simp
  then obtain cal' new where
    r: "event_edit_plan sample_env ''u1'' sample_fields (jan 3 11) (jan 3 12) ''all''
      (Some ''2024-01-03T10:00:00+00:00'') None None [] (sample_cal ''VEVENT'' DTEND) = Inr (cal', new)"
    using isr_obtain by fastforce
  show ?thesis
    using r update_event_all_slots [OF r sample_event(1-6)] by blast
qed

subsection \<open>One occurrence\<close>

text \<open>C16: Editing a single occurrence writes one object: the master and every override of another
  slot stay as they were, any override of the pivot's slot is replaced by exactly one new override
  with the edited fields, and its RECURRENCE-ID is the pivot.\<close>

theorem update_event_this_occurrence:
  assumes "event_edit_plan env uid f start stop ''this'' rid rrule reminders names cal = Inr (cal', new)"
    and "has_master ''VEVENT'' cal" and "master_vevent ''VEVENT'' cal = Some m"
    and "has_rrule m" and "truthy rid"
  shows "\<exists>pivot ov. resolve_pivot (e_tz env) cal (the rid) m EVENT = Inr pivot \<and> new = None
     \<and> overrides ''VEVENT'' cal' = filter (\<lambda>c. \<not> has_rid (e_tz env) pivot c) (overrides ''VEVENT'' cal) @ [ov]
     \<and> decoded RECURRENCE_ID ov = Inr pivot \<and> decoded DTSTART ov = Inr start \<and> decoded DTEND ov = Inr stop
     \<and> cvals ov SUMMARY = text_vals (Some (f_title f)) \<and> cvals ov UID = [VText (uid_str m)]
     \<and> (reminders = None \<longrightarrow> csubs ov = [])
     \<and> master_vevent ''VEVENT'' cal' = Some m \<and> others ''VEVENT'' cal' = others ''VEVENT'' cal"
proof -
  from assms(1,3-5) obtain pivot where p: "resolve_pivot (e_tz env) cal (the rid) m EVENT = Inr pivot"
    and c: "cal' = upsert_override env m pivot (timed f start stop) reminders EVENT None None cal" "new = None"
    by (auto simp: event_edit_plan_def bindr_eq_Inr)
  let ?ov = "make_override env m pivot (timed f start stop) reminders EVENT None None"
  have ne: "k_end_key EVENT \<noteq> NoKey \<or> f_end (timed f start stop) = None" by simp
  note U = upsert_series [OF kind_ok_kinds(1) ne c(1)]
  note V = make_override_vals [OF kind_ok_kinds(1) ne]
  have subs: "csubs (make_override env m pivot (timed f start stop) None EVENT None None) = []"
    by (simp add: make_override_def apply_alarms_def Let_def)
  show ?thesis
    using U assms(2,3) p c(2) subs
    by (intro exI [of _ pivot] exI [of _ ?ov])
      (auto simp: V decoded_def tm_vals_def)
qed

theorem update_event_this_occurrence_witness:
  "\<exists>cal' ov. event_edit_plan sample_env ''u1'' sample_fields (jan 3 11) (jan 3 12) ''this''
        (Some ''2024-01-03T10:00:00+00:00'') None None [] (sample_cal ''VEVENT'' DTEND) = Inr (cal', None)
     \<and> decoded DTSTART ov = Inr (jan 3 11) \<and> ov \<in> set (overrides ''VEVENT'' cal')"
proof -
  have "case event_edit_plan sample_env ''u1'' sample_fields (jan 3 11) (jan 3 12) ''this''
      (Some ''2024-01-03T10:00:00+00:00'') None None [] (sample_cal ''VEVENT'' DTEND)
      of Inl _ \<Rightarrow> False | Inr _ \<Rightarrow> True"
    by code_simp
  then obtain cal' new where
    r: "event_edit_plan sample_env ''u1'' sample_fields (jan 3 11) (jan 3 12) ''this''
      (Some ''2024-01-03T10:00:00+00:00'') None None [] (sample_cal ''VEVENT'' DTEND) = Inr (cal', new)"
    using isr_obtain by fastforce
  from update_event_this_occurrence [OF r sample_event(1-4)]
  obtain pivot ov where "new = None" "decoded DTSTART ov = Inr (jan 3 11)" "ov \<in> set (overrides ''VEVENT'' cal')"
    by auto
  then show ?thesis using r by blast
qed

subsection \<open>This and the following occurrences\<close>

text \<open>A change of this and the following occurrences that creates a second series splits the object
  that the stale override of the pivot's slot has left.\<close>

lemma event_future_split:
  assumes "event_future env f start stop pivot rrule reminders names m cal = Inr (old, Some new)"
    and "has_master ''VEVENT'' cal" and "master_vevent ''VEVENT'' cal = Some m"
  obtains cal1 rule mid where
    "split_series env EVENT pivot (tm_sub (e_tz env) (as_dt start) (as_dt pivot)) (timed f start stop) reminders None None
       rule names m cal1 = Inr (old, new)"
    and "has_master (k_name EVENT) cal1" and "master_vevent (k_name EVENT) cal1 = Some m"
    and "overrides ''VEVENT'' cal1 = filter (stays (\<lambda>rid. Inr (\<not> tm_eq (e_tz env) (as_dt rid) (as_dt pivot)))) (overrides ''VEVENT'' cal)"
    and "others ''VEVENT'' cal1 = others ''VEVENT'' cal"
    and "\<And>r. rrule = Some r \<Longrightarrow> build_rrule (e_tz env) r start = Inr rule"
    and "rrule = None \<Longrightarrow> remaining_rule_parts env m pivot = Inr mid \<and>
      (\<exists>d. tm_sub (e_tz env) (as_dt start) (as_dt pivot) = Inr d \<and> shift_until_in_parts d mid = Inr rule)"
proof -
  obtain cal1 rule mid where c1: "drop_at_pivot (e_tz env) ''VEVENT'' pivot cal = Inr cal1"
    and sp: "split_series env EVENT pivot (tm_sub (e_tz env) (as_dt start) (as_dt pivot)) (timed f start stop) reminders None None
       rule names m cal1 = Inr (old, new)"
    and mid: "(case rrule of Some r \<Rightarrow> build_rrule (e_tz env) r start | None \<Rightarrow> remaining_rule_parts env m pivot) = Inr mid"
    and rule: "(if rrule = None then bindr (tm_sub (e_tz env) (as_dt start) (as_dt pivot)) (\<lambda>d. shift_until_in_parts d mid)
       else Inr mid) = Inr rule"
    using assms(1) by (auto simp: event_future_def Let_def bindr_eq_Inr split: if_splits)
  obtain gone where "pop_overrides (\<lambda>rid. Inr (\<not> tm_eq (e_tz env) (as_dt rid) (as_dt pivot))) ''VEVENT'' cal = Inr (cal1, gone)"
    using c1 by (auto simp: drop_at_pivot_def bindr_eq_Inr)
  note P = pop_overrides_series [OF this]
  show thesis by (rule that [OF sp]) (use P assms(2,3) mid rule in \<open>auto simp: bindr_eq_Inr\<close>)
qed

text \<open>What the first component of a series created from the fields of an event says.\<close>

lemma series_comp_event:
  fixes env u f start stop rule exs reminders alarms status priority
  defines "c \<equiv> series_comp env u (timed f start stop) rule exs reminders alarms EVENT status priority"
  shows "decoded DTSTART c = Inr start" and "decoded DTEND c = Inr stop" and "cvals c UID = [VText u]" and "exdates c = Inr exs"
    and "cvals c SUMMARY = text_vals (Some (f_title f))" and "cvals c LOCATION = text_vals (f_location f)"
    and "cvals c DESCRIPTION = text_vals (f_description f)"
    and "rule = Some p \<Longrightarrow> p \<noteq> [] \<Longrightarrow> rrule_parts c = Inr p" and "reminders = None \<Longrightarrow> csubs c = alarms"
proof -
  have "mapr exdate_values (map (\<lambda>t. VTms [t]) exs) = Inr (map (\<lambda>t. [t]) exs)" by (induction exs) simp_all
  moreover have "concat (map (\<lambda>t. [t]) exs) = exs" by (induction exs) simp_all
  ultimately show "exdates c = Inr exs" by (simp add: c_def exdates_def series_comp_vals)
  show "rule = Some p \<Longrightarrow> p \<noteq> [] \<Longrightarrow> rrule_parts c = Inr p"
    by (cases p) (simp_all add: c_def rrule_parts_def rrule_items_def series_comp_vals rule_vals_def)
qed (simp_all add: c_def decoded_def series_comp_vals series_comp_alarms tm_vals_def timed_def)

text \<open>C12: Splitting a series at a pivot that is not its first occurrence: overrides standing at the
  pivot are dropped, those before it stay unchanged with the original, and every later one goes to
  the new series, rebound to its grid under its UID; the exclusions are divided at the pivot the
  same way. The original keeps everything but its rule and exclusions, and its rule now ends with
  the last occurrence strictly before the pivot, without a COUNT. The new series starts at the
  edited start, has the edited fields and the original's alarms unless others are given, and its
  rule is the one asked for, or the original's continued: the COUNT that the occurrences before the
  pivot have left, UNTIL moved with the start. \<open>occ\<close> are the occurrences of a dateutil rule object
  (\<open>rules_ok\<close>).\<close>

theorem update_event_future_splits:
  assumes "event_future env f start stop pivot rrule reminders names m cal = Inr (old, Some new)"
    and "has_master ''VEVENT'' cal" and "master_vevent ''VEVENT'' cal = Some m" and "rules_ok env occ"
  shows "\<exists>ovs ex late late' m_old m_new rule.
     ovs = filter (stays (\<lambda>rid. Inr (\<not> tm_eq (e_tz env) (as_dt rid) (as_dt pivot)))) (overrides ''VEVENT'' cal)
     \<and> overrides ''VEVENT'' old = filter (stays (before_pivot (e_tz env) pivot)) ovs
     \<and> list_all2 (\<lambda>c c'. \<exists>d. tm_sub (e_tz env) (as_dt start) (as_dt pivot) = Inr d
           \<and> rebound d (Some (new_uid env)) names EVENT c c')
         (filter (\<lambda>c. \<not> stays (before_pivot (e_tz env) pivot) c) ovs) (overrides ''VEVENT'' new)
     \<and> others ''VEVENT'' old = others ''VEVENT'' cal \<and> others ''VEVENT'' new = []
     \<and> exdates m = Inr ex
     \<and> master_vevent ''VEVENT'' old = Some m_old
     \<and> exdates m_old = Inr (filter (\<lambda>t. before_pivot (e_tz env) pivot t = Inr True) ex)
     \<and> cut_before env occ pivot m m_old \<and> same_but {RRULE, EXDATE} m m_old
     \<and> master_vevent ''VEVENT'' new = Some m_new
     \<and> decoded DTSTART m_new = Inr start \<and> decoded DTEND m_new = Inr stop
     \<and> cvals m_new UID = [VText (new_uid env)] \<and> cvals m_new SUMMARY = text_vals (Some (f_title f))
     \<and> cvals m_new LOCATION = text_vals (f_location f) \<and> cvals m_new DESCRIPTION = text_vals (f_description f)
     \<and> (reminders = None \<longrightarrow> csubs m_new = valarms m)
     \<and> rrule_parts m_new = Inr rule
     \<and> (case rrule of
          Some r \<Rightarrow> build_rrule (e_tz env) r start = Inr rule
        | None \<Rightarrow> \<exists>d. tm_sub (e_tz env) (as_dt start) (as_dt pivot) = Inr d \<and> continues env occ pivot d m rule)
     \<and> late = filter (\<lambda>t. from_pivot (e_tz env) pivot t = Inr True) ex
     \<and> exdates m_new = Inr late'
     \<and> mapr (\<lambda>t. bindr (tm_sub (e_tz env) (as_dt start) (as_dt pivot)) (\<lambda>d. tm_add t d)) late = Inr late'"
proof -
  let ?shift = "tm_sub (e_tz env) (as_dt start) (as_dt pivot)"
  obtain cal1 rule mid' where sp: "split_series env EVENT pivot ?shift (timed f start stop) reminders None None rule names m cal1 = Inr (old, new)"
    and hm1: "has_master (k_name EVENT) cal1" and m1: "master_vevent (k_name EVENT) cal1 = Some m"
    and P: "overrides ''VEVENT'' cal1 = filter (stays (\<lambda>rid. Inr (\<not> tm_eq (e_tz env) (as_dt rid) (as_dt pivot)))) (overrides ''VEVENT'' cal)"
      "others ''VEVENT'' cal1 = others ''VEVENT'' cal"
    and B: "\<And>r. rrule = Some r \<Longrightarrow> build_rrule (e_tz env) r start = Inr rule"
    and N: "rrule = None \<Longrightarrow> remaining_rule_parts env m pivot = Inr mid' \<and>
      (\<exists>d. tm_sub (e_tz env) (as_dt start) (as_dt pivot) = Inr d \<and> shift_until_in_parts d mid' = Inr rule)"
    by (rule event_future_split [OF assms(1-3)]) blast
  obtain m' ex early late late' mid where
    R: "exdates m = Inr ex" "early = filter (\<lambda>t. before_pivot (e_tz env) pivot t = Inr True) ex"
      "late = filter (\<lambda>t. from_pivot (e_tz env) pivot t = Inr True) ex"
      "mapr (\<lambda>t. bindr ?shift (\<lambda>d. tm_add t d)) late = Inr late'"
      "truncate_until env pivot (set_exdates early m) = Inr m'"
      "master_vevent (k_name EVENT) old = Some m'" "has_master (k_name EVENT) old"
      "overrides (k_name EVENT) old = filter (stays (before_pivot (e_tz env) pivot)) (overrides (k_name EVENT) cal1)"
      "others (k_name EVENT) old = others (k_name EVENT) cal1"
      "mapr (\<lambda>ov. bindr ?shift (\<lambda>d. shift_override d (Some (new_uid env)) EVENT False ov))
         (filter (\<lambda>c. \<not> stays (before_pivot (e_tz env) pivot) c) (overrides (k_name EVENT) cal1)) = Inr mid"
      "mapr (\<lambda>c. if names = [] then Inr c else reset_override env names (timed f start stop) reminders None EVENT c) mid
         = Inr (overrides (k_name EVENT) new)"
      "master_vevent (k_name EVENT) new = Some (series_comp env (new_uid env) (timed f start stop) (Some rule) late'
         reminders (valarms m) EVENT None None)"
      "has_master (k_name EVENT) new" "others (k_name EVENT) new = []"
    by (rule split_series_result [OF sp kind_ok_kinds(1) hm1 m1]) (rule that; assumption)
  let ?m_new = "series_comp env (new_uid env) (timed f start stop) (Some rule) late' reminders (valarms m) EVENT None None"
  obtain parts anchor r where T: "rrule_parts m = Inr parts" "parts \<noteq> []" "series_anchor m = Inr anchor"
      "rr_str (e_rr env) parts (as_dt anchor) = Inr r"
    by (rule truncate_exdates_reads [OF R(5)])
  have C: "rule \<noteq> []" "case rrule of
          Some r \<Rightarrow> build_rrule (e_tz env) r start = Inr rule
        | None \<Rightarrow> \<exists>d. tm_sub (e_tz env) (as_dt start) (as_dt pivot) = Inr d \<and> continues env occ pivot d m rule"
    using B N build_rrule_nonempty remaining_continues [OF _ _ assms(4) T(1,3,4,2)]
    by (cases rrule; fastforce)+
  note C = C truncate_exdates_cuts [OF R(5) assms(4)] same_but_set_exdates_truncate [OF R(5)]
  have X: "exdates m' = Inr early"
    using exdates_same_but [OF same_but_truncate [OF R(5)]] exdates_set_exdates by simp
  note O = rebound_migrated [OF R(10,11) kind_ok_kinds(1)]
  show ?thesis
    by (rule exI [of _ "overrides ''VEVENT'' cal1"], rule exI [of _ ex], rule exI [of _ late], rule exI [of _ late'],
          rule exI [of _ m'], rule exI [of _ ?m_new], rule exI [of _ rule])
      (use R P C X O in \<open>simp add: series_comp_event insert_commute\<close>)
qed

theorem update_event_future_splits_witness:
  "\<exists>old new. event_future sample_env sample_fields (jan 3 11) (jan 3 12) (jan 3 10) None None []
        (sample_master ''VEVENT'' DTEND) (sample_cal ''VEVENT'' DTEND) = Inr (old, Some new)
     \<and> (\<exists>m_old m_new rule. master_vevent ''VEVENT'' old = Some m_old \<and> master_vevent ''VEVENT'' new = Some m_new
         \<and> cut_before sample_env set (jan 3 10) (sample_master ''VEVENT'' DTEND) m_old
         \<and> decoded DTSTART m_new = Inr (jan 3 11) \<and> rrule_parts m_new = Inr rule
         \<and> continues sample_env set (jan 3 10) HOUR (sample_master ''VEVENT'' DTEND) rule)"
proof -
  have "case (case event_future sample_env sample_fields (jan 3 11) (jan 3 12) (jan 3 10) None None []
      (sample_master ''VEVENT'' DTEND) (sample_cal ''VEVENT'' DTEND) of Inl e \<Rightarrow> None | Inr p \<Rightarrow> snd p)
      of None \<Rightarrow> False | Some _ \<Rightarrow> True"
    by code_simp
  then obtain old new where
    r: "event_future sample_env sample_fields (jan 3 11) (jan 3 12) (jan 3 10) None None []
      (sample_master ''VEVENT'' DTEND) (sample_cal ''VEVENT'' DTEND) = Inr (old, Some new)"
    by (auto split: sum.splits option.splits)
  have "tm_sub (e_tz sample_env) (as_dt (jan 3 11)) (as_dt (jan 3 10)) = Inr HOUR" by code_simp
  with update_event_future_splits [OF r sample_event(1,2) sample_rules_ok] show ?thesis using r by auto
qed

subsection \<open>Writes and failures\<close>

text \<open>C15: Every decision of an edit precedes its first write. If the edit cannot be computed
  (unknown scope, missing master, incomparable dates, ...) the server is left as the lookup left
  it; an edit of the series or of one occurrence is a single save; a split is a save of the
  truncated original followed by the creation of the new series, and when that second request
  fails the truncated original stays: the later occurrences are lost. Failures are counted, except
  that the event was not found.\<close>

theorem update_event_writes:
  assumes "d_by_uid dav cn url ''VEVENT'' uid (w_dav w) = (Inr obj, s1)"
    and "plan = bindr (o_ical obj) (event_edit_plan env uid f start stop scope rid rrule reminders names)"
    and "run = update_event dav env cn url uid f start stop scope rid rrule reminders names w"
    and "failed = (\<lambda>e s. (Inl e, if counted e True then count_error ''update_event'' (w\<lparr>w_dav := s\<rparr>) else w\<lparr>w_dav := s\<rparr>))"
  shows "run = (case plan of
       Inl e \<Rightarrow> failed e s1
     | Inr (c, new) \<Rightarrow>
         (case d_save dav cn obj c s1 of
            (Inl e, s2) \<Rightarrow> failed e s2
          | (Inr _, s2) \<Rightarrow>
              (case new of None \<Rightarrow> (Inr (), w\<lparr>w_dav := s2\<rparr>)
               | Some c' \<Rightarrow> (case d_create dav cn url ''VEVENT'' c' s2 of
                     (Inl e, s3) \<Rightarrow> failed e s3 | (Inr _, s3) \<Rightarrow> (Inr (), w\<lparr>w_dav := s3\<rparr>)))))"
proof -
  have "find_item dav cn url ''VEVENT'' uid w = (Inr obj, w\<lparr>w_dav := s1\<rparr>)"
    by (simp add: find_item_def request_def assms(1))
  then have r: "sync_update_event dav env cn url uid f start stop scope rid rrule reminders names w =
      bindi (liftr plan) (execute_plan dav cn url ''VEVENT'' obj) (w\<lparr>w_dav := s1\<rparr>)"
    by (simp add: sync_update_event_plan assms(2))
  show ?thesis
    unfolding assms(3) update_event_def observed_def r assms(4)
    by (cases plan)
      (auto simp: execute_plan_def bindi_def request_def split: prod.splits sum.splits option.splits)
qed

theorem update_event_writes_witness:
  "\<exists>old new. update_event (sample_dav False) sample_env sample_cn ''cal'' ''u1'' sample_fields (jan 3 11) (jan 3 12)
       ''thisfuture'' (Some ''2024-01-03T10:00:00+00:00'') None None [] sample_world
     = (Inl DavError, count_error ''update_event'' (sample_world\<lparr>w_dav := [(''u1'', old)]\<rparr>))
     \<and> event_edit_plan sample_env ''u1'' sample_fields (jan 3 11) (jan 3 12) ''thisfuture''
       (Some ''2024-01-03T10:00:00+00:00'') None None [] (sample_cal ''VEVENT'' DTEND) = Inr (old, Some new)"
proof -
  let ?plan = "event_edit_plan sample_env ''u1'' sample_fields (jan 3 11) (jan 3 12) ''thisfuture''
       (Some ''2024-01-03T10:00:00+00:00'') None None [] (sample_cal ''VEVENT'' DTEND)"
  have "case (case ?plan of Inl e \<Rightarrow> None | Inr p \<Rightarrow> snd p) of None \<Rightarrow> False | Some _ \<Rightarrow> True"
    by code_simp
  then obtain old new where r: "?plan = Inr (old, Some new)"
    by (auto split: sum.splits option.splits)
  have l: "d_by_uid (sample_dav False) sample_cn ''cal'' ''VEVENT'' ''u1'' (w_dav sample_world)
      = (Inr \<lparr>o_url = ''u1'', o_ical = Inr (sample_cal ''VEVENT'' DTEND)\<rparr>, w_dav sample_world)"
    by (simp add: sample_dav_def sample_world_def)
  show ?thesis
    using r update_event_writes [OF l refl refl refl, of sample_env sample_fields "jan 3 11" "jan 3 12"
        "''thisfuture''" "Some ''2024-01-03T10:00:00+00:00''" None None "[]"]
    by (simp add: sample_dav_def sample_world_def counted_def)
qed

text \<open>Editing this and the following occurrences of an all-day series at its first
  occurrence always fails: the code subtracts a datetime from the edited date. The edit of a
  timed series does not have this problem.\<close>

theorem all_day_first_occurrence_fails:
  assumes "decoded DTSTART m = Inr (Day n)" and "tm_leq (e_tz env) (as_dt pivot) (as_dt (Day n)) = Inr True"
    and "drop_at_pivot (e_tz env) ''VEVENT'' pivot cal = Inr cal1"
    and "(case rrule of Some r \<Rightarrow> build_rrule (e_tz env) r (Day s) | None \<Rightarrow> remaining_rule_parts env m pivot) = Inr rule"
  shows "event_future env f (Day s) stop pivot rrule reminders names m cal = Inl TypeError"
  using assms by (simp add: event_future_def Let_def)

theorem all_day_first_occurrence_fails_witness:
  "event_future sample_env sample_fields (Day 738890) (Day 738891) (Day 738886) None None []
     (sample_allday ''VEVENT'') (new_cal\<lparr>vsubs := [sample_allday ''VEVENT'']\<rparr>) = Inl TypeError"
proof -
  have d: "decoded DTSTART (sample_allday ''VEVENT'') = Inr (Day 738886)" by code_simp
  have l: "tm_leq (e_tz sample_env) (as_dt (Day 738886)) (as_dt (Day 738886)) = Inr True" by code_simp
  have c: "drop_at_pivot (e_tz sample_env) ''VEVENT'' (Day 738886) (new_cal\<lparr>vsubs := [sample_allday ''VEVENT'']\<rparr>)
      = Inr (new_cal\<lparr>vsubs := [sample_allday ''VEVENT'']\<rparr>)" by code_simp
  have r: "(case None of Some r \<Rightarrow> build_rrule (e_tz sample_env) r (Day 738890)
      | None \<Rightarrow> remaining_rule_parts sample_env (sample_allday ''VEVENT'') (Day 738886)) = Inr [(FREQ, [RStr ''DAILY''])]"
    by code_simp
  show ?thesis by (rule all_day_first_occurrence_fails [OF d l c r])
qed

subsection \<open>Deleting\<close>

text \<open>C19: Deleting a single occurrence excludes its slot from the series and changes nothing else;
  in particular a detached override of that very occurrence stays in the object.\<close>

theorem delete_event_this_occurrence:
  assumes "delete_event_plan env ''this'' rid cal = Inr p"
    and "has_master ''VEVENT'' cal" and "master_vevent ''VEVENT'' cal = Some m"
    and "has_rrule m" and "truthy rid" and "exdates m = Inr ex"
  shows "\<exists>base pivot cal' m'. p = Rewrite cal' \<and> decoded DTSTART m = Inr base
     \<and> occurrence_dt (e_tz env) (the rid) base = Inr pivot
     \<and> master_vevent ''VEVENT'' cal' = Some m' \<and> same_but {EXDATE} m m' \<and> exdates m' = Inr (ex @ [pivot])
     \<and> overrides ''VEVENT'' cal' = overrides ''VEVENT'' cal
     \<and> others ''VEVENT'' cal' = others ''VEVENT'' cal"
  using delete_this [of env EVENT "\<lambda>m. DTSTART" rid cal p m] assms same_but_add_exdate exdates_add_exdate
  by (fastforce simp: delete_event_plan_def)

theorem delete_event_this_occurrence_witness:
  "\<exists>cal' m'. delete_event_plan sample_env ''this'' (Some ''2024-01-04T10:00:00+00:00'') (sample_cal ''VEVENT'' DTEND)
       = Inr (Rewrite cal') \<and> exdates m' = Inr [jan 2 10, jan 4 10]
     \<and> overrides ''VEVENT'' cal' = [sample_override ''VEVENT'' DTEND]"
proof -
  have o: "occurrence_dt (e_tz sample_env) ''2024-01-04T10:00:00+00:00'' (jan 1 10) = Inr (jan 4 10)"
    and ov: "overrides ''VEVENT'' (sample_cal ''VEVENT'' DTEND) = [sample_override ''VEVENT'' DTEND]"
    and t: "truthy (Some ''2024-01-04T10:00:00+00:00'')" by code_simp+
  have "case delete_event_plan sample_env ''this'' (Some ''2024-01-04T10:00:00+00:00'') (sample_cal ''VEVENT'' DTEND)
      of Inl _ \<Rightarrow> False | Inr _ \<Rightarrow> True"
    by code_simp
  then obtain p where r: "delete_event_plan sample_env ''this'' (Some ''2024-01-04T10:00:00+00:00'')
      (sample_cal ''VEVENT'' DTEND) = Inr p"
    using isr_obtain by blast
  from delete_event_this_occurrence [OF r sample_event(1-3) t sample_event(6)] r o ov sample_event(5)
  show ?thesis by auto
qed

text \<open>C18: Deleting an occurrence and the following ones drops the whole object exactly when the
  occurrence is not after the series start. Otherwise the master's rule loses its COUNT and ends with
  the last occurrence strictly before the pivot (the same instant in UTC, or its date for an all-day
  series), the rest of the rule and of the master stays, and exactly the overrides whose slots are
  before the pivot stay. \<open>occ\<close> are the occurrences of a dateutil rule object (\<open>rules_ok\<close>).\<close>

theorem delete_event_future_occurrences:
  assumes "delete_event_plan env ''thisfuture'' rid cal = Inr p"
    and "has_master ''VEVENT'' cal" and "master_vevent ''VEVENT'' cal = Some m"
    and "has_rrule m" and "truthy rid" and "rules_ok env occ"
  shows "\<exists>base pivot. decoded DTSTART m = Inr base \<and> occurrence_dt (e_tz env) (the rid) base = Inr pivot
     \<and> (tm_leq (e_tz env) (as_dt pivot) (as_dt base) = Inr True \<and> p = DropObject
        \<or> tm_leq (e_tz env) (as_dt pivot) (as_dt base) = Inr False
          \<and> (\<exists>cal' m'. p = Rewrite cal' \<and> cut_before env occ pivot m m' \<and> same_but {RRULE} m m'
               \<and> master_vevent ''VEVENT'' cal' = Some m'
               \<and> overrides ''VEVENT'' cal' = filter (stays (before_pivot (e_tz env) pivot)) (overrides ''VEVENT'' cal)
               \<and> others ''VEVENT'' cal' = others ''VEVENT'' cal))"
  using delete_future [of env EVENT "\<lambda>m. DTSTART" rid cal p m occ] assms by (simp add: delete_event_plan_def)

theorem delete_event_future_occurrences_witness:
  "\<exists>cal'. delete_event_plan sample_env ''thisfuture'' (Some ''2024-01-03T10:00:00+00:00'') (sample_cal ''VEVENT'' DTEND)
       = Inr (Rewrite cal') \<and> overrides ''VEVENT'' cal' = []
     \<and> (\<exists>m'. master_vevent ''VEVENT'' cal' = Some m'
          \<and> cut_before sample_env set (jan 3 10) (sample_master ''VEVENT'' DTEND) m')"
proof -
  have o: "occurrence_dt (e_tz sample_env) ''2024-01-03T10:00:00+00:00'' (jan 1 10) = Inr (jan 3 10)"
    and l: "tm_leq (e_tz sample_env) (as_dt (jan 3 10)) (as_dt (jan 1 10)) = Inr False"
    and f: "filter (stays (before_pivot (e_tz sample_env) (jan 3 10))) (overrides ''VEVENT'' (sample_cal ''VEVENT'' DTEND)) = []"
    by code_simp+
  have "case delete_event_plan sample_env ''thisfuture'' (Some ''2024-01-03T10:00:00+00:00'') (sample_cal ''VEVENT'' DTEND)
      of Inl _ \<Rightarrow> False | Inr _ \<Rightarrow> True"
    by code_simp
  then obtain p where r: "delete_event_plan sample_env ''thisfuture'' (Some ''2024-01-03T10:00:00+00:00'')
      (sample_cal ''VEVENT'' DTEND) = Inr p"
    using isr_obtain by blast
  from delete_event_future_occurrences [OF r sample_event(1-4) sample_rules_ok] r o l f sample_event(5)
  show ?thesis by auto
qed

end
