(* ===== verification/Journals.thy ===== *)
theory Journals
  imports Account Events
begin

text \<open>
  Journals are dated notes: one VJOURNAL with a title, a body and a start, without end, rule or
  alarms. Their operations write whole objects. The file ends with the accounting of failures of
  every operation of the CalDAV client.
\<close>

section \<open>Operations\<close>

definition journal_fields :: "string \<Rightarrow> tm \<Rightarrow> string option \<Rightarrow> item_fields" where
  "journal_fields title start description =
     \<lparr>f_title = title, f_start = Some start, f_end = None, f_location = None, f_description = description\<rparr>"

definition sync_create_journal ::
  "'s dav \<Rightarrow> 'r env \<Rightarrow> conn \<Rightarrow> string \<Rightarrow> string \<Rightarrow> string \<Rightarrow> tm \<Rightarrow> string option \<Rightarrow> ('s world, unit) io"
where
  "sync_create_journal dav env cn url uid title start description =
     request (d_create dav cn url ''VJOURNAL''
       (series_ical env uid (journal_fields title start description) None [] [] None [] JOURNAL None None))"

definition create_journal ::
  "'s dav \<Rightarrow> 'r env \<Rightarrow> conn \<Rightarrow> string \<Rightarrow> string \<Rightarrow> string \<Rightarrow> tm \<Rightarrow> string option \<Rightarrow> ('s world, unit) io"
where
  "create_journal dav env cn url uid title start description =
     observed ''create_journal'' False (sync_create_journal dav env cn url uid title start description)"

definition edit_journal :: "'r env \<Rightarrow> string \<Rightarrow> string \<Rightarrow> tm \<Rightarrow> string option \<Rightarrow> vcal \<Rightarrow> vcal res" where
  "edit_journal env uid title start description cal =
     (case master_vevent ''VJOURNAL'' cal of
        None \<Rightarrow> Inl (EventNotFoundError uid)
      | Some m \<Rightarrow> Inr (set_master ''VJOURNAL'' (apply_fields env (journal_fields title start description) JOURNAL m) cal))"

definition sync_update_journal ::
  "'s dav \<Rightarrow> 'r env \<Rightarrow> conn \<Rightarrow> string \<Rightarrow> string \<Rightarrow> string \<Rightarrow> tm \<Rightarrow> string option \<Rightarrow> ('s world, unit) io"
where
  "sync_update_journal dav env cn url uid title start description =
     bindi (find_item dav cn url ''VJOURNAL'' uid) (\<lambda>obj.
     bindi (liftr (o_ical obj)) (\<lambda>cal.
     bindi (liftr (edit_journal env uid title start description cal)) (\<lambda>cal'.
       request (d_save dav cn obj cal'))))"

definition update_journal ::
  "'s dav \<Rightarrow> 'r env \<Rightarrow> conn \<Rightarrow> string \<Rightarrow> string \<Rightarrow> string \<Rightarrow> tm \<Rightarrow> string option \<Rightarrow> ('s world, unit) io"
where
  "update_journal dav env cn url uid title start description =
     observed ''update_journal'' True (sync_update_journal dav env cn url uid title start description)"

definition sync_delete_journal :: "'s dav \<Rightarrow> conn \<Rightarrow> string \<Rightarrow> string \<Rightarrow> ('s world, unit) io" where
  "sync_delete_journal dav cn url uid =
     bindi (find_item dav cn url ''VJOURNAL'' uid) (\<lambda>obj. request (d_delete dav cn obj))"

definition delete_journal :: "'s dav \<Rightarrow> conn \<Rightarrow> string \<Rightarrow> string \<Rightarrow> ('s world, unit) io" where
  "delete_journal dav cn url uid = observed ''delete_journal'' True (sync_delete_journal dav cn url uid)"

section \<open>What a journal reads back as\<close>

definition nonempty :: "string option \<Rightarrow> string option" where
  "nonempty s = (if s = Some [] then None else s)"

lemma text_of_text_vals: "cvals c k = text_vals s \<Longrightarrow> text_of k c = nonempty s"
  by (auto simp: text_of_def text_vals_def nonempty_def split: option.splits list.splits)

definition reads_as :: "tzdb \<Rightarrow> ev_dict \<Rightarrow> string \<Rightarrow> tm \<Rightarrow> string option \<Rightarrow> bool" where
  "reads_as db d title start description \<longleftrightarrow>
     ev_title d = (if title = [] then ''(No title)'' else title)
     \<and> ev_start d = Some (dt_to_iso db start) \<and> ev_all_day d = is_all_day start
     \<and> p_description (ev_props d) = nonempty description \<and> ev_rid d = None"

lemma vjournal_reads:
  assumes "cvals c SUMMARY = text_vals (Some title)" and "decoded DTSTART c = Inr start"
    and "cvals c DESCRIPTION = text_vals description"
  shows "\<exists>d. vjournal_to_dict db c color cal_id fb = Inr (Some d) \<and> reads_as db d title start description
     \<and> ev_id d = item_uid fb c"
  using assms(2) text_of_text_vals [OF assms(1)] text_of_text_vals [OF assms(3)] decoded_chas [OF assms(2)]
  by (auto simp: vjournal_to_dict_def reads_as_def item_title_def nonempty_def no_props_def)

lemma kind_ok_journal: "kind_ok JOURNAL" and journal_kind [simp]: "k_name JOURNAL = ''VJOURNAL''" "k_end_key JOURNAL = NoKey"
  by (simp_all add: kind_ok_def JOURNAL_def)

text \<open>A journal reads back as it was written: the object that creating it stores, and the object
  that editing it stores (whatever else it held), show the title, body and date given, under the
  same UID.\<close>

theorem journal_reads_back:
  assumes "edit_journal env uid title' start' desc'
      (series_ical env uid (journal_fields title start desc) None [] [] None [] JOURNAL None None) = Inr cal'"
    and "uid \<noteq> []"
  shows "\<exists>d d'. item_of db ''VJOURNAL'' color cal_id fb
        (series_ical env uid (journal_fields title start desc) None [] [] None [] JOURNAL None None) = Inr (Some d)
     \<and> item_of db ''VJOURNAL'' color cal_id fb cal' = Inr (Some d')
     \<and> reads_as db d title start desc \<and> reads_as db d' title' start' desc' \<and> ev_id d = uid \<and> ev_id d' = uid"
proof -
  let ?c = "series_comp env uid (journal_fields title start desc) None [] None [] JOURNAL None None"
  let ?cal = "series_ical env uid (journal_fields title start desc) None [] [] None [] JOURNAL None None"
  let ?m = "apply_fields env (journal_fields title' start' desc') JOURNAL ?c"
  have h: "has_master ''VJOURNAL'' ?cal" and m: "master_vevent ''VJOURNAL'' ?cal = Some ?c"
    using series_ical_series(1,2) [OF kind_ok_journal, of "[]" _ env uid] by auto
  have cal': "cal' = set_master ''VJOURNAL'' ?m ?cal"
    using assms(1) m by (simp add: edit_journal_def)
  have v: "vsubs ?cal = [?c]" by (simp add: series_ical_def)
  have p: "is_plain ''VJOURNAL'' ?c" using series_comp_plain [OF kind_ok_journal] by simp
  then have p': "is_plain ''VJOURNAL'' ?m" by (simp add: apply_fields_plain [OF kind_ok_journal])
  have v': "vsubs cal' = [?m]"
    using p by (simp add: cal' set_master_def master_sel_def v)
  have vals: "cvals ?c SUMMARY = text_vals (Some title)" "decoded DTSTART ?c = Inr start"
      "cvals ?c DESCRIPTION = text_vals desc" "item_uid fb ?c = uid"
    using assms(2) by (simp_all add: series_comp_vals [OF kind_ok_journal] decoded_def journal_fields_def tm_vals_def
        item_uid_def text_of_def)
  have vals': "cvals ?m SUMMARY = text_vals (Some title')" "decoded DTSTART ?m = Inr start'"
      "cvals ?m DESCRIPTION = text_vals desc'" "item_uid fb ?m = uid"
    using assms(2) by (simp_all add: apply_fields_vals [OF kind_ok_journal] series_comp_vals [OF kind_ok_journal]
        decoded_def journal_fields_def tm_vals_def item_uid_def text_of_def)
  have item: "item_of db ''VJOURNAL'' color cal_id fb k = vjournal_to_dict db x color cal_id fb"
    if "vsubs k = [x]" "is_plain ''VJOURNAL'' x" "vjournal_to_dict db x color cal_id fb = Inr (Some d)" for k x d
    using that by (simp add: item_of_def masters_first_parts overrides_def item_to_dict_def plain_not_override)
  obtain d where d: "vjournal_to_dict db ?c color cal_id fb = Inr (Some d)" "reads_as db d title start desc" "ev_id d = uid"
    using vjournal_reads [OF vals(1-3), of db color cal_id fb] vals(4) by auto
  obtain d' where d': "vjournal_to_dict db ?m color cal_id fb = Inr (Some d')" "reads_as db d' title' start' desc'" "ev_id d' = uid"
    using vjournal_reads [OF vals'(1-3), of db color cal_id fb] vals'(4) by auto
  show ?thesis using item [OF v p d(1)] item [OF v' p' d'(1)] d d' by auto
qed

theorem journal_reads_back_witness:
  "\<exists>cal' d d'. edit_journal sample_env ''u1'' ''Trip'' (Day 738890) None
       (series_ical sample_env ''u1'' (journal_fields ''Note'' (Day 738886) (Some ''text'')) None [] [] None [] JOURNAL None None) = Inr cal'
     \<and> item_of sample_tz ''VJOURNAL'' [] 1 [] cal' = Inr (Some d') \<and> ev_title d' = ''Trip'' \<and> ev_start d' = Some ''2024-01-05''
     \<and> reads_as sample_tz d ''Note'' (Day 738886) (Some ''text'')"
proof -
  have "case edit_journal sample_env ''u1'' ''Trip'' (Day 738890) None
       (series_ical sample_env ''u1'' (journal_fields ''Note'' (Day 738886) (Some ''text'')) None [] [] None [] JOURNAL None None)
       of Inl _ \<Rightarrow> False | Inr _ \<Rightarrow> True" by code_simp
  then obtain cal' where c: "edit_journal sample_env ''u1'' ''Trip'' (Day 738890) None
       (series_ical sample_env ''u1'' (journal_fields ''Note'' (Day 738886) (Some ''text'')) None [] [] None [] JOURNAL None None) = Inr cal'"
    using isr_obtain by blast
  have u: "''u1'' \<noteq> []" and t: "dt_to_iso sample_tz (Day 738890) = ''2024-01-05''" by simp code_simp
  from journal_reads_back [OF c u, of sample_tz "[]" 1 "[]"] c t show ?thesis
    by (fastforce simp: reads_as_def)
qed

section \<open>The error counters\<close>

lemma quiet_prod [quiet_intros]: "(\<And>a b. quiet (f a b)) \<Longrightarrow> quiet (case p of (a, b) \<Rightarrow> f a b)"
  by (cases p) simp

lemma quiet_foldi: "(\<And>x acc. quiet (f x acc)) \<Longrightarrow> quiet (foldi f xs acc)"
proof (induction xs arbitrary: acc)
  case Nil
  show ?case by (simp only: foldi.simps quiet_basic)
next
  case (Cons x xs)
  then show ?case by (simp only: foldi.simps) (intro quiet_intros; simp)
qed

lemma quiet_execute_delete [quiet_intros]: "quiet (execute_delete dav cn obj plan)"
  unfolding execute_delete_def by (cases plan) (simp_all add: quiet_basic)

lemma quiet_sync_update_event: "quiet (sync_update_event dav env cn url uid f start stop scope rid rrule reminders names)"
  unfolding sync_update_event_def Let_def by (intro quiet_intros)

lemma quiet_events_from_cal: "quiet (events_from_cal dav env cn url a b color i)"
  unfolding events_from_cal_def master_meta_def by (intro quiet_intros)

lemma quiet_tasks_from_cal: "quiet (tasks_from_cal dav env cn url a b color i)"
  unfolding tasks_from_cal_def by (intro quiet_intros)

lemma quiet_journals_from_cal: "quiet (journals_from_cal dav env cn url a b color i)"
  unfolding journals_from_cal_def by (intro quiet_intros)

lemma quiet_ref_kind: "quiet m \<Longrightarrow> quiet (ref_kind kinds kind m)"
  unfolding ref_kind_def by (intro quiet_intros)

lemma quiet_sync_create_event: "quiet (sync_create_event dav env cn url uid f start stop rrule reminders)"
  unfolding sync_create_event_def by (intro quiet_intros)

lemma quiet_sync_delete_event: "quiet (sync_delete_event dav env cn url uid scope rid)"
  unfolding sync_delete_event_def by (intro quiet_intros)

lemma quiet_sync_update_task: "quiet (sync_update_task dav env cn url uid f start due scope rid rrule reminders priority names)"
  unfolding sync_update_task_def by (intro quiet_intros)

lemma quiet_sync_create_task: "quiet (sync_create_task dav env cn url uid f start due rrule reminders priority)"
  unfolding sync_create_task_def by (intro quiet_intros)

lemma quiet_sync_delete_task: "quiet (sync_delete_task dav env cn url uid scope rid)"
  unfolding sync_delete_task_def by (intro quiet_intros)

lemma quiet_sync_set_task_status: "quiet (sync_set_task_status dav env cn url uid completed rid)"
  unfolding sync_set_task_status_def by (intro quiet_intros)

lemma quiet_sync_create_journal: "quiet (sync_create_journal dav env cn url uid title start description)"
  unfolding sync_create_journal_def by (intro quiet_intros)

lemma quiet_sync_update_journal: "quiet (sync_update_journal dav env cn url uid title start description)"
  unfolding sync_update_journal_def by (intro quiet_intros)

lemma quiet_sync_delete_journal: "quiet (sync_delete_journal dav cn url uid)"
  unfolding sync_delete_journal_def by (intro quiet_intros)

lemma quiet_sync_fetch_account_data: "quiet (sync_fetch_account_data dav env cn refs a b kinds)"
  unfolding sync_fetch_account_data_def fetch_ref_def
  by (intro quiet_foldi quiet_intros quiet_ref_kind quiet_events_from_cal quiet_tasks_from_cal quiet_journals_from_cal)

lemma quiet_sync_fetch_item_by_uid: "quiet (sync_fetch_item_by_uid dav env cn url uid item_kind color cal_id)"
  unfolding sync_fetch_item_by_uid_def by (intro quiet_intros)

lemma quiet_sync_export_item: "quiet (sync_export_item dav cn url uid item_kind)"
  unfolding sync_export_item_def by (intro quiet_intros)

interpretation update_event: measured "''update_event''" True
  "sync_update_event dav env cn url uid f start stop scope rid rrule reminders names"
  for dav env cn url uid f start stop scope rid rrule reminders names
  by (rule measured.intro) (rule quiet_sync_update_event)

interpretation create_event: measured "''create_event''" False
  "sync_create_event dav env cn url uid f start stop rrule reminders"
  for dav env cn url uid f start stop rrule reminders
  by (rule measured.intro) (rule quiet_sync_create_event)

interpretation delete_event: measured "''delete_event''" True
  "sync_delete_event dav env cn url uid scope rid"
  for dav env cn url uid scope rid
  by (rule measured.intro) (rule quiet_sync_delete_event)

interpretation update_task: measured "''update_task''" True
  "sync_update_task dav env cn url uid f start due scope rid rrule reminders priority names"
  for dav env cn url uid f start due scope rid rrule reminders priority names
  by (rule measured.intro) (rule quiet_sync_update_task)

interpretation create_task: measured "''create_task''" False
  "sync_create_task dav env cn url uid f start due rrule reminders priority"
  for dav env cn url uid f start due rrule reminders priority
  by (rule measured.intro) (rule quiet_sync_create_task)

interpretation delete_task: measured "''delete_task''" True
  "sync_delete_task dav env cn url uid scope rid"
  for dav env cn url uid scope rid
  by (rule measured.intro) (rule quiet_sync_delete_task)

interpretation set_task_status: measured "''set_task_status''" True
  "sync_set_task_status dav env cn url uid completed rid"
  for dav env cn url uid completed rid
  by (rule measured.intro) (rule quiet_sync_set_task_status)

interpretation create_journal: measured "''create_journal''" False
  "sync_create_journal dav env cn url uid title start description"
  for dav env cn url uid title start description
  by (rule measured.intro) (rule quiet_sync_create_journal)

interpretation update_journal: measured "''update_journal''" True
  "sync_update_journal dav env cn url uid title start description"
  for dav env cn url uid title start description
  by (rule measured.intro) (rule quiet_sync_update_journal)

interpretation delete_journal: measured "''delete_journal''" True
  "sync_delete_journal dav cn url uid"
  for dav cn url uid
  by (rule measured.intro) (rule quiet_sync_delete_journal)

interpretation fetch_account: measured "''fetch_account_data''" False
  "sync_fetch_account_data dav env cn refs a b kinds"
  for dav env cn refs a b kinds
  by (rule measured.intro) (rule quiet_sync_fetch_account_data)

interpretation fetch_item: measured "''fetch_item''" True
  "sync_fetch_item_by_uid dav env cn url uid item_kind color cal_id"
  for dav env cn url uid item_kind color cal_id
  by (rule measured.intro) (rule quiet_sync_fetch_item_by_uid)

interpretation export_item: measured "''export_item''" True
  "sync_export_item dav cn url uid item_kind"
  for dav cn url uid item_kind
  by (rule measured.intro) (rule quiet_sync_export_item)

text \<open>What one call adds to its own counter.\<close>

definition failures :: "bool \<Rightarrow> 'a res \<Rightarrow> nat" where
  "failures passes r = (case r of Inr _ \<Rightarrow> 0 | Inl e \<Rightarrow> if counted e passes then 1 else 0)"

text \<open>The error counter of an operation counts its failures exactly: a call that raises adds one
  to the counter of its own operation (nothing if an edit did not find its item), a call that
  succeeds adds nothing, and no call touches another operation's counter.\<close>

theorem errors_counted:
  "w_errors (snd (update_event dav env cn url uid f s e scope rid rrule rems names w)) =
     (w_errors w)(''update_event'' := w_errors w ''update_event'' +
        failures True (fst (update_event dav env cn url uid f s e scope rid rrule rems names w)))
   \<and> w_errors (snd (delete_task dav env cn url uid scope rid w)) =
     (w_errors w)(''delete_task'' := w_errors w ''delete_task'' +
        failures True (fst (delete_task dav env cn url uid scope rid w)))
   \<and> w_errors (snd (create_journal dav env cn url uid title s desc w)) =
     (w_errors w)(''create_journal'' := w_errors w ''create_journal'' +
        failures False (fst (create_journal dav env cn url uid title s desc w)))
   \<and> w_errors (snd (fetch_account_data dav env cn refs s e kinds w)) =
     (w_errors w)(''fetch_account_data'' := w_errors w ''fetch_account_data'' +
        failures False (fst (fetch_account_data dav env cn refs s e kinds w)))"
  unfolding update_event_def delete_task_def create_journal_def fetch_account_data_def failures_def
  by (auto simp: fun_eq_iff update_event.error_count delete_task.error_count create_journal.error_count
      fetch_account.error_count observed_result)

end
