(* ===== verification/Routes.thy ===== *)
theory Routes
  imports Manage Journals
begin

text \<open>
  The item routes: events (\<open>routers/events.py\<close>), tasks (\<open>routers/tasks.py\<close>), journals
  (\<open>routers/journals.py\<close>) and the combined load (\<open>routers/calendar_data.py\<close>). A handler takes the session
  entry its dependency resolved, so that share links and the MCP server can call it with an entry of
  their own; \<open>under_session\<close> is the dependency itself. Request bodies come with their types checked;
  the further checks of their models are \<open>..._valid\<close>, and a body that fails them is answered 422
  after the session has been resolved. One clock reading stands for those a request makes.
\<close>

section \<open>What every route has at hand\<close>

record ('s, 'r) rt =
  rt_dav :: "'s dav"
  rt_env :: "'r env"
  rt_cr :: crypto

definition under_session :: "int \<Rightarrow> string option \<Rightarrow> (entry \<Rightarrow> ('s app, 'a) io) \<Rightarrow> ('s app, 'a) io" where
  "under_session now cookie handler = bindi (get_unrestricted_session now cookie) handler"

definition unprocessable :: exn where "unprocessable = http 422 ''Unprocessable body''"

definition recur_scopes :: "string list" where "recur_scopes = [''all'', ''this'', ''thisfuture'']"
definition reset_names :: "string list" where
  "reset_names = [''time'', ''title'', ''location'', ''description'', ''reminders'', ''priority'']"

text \<open>\<open>except Exception\<close>, and \<open>except EventNotFoundError\<close> before it.\<close>

definition upstream :: "string \<Rightarrow> ('w, 'a) io \<Rightarrow> ('w, 'a) io" where
  "upstream failed m = (\<lambda>w. case m w of (Inl e, w') \<Rightarrow> (Inl (http 502 failed), w') | r \<Rightarrow> r)"

definition item_status :: "string \<Rightarrow> string \<Rightarrow> exn \<Rightarrow> exn" where
  "item_status missing failed e = (case e of EventNotFoundError u \<Rightarrow> http 404 missing | _ \<Rightarrow> http 502 failed)"

definition upstream_item :: "string \<Rightarrow> string \<Rightarrow> ('w, 'a) io \<Rightarrow> ('w, 'a) io" where
  "upstream_item missing failed m = (\<lambda>w. case m w of (Inl e, w') \<Rightarrow> (Inl (item_status missing failed e), w') | r \<Rightarrow> r)"

text \<open>\<open>_calendar_for\<close>.\<close>

definition calendar_for :: "entry \<Rightarrow> int \<Rightarrow> ('s app, calendar \<times> account) io" where
  "calendar_for e cid = bindi (ask ap_db) (\<lambda>d. require (http 404 ''Calendar not found'') (owned_calendar d (s_user e) cid))"

definition password_for :: "('s, 'r) rt \<Rightarrow> entry \<Rightarrow> account \<Rightarrow> ('s app, string) io" where
  "password_for rt e a = liftr (password_of (rt_cr rt) (s_dek e) a)"

section \<open>Parsing times\<close>

text \<open>\<open>_parse_dt\<close>: each of its three rounds makes the same attempt.\<close>

definition parse_dt :: "string option \<Rightarrow> tm option res" where
  "parse_dt s =
     (case s of
        Some (c # cs) \<Rightarrow>
          (case datetime_fromisoformat (c # cs) of
             Inl e \<Rightarrow> if e = ValueError then Inr None else Inl e
           | Inr t \<Rightarrow> Inr (Some t))
      | _ \<Rightarrow> Inr None)"

definition first_of_month :: "tm \<Rightarrow> tm" where   \<comment> \<open>\<open>now.replace(day=1)\<close>\<close>
  "first_of_month t =
     (case t of
        Day n \<Rightarrow> Day (ymd2ord (year_of n) (month_of n) 1)
      | Stamp w f z \<Rightarrow> let n = w div DAY in Stamp (ymd2ord (year_of n) (month_of n) 1 * DAY + w mod DAY) f z)"

definition load_window :: "tm \<Rightarrow> string option \<Rightarrow> string option \<Rightarrow> (tm \<times> tm) res" where
  "load_window now raw_from raw_to =
     bindr (parse_dt raw_from) (\<lambda>a.
     bindr (parse_dt raw_to) (\<lambda>b.
       Inr (case a of Some x \<Rightarrow> x | None \<Rightarrow> first_of_month now, case b of Some y \<Rightarrow> y | None \<Rightarrow> now)))"

text \<open>\<open>ZoneInfo(key)\<close>: a key that is not a normal relative path raises \<open>ValueError\<close>, an unknown one
  \<open>ZoneInfoNotFoundError\<close>. The routes turn the latter alone into UTC.\<close>

definition malformed_key :: "string \<Rightarrow> bool" where
  "malformed_key k \<longleftrightarrow>
     (let parts = split_on (CHR ''/'') k in
      (k \<noteq> ''.'' \<and> ([] \<in> set parts \<or> ''.'' \<in> set parts)) \<or> ''..'' \<in> set parts \<or> CHR 0x00 \<in> set k)"

definition zone_info :: "tzdb \<Rightarrow> string \<Rightarrow> tzi res" where
  "zone_info tz k = (if malformed_key k then Inl ValueError else zoneinfo tz k)"

definition request_zone :: "tzdb \<Rightarrow> string option \<Rightarrow> tzi res" where
  "request_zone tz name =
     (case name of
        Some (c # cs) \<Rightarrow>
          (case zone_info tz (c # cs) of
             Inl e \<Rightarrow> if e = ZoneInfoNotFoundError then Inr Utc else Inl e
           | Inr z \<Rightarrow> Inr z)
      | _ \<Rightarrow> Inr Utc)"

text \<open>A naive time is stamped with the zone, an aware one converted to it.\<close>

definition into_zone :: "tzdb \<Rightarrow> tzi \<Rightarrow> tm \<Rightarrow> tm res" where
  "into_zone tz z t = (if tzinfo t = None then Inr (replace_tz t z) else astimezone tz t z)"

definition bad_request :: "string \<Rightarrow> 'a res \<Rightarrow> 'a res" where   \<comment> \<open>\<open>except ValueError: raise HTTPException(400)\<close>\<close>
  "bad_request detail r = (case r of Inl e \<Rightarrow> Inl (if e = ValueError then http 400 detail else e) | Inr x \<Rightarrow> Inr x)"

section \<open>Events\<close>

record event_in =
  en_calendar :: int
  en_original :: "int option"
  en_title :: string
  en_all_day :: bool
  en_start :: string
  en_end :: "string option"
  en_location :: "string option"
  en_description :: "string option"
  en_timezone :: "string option"
  en_scope :: string
  en_rid :: "string option"
  en_rule :: "rule_in option"
  en_reminders :: "reminder list option"
  en_reset :: bool
  en_reset_fields :: "string list"

definition text_ok :: "nat \<Rightarrow> string option \<Rightarrow> bool" where
  "text_ok n s \<longleftrightarrow> (case s of None \<Rightarrow> True | Some t \<Rightarrow> length t \<le> n)"

definition reminders_ok :: "bool \<Rightarrow> reminder list option \<Rightarrow> bool" where
  "reminders_ok all_day rs \<longleftrightarrow>
     (case rs of None \<Rightarrow> True
      | Some xs \<Rightarrow> length xs \<le> 10 \<and> list_all (\<lambda>r. 0 \<le> rm_value r \<and> rm_value r \<le> 10000 \<and> check_reminder all_day r) xs)"

definition event_valid :: "event_in \<Rightarrow> bool" where
  "event_valid b \<longleftrightarrow> length (en_title b) \<le> 8000 \<and> text_ok 8000 (en_location b) \<and> text_ok 8000 (en_description b)
     \<and> reminders_ok (en_all_day b) (en_reminders b)"

text \<open>The fields to reset that are passed on: the known ones, and none unless asked for.\<close>

definition reset_list :: "bool \<Rightarrow> string list \<Rightarrow> string list" where
  "reset_list reset chosen = (if reset then filter (\<lambda>f. f \<in> set reset_names) chosen else [])"

text \<open>\<open>_resolve_span\<close>.\<close>

definition all_day_span :: "string \<Rightarrow> string option \<Rightarrow> (tm \<times> tm) res" where
  "all_day_span start stop =
     bad_request ''Invalid all-day dates''
       (bindr (date_fromisoformat (take 10 start)) (\<lambda>s.
        bindr (date_fromisoformat (case stop of Some (c # cs) \<Rightarrow> take 10 (c # cs) | _ \<Rightarrow> take 10 start)) (\<lambda>e.
        bindr (tm_add e DAY) (\<lambda>e'. Inr (s, e')))))"

definition timed_span :: "tzdb \<Rightarrow> string option \<Rightarrow> string \<Rightarrow> string option \<Rightarrow> (tm \<times> tm) res" where
  "timed_span tz zone start stop =
     bindr (request_zone tz zone) (\<lambda>z.
       case stop of
         Some (c # cs) \<Rightarrow>
           bindr (bad_request ''Invalid datetime''
                   (bindr (datetime_fromisoformat start) (\<lambda>s.
                    bindr (datetime_fromisoformat (c # cs)) (\<lambda>e. Inr (s, e))))) (\<lambda>(s, e).
           bindr (into_zone tz z s) (\<lambda>s'.
           bindr (into_zone tz z e) (\<lambda>e'.
           bindr (tm_leq tz e' s') (\<lambda>backward.
             if backward then Inl (http 400 ''End must be after start'') else Inr (s', e')))))
       | _ \<Rightarrow> Inl (http 400 ''End is required for timed events''))"

definition resolve_span :: "tzdb \<Rightarrow> event_in \<Rightarrow> (tm \<times> tm) res" where
  "resolve_span tz b =
     (if en_all_day b then all_day_span (en_start b) (en_end b)
      else timed_span tz (en_timezone b) (en_start b) (en_end b))"

definition event_fields :: "event_in \<Rightarrow> item_fields" where
  "event_fields b = \<lparr>f_title = en_title b, f_start = None, f_end = None, f_location = en_location b, f_description = en_description b\<rparr>"

text \<open>The listing: the welcome items when no calendar is enabled (\<open>_dummy_events\<close>, for the local date
  \<open>today\<close>), otherwise what the enabled calendars that answer hold in the window.\<close>

record demo =
  de_id :: string
  de_title :: string
  de_start :: string
  de_end :: "string option"
  de_all_day :: bool
  de_color :: string
  de_description :: "string option"

datatype event_row = Demo demo | Listed ev_dict

definition on_day :: "int \<Rightarrow> int \<Rightarrow> string res" where   \<comment> \<open>\<open>(today + timedelta(days=n)).isoformat()\<close>\<close>
  "on_day today n = (if ord_ok (today + n) then Inr (iso_date (today + n)) else Inl OverflowError)"

definition dummy_events :: "int \<Rightarrow> demo list res" where
  "dummy_events today =
     bindr (on_day today 1) (\<lambda>d1. bindr (on_day today 2) (\<lambda>d2. bindr (on_day today 4) (\<lambda>d4. bindr (on_day today 3) (\<lambda>d3.
       Inr [\<lparr>de_id = ''demo-welcome'', de_title = ''Welcome to WebCalDav!'', de_start = iso_date today, de_end = None,
             de_all_day = True, de_color = ''#3788d8'',
             de_description = Some ''Connect a CalDAV server via the Settings panel to see real events.''\<rparr>,
            \<lparr>de_id = ''demo-setup'', de_title = ''Add a CalDAV account'', de_start = d1, de_end = None,
             de_all_day = True, de_color = ''#22c55e'', de_description = None\<rparr>,
            \<lparr>de_id = ''demo-explore'', de_title = ''Explore month / week / day views'', de_start = d2, de_end = Some d4,
             de_all_day = False, de_color = ''#f59e0b'', de_description = None\<rparr>,
            \<lparr>de_id = ''demo-notify'', de_title = ''Browser reminders coming in v4'', de_start = d3 @ ''T10:00:00'',
             de_end = Some (d3 @ ''T11:00:00''), de_all_day = False, de_color = ''#8b5cf6'', de_description = None\<rparr>]))))"

definition gathered :: "'a list res list \<Rightarrow> 'a list" where   \<comment> \<open>what did not raise\<close>
  "gathered rs = concat (map (\<lambda>r. case r of Inl e \<Rightarrow> [] | Inr xs \<Rightarrow> xs) rs)"

type_synonym ('s, 'r) fetcher =
  "'s dav \<Rightarrow> 'r env \<Rightarrow> conn \<Rightarrow> string \<Rightarrow> tm \<Rightarrow> tm \<Rightarrow> string \<Rightarrow> int \<Rightarrow> ('s world, ev_dict list) io"

definition load_items ::
  "('s, 'r) fetcher \<Rightarrow> ('s, 'r) rt \<Rightarrow> entry \<Rightarrow> string option \<Rightarrow> string option \<Rightarrow> (calendar \<times> account) list \<Rightarrow> ('s app, ev_dict list) io"
where
  "load_items fetch rt e raw_from raw_to rows =
     bindi (liftr (load_window (e_now (rt_env rt)) raw_from raw_to)) (\<lambda>(from_dt, to_dt).
     bindi (per_calendar (rt_cr rt) (s_dek e) (\<lambda>cn c.
              fetch (rt_dav rt) (rt_env rt) cn (c_caldav_id c) from_dt to_dt (c_color c) (c_id c)) rows) (\<lambda>results.
       reti (gathered results)))"

definition get_events ::
  "('s, 'r) rt \<Rightarrow> entry \<Rightarrow> int \<Rightarrow> string option \<Rightarrow> string option \<Rightarrow> ('s app, event_row list) io"
where
  "get_events rt e today raw_from raw_to =
     bindi (ask ap_db) (\<lambda>d.
       let rows = enabled_calendars d (s_user e) in
       if rows = [] then bindi (liftr (dummy_events today)) (\<lambda>ds. reti (map Demo ds))
       else bindi (load_items fetch_events rt e raw_from raw_to rows) (\<lambda>es. reti (map Listed es)))"

text \<open>Creating. The new item's UID is drawn by the handler.\<close>

definition post_event :: "('s, 'r) rt \<Rightarrow> entry \<Rightarrow> event_in \<Rightarrow> ('s app, string) io" where
  "post_event rt e b =
     bindi (calendar_for e (en_calendar b)) (\<lambda>(c, a).
     bindi (liftr (resolve_span (e_tz (rt_env rt)) b)) (\<lambda>(start, stop).
     bindi (password_for rt e a) (\<lambda>pw.
     bindi (upstream ''Failed to create event on CalDAV server''
       (bindi (liftr (reminder_deltas (en_reminders b) (en_all_day b))) (\<lambda>rs.
          on_world (create_event (rt_dav rt) (rt_env rt) (conn_of a pw) (c_caldav_id c) (new_uid (rt_env rt))
            (event_fields b) start stop (en_rule b) rs)))) (\<lambda>_.
       reti (new_uid (rt_env rt))))))"

text \<open>Moving to another calendar: the item is created on the target, then deleted from the source.\<close>

definition moves :: "int option \<Rightarrow> int \<Rightarrow> bool" where
  "moves original target \<longleftrightarrow> (case original of None \<Rightarrow> False | Some o' \<Rightarrow> o' \<noteq> target)"

definition relocate ::
  "('s, 'r) rt \<Rightarrow> entry \<Rightarrow> int \<Rightarrow> ('s app, unit) io \<Rightarrow> (conn \<Rightarrow> string \<Rightarrow> ('s world, unit) io) \<Rightarrow> ('s app, unit) io"
where
  "relocate rt e source create drop_item =
     bindi (calendar_for e source) (\<lambda>(c, a).
     bindi (password_for rt e a) (\<lambda>pw.
     bindi create (\<lambda>_. on_world (drop_item (conn_of a pw) (c_caldav_id c)))))"

definition put_event :: "('s, 'r) rt \<Rightarrow> entry \<Rightarrow> string \<Rightarrow> event_in \<Rightarrow> ('s app, unit) io" where
  "put_event rt e uid b =
     (let dav = rt_dav rt; env = rt_env rt; moved = moves (en_original b) (en_calendar b); deltas = liftr (reminder_deltas (en_reminders b) (en_all_day b)) in
      if en_scope b \<notin> set recur_scopes then raisei (http 400 ''Invalid scope'')
      else
      bindi (calendar_for e (en_calendar b)) (\<lambda>(c, a).
      bindi (liftr (resolve_span (e_tz env) b)) (\<lambda>(start, stop).
      bindi (password_for rt e a) (\<lambda>pw.
        if moved \<and> en_scope b \<noteq> ''all'' then raisei (http 400 ''Moving an event is only supported for the whole series'')
        else upstream_item ''Event not found'' ''Failed to update event on CalDAV server''
          (if moved then
             relocate rt e (the (en_original b))
               (bindi deltas (\<lambda>rs. on_world (create_event dav env (conn_of a pw) (c_caldav_id c) uid (event_fields b) start stop None rs)))
               (\<lambda>cn url. delete_event dav env cn url uid ''all'' None)
           else
             bindi deltas (\<lambda>rs. on_world (update_event dav env (conn_of a pw) (c_caldav_id c) uid (event_fields b) start stop
               (en_scope b) (en_rid b) (if en_scope b \<in> {''all'', ''thisfuture''} then en_rule b else None) rs
               (reset_list (en_reset b) (en_reset_fields b)))))))))"

definition delete_event_route :: "('s, 'r) rt \<Rightarrow> entry \<Rightarrow> string \<Rightarrow> int \<Rightarrow> string \<Rightarrow> string option \<Rightarrow> ('s app, unit) io" where
  "delete_event_route rt e uid cid scope rid =
     (if scope \<notin> set recur_scopes then raisei (http 400 ''Invalid scope'')
      else
      bindi (calendar_for e cid) (\<lambda>(c, a).
      bindi (password_for rt e a) (\<lambda>pw.
        upstream_item ''Event not found'' ''Failed to delete event on CalDAV server''
          (on_world (delete_event (rt_dav rt) (rt_env rt) (conn_of a pw) (c_caldav_id c) uid scope rid)))))"

text \<open>The preview of a rule: its last occurrence and the number of all. The text of an exception is a
  parameter.\<close>

definition recurrence_preview ::
  "'r env \<Rightarrow> (exn \<Rightarrow> string) \<Rightarrow> string \<Rightarrow> bool \<Rightarrow> string option \<Rightarrow> rule_in \<Rightarrow> (string option \<times> int option) res"
where
  "recurrence_preview env exn_text start all_day zone rule =
     bindr (bad_request ''Invalid start''
       (if all_day then date_fromisoformat (take 10 start)
        else bindr (request_zone (e_tz env) zone) (\<lambda>z.
             bindr (datetime_fromisoformat start) (\<lambda>t. Inr (if tzinfo t = None then replace_tz t z else t))))) (\<lambda>t.
       bad_request (exn_text ValueError) (preview_recurrence env t rule))"

section \<open>Tasks\<close>

record task_in =
  ta_calendar :: int
  ta_original :: "int option"
  ta_title :: string
  ta_all_day :: bool
  ta_start :: "string option"
  ta_due :: "string option"
  ta_location :: "string option"
  ta_description :: "string option"
  ta_priority :: "int option"
  ta_timezone :: "string option"
  ta_scope :: string
  ta_rid :: "string option"
  ta_rule :: "rule_in option"
  ta_reminders :: "reminder list option"
  ta_reset :: bool
  ta_reset_fields :: "string list"

definition present :: "string option \<Rightarrow> bool" where
  "present s \<longleftrightarrow> s \<noteq> None \<and> s \<noteq> Some []"

definition task_valid :: "task_in \<Rightarrow> bool" where
  "task_valid b \<longleftrightarrow> length (ta_title b) \<le> 8000 \<and> text_ok 8000 (ta_location b) \<and> text_ok 8000 (ta_description b)
     \<and> (case ta_priority b of None \<Rightarrow> True | Some p \<Rightarrow> 0 \<le> p \<and> p \<le> 9)
     \<and> reminders_ok (ta_all_day b) (ta_reminders b)
     \<and> (ta_rule b = None \<or> present (ta_start b) \<or> present (ta_due b))"

text \<open>\<open>_resolve_task_span\<close>: either side may be missing; an all-day due date is stored as it is.\<close>

definition optional_time :: "(string \<Rightarrow> tm res) \<Rightarrow> string option \<Rightarrow> tm option res" where
  "optional_time f s =
     (case s of Some (c # cs) \<Rightarrow> bindr (f (c # cs)) (\<lambda>t. Inr (Some t)) | _ \<Rightarrow> Inr None)"

definition resolve_task_span :: "tzdb \<Rightarrow> task_in \<Rightarrow> (tm option \<times> tm option) res" where
  "resolve_task_span tz b =
     (if ta_all_day b then
        bad_request ''Invalid all-day dates''
          (bindr (optional_time (\<lambda>s. date_fromisoformat (take 10 s)) (ta_start b)) (\<lambda>start.
           bindr (optional_time (\<lambda>s. date_fromisoformat (take 10 s)) (ta_due b)) (\<lambda>due. Inr (start, due))))
      else
        bindr (request_zone tz (ta_timezone b)) (\<lambda>z.
          let one = optional_time (\<lambda>s. bindr (bad_request ''Invalid datetime'' (datetime_fromisoformat s)) (into_zone tz z)) in
          bindr (one (ta_start b)) (\<lambda>start. bindr (one (ta_due b)) (\<lambda>due. Inr (start, due)))))"

definition task_fields :: "task_in \<Rightarrow> item_fields" where
  "task_fields b = \<lparr>f_title = ta_title b, f_start = None, f_end = None, f_location = ta_location b, f_description = ta_description b\<rparr>"

definition get_tasks :: "('s, 'r) rt \<Rightarrow> entry \<Rightarrow> string option \<Rightarrow> string option \<Rightarrow> ('s app, ev_dict list) io" where
  "get_tasks rt e raw_from raw_to =
     bindi (ask ap_db) (\<lambda>d.
       let rows = enabled_calendars d (s_user e) in
       if rows = [] then reti [] else load_items fetch_tasks rt e raw_from raw_to rows)"

definition post_task :: "('s, 'r) rt \<Rightarrow> entry \<Rightarrow> task_in \<Rightarrow> ('s app, string) io" where
  "post_task rt e b =
     bindi (calendar_for e (ta_calendar b)) (\<lambda>(c, a).
     bindi (liftr (resolve_task_span (e_tz (rt_env rt)) b)) (\<lambda>(start, due).
     bindi (password_for rt e a) (\<lambda>pw.
     bindi (upstream ''Failed to create task on CalDAV server''
       (bindi (liftr (reminder_deltas (ta_reminders b) (ta_all_day b))) (\<lambda>rs.
          on_world (create_task (rt_dav rt) (rt_env rt) (conn_of a pw) (c_caldav_id c) (new_uid (rt_env rt))
            (task_fields b) start due (ta_rule b) rs (ta_priority b))))) (\<lambda>_.
       reti (new_uid (rt_env rt))))))"

definition put_task :: "('s, 'r) rt \<Rightarrow> entry \<Rightarrow> string \<Rightarrow> task_in \<Rightarrow> ('s app, unit) io" where
  "put_task rt e uid b =
     (let dav = rt_dav rt; env = rt_env rt; moved = moves (ta_original b) (ta_calendar b); deltas = liftr (reminder_deltas (ta_reminders b) (ta_all_day b));
          rule = (if ta_scope b \<in> {''all'', ''thisfuture''} then ta_rule b else None) in
      if ta_scope b \<notin> set recur_scopes then raisei (http 400 ''Invalid scope'')
      else
      bindi (calendar_for e (ta_calendar b)) (\<lambda>(c, a).
      bindi (liftr (resolve_task_span (e_tz env) b)) (\<lambda>(start, due).
      bindi (password_for rt e a) (\<lambda>pw.
        if moved \<and> ta_scope b \<noteq> ''all'' then raisei (http 400 ''Moving a task is only supported for the whole series'')
        else upstream_item ''Task not found'' ''Failed to update task on CalDAV server''
          (if moved then
             relocate rt e (the (ta_original b))
               (bindi deltas (\<lambda>rs. on_world (create_task dav env (conn_of a pw) (c_caldav_id c) uid (task_fields b) start due rule rs (ta_priority b))))
               (\<lambda>cn url. delete_task dav env cn url uid ''all'' None)
           else
             bindi deltas (\<lambda>rs. on_world (update_task dav env (conn_of a pw) (c_caldav_id c) uid (task_fields b) start due
               (ta_scope b) (ta_rid b) rule rs (ta_priority b) (reset_list (ta_reset b) (ta_reset_fields b)))))))))"

record status_in =
  st_calendar :: int
  st_completed :: bool
  st_rid :: "string option"

definition toggle_task_status :: "('s, 'r) rt \<Rightarrow> entry \<Rightarrow> string \<Rightarrow> status_in \<Rightarrow> ('s app, unit) io" where
  "toggle_task_status rt e uid b =
     bindi (calendar_for e (st_calendar b)) (\<lambda>(c, a).
     bindi (password_for rt e a) (\<lambda>pw.
       upstream_item ''Task not found'' ''Failed to update task on CalDAV server''
         (on_world (set_task_status (rt_dav rt) (rt_env rt) (conn_of a pw) (c_caldav_id c) uid (st_completed b) (st_rid b)))))"

definition delete_task_route :: "('s, 'r) rt \<Rightarrow> entry \<Rightarrow> string \<Rightarrow> int \<Rightarrow> string \<Rightarrow> string option \<Rightarrow> ('s app, unit) io" where
  "delete_task_route rt e uid cid scope rid =
     (if scope \<notin> set recur_scopes then raisei (http 400 ''Invalid scope'')
      else
      bindi (calendar_for e cid) (\<lambda>(c, a).
      bindi (password_for rt e a) (\<lambda>pw.
        upstream_item ''Task not found'' ''Failed to delete task on CalDAV server''
          (on_world (delete_task (rt_dav rt) (rt_env rt) (conn_of a pw) (c_caldav_id c) uid scope rid)))))"

section \<open>Journals\<close>

record journal_in =
  jo_calendar :: int
  jo_original :: "int option"
  jo_title :: string
  jo_all_day :: bool
  jo_start :: string
  jo_description :: "string option"
  jo_timezone :: "string option"

definition journal_valid :: "journal_in \<Rightarrow> bool" where
  "journal_valid b \<longleftrightarrow> length (jo_title b) \<le> 8000 \<and> text_ok 100000 (jo_description b)"

definition resolve_journal_start :: "tzdb \<Rightarrow> journal_in \<Rightarrow> tm res" where
  "resolve_journal_start tz b =
     (if jo_all_day b then bad_request ''Invalid all-day date'' (date_fromisoformat (take 10 (jo_start b)))
      else bindr (request_zone tz (jo_timezone b)) (\<lambda>z.
           bindr (bad_request ''Invalid datetime'' (datetime_fromisoformat (jo_start b))) (into_zone tz z)))"

definition get_journals :: "('s, 'r) rt \<Rightarrow> entry \<Rightarrow> string option \<Rightarrow> string option \<Rightarrow> ('s app, ev_dict list) io" where
  "get_journals rt e raw_from raw_to =
     bindi (ask ap_db) (\<lambda>d.
       let rows = enabled_calendars d (s_user e) in
       if rows = [] then reti [] else load_items fetch_journals rt e raw_from raw_to rows)"

definition post_journal :: "('s, 'r) rt \<Rightarrow> entry \<Rightarrow> journal_in \<Rightarrow> ('s app, string) io" where
  "post_journal rt e b =
     bindi (calendar_for e (jo_calendar b)) (\<lambda>(c, a).
     bindi (liftr (resolve_journal_start (e_tz (rt_env rt)) b)) (\<lambda>start.
     bindi (password_for rt e a) (\<lambda>pw.
     bindi (upstream ''Failed to create journal on CalDAV server''
       (on_world (create_journal (rt_dav rt) (rt_env rt) (conn_of a pw) (c_caldav_id c) (new_uid (rt_env rt))
         (jo_title b) start (jo_description b)))) (\<lambda>_.
       reti (new_uid (rt_env rt))))))"

definition put_journal :: "('s, 'r) rt \<Rightarrow> entry \<Rightarrow> string \<Rightarrow> journal_in \<Rightarrow> ('s app, unit) io" where
  "put_journal rt e uid b =
     (let dav = rt_dav rt; env = rt_env rt in
      bindi (calendar_for e (jo_calendar b)) (\<lambda>(c, a).
      bindi (liftr (resolve_journal_start (e_tz env) b)) (\<lambda>start.
      bindi (password_for rt e a) (\<lambda>pw.
        upstream_item ''Journal not found'' ''Failed to update journal on CalDAV server''
          (if moves (jo_original b) (jo_calendar b) then
             relocate rt e (the (jo_original b))
               (on_world (create_journal dav env (conn_of a pw) (c_caldav_id c) uid (jo_title b) start (jo_description b)))
               (\<lambda>cn url. delete_journal dav cn url uid)
           else
             on_world (update_journal dav env (conn_of a pw) (c_caldav_id c) uid (jo_title b) start (jo_description b)))))))"

definition delete_journal_route :: "('s, 'r) rt \<Rightarrow> entry \<Rightarrow> string \<Rightarrow> int \<Rightarrow> ('s app, unit) io" where
  "delete_journal_route rt e uid cid =
     bindi (calendar_for e cid) (\<lambda>(c, a).
     bindi (password_for rt e a) (\<lambda>pw.
       upstream_item ''Journal not found'' ''Failed to delete journal on CalDAV server''
         (on_world (delete_journal (rt_dav rt) (conn_of a pw) (c_caldav_id c) uid))))"

section \<open>The combined load\<close>

text \<open>\<open>get_calendar_data\<close>: the calendars grouped by account, in the order the accounts first appear; one
  fetch per account for the requested kinds.\<close>

definition all_kinds :: "string list" where "all_kinds = [''events'', ''tasks'', ''journals'']"

definition requested_kinds :: "string option \<Rightarrow> string list" where
  "requested_kinds kinds =
     filter (\<lambda>k. k \<in> set all_kinds) (case kinds of Some (c # cs) \<Rightarrow> split_on (CHR '','') (c # cs) | _ \<Rightarrow> all_kinds)"

definition ref_of :: "calendar \<Rightarrow> cal_ref" where
  "ref_of c = \<lparr>cr_url = c_caldav_id c, cr_color = c_color c, cr_id = c_id c\<rparr>"

type_synonym account_group = "int \<times> account \<times> cal_ref list"

definition add_row :: "calendar \<times> account \<Rightarrow> account_group list \<Rightarrow> account_group list" where
  "add_row row groups =
     (case row of (c, a) \<Rightarrow>
        case map_of groups (a_id a) of
          None \<Rightarrow> groups @ [(a_id a, a, [ref_of c])]
        | Some (a', refs) \<Rightarrow> AList.update (a_id a) (a', refs @ [ref_of c]) groups)"

definition by_account :: "(calendar \<times> account) list \<Rightarrow> account_group list" where
  "by_account rows = fold add_row rows []"

record data_out =
  do_events :: "event_row list"
  do_tasks :: "ev_dict list"
  do_journals :: "ev_dict list"

definition account_jobs ::
  "('s, 'r) rt \<Rightarrow> entry \<Rightarrow> tm \<Rightarrow> tm \<Rightarrow> string list \<Rightarrow> account_group list \<Rightarrow> ('s world, fetched) io list res"
where
  "account_jobs rt e from_dt to_dt kinds groups =
     mapr (\<lambda>(i, a, refs). bindr (password_of (rt_cr rt) (s_dek e) a) (\<lambda>pw.
       Inr (fetch_account_data (rt_dav rt) (rt_env rt) (conn_of a pw) refs from_dt to_dt kinds))) groups"

definition get_calendar_data ::
  "('s, 'r) rt \<Rightarrow> entry \<Rightarrow> int \<Rightarrow> string option \<Rightarrow> string option \<Rightarrow> string option \<Rightarrow> ('s app, data_out) io"
where
  "get_calendar_data rt e today raw_from raw_to kinds =
     (let requested = requested_kinds kinds in
      bindi (ask ap_db) (\<lambda>d.
        let rows = enabled_calendars d (s_user e) in
        if rows = [] then
          bindi (if ''events'' \<in> set requested then bindi (liftr (dummy_events today)) (\<lambda>ds. reti (map Demo ds)) else reti []) (\<lambda>es.
            reti \<lparr>do_events = es, do_tasks = [], do_journals = []\<rparr>)
        else
          bindi (liftr (load_window (e_now (rt_env rt)) raw_from raw_to)) (\<lambda>(from_dt, to_dt).
          bindi (liftr (account_jobs rt e from_dt to_dt requested (by_account rows))) (\<lambda>jobs.
          bindi (on_world (gather jobs)) (\<lambda>results.
            let of_kind = (\<lambda>f. gathered (map (\<lambda>r. case r of Inl x \<Rightarrow> Inl x | Inr x \<Rightarrow> Inr (f x)) results)) in
            reti \<lparr>do_events = map Listed (of_kind fd_events), do_tasks = of_kind fd_tasks, do_journals = of_kind fd_journals\<rparr>)))))"

end
