(* ===== verification/RouteSamples.thy ===== *)
theory RouteSamples
  imports Routes
begin

text \<open>
  Concrete requests for the witnesses of the route level: two users with an account each, three
  calendars on one sample CalDAV server that keeps its objects by UID, and the application state
  around them. Nothing of the model depends on them.
\<close>

definition sample_rt :: "((string \<times> vcal) list, tm list) rt" where
  "sample_rt = \<lparr>rt_dav = sample_dav True, rt_env = sample_env, rt_cr = sample_crypto\<rparr>"

definition sample_dek :: bytes where "sample_dek = replicate 32 9"

definition sample_account :: "int \<Rightarrow> int \<Rightarrow> account" where
  "sample_account i u = \<lparr>a_id = i, a_user = u, a_url = ''https://dav'', a_username = ''ann'',
     a_password = sample_dek @ replicate 12 5 @ encode_text ''pw'', a_nonce = replicate 12 5, a_created = Stamp 0 0 None\<rparr>"

definition sample_calendar :: "int \<Rightarrow> int \<Rightarrow> calendar" where
  "sample_calendar i a = \<lparr>c_id = i, c_account = a, c_caldav_id = ''https://dav/cal'', c_name = ''Home'', c_color = ''#123456'',
     c_enabled = True, c_default = False\<rparr>"

definition sample_routes_db :: db where
  "sample_routes_db = no_db\<lparr>db_accounts := [sample_account 1 7, sample_account 2 8],
     db_calendars := [sample_calendar 10 1, sample_calendar 11 1, sample_calendar 20 2]\<rparr>"

definition owner_entry :: entry where   \<comment> \<open>a session of user 7\<close>
  "owner_entry = \<lparr>s_user = 7, s_dek = sample_dek, s_last_seen = 0, s_restricted = False, s_idle = Seconds 3600\<rparr>"

definition single_event :: vcal where   \<comment> \<open>one timed event, its alarm included\<close>
  "single_event = new_cal\<lparr>vsubs := [(cadd DTEND (VTm (jan 1 11)) (cadd DTSTART (VTm (jan 1 10)) (cadd SUMMARY (VText ''Standup'')
     (cadd UID (VText ''u1'') (new_comp ''VEVENT'')))))\<lparr>csubs := [sample_alarm]\<rparr>]\<rparr>"

definition routes_app :: "db \<Rightarrow> (string \<times> vcal) list app" where
  "routes_app d = \<lparr>ap_world = \<lparr>w_dav = [(''u1'', single_event)], w_errors = (\<lambda>_. 0)\<rparr>, ap_db = d, ap_store = \<lparr>st_sessions = [(''sid'', owner_entry)], st_default = 3600\<rparr>,
     ap_limiter = \<lparr>rl_max = 1, rl_window = 300, rl_attempts = []\<rparr>, ap_active = 1\<rparr>"

lemma sample_owns:
  "owned_calendar sample_routes_db 7 10 = Some (sample_calendar 10 1, sample_account 1 7)"
  "owned_calendar sample_routes_db 7 20 = None"
  by code_simp+

end
