(* ===== verification/RouteFacts.thy ===== *)
theory RouteFacts
  imports RouteSamples "HOL-Library.Multiset"
begin

text \<open>
  What the item routes guarantee: the combined load shows what the three listings show, a request
  changes the CalDAV side through calendars of its user alone, and one that names a calendar of somebody
  else changes nothing.
\<close>

section \<open>Reading\<close>

text \<open>A computation that looks at the CalDAV state alone and leaves it as it is.\<close>

definition watches :: "('s world, 'a) io \<Rightarrow> bool" where
  "watches m \<longleftrightarrow> (\<forall>w. w_dav (snd (m w)) = w_dav w) \<and> (\<forall>w v. w_dav w = w_dav v \<longrightarrow> fst (m w) = fst (m v))"

named_theorems watches_intros \<open>computations that only look\<close>

lemma watchesD:
  assumes "watches m"
  shows "w_dav (snd (m w)) = w_dav w" and "w_dav w = w_dav v \<Longrightarrow> fst (m w) = fst (m v)"
  using assms unfolding watches_def by blast+

lemma watchesI:
  assumes "\<And>w. w_dav (snd (m w)) = w_dav w" and "\<And>w v. w_dav w = w_dav v \<Longrightarrow> fst (m w) = fst (m v)"
  shows "watches m"
  unfolding watches_def using assms by blast

lemma watches_basic [watches_intros]: "watches (reti x)" "watches (liftr r)"
  by (simp_all add: watches_def)

lemma run_eqs:
  "request h w = (fst (h (w_dav w)), w\<lparr>w_dav := snd (h (w_dav w))\<rparr>)"
  "bindi m f v = (case fst (m v) of Inl e \<Rightarrow> (Inl e, snd (m v)) | Inr x \<Rightarrow> f x (snd (m v)))"
  "recover m d v = (case fst (m v) of Inl e \<Rightarrow> Inr d | Inr x \<Rightarrow> Inr x, snd (m v))"
  by (simp_all add: request_def bindi_def recover_def split: prod.split sum.split)

lemma bindi_assoc: "bindi (bindi m f) g = bindi m (\<lambda>x. bindi (f x) g)"
  by (rule ext) (simp add: bindi_def split: prod.split sum.split)

lemma watches_search [watches_intros]: "read_only dav \<Longrightarrow> watches (request (d_search dav cn url q))"
  by (simp add: watches_def read_only_def run_eqs(1))

lemma watches_bindi [watches_intros]:
  fixes m :: "('a world, 'b) io"
  assumes "watches m" and "\<And>x. watches (f x)"
  shows "watches (bindi m f)"
proof (rule watchesI)
  fix w
  show "w_dav (snd (bindi m f w)) = w_dav w"
    using watchesD(1) [OF assms(1), of w] watchesD(1) [OF assms(2)]
    by (simp add: run_eqs(2) split: sum.split)
next
  fix w v :: "'a world"
  assume wv: "w_dav w = w_dav v"
  have d: "w_dav (snd (m w)) = w_dav (snd (m v))" using wv watchesD(1) [OF assms(1)] by metis
  show "fst (bindi m f w) = fst (bindi m f v)"
    using watchesD(2) [OF assms(1) wv] watchesD(2) [OF assms(2) d] by (simp add: run_eqs(2) split: sum.split)
qed

lemma watches_recover [watches_intros]:
  fixes m :: "('a world, 'b) io"
  assumes "watches m"
  shows "watches (recover m d)"
proof (rule watchesI)
  show "w_dav (snd (recover m d w)) = w_dav w" for w
    by (simp add: run_eqs(3) watchesD(1) [OF assms])
next
  fix w v :: "'a world"
  assume "w_dav w = w_dav v"
  from watchesD(2) [OF assms this] show "fst (recover m d w) = fst (recover m d v)"
    by (simp add: run_eqs(3))
qed

lemma watches_observed [watches_intros]:
  fixes m :: "('a world, 'b) io"
  assumes "watches m"
  shows "watches (observed op p m)"
proof (rule watchesI)
  show "w_dav (snd (observed op p m w)) = w_dav w" for w
    by (simp only: observed_dav watchesD(1) [OF assms])
next
  fix w v :: "'a world"
  assume "w_dav w = w_dav v"
  from watchesD(2) [OF assms this] show "fst (observed op p m w) = fst (observed op p m v)"
    by (simp only: observed_result)
qed

lemma watches_fetches [watches_intros]:
  assumes "read_only dav"
  shows "watches (fetch_events dav env cn url a b color i)"
    and "watches (fetch_tasks dav env cn url a b color i)"
    and "watches (fetch_journals dav env cn url a b color i)"
  unfolding fetch_events_def fetch_tasks_def fetch_journals_def
    events_from_cal_def master_meta_def tasks_from_cal_def journals_from_cal_def
  by (intro watches_intros assms)+

lemma gather_watches:
  assumes "\<forall>m \<in> set ms. watches m"
  shows "fst (gather ms w) = Inr (map (\<lambda>m. fst (m w)) ms) \<and> w_dav (snd (gather ms w)) = w_dav w"
  using assms
proof (induction ms arbitrary: w)
  case (Cons m ms)
  obtain r v where m: "m w = (r, v)" by fastforce
  have v: "w_dav v = w_dav w" using watchesD(1) [of m w] Cons.prems m by simp
  have "fst (k v) = fst (k w)" if "k \<in> set ms" for k
    by (rule watchesD(2) [OF _ v]) (use that Cons.prems in simp)
  then have e: "map (\<lambda>k. fst (k v)) ms = map (\<lambda>k. fst (k w)) ms" by simp
  obtain rs u where g: "gather ms v = (Inr rs, u)" "rs = map (\<lambda>k. fst (k v)) ms" "w_dav u = w_dav v"
    using Cons by (metis list.set_intros(2) prod.collapse)
  show ?case using m g v e by (simp add: bindi_def)
qed simp

lemma gather_steady: "(\<And>m. m \<in> set ms \<Longrightarrow> m w = (f m, w)) \<Longrightarrow> gather ms w = (Inr (map f ms), w)"
proof (induction ms)
  case (Cons m ms)
  then have "m w = (f m, w)" "gather ms w = (Inr (map f ms), w)" by auto
  then show ?case by (simp add: bindi_def)
qed simp

section \<open>The combined load\<close>

lemma on_world_fst: "fst (on_world m a) = fst (m (ap_world a))"
  by (simp add: on_world_def split: prod.split)

text \<open>The jobs of the calendars: each account's password, then the fetches side by side.\<close>

definition rows_password :: "crypto \<Rightarrow> bytes \<Rightarrow> account \<Rightarrow> string" where
  "rows_password cr dek a = ok_or [] (password_of cr dek a)"

lemma per_calendar_run:
  assumes "\<forall>(c, a) \<in> set rows. \<exists>pw. password_of cr dek a = Inr pw"
    and "\<And>cn c. watches (job cn c)"
  shows "fst (per_calendar cr dek job rows s) =
    Inr (map (\<lambda>(c, a). fst (job (conn_of a (rows_password cr dek a)) c (ap_world s))) rows)"
proof -
  let ?job = "\<lambda>(c, a). job (conn_of a (rows_password cr dek a)) c"
  have "mapr (\<lambda>(c, a). bindr (password_of cr dek a) (\<lambda>pw. Inr (job (conn_of a pw) c))) rows = Inr (map ?job rows)"
    by (rule mapr_total) (use assms(1) in \<open>auto simp: rows_password_def\<close>)
  moreover have "fst (gather (map ?job rows) w) = Inr (map (\<lambda>m. fst (m w)) (map ?job rows))" for w
    using gather_watches [of "map ?job rows" w] assms(2) by (simp add: case_prod_unfold)
  ultimately show ?thesis
    by (simp add: per_calendar_def on_world_fst comp_def case_prod_unfold)
qed

lemma load_items_run:
  assumes "\<forall>(c, a) \<in> set rows. \<exists>pw. password_of (rt_cr rt) (s_dek e) a = Inr pw"
    and "load_window (e_now (rt_env rt)) raw_from raw_to = Inr (f, t)"
    and "\<And>cn url color i. watches (fetch (rt_dav rt) (rt_env rt) cn url f t color i)"
  shows "fst (load_items fetch rt e raw_from raw_to rows s) =
    Inr (gathered (map (\<lambda>(c, a). fst (fetch (rt_dav rt) (rt_env rt) (conn_of a (rows_password (rt_cr rt) (s_dek e) a))
           (c_caldav_id c) f t (c_color c) (c_id c) (ap_world s))) rows))"
proof -
  let ?job = "\<lambda>cn c. fetch (rt_dav rt) (rt_env rt) cn (c_caldav_id c) f t (c_color c) (c_id c)"
  show ?thesis
    using per_calendar_run [where job = ?job, OF assms(1) assms(3), of s]
    by (cases "per_calendar (rt_cr rt) (s_dek e) ?job rows s") (simp add: load_items_def assms(2))
qed

text \<open>Grouping keeps every calendar, with its account.\<close>

definition rows_of :: "account_group list \<Rightarrow> (account \<times> cal_ref) list" where
  "rows_of groups = concat (map (\<lambda>(i, a, refs). map (Pair a) refs) groups)"

definition groups_ok :: "account list \<Rightarrow> account_group list \<Rightarrow> bool" where
  "groups_ok accounts groups \<longleftrightarrow> (\<forall>(i, a, refs) \<in> set groups. a \<in> set accounts \<and> a_id a = i)"

lemma rows_of_update:
  "map_of groups k = Some (a, refs) \<Longrightarrow>
   mset (rows_of (AList.update k (a, refs @ [r]) groups)) = add_mset (a, r) (mset (rows_of groups))"
  by (induction groups) (auto simp: rows_of_def split: if_splits)

lemma groups_ok_update:
  "groups_ok accounts groups \<Longrightarrow> a \<in> set accounts \<Longrightarrow> a_id a = k \<Longrightarrow> groups_ok accounts (AList.update k (a, refs) groups)"
  by (induction groups) (auto simp: groups_ok_def)

lemma same_id:
  assumes "distinct (map a_id accounts)" "a \<in> set accounts" "b \<in> set accounts" "a_id a = a_id b"
  shows "a = b"
  using assms by (metis distinct_map inj_onD)

lemma add_row_rows:
  assumes "distinct (map a_id accounts)" and "groups_ok accounts groups" and "a \<in> set accounts"
  shows "groups_ok accounts (add_row (c, a) groups)
    \<and> mset (rows_of (add_row (c, a) groups)) = add_mset (a, ref_of c) (mset (rows_of groups))"
proof (cases "map_of groups (a_id a)")
  case None
  then show ?thesis using assms by (simp add: add_row_def rows_of_def groups_ok_def)
next
  case (Some p)
  obtain b refs where p: "p = (b, refs)" by fastforce
  have "(a_id a, b, refs) \<in> set groups" using map_of_SomeD Some p by fastforce
  then have "b = a" using assms same_id by (fastforce simp: groups_ok_def)
  then show ?thesis
    using Some p assms rows_of_update [of groups "a_id a" a refs "ref_of c"] groups_ok_update
    by (simp add: add_row_def)
qed

lemma by_account_rows:
  assumes "distinct (map a_id accounts)" and "\<forall>(c, a) \<in> set rows. a \<in> set accounts"
  shows "groups_ok accounts (by_account rows) \<and> mset (rows_of (by_account rows)) = mset (map (\<lambda>(c, a). (a, ref_of c)) rows)"
proof -
  have "groups_ok accounts (fold add_row rows groups)
      \<and> mset (rows_of (fold add_row rows groups)) = mset (map (\<lambda>(c, a). (a, ref_of c)) rows) + mset (rows_of groups)"
    if "groups_ok accounts groups" for groups
    using assms(2) that
  proof (induction rows arbitrary: groups)
    case (Cons row rows)
    obtain c a where row: "row = (c, a)" by fastforce
    then show ?case using Cons add_row_rows [OF assms(1) Cons.prems(2), of a c] by auto
  qed simp
  from this [of "[]"] show ?thesis by (simp add: by_account_def groups_ok_def rows_of_def)
qed

lemma concat_mset_cong: "mset xs = mset ys \<Longrightarrow> mset (concat (map h xs)) = mset (concat (map h ys))"
  by (metis (no_types, lifting) list.map_comp mset_concat mset_map sum_mset_sum_list)

lemma rows_of_concat:
  "concat (map (\<lambda>(i, a, refs). concat (map (\<lambda>r. h (a, r)) refs)) groups) = concat (map h (rows_of groups))"
  by (induction groups) (auto simp: rows_of_def comp_def)

definition items_of :: "('w \<Rightarrow> 'a list res \<times> 'w) \<Rightarrow> 'w \<Rightarrow> 'a list" where
  "items_of m w = (case fst (m w) of Inl e \<Rightarrow> [] | Inr xs \<Rightarrow> xs)"

lemma gathered_items: "gathered (map (\<lambda>x. fst (m x w)) xs) = concat (map (\<lambda>x. items_of (m x) w) xs)"
  by (simp add: gathered_def items_of_def comp_def)

lemma shown_of_all [simp]:
  "shown_of all_kinds ''events'' m w = items_of m w" "shown_of all_kinds ''tasks'' m w = items_of m w"
  "shown_of all_kinds ''journals'' m w = items_of m w"
  by (simp_all add: shown_of_def all_kinds_def items_of_def)

text \<open>The requests of the accounts, once every password is known.\<close>

lemma account_jobs_run:
  assumes "read_only (rt_dav rt)" and "account_jobs rt e f t kinds groups = Inr jobs"
  defines "cn \<equiv> \<lambda>a. conn_of a (rows_password (rt_cr rt) (s_dek e) a)"
  defines "show_ref \<equiv> \<lambda>kind from_cal a r. shown_of kinds kind (from_cal (rt_dav rt) (rt_env rt) (cn a) (cr_url r) f t (cr_color r) (cr_id r))"
  shows "(\<forall>(i, a, refs) \<in> set groups. \<exists>pw. password_of (rt_cr rt) (s_dek e) a = Inr pw)
    \<and> gather jobs w = (Inr (map (\<lambda>(i, a, refs). Inr
        \<lparr>fd_events = concat (map (\<lambda>r. show_ref ''events'' events_from_cal a r w) refs),
         fd_tasks = concat (map (\<lambda>r. show_ref ''tasks'' tasks_from_cal a r w) refs),
         fd_journals = concat (map (\<lambda>r. show_ref ''journals'' journals_from_cal a r w) refs)\<rparr>) groups), w)"
proof
  let ?job = "\<lambda>(i, a, refs). fetch_account_data (rt_dav rt) (rt_env rt) (cn a) refs f t kinds"
  let ?G = "\<lambda>(i :: int, a, refs). (Inr
        \<lparr>fd_events = concat (map (\<lambda>r. show_ref ''events'' events_from_cal a r w) refs),
         fd_tasks = concat (map (\<lambda>r. show_ref ''tasks'' tasks_from_cal a r w) refs),
         fd_journals = concat (map (\<lambda>r. show_ref ''journals'' journals_from_cal a r w) refs)\<rparr> :: fetched res)"
  show pw: "\<forall>(i, a, refs) \<in> set groups. \<exists>pw. password_of (rt_cr rt) (s_dek e) a = Inr pw"
  proof (clarify)
    fix i a refs assume g: "(i, a, refs) \<in> set groups"
    have "\<exists>j. bindr (password_of (rt_cr rt) (s_dek e) a) (\<lambda>pw.
       Inr (fetch_account_data (rt_dav rt) (rt_env rt) (conn_of a pw) refs f t kinds)) = Inr j"
      using list_all2_lengthD list_all2_nthD assms(2) g unfolding account_jobs_def mapr_eq_Inr in_set_conv_nth
      by fastforce
    then show "\<exists>pw. password_of (rt_cr rt) (s_dek e) a = Inr pw"
      by (cases "password_of (rt_cr rt) (s_dek e) a") simp_all
  qed
  have "account_jobs rt e f t kinds groups = Inr (map ?job groups)"
    unfolding account_jobs_def by (rule mapr_total) (use pw in \<open>auto simp: rows_password_def cn_def\<close>)
  then have jobs: "jobs = map ?job groups" using assms(2) by simp
  have run: "?job g w = (?G g, w)" for g
    by (cases g) (simp add: fetch_account_data_run [OF assms(1)] show_ref_def)
  then have "m w = (fst (m w), w)" if "m \<in> set jobs" for m
    using that jobs by (auto simp del: split_paired_All)
  then have "gather jobs w = (Inr (map (\<lambda>m. fst (m w)) jobs), w)" by (rule gather_steady)
  moreover have "map (\<lambda>m. fst (m w)) jobs = map ?G groups"
    unfolding jobs map_map comp_def run fst_conv ..
  ultimately show "gather jobs w = (Inr (map ?G groups), w)" by simp
qed

lemma gathered_kind:
  "gathered (map ((\<lambda>r. case r of Inl x \<Rightarrow> Inl x | Inr x \<Rightarrow> Inr (f x)) \<circ> (\<lambda>(i, a, refs). Inr (G a refs))) groups) =
     concat (map (\<lambda>(i, a, refs). f (G a refs)) groups)"
  by (induction groups) (auto simp: gathered_def)

lemma requested_all: "requested_kinds None = all_kinds"
  by (simp add: requested_kinds_def all_kinds_def)

text \<open>What one calendar of an account shows, and what the listing of one kind over the calendars shows in
  terms of it, account by account.\<close>

definition account_items ::
  "('s, 'r) rt \<Rightarrow> entry \<Rightarrow> tm \<Rightarrow> tm \<Rightarrow> 's world \<Rightarrow> ('s, 'r) fetcher \<Rightarrow> account \<times> cal_ref \<Rightarrow> ev_dict list" where
  "account_items rt e f t w g = (\<lambda>(a, r). items_of (g (rt_dav rt) (rt_env rt)
     (conn_of a (rows_password (rt_cr rt) (s_dek e) a)) (cr_url r) f t (cr_color r) (cr_id r)) w)"

lemma load_items_by_account:
  fixes rt :: "('s, 'r) rt"
  assumes "\<forall>(c, a) \<in> set rows. \<exists>pw. password_of (rt_cr rt) (s_dek e) a = Inr pw"
    and "load_window (e_now (rt_env rt)) raw_from raw_to = Inr (f, t)"
    and "distinct (map a_id (db_accounts d))" and "\<forall>(c, a) \<in> set rows. a \<in> set (db_accounts d)"
    and "\<And>cn url color i. watches (fetch (rt_dav rt) (rt_env rt) cn url f t color i)"
    and "\<And>cn url color i w. fst (fetch (rt_dav rt) (rt_env rt) cn url f t color i w) = fst (g (rt_dav rt) (rt_env rt) cn url f t color i w)"
  shows "\<exists>xs. fst (load_items fetch rt e raw_from raw_to rows s) = Inr xs
    \<and> mset xs = mset (concat (map (account_items rt e f t (ap_world s) g) (rows_of (by_account rows))))"
proof (intro exI conjI)
  let ?kind = "account_items rt e f t (ap_world s) g"
  show "fst (load_items fetch rt e raw_from raw_to rows s) = Inr (concat (map (\<lambda>(c, a). ?kind (a, ref_of c)) rows))"
    using load_items_run [where fetch = fetch, OF assms(1,2,5), of s] assms(6)
    by (simp add: gathered_def account_items_def items_of_def ref_of_def case_prod_unfold comp_def)
  show "mset (concat (map (\<lambda>(c, a). ?kind (a, ref_of c)) rows)) = mset (concat (map ?kind (rows_of (by_account rows))))"
    using concat_mset_cong [of "map (\<lambda>(c, a). (a, ref_of c)) rows" "rows_of (by_account rows)" ?kind] by_account_rows [OF assms(3,4)]
    by (simp add: case_prod_unfold comp_def)
qed

text \<open>C14: One combined request shows what the three listings show: where it answers, each listing
  answers, with the same items of its kind, whichever calendars or accounts fail, and the same welcome
  items where no calendar is enabled. Ids of accounts are unique, and searching does not change the
  server.\<close>

theorem combined_load_equivalent:
  fixes rt :: "('s, 'r) rt"
  assumes "read_only (rt_dav rt)" and "distinct (map a_id (db_accounts (ap_db s)))"
    and "get_calendar_data rt e today raw_from raw_to None s = (Inr out, s')"
  shows "\<exists>es ts js. fst (get_events rt e today raw_from raw_to s) = Inr es \<and> mset es = mset (do_events out)
    \<and> fst (get_tasks rt e raw_from raw_to s) = Inr ts \<and> mset ts = mset (do_tasks out)
    \<and> fst (get_journals rt e raw_from raw_to s) = Inr js \<and> mset js = mset (do_journals out)"
proof (cases "enabled_calendars (ap_db s) (s_user e) = []")
  case True
  then show ?thesis using assms(3)
    by (cases "dummy_events today")
      (auto simp: get_calendar_data_def get_events_def get_tasks_def get_journals_def Let_def requested_all all_kinds_def bindi_def)
next
  case False
  let ?env = "rt_env rt" and ?rows = "enabled_calendars (ap_db s) (s_user e)"
  let ?groups = "by_account ?rows"
  obtain f t where win: "load_window (e_now ?env) raw_from raw_to = Inr (f, t)"
    using assms(3) False by (cases "load_window (e_now ?env) raw_from raw_to")
      (auto simp: get_calendar_data_def Let_def)
  obtain jobs where j: "account_jobs rt e f t all_kinds ?groups = Inr jobs"
    using assms(3) False win by (cases "account_jobs rt e f t all_kinds ?groups")
      (auto simp: get_calendar_data_def Let_def requested_all)
  let ?kind = "account_items rt e f t (ap_world s)"
  note run = account_jobs_run [OF assms(1) j, of "ap_world s"]
  have rows: "\<forall>(c, a) \<in> set ?rows. a \<in> set (db_accounts (ap_db s))"
    by (auto simp: enabled_calendars_def owned_calendars_in)
  have out: "do_events out = map Listed (concat (map (?kind events_from_cal) (rows_of ?groups)))"
    "do_tasks out = concat (map (?kind tasks_from_cal) (rows_of ?groups))"
    "do_journals out = concat (map (?kind journals_from_cal) (rows_of ?groups))"
    using assms(3) False win j run
    by (auto simp: get_calendar_data_def Let_def requested_all on_world_def gathered_kind account_items_def
        rows_of_concat [symmetric] bindi_def)
  have pw: "\<forall>(c, a) \<in> set ?rows. \<exists>pw. password_of (rt_cr rt) (s_dek e) a = Inr pw"
  proof clarify
    fix c a assume "(c, a) \<in> set ?rows"
    then have "(a, ref_of c) \<in> set (rows_of ?groups)"
      using by_account_rows [OF assms(2) rows] by (metis (no_types, lifting) case_prod_conv image_eqI list.set_map mset_eq_setD)
    then obtain i refs where "(i, a, refs) \<in> set ?groups" by (auto simp: rows_of_def)
    then show "\<exists>pw. password_of (rt_cr rt) (s_dek e) a = Inr pw" using run by blast
  qed
  note listing = load_items_by_account [OF pw win assms(2) rows, where s = s]
  obtain es ts js where "fst (load_items fetch_events rt e raw_from raw_to ?rows s) = Inr es" "mset es = mset (concat (map (?kind events_from_cal) (rows_of ?groups)))"
    "fst (load_items fetch_tasks rt e raw_from raw_to ?rows s) = Inr ts" "mset ts = mset (concat (map (?kind tasks_from_cal) (rows_of ?groups)))"
    "fst (load_items fetch_journals rt e raw_from raw_to ?rows s) = Inr js" "mset js = mset (concat (map (?kind journals_from_cal) (rows_of ?groups)))"
    using listing [of fetch_events events_from_cal, OF watches_fetches(1) [OF assms(1)]]
      listing [of fetch_tasks tasks_from_cal, OF watches_fetches(2) [OF assms(1)]]
      listing [of fetch_journals journals_from_cal, OF watches_fetches(3) [OF assms(1)]]
    by (auto simp: fetch_events_def fetch_tasks_def fetch_journals_def observed_result)
  then show ?thesis
    using False out by (auto simp: get_events_def get_tasks_def get_journals_def Let_def bindi_def split: prod.splits)
qed

theorem combined_load_equivalent_witness:
  "\<exists>out s' es. get_calendar_data sample_rt owner_entry 738886 None None None (routes_app sample_routes_db) = (Inr out, s')
     \<and> fst (get_events sample_rt owner_entry 738886 None None (routes_app sample_routes_db)) = Inr es
     \<and> mset es = mset (do_events out) \<and> length es = 2"
proof -
  let ?s = "routes_app sample_routes_db"
  let ?all = "get_calendar_data sample_rt owner_entry 738886 None None None ?s"
  have "(case fst ?all of Inl x \<Rightarrow> False | Inr x \<Rightarrow> length (do_events x) = 2)" by code_simp
  then obtain out where out: "fst ?all = Inr out" "length (do_events out) = 2" by (cases "fst ?all") auto
  then have run: "?all = (Inr out, snd ?all)" by (metis prod.collapse)
  have ro: "read_only (rt_dav sample_rt)" by (simp add: sample_rt_def sample_read_only)
  have ids: "distinct (map a_id (db_accounts (ap_db ?s)))" by code_simp
  from combined_load_equivalent [OF ro ids run] show ?thesis using run out(2) by (metis mset_eq_length)
qed

section \<open>Requests on items\<close>

text \<open>The writing routes as one type of request, the calendars each names, and the UID it is about.\<close>

datatype item_req =
    PostEvent event_in
  | PutEvent string event_in
  | DeleteEvent string int string "string option"
  | PostTask task_in
  | PutTask string task_in
  | TaskStatus string status_in
  | DeleteTask string int string "string option"
  | PostJournal journal_in
  | PutJournal string journal_in
  | DeleteJournal string int

fun run_item :: "('s, 'r) rt \<Rightarrow> entry \<Rightarrow> item_req \<Rightarrow> ('s app, string option) io" where
  "run_item rt e (PostEvent b) = bindi (post_event rt e b) (\<lambda>uid. reti (Some uid))"
| "run_item rt e (PutEvent uid b) = bindi (put_event rt e uid b) (\<lambda>_. reti None)"
| "run_item rt e (DeleteEvent uid c scope rid) = bindi (delete_event_route rt e uid c scope rid) (\<lambda>_. reti None)"
| "run_item rt e (PostTask b) = bindi (post_task rt e b) (\<lambda>uid. reti (Some uid))"
| "run_item rt e (PutTask uid b) = bindi (put_task rt e uid b) (\<lambda>_. reti None)"
| "run_item rt e (TaskStatus uid b) = bindi (toggle_task_status rt e uid b) (\<lambda>_. reti None)"
| "run_item rt e (DeleteTask uid c scope rid) = bindi (delete_task_route rt e uid c scope rid) (\<lambda>_. reti None)"
| "run_item rt e (PostJournal b) = bindi (post_journal rt e b) (\<lambda>uid. reti (Some uid))"
| "run_item rt e (PutJournal uid b) = bindi (put_journal rt e uid b) (\<lambda>_. reti None)"
| "run_item rt e (DeleteJournal uid c) = bindi (delete_journal_route rt e uid c) (\<lambda>_. reti None)"

definition listed :: "int option \<Rightarrow> int list" where
  "listed x = (case x of None \<Rightarrow> [] | Some i \<Rightarrow> [i])"

fun named_calendars :: "item_req \<Rightarrow> int list" where
  "named_calendars (PostEvent b) = [en_calendar b]"
| "named_calendars (PutEvent uid b) = en_calendar b # listed (en_original b)"
| "named_calendars (DeleteEvent uid c scope rid) = [c]"
| "named_calendars (PostTask b) = [ta_calendar b]"
| "named_calendars (PutTask uid b) = ta_calendar b # listed (ta_original b)"
| "named_calendars (TaskStatus uid b) = [st_calendar b]"
| "named_calendars (DeleteTask uid c scope rid) = [c]"
| "named_calendars (PostJournal b) = [jo_calendar b]"
| "named_calendars (PutJournal uid b) = jo_calendar b # listed (jo_original b)"
| "named_calendars (DeleteJournal uid c) = [c]"

fun named_uid :: "item_req \<Rightarrow> string option" where
  "named_uid (PutEvent uid b) = Some uid"
| "named_uid (DeleteEvent uid c scope rid) = Some uid"
| "named_uid (PutTask uid b) = Some uid"
| "named_uid (TaskStatus uid b) = Some uid"
| "named_uid (DeleteTask uid c scope rid) = Some uid"
| "named_uid (PutJournal uid b) = Some uid"
| "named_uid (DeleteJournal uid c) = Some uid"
| "named_uid _ = None"

text \<open>Computations that reach nothing but the CalDAV world.\<close>

definition worldly :: "('s app, 'a) io \<Rightarrow> bool" where
  "worldly m \<longleftrightarrow> (\<forall>s. \<exists>w. snd (m s) = s\<lparr>ap_world := w\<rparr>)"

named_theorems worldly_intros \<open>computations on the CalDAV world\<close>

lemma unchanged_worldly: "\<exists>w. s = s\<lparr>ap_world := w\<rparr>"
  by (rule exI [of _ "ap_world s"]) simp

lemma worldly_basic [worldly_intros]:
  "worldly (reti x)" "worldly (raisei e)" "worldly (liftr r)" "worldly (ask f)" "worldly (require e' y)"
  by (simp_all add: worldly_def require_def unchanged_worldly)

lemma worldly_on_world [worldly_intros]: "worldly (on_world m)"
  by (auto simp: worldly_def on_world_def split: prod.split)

lemma worldly_bindi [worldly_intros]:
  assumes "worldly m" and "\<And>x. worldly (f x)"
  shows "worldly (bindi m f)"
  unfolding worldly_def
proof
  fix s
  obtain w where w: "snd (m s) = s\<lparr>ap_world := w\<rparr>" using assms(1) unfolding worldly_def by blast
  show "\<exists>w. snd (bindi m f s) = s\<lparr>ap_world := w\<rparr>"
  proof (cases "fst (m s)")
    case (Inl e)
    then show ?thesis using w by (auto simp: run_eqs(2))
  next
    case (Inr x)
    obtain v where "snd (f x (snd (m s))) = (snd (m s))\<lparr>ap_world := v\<rparr>" using assms(2) unfolding worldly_def by blast
    then show ?thesis using w Inr by (auto simp: run_eqs(2))
  qed
qed

lemma worldly_if [worldly_intros]: "worldly m \<Longrightarrow> worldly n \<Longrightarrow> worldly (if b then m else n)"
  by simp

lemma upstream_run:
  "upstream failed m s = (case fst (m s) of Inl e \<Rightarrow> Inl (http 502 failed) | Inr x \<Rightarrow> Inr x, snd (m s))"
  "upstream_item missing failed m s = (case fst (m s) of Inl e \<Rightarrow> Inl (item_status missing failed e) | Inr x \<Rightarrow> Inr x, snd (m s))"
  by (simp_all add: upstream_def upstream_item_def split: prod.split sum.split)

lemma worldly_upstream [worldly_intros]:
  "worldly m \<Longrightarrow> worldly (upstream failed m)" "worldly m \<Longrightarrow> worldly (upstream_item missing failed m)"
  by (simp_all add: worldly_def upstream_run)

lemma worldly_calendar_for [worldly_intros]: "worldly (calendar_for e c)" "worldly (password_for rt e a)"
  unfolding calendar_for_def password_for_def by (intro worldly_intros)+

lemma worldly_relocate [worldly_intros]: "worldly m \<Longrightarrow> worldly (relocate rt e c m f)"
  unfolding relocate_def by (intro worldly_intros) (auto split: prod.split intro!: worldly_intros)

lemma worldly_split [worldly_intros]: "(\<And>x y. worldly (f x y)) \<Longrightarrow> worldly (case p of (x, y) \<Rightarrow> f x y)"
  by (cases p) simp

lemma run_item_worldly: "worldly (run_item rt e req)"
  by (cases req; simp only: run_item.simps post_event_def put_event_def delete_event_route_def post_task_def put_task_def
      toggle_task_status_def delete_task_route_def post_journal_def put_journal_def delete_journal_route_def Let_def)
    (intro worldly_intros)+

text \<open>Naming a calendar that is not the user's leaves everything as it is.\<close>

lemma calendar_for_run:
  "calendar_for e c s = (case owned_calendar (ap_db s) (s_user e) c of
     None \<Rightarrow> (Inl (http 404 ''Calendar not found''), s) | Some x \<Rightarrow> (Inr x, s))"
  by (simp add: calendar_for_def split: option.split)

lemma bindi_calendar_for:
  "bindi (calendar_for e c) f s = (case owned_calendar (ap_db s) (s_user e) c of
     None \<Rightarrow> (Inl (http 404 ''Calendar not found''), s) | Some x \<Rightarrow> f x s)"
  by (simp add: bindi_def calendar_for_run split: option.split)

lemma relocate_foreign:
  "owned_calendar (ap_db s) (s_user e) c = None \<Longrightarrow> snd (relocate rt e c m f s) = s"
  by (simp add: relocate_def bindi_calendar_for)

definition still :: "('w, 'a) io \<Rightarrow> 'w \<Rightarrow> bool" where
  "still m s \<longleftrightarrow> snd (m s) = s"

named_theorems still_intros \<open>computations that leave a state as it is\<close>

lemma still_basic [still_intros]: "still (reti x) s" "still (raisei ex) s" "still (liftr r) s" "still (password_for rt e a) s"
  by (simp_all add: still_def password_for_def)

lemma still_bindi [still_intros]: "still m s \<Longrightarrow> (\<And>x. still (f x) s) \<Longrightarrow> still (bindi m f) s"
  by (simp add: still_def run_eqs(2) split: sum.split)

lemma still_after: "still m s \<Longrightarrow> still (bindi m (\<lambda>x. reti (g x))) s"
  by (simp add: still_def run_eqs(2) split: sum.split)

lemma still_if [still_intros]: "(b \<Longrightarrow> still m s) \<Longrightarrow> (\<not> b \<Longrightarrow> still n s) \<Longrightarrow> still (if b then m else n) s"
  by simp

lemma still_split [still_intros]: "(\<And>x y. still (f x y) s) \<Longrightarrow> still (case p of (x, y) \<Rightarrow> f x y) s"
  by (cases p) simp

lemma still_upstream [still_intros]: "still m s \<Longrightarrow> still (upstream_item missing failed m) s"
  by (simp add: still_def upstream_run)

lemma still_foreign:
  assumes "owned_calendar (ap_db s) (s_user e) c = None"
  shows "still (bindi (calendar_for e c) f) s" and "still (relocate rt e c m g) s"
  using assms relocate_foreign by (simp_all add: still_def bindi_calendar_for)

lemma still_calendar_for [still_intros]: "still (calendar_for e c) s"
  by (simp add: still_def calendar_for_run split: option.split)

lemma foreign_move_still:
  assumes "c \<in> set (listed original)" "owned_calendar (ap_db s) (s_user e) c = None" "owned_calendar (ap_db s) (s_user e) target \<noteq> None"
  shows "moves original target" and "still (if moves original target then relocate rt e (the original) m f else n) s"
proof -
  have o: "original = Some c" "c \<noteq> target" using assms by (auto simp: listed_def split: option.splits)
  then show m: "moves original target" by (simp add: moves_def)
  show "still (if moves original target then relocate rt e (the original) m f else n) s"
    using m o still_foreign(2) [OF assms(2)] by simp
qed

lemma foreign_request_still:
  assumes "c \<in> set (named_calendars req)" "owned_calendar (ap_db s) (s_user e) c = None"
  shows "still (run_item rt e req) s"
proof -
  have main: "still (bindi (calendar_for e target) f) s"
    if "c = target \<or> (owned_calendar (ap_db s) (s_user e) target \<noteq> None \<longrightarrow> (\<forall>x. still (f x) s))" for target f
    using that assms(2) by (cases "owned_calendar (ap_db s) (s_user e) target") (auto simp: still_def bindi_calendar_for)
  note defs = post_event_def put_event_def delete_event_route_def post_task_def put_task_def
      toggle_task_status_def delete_task_route_def post_journal_def put_journal_def delete_journal_route_def
  note moved = foreign_move_still(2) [OF _ assms(2)]
  show ?thesis
  proof (cases req)
    case (PutEvent uid b)
    then have "c = en_calendar b \<or> c \<in> set (listed (en_original b))" using assms(1) by auto
    then show ?thesis unfolding PutEvent run_item.simps put_event_def Let_def
      by (intro still_bindi still_basic still_if main) (auto intro!: still_intros moved)
  next
    case (PutTask uid b)
    then have "c = ta_calendar b \<or> c \<in> set (listed (ta_original b))" using assms(1) by auto
    then show ?thesis unfolding PutTask run_item.simps put_task_def Let_def
      by (intro still_bindi still_basic still_if main) (auto intro!: still_intros moved)
  next
    case (PutJournal uid b)
    then have "c = jo_calendar b \<or> c \<in> set (listed (jo_original b))" using assms(1) by auto
    then show ?thesis unfolding PutJournal run_item.simps put_journal_def Let_def
      by (intro still_bindi still_basic still_if main) (auto intro!: still_intros moved)
  qed (use assms in \<open>auto simp: defs intro!: still_after still_if still_foreign still_basic\<close>)
qed

text \<open>C9: No item request reaches beyond its user: it changes the CalDAV side alone, and it changes
  that only if every calendar the request names, the source of a move included, is a calendar of an
  account of the user whose entry it runs under.\<close>

theorem items_confined_to_user:
  assumes "run_item rt e req s = (r, s')"
  shows "(\<exists>w. s' = s\<lparr>ap_world := w\<rparr>)
    \<and> (s' \<noteq> s \<longrightarrow> (\<forall>c \<in> set (named_calendars req). \<exists>cal a. (cal, a) \<in> set (owned_calendars (ap_db s) (s_user e)) \<and> c_id cal = c))"
proof (intro conjI impI ballI)
  show "\<exists>w. s' = s\<lparr>ap_world := w\<rparr>" using run_item_worldly [of rt e req] assms unfolding worldly_def by (metis snd_conv)
  fix c assume "s' \<noteq> s" and "c \<in> set (named_calendars req)"
  then have "owned_calendar (ap_db s) (s_user e) c \<noteq> None"
    using foreign_request_still [of c req s e rt] assms unfolding still_def by (metis snd_conv)
  then show "\<exists>cal a. (cal, a) \<in> set (owned_calendars (ap_db s) (s_user e)) \<and> c_id cal = c"
    using owned_calendarD [of "ap_db s" "s_user e" c] by (metis option.exhaust prod.exhaust)
qed

definition remove_event :: "int \<Rightarrow> item_req" where   \<comment> \<open>deletes the sample event from a calendar\<close>
  "remove_event c = DeleteEvent ''u1'' c ''all'' None"

theorem items_confined_to_user_witness:
  "\<exists>s1 s2. run_item sample_rt owner_entry (remove_event 10) (routes_app sample_routes_db) = (Inr None, s1) \<and> s1 \<noteq> routes_app sample_routes_db
     \<and> (\<exists>cal a. (cal, a) \<in> set (owned_calendars sample_routes_db 7) \<and> c_id cal = 10)
     \<and> run_item sample_rt owner_entry (remove_event 20) (routes_app sample_routes_db) = (Inl (http 404 ''Calendar not found''), s2)
     \<and> s2 = routes_app sample_routes_db"
proof -
  let ?s = "routes_app sample_routes_db"
  let ?run = "\<lambda>c. run_item sample_rt owner_entry (remove_event c) ?s"
  have one: "fst (?run 10) = Inr None" "w_dav (ap_world (snd (?run 10))) = []" by code_simp+
  have two: "fst (?run 20) = Inl (http 404 ''Calendar not found'')" by code_simp
  have "list_all (\<lambda>(cal, a). c_id cal \<noteq> 20) (owned_calendars sample_routes_db 7)" by code_simp
  then have none: "\<not> (\<exists>cal a. (cal, a) \<in> set (owned_calendars sample_routes_db 7) \<and> c_id cal = 20)" by (auto simp: list_all_iff)
  have start: "w_dav (ap_world ?s) \<noteq> []" by code_simp
  have fixed: "ap_db ?s = sample_routes_db" "s_user owner_entry = 7" "named_calendars (remove_event c) = [c]" for c
    by (simp_all add: routes_app_def owner_entry_def remove_event_def)
  have confined: "snd (?run c) \<noteq> ?s \<longrightarrow> (\<exists>cal a. (cal, a) \<in> set (owned_calendars sample_routes_db 7) \<and> c_id cal = c)" for c
    using items_confined_to_user [of sample_rt owner_entry "remove_event c" ?s "fst (?run c)" "snd (?run c)"] by (simp add: fixed)
  have "snd (?run 10) \<noteq> ?s" using one(2) start by metis
  moreover from this have "\<exists>cal a. (cal, a) \<in> set (owned_calendars sample_routes_db 7) \<and> c_id cal = 10"
    using confined [of 10] by simp
  moreover have "snd (?run 20) = ?s" using confined [of 20] none by auto
  ultimately show ?thesis using one(1) two by (metis prod.collapse)
qed

end
