(* ===== verification/Shares.thy ===== *)
theory Shares
  imports Tickets
begin

text \<open>
  Share links (\<open>shares.py\<close>): the window a grid view renders, minting, and resolving a secret to a
  context built from the sealed payload alone.
\<close>

section \<open>Grid windows\<close>

text \<open>\<open>_zone\<close>. \<open>ZoneInfo("UTC")\<close> is assumed to exist.\<close>

definition zone_or_utc :: "tzdb \<Rightarrow> string \<Rightarrow> tzi" where
  "zone_or_utc tz name = (if tz_known tz name then Zone name else Zone ''UTC'')"

text \<open>\<open>_week_start\<close>: the weekday counted from Sunday, then back to the first day of the week.\<close>

definition week_start :: "int \<Rightarrow> int \<Rightarrow> int res" where
  "week_start d fdow =
     (let dow_sun0 = (weekday d + 1) mod 7; s = d - (dow_sun0 - fdow) mod 7 in
      if ord_ok s then Inr s else Inl OverflowError)"

definition day_plus :: "int \<Rightarrow> int \<Rightarrow> int res" where
  "day_plus d n = (if ord_ok (d + n) then Inr (d + n) else Inl OverflowError)"

definition grid_days :: "string \<Rightarrow> int \<Rightarrow> int \<Rightarrow> (int \<times> int) res" where
  "grid_days view anchor fdow =
     (if view = ''timeGridDay'' then bindr (day_plus anchor 1) (\<lambda>e. Inr (anchor, e))
      else if view = ''timeGridWeek'' then
        bindr (week_start anchor fdow) (\<lambda>s. bindr (day_plus s 7) (\<lambda>e. Inr (s, e)))
      else
        bindr (mk_date (year_of anchor) (month_of anchor) 1) (\<lambda>first.
          bindr (week_start first fdow) (\<lambda>s. bindr (day_plus s 42) (\<lambda>e. Inr (s, e)))))"

definition grid_window :: "tzdb \<Rightarrow> string \<Rightarrow> string \<Rightarrow> int \<Rightarrow> string \<Rightarrow> (tm \<times> tm) res" where
  "grid_window tz view anchor_iso fdow tzname =
     (let z = zone_or_utc tz tzname in
      bindr (parse_iso_date (take 10 anchor_iso)) (\<lambda>anchor.
        bindr (grid_days view anchor fdow) (\<lambda>(s, e).
          Inr (Stamp (s * DAY) 0 (Some z), Stamp (e * DAY) 0 (Some z)))))"

section \<open>Minting\<close>

definition share_kinds :: "string list" where "share_kinds = [''item'', ''grid'', ''agenda'']"
definition share_modes :: "string list" where "share_modes = [''ro'', ''rw'']"

text \<open>The kind-specific scope, with the calendars of a grid or agenda and whether each is writable.\<close>

datatype share_scope =
    ItemScope string string int                       \<comment> \<open>uid, item kind, calendar\<close>
  | GridScope string string string int                \<comment> \<open>view, anchor, time zone, first day of the week\<close>
  | AgendaScope string string string                  \<comment> \<open>from, to, time zone\<close>

fun scope_kind :: "share_scope \<Rightarrow> string" where
  "scope_kind (ItemScope u k c) = ''item''"
| "scope_kind (GridScope v a z f) = ''grid''"
| "scope_kind (AgendaScope f t z) = ''agenda''"

definition calendar_json :: "(int \<times> bool) list \<Rightarrow> json" where
  "calendar_json cals = JArr (map (\<lambda>(i, w). JObj [(''id'', JInt i), (''writable'', JBool w)]) cals)"

definition opt_int :: "int option \<Rightarrow> json" where
  "opt_int x = (case x of None \<Rightarrow> JNull | Some i \<Rightarrow> JInt i)"

fun scope_fields :: "share_scope \<Rightarrow> (int \<times> bool) list \<Rightarrow> int option \<Rightarrow> (string \<times> json) list" where
  "scope_fields (ItemScope uid k cal) cals dflt =
     [(''item_uid'', JStr uid), (''item_kind'', JStr k), (''calendar_id'', JInt cal)]"
| "scope_fields (GridScope view anchor z fdow) cals dflt =
     [(''calendars'', calendar_json cals), (''default_calendar_id'', opt_int dflt),
      (''grid_view'', JStr view), (''grid_anchor'', JStr anchor), (''tz'', JStr z), (''first_day_of_week'', JInt fdow)]"
| "scope_fields (AgendaScope from till z) cals dflt =
     [(''calendars'', calendar_json cals), (''default_calendar_id'', opt_int dflt),
      (''agenda_from'', JStr from), (''agenda_to'', JStr till), (''tz'', JStr z)]"

definition share_payload ::
  "tzdb \<Rightarrow> bytes \<Rightarrow> string \<Rightarrow> tm option \<Rightarrow> share_scope \<Rightarrow> (int \<times> bool) list \<Rightarrow> int option \<Rightarrow> json"
where
  "share_payload tz dek mode expires scope cals dflt =
     JObj ([(''dek'', JStr (b64encode dek)), (''kind'', JStr (scope_kind scope)), (''mode'', JStr mode),
            (''expires_at'', case expires of None \<Rightarrow> JNull | Some t \<Rightarrow> JStr (isoformat tz t))]
           @ scope_fields scope cals dflt)"

text \<open>\<open>mint_share\<close>: the secret, its digest, the sealed blob and the nonce. The scope determines the kind,
  which is therefore valid.\<close>

definition mint_share ::
  "crypto \<Rightarrow> tzdb \<Rightarrow> string \<Rightarrow> bytes \<Rightarrow> bytes \<Rightarrow> string \<Rightarrow> tm option \<Rightarrow> share_scope \<Rightarrow> (int \<times> bool) list \<Rightarrow> int option
     \<Rightarrow> (string \<times> bytes \<times> bytes \<times> bytes) res"
where
  "mint_share cr tz secret nonce dek mode expires scope cals dflt =
     (if mode \<notin> set share_modes then Inl ValueError
      else bindr (seal_payload cr nonce secret (share_payload tz dek mode expires scope cals dflt)) (\<lambda>(sha, blob, n).
        Inr (secret, sha, blob, n)))"

section \<open>Resolving\<close>

record share_ctx =
  x_share :: int
  x_user :: int
  x_dek :: bytes
  x_kind :: string
  x_mode :: string
  x_expires :: "tm option"
  x_readable :: "json list"
  x_writable :: "json list"
  x_default :: json
  x_item_uid :: json
  x_item_kind :: json
  x_item_calendar :: json
  x_grid_view :: json
  x_grid_anchor :: json
  x_window :: "(tm \<times> tm) option"
  x_tz :: json
  x_fdow :: int
  x_calendars :: "(json \<times> bool) list"

text \<open>\<open>int(v)\<close> of a JSON value; a float literal with an exponent is not evaluated here.\<close>

fun json_int :: "json \<Rightarrow> int res" where
  "json_int (JInt i) = Inr i"
| "json_int (JBool b) = Inr (if b then 1 else 0)"
| "json_int (JStr s) = py_int s"
| "json_int (JFloat s) = py_int (takeWhile (\<lambda>c. c \<noteq> CHR ''.'') s)"
| "json_int _ = Inl TypeError"

text \<open>One entry of the calendars: \<open>c["id"]\<close> and \<open>bool(c.get("writable"))\<close>; an id enters a set, so it
  must be hashable.\<close>

fun hashable :: "json \<Rightarrow> bool" where
  "hashable (JArr xs) = False"
| "hashable (JObj kvs) = False"
| "hashable _ = True"

definition read_calendar :: "json \<Rightarrow> (json \<times> bool) res" where
  "read_calendar c =
     (case c of
        JObj kvs \<Rightarrow>
          (case map_of kvs ''id'' of
             None \<Rightarrow> Inl KeyError
           | Some i \<Rightarrow> if hashable i then Inr (i, truthy (obj_get ''writable'' kvs)) else Inl TypeError)
      | _ \<Rightarrow> Inl TypeError)"

text \<open>The two windows, failures of either being refusals.\<close>

definition read_grid :: "tzdb \<Rightarrow> (string \<times> json) list \<Rightarrow> int \<Rightarrow> json \<Rightarrow> (tm \<times> tm) option" where
  "read_grid tz kvs fdow z =
     (case (obj_get ''grid_anchor'' kvs, z) of
        (JStr anchor, JStr name) \<Rightarrow>
          (case grid_window tz (case obj_get ''grid_view'' kvs of JStr v \<Rightarrow> v | _ \<Rightarrow> []) anchor fdow name of
             Inl e \<Rightarrow> None | Inr w \<Rightarrow> Some w)
      | _ \<Rightarrow> None)"

definition read_agenda :: "(string \<times> json) list \<Rightarrow> (tm \<times> tm) option" where
  "read_agenda kvs =
     (case (obj_get ''agenda_from'' kvs, obj_get ''agenda_to'' kvs) of
        (JStr a, JStr b) \<Rightarrow>
          (case (datetime_fromisoformat a, datetime_fromisoformat b) of (Inr f, Inr t) \<Rightarrow> Some (f, t) | _ \<Rightarrow> None)
      | _ \<Rightarrow> None)"

definition no_ctx :: "bytes \<Rightarrow> string \<Rightarrow> string \<Rightarrow> tm option \<Rightarrow> share_ctx" where
  "no_ctx dek kind mode expires = \<lparr>x_share = 0, x_user = 0, x_dek = dek, x_kind = kind, x_mode = mode, x_expires = expires,
     x_readable = [], x_writable = [], x_default = JNull, x_item_uid = JNull, x_item_kind = JNull, x_item_calendar = JNull,
     x_grid_view = JNull, x_grid_anchor = JNull, x_window = None, x_tz = JStr ''UTC'', x_fdow = 1, x_calendars = []\<rparr>"

definition read_item_scope :: "(string \<times> json) list \<Rightarrow> share_ctx \<Rightarrow> share_ctx option res" where
  "read_item_scope kvs x =
     (let cal = obj_get ''calendar_id'' kvs;
          x' = x\<lparr>x_item_uid := obj_get ''item_uid'' kvs, x_item_kind := obj_get ''item_kind'' kvs, x_item_calendar := cal\<rparr> in
      if cal = JNull then Inr (Some x')
      else if hashable cal
        then Inr (Some (x'\<lparr>x_readable := [cal], x_writable := (if x_mode x = ''rw'' then [cal] else [])\<rparr>))
        else Inl TypeError)"

definition read_range_scope :: "tzdb \<Rightarrow> (string \<times> json) list \<Rightarrow> share_ctx \<Rightarrow> share_ctx option res" where
  "read_range_scope tz kvs x =
     (let z = obj_get_or (JStr ''UTC'') ''tz'' kvs in
      bindr (as_list (obj_get_or (JArr []) ''calendars'' kvs)) (\<lambda>cs.
      bindr (mapr read_calendar cs) (\<lambda>cals.
        let x' = x\<lparr>x_tz := z, x_default := obj_get ''default_calendar_id'' kvs,
                  x_readable := remdups (map fst cals),
                  x_writable := remdups (map fst (filter (\<lambda>c. x_mode x = ''rw'' \<and> snd c) cals)),
                  x_calendars := cals\<rparr> in
        if x_kind x = ''grid'' then
          bindr (json_int (obj_get_or (JInt 1) ''first_day_of_week'' kvs)) (\<lambda>fdow.
            case read_grid tz kvs fdow z of
              None \<Rightarrow> Inr None
            | Some w \<Rightarrow> Inr (Some (x'\<lparr>x_grid_view := obj_get ''grid_view'' kvs, x_grid_anchor := obj_get ''grid_anchor'' kvs,
                                    x_fdow := fdow, x_window := Some w\<rparr>)))
        else
          (case read_agenda kvs of None \<Rightarrow> Inr None | Some w \<Rightarrow> Inr (Some (x'\<lparr>x_window := Some w\<rparr>))))))"

definition read_share :: "tzdb \<Rightarrow> int \<Rightarrow> json \<Rightarrow> share_ctx option res" where
  "read_share tz now payload =
     (case payload of
        JObj kvs \<Rightarrow>
          (case (obj_get ''kind'' kvs, obj_get ''mode'' kvs) of
             (JStr kind, JStr mode) \<Rightarrow>
               if kind \<notin> set share_kinds \<or> mode \<notin> set share_modes then Inr None
               else bindr (read_expiry tz now (obj_get ''expires_at'' kvs)) (\<lambda>e.
                 case e of
                   None \<Rightarrow> Inr None
                 | Some expires \<Rightarrow>
                     (case read_dek kvs of
                        None \<Rightarrow> Inr None
                      | Some dek \<Rightarrow>
                          let x = no_ctx dek kind mode expires in
                          if kind = ''item'' then read_item_scope kvs x else read_range_scope tz kvs x))
           | (k, m) \<Rightarrow> if hashable k \<and> hashable m then Inr None
                       else if \<not> hashable k then Inl TypeError
                       else if (case k of JStr kind \<Rightarrow> kind \<in> set share_kinds | _ \<Rightarrow> False) then Inl TypeError
                       else Inr None)
      | _ \<Rightarrow> Inl AttributeError)"

definition touch_share :: "int \<Rightarrow> share \<Rightarrow> db \<Rightarrow> db" where
  "touch_share now row d =
     d\<lparr>db_shares := update_first (\<lambda>r. sh_id r = sh_id row) (\<lambda>r. r\<lparr>sh_used := Some (stored (utc now))\<rparr>) (db_shares d)\<rparr>"

definition resolve_share :: "crypto \<Rightarrow> tzdb \<Rightarrow> int \<Rightarrow> string \<Rightarrow> (db, share_ctx option) io" where
  "resolve_share cr tz now secret =
     (\<lambda>d. if secret = [] then (Inr None, d)
          else (case find (\<lambda>r. sh_sha r = digest_of cr secret) (db_shares d) of
             None \<Rightarrow> (Inr None, d)
           | Some row \<Rightarrow>
               (case open_payload cr secret (sh_blob row) (sh_nonce row) of
                  Inl e \<Rightarrow> (Inr None, d)
                | Inr payload \<Rightarrow>
                    (case read_share tz now payload of
                       Inl e \<Rightarrow> (Inl e, d)
                     | Inr None \<Rightarrow> (Inr None, d)
                     | Inr (Some x) \<Rightarrow>
                         (Inr (Some (x\<lparr>x_share := sh_id row, x_user := sh_user row\<rparr>)), touch_share now row d)))))"

section \<open>Facts\<close>

lemma read_share_fades: "now \<le> later \<Longrightarrow> fades (read_share tz now j) (read_share tz later j)"
proof -
  assume "now \<le> later"
  note e = read_expiry_fades [OF this, of tz]
  have "fades (read_share tz now (JObj kvs)) (read_share tz later (JObj kvs))" for kvs
    unfolding read_share_def json.case
    by (cases "obj_get ''kind'' kvs"; cases "obj_get ''mode'' kvs") (auto intro!: fades_bind e)
  then show ?thesis by (cases j) (auto simp: read_share_def)
qed

interpretation share_reader: ticket "read_share tz" for tz
  by unfold_locales (rule read_share_fades)

lemma range_scope_limits:
  assumes "read_range_scope tz kvs x = Inr (Some x')"
  shows "x_kind x' = x_kind x" "x_mode x' = x_mode x" "set (x_writable x') \<subseteq> set (x_readable x')"
    "x_mode x \<noteq> ''rw'' \<Longrightarrow> x_writable x' = []" "x_window x' \<noteq> None"
proof -
  obtain cs cals where c: "as_list (obj_get_or (JArr []) ''calendars'' kvs) = Inr cs" "mapr read_calendar cs = Inr cals"
    using assms unfolding read_range_scope_def Let_def bindr_eq_Inr by blast
  define base where "base = x\<lparr>x_tz := obj_get_or (JStr ''UTC'') ''tz'' kvs, x_default := obj_get ''default_calendar_id'' kvs,
      x_readable := remdups (map fst cals),
      x_writable := remdups (map fst (filter (\<lambda>c. x_mode x = ''rw'' \<and> snd c) cals)), x_calendars := cals\<rparr>"
  have "(\<exists>w. x' = base\<lparr>x_window := Some w\<rparr>)
      \<or> (\<exists>v g f w. x' = base\<lparr>x_grid_view := v, x_grid_anchor := g, x_fdow := f, x_window := Some w\<rparr>)"
  proof (cases "x_kind x = ''grid''")
    case True
    then obtain f where f: "json_int (obj_get_or (JInt 1) ''first_day_of_week'' kvs) = Inr f"
      using assms c by (auto simp: read_range_scope_def Let_def bindr_eq_Inr)
    then obtain w where w: "read_grid tz kvs f (obj_get_or (JStr ''UTC'') ''tz'' kvs) = Some w"
      using assms c True by (auto simp: read_range_scope_def Let_def split: option.split_asm)
    have "x' = base\<lparr>x_grid_view := obj_get ''grid_view'' kvs, x_grid_anchor := obj_get ''grid_anchor'' kvs, x_fdow := f, x_window := Some w\<rparr>"
      using assms c True f w by (simp add: read_range_scope_def Let_def base_def)
    then show ?thesis by blast
  next
    case False
    then obtain w where w: "read_agenda kvs = Some w"
      using assms c by (auto simp: read_range_scope_def Let_def split: option.split_asm)
    have "x' = base\<lparr>x_window := Some w\<rparr>"
      using assms c False w by (simp add: read_range_scope_def Let_def base_def)
    then show ?thesis by blast
  qed
  then show "x_kind x' = x_kind x" "x_mode x' = x_mode x" "set (x_writable x') \<subseteq> set (x_readable x')"
    "x_mode x \<noteq> ''rw'' \<Longrightarrow> x_writable x' = []" "x_window x' \<noteq> None"
    by (auto simp: base_def)
qed

lemma ctx_limits:
  assumes "read_share tz now payload = Inr (Some x)"
  shows "x_kind x \<in> set share_kinds" "x_mode x \<in> set share_modes" "set (x_writable x) \<subseteq> set (x_readable x)"
    "x_mode x = ''ro'' \<Longrightarrow> x_writable x = []"
    "x_kind x = ''item'' \<longleftrightarrow> x_window x = None" "x_kind x = ''item'' \<Longrightarrow> length (x_readable x) \<le> 1"
proof -
  obtain kvs kind mode where p: "payload = JObj kvs" "obj_get ''kind'' kvs = JStr kind" "obj_get ''mode'' kvs = JStr mode"
    using assms by (auto simp: read_share_def split: json.split_asm if_split_asm)
  have km: "kind \<in> set share_kinds" "mode \<in> set share_modes" using assms p by (auto simp: read_share_def split: if_split_asm)
  obtain expires where e: "read_expiry tz now (obj_get ''expires_at'' kvs) = Inr (Some expires)"
    using assms p km by (auto simp: read_share_def bindr_eq_Inr split: option.split_asm)
  obtain dek where k: "read_dek kvs = Some dek"
    using assms p km e by (auto simp: read_share_def split: option.split_asm)
  have r: "(if kind = ''item'' then read_item_scope kvs (no_ctx dek kind mode expires)
      else read_range_scope tz kvs (no_ctx dek kind mode expires)) = Inr (Some x)"
    using assms p km e k by (simp add: read_share_def Let_def)
  have all: "x_kind x = kind \<and> x_mode x = mode \<and> set (x_writable x) \<subseteq> set (x_readable x)
    \<and> (mode = ''ro'' \<longrightarrow> x_writable x = []) \<and> (kind = ''item'' \<longleftrightarrow> x_window x = None)
    \<and> (kind = ''item'' \<longrightarrow> length (x_readable x) \<le> 1)"
  proof (cases "kind = ''item''")
    case True
    then show ?thesis using r by (auto simp: read_item_scope_def Let_def no_ctx_def split: if_split_asm)
  next
    case False
    then show ?thesis using r range_scope_limits [of tz kvs "no_ctx dek kind mode expires" x]
      by (auto simp: no_ctx_def)
  qed
  show "x_kind x \<in> set share_kinds" "x_mode x \<in> set share_modes" "set (x_writable x) \<subseteq> set (x_readable x)"
    "x_mode x = ''ro'' \<Longrightarrow> x_writable x = []"
    "x_kind x = ''item'' \<longleftrightarrow> x_window x = None" "x_kind x = ''item'' \<Longrightarrow> length (x_readable x) \<le> 1"
    using all km by auto
qed

section \<open>The grid windows\<close>

lemma week_start_spec:
  assumes "week_start d fdow = Inr s"
  shows "ord_ok s" "s \<le> d" "d < s + 7" "0 \<le> fdow \<Longrightarrow> fdow < 7 \<Longrightarrow> (weekday s + 1) mod 7 = fdow"
proof -
  have s: "s = d - ((weekday d + 1) mod 7 - fdow) mod 7" "ord_ok s"
    using assms by (auto simp: week_start_def Let_def split: if_split_asm)
  show "ord_ok s" by (rule s)
  show "s \<le> d" "d < s + 7" using s(1) by (simp_all add: pos_mod_bound)
  show "(weekday s + 1) mod 7 = fdow" if "0 \<le> fdow" "fdow < 7"
  proof -
    have w: "(weekday n + 1) mod 7 = n mod 7" for n by (simp add: weekday_def mod_add_left_eq)
    have "s mod 7 = (d - (d mod 7 - fdow)) mod 7" unfolding s(1) w by (rule mod_diff_right_eq)
    also have "d - (d mod 7 - fdow) = fdow + 7 * (d div 7)" by (simp add: algebra_simps)
    also have "\<dots> mod 7 = fdow" using that by simp
    finally show ?thesis unfolding w .
  qed
qed

text \<open>The window can be computed for every date that is not within some weeks of the first or the last day
  a date can hold.\<close>

definition sound_anchor :: "string \<Rightarrow> bool" where
  "sound_anchor a \<longleftrightarrow> (case parse_iso_date (take 10 a) of Inl e \<Rightarrow> False | Inr n \<Rightarrow> 40 \<le> n \<and> n + 42 \<le> MAXORD)"

lemma week_start_total: "7 \<le> d \<Longrightarrow> d \<le> MAXORD \<Longrightarrow> \<exists>s. week_start d fdow = Inr s \<and> d - 7 < s \<and> s \<le> d"
  by (auto simp: week_start_def Let_def ord_ok_def)

lemma grid_window_total:
  assumes "sound_anchor a"
  shows "\<exists>w. grid_window tz view a fdow name = Inr w"
proof -
  obtain n where p: "parse_iso_date (take 10 a) = Inr n" and n: "40 \<le> n" "n + 42 \<le> MAXORD"
    using assms by (auto simp: sound_anchor_def split: sum.splits)
  obtain first where f: "mk_date (year_of n) (month_of n) 1 = Inr first" "n - 31 < first" "first \<le> n"
  proof -
    have "mk_date (year_of n) (month_of n) (day_of n) = Inr n"
      using n by (intro mk_date_ord2ymd(1) year_month_day) (simp add: ord_ok_def)
    then have "\<exists>first. mk_date (year_of n) (month_of n) 1 = Inr first" by (auto simp: mk_date_def split: if_split_asm)
    then show thesis using that month_of_first [OF _ refl refl] by fastforce
  qed
  obtain s where s: "week_start n fdow = Inr s" "n - 7 < s" "s \<le> n" using week_start_total [of n fdow] n by auto
  obtain m where m: "week_start first fdow = Inr m" "first - 7 < m" "m \<le> first" using week_start_total [of first fdow] f n by auto
  have "\<exists>d. grid_days view n fdow = Inr d" using n f s m by (auto simp: grid_days_def day_plus_def ord_ok_def)
  then show ?thesis using p by (auto simp: grid_window_def Let_def)
qed

text \<open>C34: The window of a grid view is the one the calendar shows: one day, or whole weeks that start on
  the chosen first day of the week (seven days, or forty-two for a month), it contains the anchor, and
  the month window contains every day of the anchor's month.\<close>

theorem grid_window_covers:
  assumes "grid_window tz view anchor_iso fdow name = Inr (a, b)"
  shows "\<exists>anchor s e.
      parse_iso_date (take 10 anchor_iso) = Inr anchor \<and> ord_ok s \<and> ord_ok e
    \<and> a = Stamp (s * DAY) 0 (Some (zone_or_utc tz name)) \<and> b = Stamp (e * DAY) 0 (Some (zone_or_utc tz name))
    \<and> s \<le> anchor \<and> anchor < e
    \<and> e - s = (if view = ''timeGridDay'' then 1 else if view = ''timeGridWeek'' then 7 else 42)
    \<and> (view \<noteq> ''timeGridDay'' \<longrightarrow> 0 \<le> fdow \<longrightarrow> fdow < 7 \<longrightarrow> (weekday s + 1) mod 7 = fdow)
    \<and> (view \<noteq> ''timeGridDay'' \<longrightarrow> view \<noteq> ''timeGridWeek'' \<longrightarrow>
         (\<forall>n. ord_ok n \<longrightarrow> year_of n = year_of anchor \<longrightarrow> month_of n = month_of anchor \<longrightarrow> s \<le> n \<and> n < e))"
proof -
  obtain anchor s e where p: "parse_iso_date (take 10 anchor_iso) = Inr anchor" and g: "grid_days view anchor fdow = Inr (s, e)"
    and ab: "a = Stamp (s * DAY) 0 (Some (zone_or_utc tz name))" "b = Stamp (e * DAY) 0 (Some (zone_or_utc tz name))"
    using assms by (auto simp: grid_window_def Let_def bindr_eq_Inr)
  have o: "ord_ok anchor" by (rule parse_iso_date_ok [OF p])
  consider (day) "view = ''timeGridDay''" | (week) "view = ''timeGridWeek''"
    | (month) "view \<noteq> ''timeGridDay''" "view \<noteq> ''timeGridWeek''" by blast
  then show ?thesis
  proof cases
    case day
    then have "s = anchor" "e = anchor + 1" "ord_ok e" using g by (auto simp: grid_days_def bindr_eq_Inr day_plus_def split: if_split_asm)
    with day o p ab show ?thesis by simp
  next
    case week
    then have w: "week_start anchor fdow = Inr s" and e: "e = s + 7" "ord_ok e"
      using g by (auto simp: grid_days_def bindr_eq_Inr day_plus_def split: if_split_asm)
    show ?thesis using week_start_spec [OF w] week e p ab by simp
  next
    case month
    then obtain first where f: "mk_date (year_of anchor) (month_of anchor) 1 = Inr first"
      and w: "week_start first fdow = Inr s" and e: "e = s + 42" "ord_ok e"
      using g by (auto simp: grid_days_def bindr_eq_Inr day_plus_def split: if_split_asm)
    have "first \<le> n \<and> n < first + 31" if "ord_ok n" "year_of n = year_of anchor" "month_of n = month_of anchor" for n
      using month_of_first [OF f that(2,3)] by simp
    then show ?thesis using week_start_spec [OF w] month e p ab o by fastforce
  qed
qed

theorem grid_window_covers_witness:
  "\<exists>s. grid_window sample_zones ''dayGridMonth'' ''2024-02-15'' 1 ''UTC'' =
     Inr (Stamp (s * DAY) 0 (Some (Zone ''UTC'')), Stamp ((s + 42) * DAY) 0 (Some (Zone ''UTC'')))
   \<and> (weekday s + 1) mod 7 = 1"
proof -
  have "grid_window sample_zones ''dayGridMonth'' ''2024-02-15'' 1 ''UTC'' =
      Inr (Stamp (738914 * DAY) 0 (Some (Zone ''UTC'')), Stamp (738956 * DAY) 0 (Some (Zone ''UTC'')))"
    by code_simp
  from grid_window_covers [OF this] this show ?thesis by (intro exI [of _ 738914]) auto
qed

section \<open>Shares as granted\<close>

text \<open>What a share was minted for, as a context: the specification of the resolution, free of JSON.\<close>

definition grant_range :: "share_ctx \<Rightarrow> string \<Rightarrow> (int \<times> bool) list \<Rightarrow> int option \<Rightarrow> share_ctx" where
  "grant_range x z cals dflt =
     x\<lparr>x_tz := JStr z, x_default := opt_int dflt, x_readable := map JInt (remdups (map fst cals)),
       x_writable := map JInt (remdups (map fst (filter (\<lambda>c. x_mode x = ''rw'' \<and> snd c) cals))),
       x_calendars := map (\<lambda>c. (JInt (fst c), snd c)) cals\<rparr>"

fun share_grant :: "tzdb \<Rightarrow> share_ctx \<Rightarrow> share_scope \<Rightarrow> (int \<times> bool) list \<Rightarrow> int option \<Rightarrow> share_ctx option" where
  "share_grant tz x (ItemScope uid k cal) cals dflt =
     Some (x\<lparr>x_item_uid := JStr uid, x_item_kind := JStr k, x_item_calendar := JInt cal, x_readable := [JInt cal],
             x_writable := (if x_mode x = ''rw'' then [JInt cal] else [])\<rparr>)"
| "share_grant tz x (GridScope view anchor z fdow) cals dflt =
     (case grid_window tz view anchor fdow z of
        Inl e \<Rightarrow> None
      | Inr w \<Rightarrow> Some ((grant_range x z cals dflt)\<lparr>x_grid_view := JStr view, x_grid_anchor := JStr anchor, x_fdow := fdow,
          x_window := Some w\<rparr>))"
| "share_grant tz x (AgendaScope from till z) cals dflt =
     (case (datetime_fromisoformat from, datetime_fromisoformat till) of
        (Inr f, Inr t) \<Rightarrow> Some ((grant_range x z cals dflt)\<lparr>x_window := Some (f, t)\<rparr>)
      | _ \<Rightarrow> None)"

lemma remdups_JInt: "remdups (map JInt xs) = map JInt (remdups xs)"
  by (induction xs) auto

lemma read_calendars_written: "mapr read_calendar (map (\<lambda>(i, w). JObj [(''id'', JInt i), (''writable'', JBool w)]) cals)
    = Inr (map (\<lambda>c. (JInt (fst c), snd c)) cals)"
  by (induction cals) (auto simp: read_calendar_def obj_get_def)

lemma read_range_written:
  assumes "map_of kvs ''calendars'' = Some (calendar_json cals)" and "map_of kvs ''tz'' = Some (JStr z)"
    and "map_of kvs ''default_calendar_id'' = Some (opt_int dflt)"
  shows "read_range_scope tz kvs x =
    (if x_kind x = ''grid'' then
       bindr (json_int (obj_get_or (JInt 1) ''first_day_of_week'' kvs)) (\<lambda>fdow.
         case read_grid tz kvs fdow (JStr z) of
           None \<Rightarrow> Inr None
         | Some w \<Rightarrow> Inr (Some ((grant_range x z cals dflt)\<lparr>x_grid_view := obj_get ''grid_view'' kvs,
             x_grid_anchor := obj_get ''grid_anchor'' kvs, x_fdow := fdow, x_window := Some w\<rparr>)))
     else (case read_agenda kvs of None \<Rightarrow> Inr None | Some w \<Rightarrow> Inr (Some ((grant_range x z cals dflt)\<lparr>x_window := Some w\<rparr>))))"
proof -
  have w: "map fst (filter (\<lambda>c. p \<and> snd c) (map (\<lambda>c. (JInt (fst c), snd c)) cals)) =
      map JInt (map fst (filter (\<lambda>c. p \<and> snd c) cals))" for p
    by (induction cals) auto
  have r: "map fst (map (\<lambda>c. (JInt (fst c), snd c)) cals) = map JInt (map fst cals)" by simp
  show ?thesis
    using assms read_calendars_written [of cals]
    by (simp add: read_range_scope_def obj_get_or_def obj_get_def calendar_json_def grant_range_def w r remdups_JInt Let_def del: map_map cong: option.case_cong)
qed

lemma read_share_written:
  assumes "bytes_ok dek" and "expiry_ok tz expires" and "mode \<in> set share_modes"
  shows "read_share tz now (share_payload tz dek mode expires scope cals dflt) =
    Inr (if expired tz now expires then None
         else share_grant tz (no_ctx dek (scope_kind scope) mode (map_option (iso_view tz) expires)) scope cals dflt)"
proof -
  define kvs where "kvs = [(''dek'', JStr (b64encode dek)), (''kind'', JStr (scope_kind scope)), (''mode'', JStr mode),
      (''expires_at'', written_expiry tz expires)] @ scope_fields scope cals dflt"
  let ?x = "no_ctx dek (scope_kind scope) mode (map_option (iso_view tz) expires)"
  have k: "scope_kind scope \<in> set share_kinds" by (cases scope) (simp_all add: share_kinds_def)
  have p: "share_payload tz dek mode expires scope cals dflt = JObj kvs"
    by (simp add: share_payload_def kvs_def written_expiry_def)
  have f: "obj_get ''kind'' kvs = JStr (scope_kind scope)" "obj_get ''mode'' kvs = JStr mode"
    "obj_get ''expires_at'' kvs = written_expiry tz expires" "read_dek kvs = Some dek"
    using read_dek_written [OF assms(1)] by (simp_all add: kvs_def obj_get_def)
  have s: "(if scope_kind scope = ''item'' then read_item_scope kvs ?x else read_range_scope tz kvs ?x) =
      Inr (share_grant tz ?x scope cals dflt)"
  proof (cases scope)
    case (ItemScope uid kd cal)
    then show ?thesis by (simp add: read_item_scope_def kvs_def obj_get_def no_ctx_def Let_def)
  next
    case (GridScope view anchor z fdow)
    have m: "map_of kvs ''calendars'' = Some (calendar_json cals)" "map_of kvs ''tz'' = Some (JStr z)"
      "map_of kvs ''default_calendar_id'' = Some (opt_int dflt)"
      using GridScope by (simp_all add: kvs_def)
    show ?thesis using GridScope
      by (simp add: read_range_written [OF m] no_ctx_def) (simp add: kvs_def obj_get_def obj_get_or_def read_grid_def split: sum.split)
  next
    case (AgendaScope a b z)
    have m: "map_of kvs ''calendars'' = Some (calendar_json cals)" "map_of kvs ''tz'' = Some (JStr z)"
      "map_of kvs ''default_calendar_id'' = Some (opt_int dflt)"
      using AgendaScope by (simp_all add: kvs_def)
    show ?thesis using AgendaScope
      by (simp add: read_range_written [OF m] no_ctx_def) (simp add: kvs_def obj_get_def read_agenda_def split: sum.split)
  qed
  show ?thesis
    using k assms(3) s by (simp add: p read_share_def f read_written_expiry [OF assms(2)] Let_def)
qed

lemma minted_share_resolves:
  assumes "crypto_ok cr" and "bytes_ok dek" and "secret \<noteq> []" and "expiry_ok tz expires"
    and "mint_share cr tz secret nonce dek mode expires scope cals dflt = Inr (link, sha, blob, n)"
    and "find (\<lambda>r. sh_sha r = sha) (db_shares d) = Some row" and "sh_blob row = blob" and "sh_nonce row = n"
  shows "link = secret \<and> resolve_share cr tz now secret d =
    (if expired tz now expires then (Inr None, d)
     else case share_grant tz (no_ctx dek (scope_kind scope) mode (map_option (iso_view tz) expires)) scope cals dflt of
            None \<Rightarrow> (Inr None, d)
          | Some x \<Rightarrow> (Inr (Some (x\<lparr>x_share := sh_id row, x_user := sh_user row\<rparr>)), touch_share now row d))"
proof -
  let ?p = "share_payload tz dek mode expires scope cals dflt"
  have m: "mode \<in> set share_modes" and l: "link = secret" and s: "seal_payload cr nonce secret ?p = Inr (sha, blob, n)"
    using assms(5) by (auto simp: mint_share_def bindr_eq_Inr split: if_split_asm)
  have "json_ok ?p"
    by (cases scope) (auto simp: share_payload_def calendar_json_def opt_int_def split: option.split)
  then have "open_payload cr secret (sh_blob row) (sh_nonce row) = Inr ?p" "sha = digest_of cr secret"
    using seal_payload_opens [OF assms(1) _ s] assms(7,8) by simp_all
  then show ?thesis
    using assms(3,6) l by (simp add: resolve_share_def read_share_written [OF assms(2,4) m] split: option.split)
qed

text \<open>A share gives what its owner granted, until it expires: resolving the secret of a minted share
  yields the kind, mode, calendars, default and window it was minted with, the writable calendars only
  in a read-write share, and the owner and id of the row, whatever the mirror columns say; a window
  that cannot be computed, or the expiry, refuses it.\<close>

theorem share_roundtrip:
  assumes "crypto_ok cr" and "bytes_ok dek" and "secret \<noteq> []" and "expiry_ok tz expires"
    and "mint_share cr tz secret nonce dek mode expires scope cals dflt = Inr (link, sha, blob, n)"
    and "find (\<lambda>r. sh_sha r = sha) (db_shares d) = Some row" and "sh_blob row = blob" and "sh_nonce row = n"
  shows "link = secret \<and> resolve_share cr tz now link d =
    (if expired tz now expires then (Inr None, d)
     else case share_grant tz (no_ctx dek (scope_kind scope) mode (map_option (iso_view tz) expires)) scope cals dflt of
            None \<Rightarrow> (Inr None, d)
          | Some x \<Rightarrow> (Inr (Some (x\<lparr>x_share := sh_id row, x_user := sh_user row\<rparr>)), touch_share now row d))"
  using minted_share_resolves [OF assms, of now] by simp

definition sample_share_row :: "bytes \<Rightarrow> bytes \<Rightarrow> bytes \<Rightarrow> share" where
  "sample_share_row sha blob n = \<lparr>sh_id = 3, sh_user = 7, sh_name = ''x'', sh_sha = sha, sh_blob = blob, sh_nonce = n,
     sh_kind = ''grid'', sh_mode = ''rw'', sh_expires = None, sh_item_uid = None, sh_item_kind = None, sh_item_calendar = None,
     sh_grid_view = None, sh_grid_anchor = None, sh_agenda_from = None, sh_agenda_to = None, sh_default_calendar = None,
     sh_created = Stamp 0 0 None, sh_used = None\<rparr>"

definition sample_scope :: share_scope where
  "sample_scope = GridScope ''timeGridDay'' ''2024-02-15'' ''UTC'' 1"

definition sample_share_db :: "bytes \<Rightarrow> bytes \<Rightarrow> bytes \<Rightarrow> db" where
  "sample_share_db sha blob n = no_db\<lparr>db_shares := [sample_share_row sha blob n]\<rparr>"

definition sample_share :: "(string \<times> bytes \<times> bytes \<times> bytes) res" where
  "sample_share = mint_share sample_crypto sample_zones ''s3cret'' (replicate 12 5) [1, 2, 3] ''ro'' (Some sample_expiry)
     sample_scope [(9, True), (2, False)] None"

text \<open>The context a read-only share of two calendars gives, although it was asked to make one writable.\<close>

definition sample_share_ctx :: share_ctx where
  "sample_share_ctx = \<lparr>x_share = 3, x_user = 7, x_dek = [1, 2, 3], x_kind = ''grid'', x_mode = ''ro'',
     x_expires = Some sample_expiry, x_readable = [JInt 9, JInt 2], x_writable = [], x_default = JNull,
     x_item_uid = JNull, x_item_kind = JNull, x_item_calendar = JNull, x_grid_view = JStr ''timeGridDay'',
     x_grid_anchor = JStr ''2024-02-15'',
     x_window = Some (Stamp (738931 * DAY) 0 (Some (Zone ''UTC'')), Stamp (738932 * DAY) 0 (Some (Zone ''UTC''))),
     x_tz = JStr ''UTC'', x_fdow = 1, x_calendars = [(JInt 9, True), (JInt 2, False)]\<rparr>"

lemma sample_share_value:
  obtains sha blob n where "sample_share = Inr (''s3cret'', sha, blob, n)" "sha = digest_of sample_crypto ''s3cret''"
    "open_payload sample_crypto ''s3cret'' blob n =
       Inr (share_payload sample_zones [1, 2, 3] ''ro'' (Some sample_expiry) sample_scope [(9, True), (2, False)] None)"
proof -
  let ?p = "share_payload sample_zones [1, 2, 3] ''ro'' (Some sample_expiry) sample_scope [(9, True), (2, False)] None"
  have "length (derive_token_key sample_crypto ''s3cret'') = 32"
    using crypto_okD(2) [OF sample_crypto_ok] by blast
  then obtain c where c: "cr_seal sample_crypto (derive_token_key sample_crypto ''s3cret'') (replicate 12 5) (encode_text (dumps ?p)) = Inr c"
    using sealed_exists [OF sample_crypto_ok, of "derive_token_key sample_crypto ''s3cret''" "replicate 12 5"] by auto
  then have s: "seal_payload sample_crypto (replicate 12 5) ''s3cret'' ?p = Inr (digest_of sample_crypto ''s3cret'', c, replicate 12 5)"
    by (simp add: seal_payload_def wrap_dek_def)
  have "json_ok ?p" by (simp add: share_payload_def sample_scope_def calendar_json_def opt_int_def)
  then show ?thesis
    using that [of "digest_of sample_crypto ''s3cret''" c "replicate 12 5"] seal_payload_opens [OF sample_crypto_ok _ s] s
    by (simp add: sample_share_def mint_share_def share_modes_def)
qed

lemma sample_grant:
  "share_grant sample_zones (no_ctx [1, 2, 3] ''grid'' ''ro'' (Some sample_expiry)) sample_scope [(9, True), (2, False)] None =
     Some (sample_share_ctx\<lparr>x_share := 0, x_user := 0\<rparr>)"
proof -
  have "grid_window sample_zones ''timeGridDay'' ''2024-02-15'' 1 ''UTC'' =
      Inr (Stamp (738931 * DAY) 0 (Some (Zone ''UTC'')), Stamp (738932 * DAY) 0 (Some (Zone ''UTC'')))" by code_simp
  then show ?thesis
    by (simp add: sample_scope_def grant_range_def no_ctx_def sample_share_ctx_def opt_int_def)
qed

lemma sample_expiry_view: "iso_view sample_zones sample_expiry = sample_expiry"
  by (simp add: iso_view_def sample_expiry_def fixed_tz_def utcoffset_def)

theorem share_roundtrip_witness:
  "\<exists>sha blob n. sample_share = Inr (''s3cret'', sha, blob, n)
     \<and> fst (resolve_share sample_crypto sample_zones 0 ''s3cret'' (sample_share_db sha blob n)) = Inr (Some sample_share_ctx)
     \<and> fst (resolve_share sample_crypto sample_zones (738000 * DAY) ''s3cret'' (sample_share_db sha blob n)) = Inr None"
proof -
  obtain sha blob n where m: "sample_share = Inr (''s3cret'', sha, blob, n)" by (rule sample_share_value)
  have "fst (resolve_share sample_crypto sample_zones now ''s3cret'' (sample_share_db sha blob n)) =
      Inr (if expired sample_zones now (Some sample_expiry) then None else Some sample_share_ctx)" for now
    using share_roundtrip [OF sample_crypto_ok _ _ sample_expiry_ok m [unfolded sample_share_def],
        of "sample_share_db sha blob n" "sample_share_row sha blob n" now] sample_grant
    by (simp add: bytes_ok_def sample_share_row_def sample_share_db_def sample_expiry_view)
      (simp add: sample_scope_def sample_share_ctx_def sample_share_row_def)
  then show ?thesis using m sample_not_expired sample_expired by (intro exI [of _ sha] exI [of _ blob] exI [of _ n]) simp
qed

text \<open>Whatever a sealed payload says, a resolved share is bounded: it is of a known kind and mode, what
  it may write is part of what it may read, a read-only share writes nothing, an item share reaches one
  calendar at most and the other kinds always carry a window; its user and id are those of a stored
  row whose digest is that of the secret.\<close>

theorem share_limits:
  assumes "resolve_share cr tz now secret d = (Inr (Some x), d')"
  shows "x_kind x \<in> set share_kinds \<and> x_mode x \<in> set share_modes \<and> set (x_writable x) \<subseteq> set (x_readable x)
    \<and> (x_mode x = ''ro'' \<longrightarrow> x_writable x = [])
    \<and> (if x_kind x = ''item'' then length (x_readable x) \<le> 1 else x_window x \<noteq> None)
    \<and> (\<exists>row \<in> set (db_shares d). sh_sha row = digest_of cr secret \<and> x_share x = sh_id row \<and> x_user x = sh_user row
         \<and> d' = touch_share now row d)"
proof -
  obtain row where f: "find (\<lambda>r. sh_sha r = digest_of cr secret) (db_shares d) = Some row"
    using assms by (auto simp: resolve_share_def split: if_split_asm option.split_asm)
  obtain payload where o: "open_payload cr secret (sh_blob row) (sh_nonce row) = Inr payload"
    using assms f by (auto simp: resolve_share_def split: if_split_asm sum.split_asm)
  obtain y where r: "read_share tz now payload = Inr (Some y)" "x = y\<lparr>x_share := sh_id row, x_user := sh_user row\<rparr>"
    "d' = touch_share now row d"
    using assms f o by (auto simp: resolve_share_def split: if_split_asm sum.split_asm option.split_asm)
  show ?thesis
    using ctx_limits [OF r(1)] r(2,3) find_SomeD [OF f] by auto
qed

text \<open>Time only takes a share away: what a secret opens at a later moment it opened, unchanged, at
  every earlier one.\<close>

theorem share_never_revives:
  assumes "fst (resolve_share cr tz later secret d) = Inr (Some x)" and "now \<le> later"
  shows "fst (resolve_share cr tz now secret d) = Inr (Some x)"
proof -
  have n: "secret \<noteq> []" using assms(1) by (auto simp: resolve_share_def)
  obtain row where f: "find (\<lambda>r. sh_sha r = digest_of cr secret) (db_shares d) = Some row"
    using assms(1) n by (auto simp: resolve_share_def split: option.split_asm)
  obtain payload where o: "open_payload cr secret (sh_blob row) (sh_nonce row) = Inr payload"
    using assms(1) n f by (auto simp: resolve_share_def split: sum.split_asm)
  obtain y where r: "read_share tz later payload = Inr (Some y)"
    using assms(1) n f o by (auto simp: resolve_share_def split: sum.split_asm option.split_asm)
  then show ?thesis
    using assms(1) n f o share_reader.valid_earlier [OF assms(2) r] by (simp add: resolve_share_def)
qed

lemma sample_share_resolves:
  obtains sha blob n where "sample_share = Inr (''s3cret'', sha, blob, n)"
    "resolve_share sample_crypto sample_zones 0 ''s3cret'' (sample_share_db sha blob n) =
       (Inr (Some sample_share_ctx), touch_share 0 (sample_share_row sha blob n) (sample_share_db sha blob n))"
proof -
  obtain sha blob n where m: "sample_share = Inr (''s3cret'', sha, blob, n)" "sha = digest_of sample_crypto ''s3cret''"
    "open_payload sample_crypto ''s3cret'' blob n =
       Inr (share_payload sample_zones [1, 2, 3] ''ro'' (Some sample_expiry) sample_scope [(9, True), (2, False)] None)"
    by (rule sample_share_value)
  have r: "read_share sample_zones 0 (share_payload sample_zones [1, 2, 3] ''ro'' (Some sample_expiry) sample_scope [(9, True), (2, False)] None) =
      Inr (Some (sample_share_ctx\<lparr>x_share := 0, x_user := 0\<rparr>))"
    using sample_grant sample_not_expired
    by (subst read_share_written [OF _ sample_expiry_ok]) (simp_all add: bytes_ok_def share_modes_def sample_expiry_view sample_scope_def)
  have f: "find (\<lambda>r. sh_sha r = digest_of sample_crypto ''s3cret'') (db_shares (sample_share_db sha blob n)) = Some (sample_share_row sha blob n)"
    "sh_blob (sample_share_row sha blob n) = blob" "sh_nonce (sample_share_row sha blob n) = n"
    "sh_id (sample_share_row sha blob n) = 3" "sh_user (sample_share_row sha blob n) = 7"
    by (simp_all add: sample_share_db_def sample_share_row_def m(2))
  have "resolve_share sample_crypto sample_zones 0 ''s3cret'' (sample_share_db sha blob n) =
       (Inr (Some sample_share_ctx), touch_share 0 (sample_share_row sha blob n) (sample_share_db sha blob n))"
    by (simp add: resolve_share_def f m(3) r) (simp add: sample_share_ctx_def)
  then show ?thesis using that m(1) by blast
qed

theorem share_limits_witness:
  "x_writable sample_share_ctx = [] \<and> x_window sample_share_ctx \<noteq> None
   \<and> (\<exists>sha blob n. sample_share = Inr (''s3cret'', sha, blob, n))"
proof -
  obtain sha blob n where s: "sample_share = Inr (''s3cret'', sha, blob, n)"
    and r: "resolve_share sample_crypto sample_zones 0 ''s3cret'' (sample_share_db sha blob n) =
       (Inr (Some sample_share_ctx), touch_share 0 (sample_share_row sha blob n) (sample_share_db sha blob n))"
    by (rule sample_share_resolves)
  have "x_mode sample_share_ctx = ''ro''" "x_kind sample_share_ctx \<noteq> ''item''" by (simp_all add: sample_share_ctx_def)
  then show ?thesis using share_limits [OF r] s by auto
qed

theorem share_never_revives_witness:
  "\<exists>sha blob n. sample_share = Inr (''s3cret'', sha, blob, n)
     \<and> fst (resolve_share sample_crypto sample_zones (- 5) ''s3cret'' (sample_share_db sha blob n)) = Inr (Some sample_share_ctx)"
proof -
  obtain sha blob n where s: "sample_share = Inr (''s3cret'', sha, blob, n)"
    and r: "resolve_share sample_crypto sample_zones 0 ''s3cret'' (sample_share_db sha blob n) =
       (Inr (Some sample_share_ctx), touch_share 0 (sample_share_row sha blob n) (sample_share_db sha blob n))"
    by (rule sample_share_resolves)
  have "fst (resolve_share sample_crypto sample_zones 0 ''s3cret'' (sample_share_db sha blob n)) = Inr (Some sample_share_ctx)"
    using r by simp
  from share_never_revives [OF this, of "- 5"] show ?thesis using s by (intro exI) auto
qed

end
