(* ===== verification/ShareRoutes.thy ===== *)
theory ShareRoutes
  imports RouteFacts Shares
begin

text \<open>
  The routes of share links (\<open>routers/shares.py\<close>, with \<open>get_share_context\<close> of \<open>deps.py\<close>): the owner's, under
  a session, and the view's, under the secret of the link. The view's handlers check the scope of the
  link and call the item routes with an entry of the owner. Exports are calendar objects with a file
  name. A window bound or item identifier in a payload that is no string does not occur in what the
  owner's routes seal; such a value reads as the empty string.
\<close>

section \<open>Under the session of the owner\<close>

record share_in =
  si_name :: string
  si_kind :: string
  si_mode :: string
  si_expires :: "string option"
  si_item :: "(string \<times> string \<times> int) option"      \<comment> \<open>UID, kind, calendar\<close>
  si_grid :: "(string \<times> string) option"            \<comment> \<open>view, anchor\<close>
  si_agenda :: "(string \<times> string) option"
  si_calendars :: "(int \<times> bool) list option"
  si_default :: "int option"

definition grid_views :: "string list" where
  "grid_views = [''dayGridMonth'', ''timeGridWeek'', ''timeGridDay'']"

definition item_ok :: "(string \<times> string \<times> int) option \<Rightarrow> bool" where
  "item_ok it \<longleftrightarrow> (case it of None \<Rightarrow> True | Some (uid, kind, c) \<Rightarrow> uid \<noteq> [] \<and> kind \<in> {''event'', ''task'', ''journal''})"

definition grid_ok :: "(string \<times> string) option \<Rightarrow> bool" where
  "grid_ok g \<longleftrightarrow> (case g of None \<Rightarrow> True | Some (view, anchor) \<Rightarrow> view \<in> set grid_views)"

definition share_valid :: "share_in \<Rightarrow> bool" where
  "share_valid b \<longleftrightarrow> length (si_name b) \<le> 200 \<and> si_kind b \<in> set share_kinds \<and> si_mode b \<in> set share_modes
     \<and> item_ok (si_item b) \<and> grid_ok (si_grid b)"

record share_out =
  so_id :: int
  so_name :: string
  so_kind :: string
  so_mode :: string
  so_expires :: "string option"
  so_created :: string
  so_used :: "string option"
  so_item_uid :: "string option"
  so_item_kind :: "string option"
  so_item_calendar :: "int option"
  so_grid_view :: "string option"
  so_grid_anchor :: "string option"
  so_agenda_from :: "string option"
  so_agenda_to :: "string option"
  so_default :: "int option"
  so_calendars :: "(int \<times> bool) list"

definition share_view :: "tzdb \<Rightarrow> share \<Rightarrow> share_calendar list \<Rightarrow> share_out" where
  "share_view tz s rows = \<lparr>so_id = sh_id s, so_name = sh_name s, so_kind = sh_kind s, so_mode = sh_mode s,
     so_expires = map_option (isoformat tz) (sh_expires s), so_created = isoformat tz (sh_created s),
     so_used = map_option (isoformat tz) (sh_used s), so_item_uid = sh_item_uid s, so_item_kind = sh_item_kind s,
     so_item_calendar = sh_item_calendar s, so_grid_view = sh_grid_view s, so_grid_anchor = sh_grid_anchor s,
     so_agenda_from = map_option (isoformat tz) (sh_agenda_from s), so_agenda_to = map_option (isoformat tz) (sh_agenda_to s),
     so_default = sh_default_calendar s, so_calendars = map (\<lambda>r. (sc_calendar r, sc_writable r)) rows\<rparr>"

definition owned_ids :: "db \<Rightarrow> int \<Rightarrow> int list" where
  "owned_ids d uid = map (c_id \<circ> fst) (owned_calendars d uid)"

definition view_settings :: "db \<Rightarrow> int \<Rightarrow> string \<times> int" where   \<comment> \<open>\<open>_user_settings\<close>\<close>
  "view_settings d uid = (case prefs_of d uid of None \<Rightarrow> (''UTC'', 1) | Some p \<Rightarrow> (p_timezone p, p_fdow p))"

definition scope_rows :: "db \<Rightarrow> int \<Rightarrow> share_calendar list" where
  "scope_rows d sid = filter (\<lambda>r. sc_share r = sid) (db_share_calendars d)"

definition list_shares :: "tzdb \<Rightarrow> entry \<Rightarrow> ('s app, share_out list) io" where
  "list_shares tz e =
     bindi (ask ap_db) (\<lambda>d.
       reti (map (\<lambda>s. share_view tz s (scope_rows d (sh_id s)))
         (sort_key (\<lambda>s. - wall_of (sh_created s)) (filter (\<lambda>s. sh_user s = s_user e) (db_shares d)))))"

text \<open>The scope of a new share: what is sealed, the rows of its calendars and its default calendar.\<close>

definition grant_calendars :: "db \<Rightarrow> int \<Rightarrow> share_in \<Rightarrow> ((int \<times> bool) list \<times> int option) res" where
  "grant_calendars d uid b =
     (let cals = (case si_calendars b of None \<Rightarrow> [] | Some cs \<Rightarrow> cs); ids = map fst cals;
          writable = (if si_mode b = ''rw'' then map fst (filter snd cals) else []);
          dflt = (if si_mode b = ''rw'' then si_default b else None) in
      if ids = [] then Inl (http 400 ''At least one calendar is required'')
      else if \<not> distinct ids then Inl (http 400 ''Duplicate calendar in scope'')
      else if \<not> set ids \<subseteq> set (owned_ids d uid) then Inl (http 400 ''Unknown calendar in scope'')
      else if (case dflt of None \<Rightarrow> False | Some c \<Rightarrow> c \<notin> set writable)
        then Inl (http 400 ''default_calendar_id must be a writable calendar'')
      else Inr (map (\<lambda>c. (c, c \<in> set writable)) ids,
                if dflt = None \<and> writable \<noteq> [] then Some (Min (set writable)) else dflt))"

text \<open>The kind-specific part, with the agenda's bounds as the mirror columns keep them.\<close>

definition agenda_bounds :: "tzdb \<Rightarrow> string \<Rightarrow> string \<Rightarrow> (tm \<times> tm) res" where
  "agenda_bounds tz a b =
     bad_request ''Invalid agenda range'' (bindr (datetime_fromisoformat a) (\<lambda>f. bindr (datetime_fromisoformat b) (\<lambda>t. Inr (f, t))))"

type_synonym scope_plan = "share_scope \<times> (int \<times> bool) list \<times> int option \<times> (tm \<times> tm) option"

definition plan_share :: "tzdb \<Rightarrow> db \<Rightarrow> int \<Rightarrow> share_in \<Rightarrow> scope_plan res" where
  "plan_share tz d uid b =
     (case view_settings d uid of (zone, fdow) \<Rightarrow>
      if si_kind b = ''item'' then
        (case si_item b of
           None \<Rightarrow> Inl (http 400 ''item is required'')
         | Some (iuid, kind, c) \<Rightarrow>
             if c \<notin> set (owned_ids d uid) then Inl (http 400 ''Unknown calendar'') else Inr (ItemScope iuid kind c, [], None, None))
      else
        bindr (grant_calendars d uid b) (\<lambda>(cals, dflt).
          if si_kind b = ''grid'' then
            (case si_grid b of
               None \<Rightarrow> Inl (http 400 ''grid is required'')
             | Some (view, anchor) \<Rightarrow> Inr (GridScope view anchor zone fdow, cals, dflt, None))
          else
            (case si_agenda b of
               None \<Rightarrow> Inl (http 400 ''agenda is required'')
             | Some (a, z) \<Rightarrow>
                 bindr (agenda_bounds tz a z) (\<lambda>(f, t).
                 bindr (tm_leq tz t f) (\<lambda>backward.
                   if backward then Inl (http 400 ''agenda_to must be after agenda_from'')
                   else Inr (AgendaScope a z zone, cals, dflt, Some (f, t)))))))"

definition default_name :: "share_in \<Rightarrow> string" where
  "default_name b =
     (if si_kind b = ''item'' \<and> si_item b \<noteq> None then fst (snd (the (si_item b))) @ '' share''
      else if si_kind b = ''grid'' \<and> si_grid b \<noteq> None then fst (the (si_grid b)) @ '' share''
      else ''agenda share'')"

fun item_part :: "share_scope \<Rightarrow> (string \<times> string \<times> int) option" where
  "item_part (ItemScope u k c) = Some (u, k, c)"
| "item_part _ = None"

fun grid_part :: "share_scope \<Rightarrow> (string \<times> string) option" where
  "grid_part (GridScope v a z f) = Some (v, a)"
| "grid_part _ = None"

definition share_row ::
  "int \<Rightarrow> int \<Rightarrow> int \<Rightarrow> share_in \<Rightarrow> scope_plan \<Rightarrow> tm option \<Rightarrow> bytes \<times> bytes \<times> bytes \<Rightarrow> share"
where
  "share_row now sid uid b plan expires sealed =
     (case (plan, sealed) of ((scope, cals, dflt, bounds), (sha, blob, n)) \<Rightarrow>
       \<lparr>sh_id = sid, sh_user = uid, sh_name = (if strip (si_name b) = [] then default_name b else strip (si_name b)),
        sh_sha = sha, sh_blob = blob, sh_nonce = n, sh_kind = si_kind b, sh_mode = si_mode b,
        sh_expires = map_option stored expires,
        sh_item_uid = map_option fst (item_part scope), sh_item_kind = map_option (fst \<circ> snd) (item_part scope),
        sh_item_calendar = map_option (snd \<circ> snd) (item_part scope),
        sh_grid_view = map_option fst (grid_part scope), sh_grid_anchor = map_option snd (grid_part scope),
        sh_agenda_from = map_option (stored \<circ> fst) bounds, sh_agenda_to = map_option (stored \<circ> snd) bounds,
        sh_default_calendar = dflt, sh_created = stored (utc now), sh_used = None\<rparr>)"

definition create_share ::
  "crypto \<Rightarrow> tzdb \<Rightarrow> config \<Rightarrow> int \<Rightarrow> string \<Rightarrow> bytes \<Rightarrow> http_req \<Rightarrow> entry \<Rightarrow> share_in \<Rightarrow> ('s app, string \<times> share_out) io"
where
  "create_share cr tz g now secret nonce req e b =
     (if \<not> g_sharing g then raisei (http 403 ''Sharing is disabled'')
      else
      bindi (liftr (parse_expiry tz now (si_expires b))) (\<lambda>expires.
      bindi (ask ap_db) (\<lambda>d.
      bindi (liftr (plan_share tz d (s_user e) b)) (\<lambda>plan.
      bindi (liftr (case plan of (scope, cals, dflt, bounds) \<Rightarrow>
               mint_share cr tz secret nonce (s_dek e) (si_mode b) expires scope cals dflt)) (\<lambda>(link, sealed).
        let sid = next_id (map sh_id (db_shares d)); row = share_row now sid (s_user e) b plan expires sealed;
            d' = d\<lparr>db_shares := db_shares d @ [row],
                   db_share_calendars := db_share_calendars d @
                     map (\<lambda>(c, w). \<lparr>sc_share = sid, sc_calendar = c, sc_writable = w\<rparr>) (fst (snd plan))\<rparr> in
        bindi (commit d') (\<lambda>_.
          reti (base_url (g_base_url g) req @ ''/s/'' @ str_int sid @ ''#'' @ link, share_view tz row (scope_rows d' sid))))))))"

definition revoke_share :: "entry \<Rightarrow> int \<Rightarrow> ('s app, unit) io" where
  "revoke_share e sid =
     bindi (ask ap_db) (\<lambda>d.
     bindi (require (http 404 ''Share not found'') (find (\<lambda>s. sh_id s = sid \<and> sh_user s = s_user e) (db_shares d))) (\<lambda>s.
       commit (drop_shares (\<lambda>u. sh_id u = sh_id s) d)))"

text \<open>The direct export of a scope: calendars may repeat, and an agenda's bounds are not compared.\<close>

definition before_at :: "string \<Rightarrow> string" where   \<comment> \<open>\<open>uid.split('@')[0]\<close>\<close>
  "before_at s = takeWhile (\<lambda>c. c \<noteq> CHR ''@'') s"

definition source_for :: "('s, 'r) rt \<Rightarrow> entry \<Rightarrow> db \<Rightarrow> int \<Rightarrow> (conn \<times> string) res" where
  "source_for rt e d cid =
     (case owned_calendar d (s_user e) cid of
        None \<Rightarrow> Inl KeyError
      | Some (c, a) \<Rightarrow> bindr (password_of (rt_cr rt) (s_dek e) a) (\<lambda>pw. Inr (conn_of a pw, c_caldav_id c)))"

definition owner_export_ics ::
  "('s, 'r) rt \<Rightarrow> config \<Rightarrow> entry \<Rightarrow> share_in \<Rightarrow> ('s app, vcal \<times> string) io"
where
  "owner_export_ics rt g e b =
     (let tz = e_tz (rt_env rt) in
      if \<not> g_sharing g then raisei (http 403 ''Sharing is disabled'')
      else
      bindi (ask ap_db) (\<lambda>d.
        case view_settings d (s_user e) of (zone, fdow) \<Rightarrow>
        if si_kind b = ''item'' then
          (case si_item b of
             None \<Rightarrow> raisei (http 400 ''Unknown calendar'')
           | Some (uid, kind, c) \<Rightarrow>
               if c \<notin> set (owned_ids d (s_user e)) then raisei (http 400 ''Unknown calendar'')
               else
               bindi (liftr (source_for rt e d c)) (\<lambda>(cn, url).
               bindi (on_world (export_item_ics (rt_dav rt) cn url uid kind)) (\<lambda>ics.
                 reti (ics, before_at uid @ ''.ics''))))
        else
          let ids = map fst (case si_calendars b of None \<Rightarrow> [] | Some cs \<Rightarrow> cs) in
          if ids = [] then raisei (http 400 ''At least one calendar is required'')
          else if \<not> set ids \<subseteq> set (owned_ids d (s_user e)) then raisei (http 400 ''Unknown calendar in scope'')
          else
          bindi (liftr (if si_kind b = ''grid'' then
                          (case si_grid b of
                             None \<Rightarrow> Inl (http 400 ''grid is required'')
                           | Some (view, anchor) \<Rightarrow>
                               (case grid_window tz view anchor fdow zone of
                                  Inl x \<Rightarrow> Inl (http 400 ''Invalid grid'') | Inr w \<Rightarrow> Inr w))
                        else
                          (case si_agenda b of
                             None \<Rightarrow> Inl (http 400 ''agenda is required'')
                           | Some (a, z) \<Rightarrow> agenda_bounds tz a z))) (\<lambda>(from_dt, to_dt).
          bindi (liftr (mapr (source_for rt e d) ids)) (\<lambda>sources.
          bindi (on_world (export_range_ics (rt_dav rt) sources from_dt to_dt)) (\<lambda>ics.
            reti (ics, ''calendar.ics''))))))"

section \<open>Under the secret of a link\<close>

definition on_db :: "(db, 'a) io \<Rightarrow> ('s app, 'a) io" where
  "on_db m = (\<lambda>s. case m (ap_db s) of (r, d) \<Rightarrow> (r, s\<lparr>ap_db := d\<rparr>))"

definition get_share_context :: "crypto \<Rightarrow> tzdb \<Rightarrow> int \<Rightarrow> string option \<Rightarrow> ('s app, share_ctx) io" where
  "get_share_context cr tz now header =
     (if \<not> present header then raisei (http 401 ''Missing share secret'')
      else bindi (on_db (resolve_share cr tz now (the header))) (\<lambda>x.
        case x of None \<Rightarrow> raisei (http 401 ''Invalid or expired share'') | Some ctx \<Rightarrow> reti ctx))"

text \<open>\<open>_entry\<close>: a session entry of the owner for the item routes.\<close>

definition share_entry :: "int \<Rightarrow> share_ctx \<Rightarrow> entry" where
  "share_entry now x = \<lparr>s_user = x_user x, s_dek = x_dek x, s_last_seen = now, s_restricted = False, s_idle = UseDefault\<rparr>"

definition authorize_write :: "share_ctx \<Rightarrow> int \<Rightarrow> int option \<Rightarrow> string option \<Rightarrow> unit res" where
  "authorize_write x cid original uid =
     (if x_mode x \<noteq> ''rw'' then Inl (http 403 ''This share is read-only'')
      else if \<not> has_id cid (x_writable x) then Inl (http 403 ''Calendar not writable in this share'')
      else if (case original of None \<Rightarrow> False | Some c \<Rightarrow> \<not> has_id c (x_writable x))
        then Inl (http 403 ''Calendar not writable in this share'')
      else if x_kind x = ''item'' \<and> uid \<noteq> None \<and> x_item_uid x \<noteq> JStr (the uid)
        then Inl (http 403 ''This share is limited to one item'')
      else Inr ())"

definition readable_calendars :: "share_ctx \<Rightarrow> db \<Rightarrow> (calendar \<times> account) list" where
  "readable_calendars x d = filter (\<lambda>(c, a). has_id (c_id c) (x_readable x)) (owned_calendars d (x_user x))"

text \<open>\<open>resolve\<close>: the configuration of the view, without credentials. Sorting the identifiers raises unless
  they are comparable.\<close>

record view_conf =
  vc_kind :: string
  vc_mode :: string
  vc_tz :: json
  vc_fdow :: int
  vc_grid_view :: json
  vc_grid_anchor :: json
  vc_window :: "(string \<times> string) option"
  vc_default :: json
  vc_calendars :: "(int \<times> string \<times> string \<times> bool) list"
  vc_item :: "(json \<times> json \<times> json) option"

fun is_number :: "json \<Rightarrow> bool" where
  "is_number (JInt i) = True"
| "is_number (JBool b) = True"
| "is_number (JFloat s) = True"
| "is_number _ = False"

fun is_text :: "json \<Rightarrow> bool" where
  "is_text (JStr s) = True"
| "is_text _ = False"

definition sortable :: "json list \<Rightarrow> bool" where
  "sortable xs \<longleftrightarrow> length xs \<le> 1 \<or> list_all is_number xs \<or> list_all is_text xs"

definition resolve_view :: "tzdb \<Rightarrow> share_ctx \<Rightarrow> ('s app, view_conf) io" where
  "resolve_view tz x =
     bindi (ask ap_db) (\<lambda>d.
       if \<not> sortable (x_readable x) then raisei TypeError
       else reti
         \<lparr>vc_kind = x_kind x, vc_mode = x_mode x, vc_tz = x_tz x, vc_fdow = x_fdow x,
          vc_grid_view = x_grid_view x, vc_grid_anchor = x_grid_anchor x,
          vc_window = map_option (\<lambda>(f, t). (isoformat tz f, isoformat tz t)) (x_window x), vc_default = x_default x,
          vc_calendars = map (\<lambda>(c, a). (c_id c, c_name c, c_color c, has_id (c_id c) (x_writable x)))
            (sort_key (\<lambda>(c, a). c_id c) (readable_calendars x d)),
          vc_item = (if x_kind x = ''item'' then Some (x_item_uid x, x_item_kind x, x_item_calendar x) else None)\<rparr>)"

definition clamp_window :: "tm \<Rightarrow> share_ctx \<Rightarrow> (tm \<times> tm) res" where
  "clamp_window now x =
     (case x_window x of
        Some w \<Rightarrow> Inr w
      | None \<Rightarrow> bindr (tm_add now (- 3650 * DAY)) (\<lambda>f. bindr (tm_add now (3650 * DAY)) (\<lambda>t. Inr (f, t))))"

definition json_text :: "string \<Rightarrow> json \<Rightarrow> string" where   \<comment> \<open>\<open>value or default\<close>\<close>
  "json_text dflt j = (case j of JStr (c # cs) \<Rightarrow> c # cs | _ \<Rightarrow> dflt)"

definition shared_item :: "share_ctx \<Rightarrow> (calendar \<times> account) list \<Rightarrow> (calendar \<times> account) option" where
  "shared_item x cals = find (\<lambda>(c, a). is_id (c_id c) (x_item_calendar x)) cals"

text \<open>\<open>items\<close>: a single item is fetched by its UID, anything else by window and account. What fails shows
  nothing, except that an account whose password does not decrypt ends a windowed request.\<close>

definition into_bucket :: "string \<Rightarrow> ev_dict \<Rightarrow> fetched" where
  "into_bucket kind it =
     (if kind = ''event'' then no_data\<lparr>fd_events := [it]\<rparr>
      else if kind = ''task'' then no_data\<lparr>fd_tasks := [it]\<rparr> else no_data\<lparr>fd_journals := [it]\<rparr>)"

definition single_item :: "('s, 'r) rt \<Rightarrow> share_ctx \<Rightarrow> calendar \<times> account \<Rightarrow> ('s app, fetched) io" where
  "single_item rt x row =
     (case row of (c, a) \<Rightarrow>
      let kind = json_text ''event'' (x_item_kind x) in
      bindi (recover
        (bindi (liftr (password_of (rt_cr rt) (x_dek x) a)) (\<lambda>pw.
           on_world (fetch_item_by_uid (rt_dav rt) (rt_env rt) (conn_of a pw) (c_caldav_id c)
             (json_text [] (x_item_uid x)) kind (c_color c) (c_id c)))) None) (\<lambda>r.
        reti (case r of None \<Rightarrow> no_data | Some it \<Rightarrow> into_bucket kind it)))"

definition add_fetched :: "fetched \<Rightarrow> fetched option \<Rightarrow> fetched" where
  "add_fetched acc r =
     (case r of None \<Rightarrow> acc
      | Some f \<Rightarrow> \<lparr>fd_events = fd_events acc @ fd_events f, fd_tasks = fd_tasks acc @ fd_tasks f, fd_journals = fd_journals acc @ fd_journals f\<rparr>)"

definition account_data :: "('s, 'r) rt \<Rightarrow> share_ctx \<Rightarrow> tm \<Rightarrow> tm \<Rightarrow> account_group \<Rightarrow> fetched \<Rightarrow> ('s app, fetched) io" where
  "account_data rt x from_dt to_dt grp acc =
     (case grp of (i, a, refs) \<Rightarrow>
      bindi (liftr (password_of (rt_cr rt) (x_dek x) a)) (\<lambda>pw.
      bindi (recover (bindi (on_world (fetch_account_data (rt_dav rt) (rt_env rt) (conn_of a pw) refs from_dt to_dt all_kinds))
                       (\<lambda>f. reti (Some f))) None) (\<lambda>r.
        reti (add_fetched acc r))))"

definition share_items :: "('s, 'r) rt \<Rightarrow> share_ctx \<Rightarrow> ('s app, fetched) io" where
  "share_items rt x =
     bindi (ask ap_db) (\<lambda>d.
       let cals = readable_calendars x d in
       if x_kind x = ''item'' then
         (case shared_item x cals of None \<Rightarrow> reti no_data | Some row \<Rightarrow> single_item rt x row)
       else
         bindi (liftr (clamp_window (e_now (rt_env rt)) x)) (\<lambda>(from_dt, to_dt).
           foldi (account_data rt x from_dt to_dt) (by_account cals) no_data))"

text \<open>The writers: authorised, then handed to the item routes.\<close>

definition share_post_event :: "('s, 'r) rt \<Rightarrow> int \<Rightarrow> share_ctx \<Rightarrow> event_in \<Rightarrow> ('s app, string) io" where
  "share_post_event rt now x b =
     bindi (liftr (authorize_write x (en_calendar b) None None)) (\<lambda>_. post_event rt (share_entry now x) b)"

definition share_put_event :: "('s, 'r) rt \<Rightarrow> int \<Rightarrow> share_ctx \<Rightarrow> string \<Rightarrow> event_in \<Rightarrow> ('s app, unit) io" where
  "share_put_event rt now x uid b =
     bindi (liftr (authorize_write x (en_calendar b) (en_original b) (Some uid))) (\<lambda>_. put_event rt (share_entry now x) uid b)"

definition share_delete_event ::
  "('s, 'r) rt \<Rightarrow> int \<Rightarrow> share_ctx \<Rightarrow> string \<Rightarrow> int \<Rightarrow> string \<Rightarrow> string option \<Rightarrow> ('s app, unit) io"
where
  "share_delete_event rt now x uid cid scope rid =
     bindi (liftr (authorize_write x cid None (Some uid))) (\<lambda>_. delete_event_route rt (share_entry now x) uid cid scope rid)"

definition share_post_task :: "('s, 'r) rt \<Rightarrow> int \<Rightarrow> share_ctx \<Rightarrow> task_in \<Rightarrow> ('s app, string) io" where
  "share_post_task rt now x b =
     bindi (liftr (authorize_write x (ta_calendar b) None None)) (\<lambda>_. post_task rt (share_entry now x) b)"

definition share_put_task :: "('s, 'r) rt \<Rightarrow> int \<Rightarrow> share_ctx \<Rightarrow> string \<Rightarrow> task_in \<Rightarrow> ('s app, unit) io" where
  "share_put_task rt now x uid b =
     bindi (liftr (authorize_write x (ta_calendar b) (ta_original b) (Some uid))) (\<lambda>_. put_task rt (share_entry now x) uid b)"

definition share_task_status :: "('s, 'r) rt \<Rightarrow> int \<Rightarrow> share_ctx \<Rightarrow> string \<Rightarrow> status_in \<Rightarrow> ('s app, unit) io" where
  "share_task_status rt now x uid b =
     bindi (liftr (authorize_write x (st_calendar b) None (Some uid))) (\<lambda>_. toggle_task_status rt (share_entry now x) uid b)"

definition share_delete_task ::
  "('s, 'r) rt \<Rightarrow> int \<Rightarrow> share_ctx \<Rightarrow> string \<Rightarrow> int \<Rightarrow> string \<Rightarrow> string option \<Rightarrow> ('s app, unit) io"
where
  "share_delete_task rt now x uid cid scope rid =
     bindi (liftr (authorize_write x cid None (Some uid))) (\<lambda>_. delete_task_route rt (share_entry now x) uid cid scope rid)"

definition share_post_journal :: "('s, 'r) rt \<Rightarrow> int \<Rightarrow> share_ctx \<Rightarrow> journal_in \<Rightarrow> ('s app, string) io" where
  "share_post_journal rt now x b =
     bindi (liftr (authorize_write x (jo_calendar b) None None)) (\<lambda>_. post_journal rt (share_entry now x) b)"

definition share_put_journal :: "('s, 'r) rt \<Rightarrow> int \<Rightarrow> share_ctx \<Rightarrow> string \<Rightarrow> journal_in \<Rightarrow> ('s app, unit) io" where
  "share_put_journal rt now x uid b =
     bindi (liftr (authorize_write x (jo_calendar b) (jo_original b) (Some uid))) (\<lambda>_. put_journal rt (share_entry now x) uid b)"

definition share_delete_journal :: "('s, 'r) rt \<Rightarrow> int \<Rightarrow> share_ctx \<Rightarrow> string \<Rightarrow> int \<Rightarrow> ('s app, unit) io" where
  "share_delete_journal rt now x uid cid =
     bindi (liftr (authorize_write x cid None (Some uid))) (\<lambda>_. delete_journal_route rt (share_entry now x) uid cid)"

text \<open>\<open>export_ics\<close>.\<close>

definition share_source :: "('s, 'r) rt \<Rightarrow> share_ctx \<Rightarrow> calendar \<times> account \<Rightarrow> (conn \<times> string) res" where
  "share_source rt x row =
     (case row of (c, a) \<Rightarrow> bindr (password_of (rt_cr rt) (x_dek x) a) (\<lambda>pw. Inr (conn_of a pw, c_caldav_id c)))"

definition export_ics :: "('s, 'r) rt \<Rightarrow> share_ctx \<Rightarrow> int \<Rightarrow> ('s app, vcal \<times> string) io" where
  "export_ics rt x sid =
     (if x_share x \<noteq> sid then raisei (http 404 ''Share not found'')
      else
      bindi (ask ap_db) (\<lambda>d.
        let cals = readable_calendars x d in
        if x_kind x = ''item'' then
          (case shared_item x cals of
             None \<Rightarrow> raisei (http 404 ''Item not found'')
           | Some row \<Rightarrow>
               bindi (liftr (share_source rt x row)) (\<lambda>(cn, url).
               bindi (on_world (export_item_ics (rt_dav rt) cn url (json_text [] (x_item_uid x)) (json_text ''event'' (x_item_kind x)))) (\<lambda>ics.
                 reti (ics, before_at (json_text ''item'' (x_item_uid x)) @ ''.ics''))))
        else
          bindi (liftr (clamp_window (e_now (rt_env rt)) x)) (\<lambda>(from_dt, to_dt).
          bindi (liftr (mapr (share_source rt x) cals)) (\<lambda>sources.
          bindi (on_world (export_range_ics (rt_dav rt) sources from_dt to_dt)) (\<lambda>ics.
            reti (ics, ''share-'' @ str_int sid @ ''.ics''))))))"

section \<open>Writing requests under a link\<close>

definition item_valid :: "item_req \<Rightarrow> bool" where
  "item_valid req \<longleftrightarrow>
     (case req of PostEvent b \<Rightarrow> event_valid b | PutEvent u b \<Rightarrow> event_valid b
      | PostTask b \<Rightarrow> task_valid b | PutTask u b \<Rightarrow> task_valid b
      | PostJournal b \<Rightarrow> journal_valid b | PutJournal u b \<Rightarrow> journal_valid b | _ \<Rightarrow> True)"

fun share_write :: "('s, 'r) rt \<Rightarrow> int \<Rightarrow> share_ctx \<Rightarrow> item_req \<Rightarrow> ('s app, string option) io" where
  "share_write rt now x (PostEvent b) = bindi (share_post_event rt now x b) (\<lambda>uid. reti (Some uid))"
| "share_write rt now x (PutEvent uid b) = bindi (share_put_event rt now x uid b) (\<lambda>_. reti None)"
| "share_write rt now x (DeleteEvent uid c scope rid) = bindi (share_delete_event rt now x uid c scope rid) (\<lambda>_. reti None)"
| "share_write rt now x (PostTask b) = bindi (share_post_task rt now x b) (\<lambda>uid. reti (Some uid))"
| "share_write rt now x (PutTask uid b) = bindi (share_put_task rt now x uid b) (\<lambda>_. reti None)"
| "share_write rt now x (TaskStatus uid b) = bindi (share_task_status rt now x uid b) (\<lambda>_. reti None)"
| "share_write rt now x (DeleteTask uid c scope rid) = bindi (share_delete_task rt now x uid c scope rid) (\<lambda>_. reti None)"
| "share_write rt now x (PostJournal b) = bindi (share_post_journal rt now x b) (\<lambda>uid. reti (Some uid))"
| "share_write rt now x (PutJournal uid b) = bindi (share_put_journal rt now x uid b) (\<lambda>_. reti None)"
| "share_write rt now x (DeleteJournal uid c) = bindi (share_delete_journal rt now x uid c) (\<lambda>_. reti None)"

text \<open>A request as it arrives: the secret in its header is resolved, the body checked, the handler run;
  and the same under a session.\<close>

definition share_request :: "('s, 'r) rt \<Rightarrow> int \<Rightarrow> string option \<Rightarrow> item_req \<Rightarrow> ('s app, string option) io" where
  "share_request rt now header req =
     bindi (get_share_context (rt_cr rt) (e_tz (rt_env rt)) now header) (\<lambda>x.
       if item_valid req then share_write rt now x req else raisei unprocessable)"

definition session_request :: "('s, 'r) rt \<Rightarrow> int \<Rightarrow> string option \<Rightarrow> item_req \<Rightarrow> ('s app, string option) io" where
  "session_request rt now cookie req =
     under_session now cookie (\<lambda>e. if item_valid req then run_item rt e req else raisei unprocessable)"

section \<open>What a link lets its holder write\<close>

text \<open>Every writer authorises the calendars its request names, and the item unless it creates one.\<close>

definition permitted :: "share_ctx \<Rightarrow> item_req \<Rightarrow> bool" where
  "permitted x req \<longleftrightarrow> x_mode x = ''rw'' \<and> (\<forall>c \<in> set (named_calendars req). has_id c (x_writable x))
     \<and> (x_kind x = ''item'' \<longrightarrow> (\<forall>uid. named_uid req = Some uid \<longrightarrow> x_item_uid x = JStr uid))"

lemma authorize_write_ok:
  "authorize_write x c original uid = Inr () \<longleftrightarrow>
     x_mode x = ''rw'' \<and> has_id c (x_writable x) \<and> (\<forall>o' \<in> set (listed original). has_id o' (x_writable x))
     \<and> (x_kind x = ''item'' \<longrightarrow> (\<forall>u. uid = Some u \<longrightarrow> x_item_uid x = JStr u))"
  by (auto simp: authorize_write_def listed_def split: option.splits)

lemma resolve_share_frame:
  assumes "resolve_share cr tz now secret d = (q, d')"
  shows "\<exists>ss. d' = d\<lparr>db_shares := ss\<rparr>"
proof -
  have unchanged: "\<exists>ss. d = d\<lparr>db_shares := ss\<rparr>" by (rule exI [of _ "db_shares d"]) simp
  have touched: "\<exists>ss. touch_share now row d = d\<lparr>db_shares := ss\<rparr>" for row by (auto simp: touch_share_def)
  show ?thesis using assms unchanged touched
    by (auto simp: resolve_share_def split: if_split_asm option.split_asm sum.split_asm)
qed

lemma share_write_eq:
  "share_write rt now x req =
     bindi (liftr (authorize_write x (hd (named_calendars req))
       (case req of PutEvent u b \<Rightarrow> en_original b | PutTask u b \<Rightarrow> ta_original b | PutJournal u b \<Rightarrow> jo_original b | _ \<Rightarrow> None)
       (named_uid req))) (\<lambda>_. run_item rt (share_entry now x) req)"
  by (cases req) (simp_all add: bindi_assoc share_post_event_def share_put_event_def share_delete_event_def share_post_task_def
        share_put_task_def share_task_status_def share_delete_task_def share_post_journal_def share_put_journal_def share_delete_journal_def)

lemma share_write_run:
  obtains err where "share_write rt now x req = (if permitted x req then run_item rt (share_entry now x) req else raisei err)"
proof -
  let ?auth = "authorize_write x (hd (named_calendars req))
      (case req of PutEvent u b \<Rightarrow> en_original b | PutTask u b \<Rightarrow> ta_original b | PutJournal u b \<Rightarrow> jo_original b | _ \<Rightarrow> None)
      (named_uid req)"
  have ok: "permitted x req \<longleftrightarrow> ?auth = Inr ()"
    unfolding authorize_write_ok by (cases req) (auto simp: permitted_def listed_def split: option.splits)
  show thesis
  proof (cases ?auth)
    case (Inl e)
    then have "share_write rt now x req = (if permitted x req then run_item rt (share_entry now x) req else raisei e)"
      unfolding share_write_eq ok by simp
    then show ?thesis by (rule that)
  next
    case (Inr u)
    then have "share_write rt now x req = (if permitted x req then run_item rt (share_entry now x) req else raisei ValueError)"
      unfolding share_write_eq ok by simp
    then show ?thesis by (rule that)
  qed
qed

text \<open>A request under a link runs the item handler as the session the link stands for, or leaves all but
  the link's row as it was.\<close>

lemma share_request_cases:
  assumes "share_request rt now header req s = (r, s')"
  obtains (refused) d where "s' = s\<lparr>ap_db := d\<rparr>" "db_users d = db_users (ap_db s)" "db_accounts d = db_accounts (ap_db s)"
      "db_calendars d = db_calendars (ap_db s)" "db_tokens d = db_tokens (ap_db s)"
    | (admitted) secret x d where "header = Some secret" "permitted x req"
      "resolve_share (rt_cr rt) (e_tz (rt_env rt)) now secret (ap_db s) = (Inr (Some x), d)"
      "run_item rt (share_entry now x) req (s\<lparr>ap_db := d\<rparr>) = (r, s')"
proof (cases "present header")
  case False
  then have "s' = s\<lparr>ap_db := ap_db s\<rparr>" using assms by (simp add: share_request_def get_share_context_def)
  then show thesis by (rule refused) simp_all
next
  case True
  then obtain secret where h: "header = Some secret" by (auto simp: present_def)
  obtain q d where res: "resolve_share (rt_cr rt) (e_tz (rt_env rt)) now secret (ap_db s) = (q, d)" by fastforce
  let ?s = "s\<lparr>ap_db := d\<rparr>"
  have "get_share_context (rt_cr rt) (e_tz (rt_env rt)) now header s =
      (case q of Inl e \<Rightarrow> (Inl e, ?s) | Inr None \<Rightarrow> (Inl (http 401 ''Invalid or expired share''), ?s) | Inr (Some x) \<Rightarrow> (Inr x, ?s))"
    using True h res by (simp add: get_share_context_def on_db_def bindi_def split: sum.split option.split)
  then have run: "(case q of Inl e \<Rightarrow> (Inl e, ?s) | Inr None \<Rightarrow> (Inl (http 401 ''Invalid or expired share''), ?s)
      | Inr (Some x) \<Rightarrow> if item_valid req then share_write rt now x req ?s else (Inl unprocessable, ?s)) = (r, s')"
    using assms by (simp add: share_request_def bindi_def split: sum.splits option.splits if_splits)
  show thesis
  proof (cases "\<exists>x. q = Inr (Some x) \<and> item_valid req \<and> permitted x req")
    case False
    have no: "snd (share_write rt now x req ?s) = ?s" if "\<not> permitted x req" for x
      by (rule share_write_run [of rt now x req]) (use that in simp)
    have "s' = ?s"
    proof (cases q)
      case (Inr o')
      then show ?thesis using False run no by (cases o') (auto split: if_splits dest: arg_cong [where f = snd])
    qed (use run in simp)
    then show thesis by (rule refused) (use resolve_share_frame [OF res] in auto)
  next
    case True
    then obtain x where x: "q = Inr (Some x)" "item_valid req" "permitted x req" by blast
    have "share_write rt now x req ?s = (r, s')" using run x by simp
    then have "run_item rt (share_entry now x) req ?s = (r, s')"
      by (rule_tac share_write_run [of rt now x req]) (use x(3) in simp)
    then show thesis using admitted h x(1,3) res by simp
  qed
qed

text \<open>A permitted request reaches the calendars of the sharing user alone.\<close>

lemma share_request_confined:
  assumes "share_request rt now header req s = (r, s')"
  shows "db_users (ap_db s') = db_users (ap_db s) \<and> db_accounts (ap_db s') = db_accounts (ap_db s)
    \<and> db_calendars (ap_db s') = db_calendars (ap_db s) \<and> db_tokens (ap_db s') = db_tokens (ap_db s)
    \<and> (ap_world s' \<noteq> ap_world s \<longrightarrow>
        (\<exists>secret x d. header = Some secret \<and> resolve_share (rt_cr rt) (e_tz (rt_env rt)) now secret (ap_db s) = (Inr (Some x), d)
          \<and> permitted x req
          \<and> (\<forall>c \<in> set (named_calendars req). \<exists>cal a. (cal, a) \<in> set (owned_calendars (ap_db s) (x_user x)) \<and> c_id cal = c)))"
proof (rule share_request_cases [OF assms])
  fix secret x d
  assume h: "header = Some secret" and p: "permitted x req"
    and res: "resolve_share (rt_cr rt) (e_tz (rt_env rt)) now secret (ap_db s) = (Inr (Some x), d)"
    and run: "run_item rt (share_entry now x) req (s\<lparr>ap_db := d\<rparr>) = (r, s')"
  have same: "db_users d = db_users (ap_db s)" "db_accounts d = db_accounts (ap_db s)"
    "db_calendars d = db_calendars (ap_db s)" "db_tokens d = db_tokens (ap_db s)"
    using resolve_share_frame [OF res] by auto
  obtain w where w: "s' = s\<lparr>ap_db := d, ap_world := w\<rparr>"
    using run_item_worldly [of rt "share_entry now x" req] run unfolding worldly_def by (metis snd_conv)
  have own: "owned_calendars d u = owned_calendars (ap_db s) u" for u
    using same by (simp add: owned_calendars_def)
  have "\<exists>cal a. (cal, a) \<in> set (owned_calendars (ap_db s) (x_user x)) \<and> c_id cal = c"
    if "c \<in> set (named_calendars req)" "ap_world s' \<noteq> ap_world s" for c
  proof -
    have "owned_calendar d (x_user x) c \<noteq> None"
    proof
      assume "owned_calendar d (x_user x) c = None"
      then have "still (run_item rt (share_entry now x) req) (s\<lparr>ap_db := d\<rparr>)"
        by (intro foreign_request_still [OF that(1)]) (simp add: share_entry_def)
      then show False using run that(2) by (simp add: still_def)
    qed
    then show ?thesis using owned_calendarD [of d "x_user x" c] own by (metis option.exhaust prod.exhaust)
  qed
  then show ?thesis using w same h res p by auto
qed simp

text \<open>The requests that are about no item that exists.\<close>

fun creates :: "item_req \<Rightarrow> bool" where
  "creates (PostEvent b) = True"
| "creates (PostTask b) = True"
| "creates (PostJournal b) = True"
| "creates _ = False"

lemma permitted_creates:
  "permitted x req \<longleftrightarrow> x_mode x = ''rw'' \<and> (\<forall>c \<in> set (named_calendars req). has_id c (x_writable x))
    \<and> (x_kind x = ''item'' \<longrightarrow> creates req \<or> (\<exists>uid. named_uid req = Some uid \<and> x_item_uid x = JStr uid))"
  by (cases req) (auto simp: permitted_def)

text \<open>C5: Holding a link gives what it grants and no more, with one exception. A writing request under a
  secret touches the CalDAV side only if the secret resolves, at that moment, to a read-write share in
  whose writable calendars every calendar of the request lies (the source of a move included), all of
  them still calendars of the sharing user, and, where the share is of a single item, the request is
  about that item or creates a new one; and a well-formed request that fulfils this is run as the
  sharing user's own. The exception is the creation: the documents limit the link of a single item to
  that item, the code lets it create any number of others in the calendar. The rows of users,
  accounts, calendars and tokens never change.\<close>

theorem share_write_confined:
  assumes "share_request rt now header req s = (r, s')"
  shows "db_users (ap_db s') = db_users (ap_db s) \<and> db_accounts (ap_db s') = db_accounts (ap_db s)
    \<and> db_calendars (ap_db s') = db_calendars (ap_db s) \<and> db_tokens (ap_db s') = db_tokens (ap_db s)
    \<and> (ap_world s' \<noteq> ap_world s \<longrightarrow>
        (\<exists>secret x d. header = Some secret \<and> resolve_share (rt_cr rt) (e_tz (rt_env rt)) now secret (ap_db s) = (Inr (Some x), d)
          \<and> x_mode x = ''rw'' \<and> (\<forall>c \<in> set (named_calendars req). has_id c (x_writable x)
              \<and> (\<exists>cal a. (cal, a) \<in> set (owned_calendars (ap_db s) (x_user x)) \<and> c_id cal = c))
          \<and> (x_kind x = ''item'' \<longrightarrow> creates req \<or> (\<exists>uid. named_uid req = Some uid \<and> x_item_uid x = JStr uid))))
    \<and> (\<forall>secret x d. header = Some secret \<longrightarrow> secret \<noteq> [] \<longrightarrow>
        resolve_share (rt_cr rt) (e_tz (rt_env rt)) now secret (ap_db s) = (Inr (Some x), d) \<longrightarrow> item_valid req \<longrightarrow> x_mode x = ''rw'' \<longrightarrow>
        (\<forall>c \<in> set (named_calendars req). has_id c (x_writable x)) \<longrightarrow>
        (x_kind x = ''item'' \<longrightarrow> creates req \<or> (\<exists>uid. named_uid req = Some uid \<and> x_item_uid x = JStr uid)) \<longrightarrow>
          run_item rt (share_entry now x) req (s\<lparr>ap_db := d\<rparr>) = (r, s'))"
proof -
  have served: "run_item rt (share_entry now x) req (s\<lparr>ap_db := d\<rparr>) = (r, s')"
    if "header = Some secret" "secret \<noteq> []" "resolve_share (rt_cr rt) (e_tz (rt_env rt)) now secret (ap_db s) = (Inr (Some x), d)"
      "item_valid req" "permitted x req" for secret x d
  proof (rule share_write_run [of rt now x req])
    fix err assume "share_write rt now x req = (if permitted x req then run_item rt (share_entry now x) req else raisei err)"
    then show ?thesis
      using that assms by (simp add: share_request_def get_share_context_def present_def on_db_def bindi_def)
  qed
  have "db_users (ap_db s') = db_users (ap_db s) \<and> db_accounts (ap_db s') = db_accounts (ap_db s)
    \<and> db_calendars (ap_db s') = db_calendars (ap_db s) \<and> db_tokens (ap_db s') = db_tokens (ap_db s)
    \<and> (ap_world s' \<noteq> ap_world s \<longrightarrow>
        (\<exists>secret x d. header = Some secret \<and> resolve_share (rt_cr rt) (e_tz (rt_env rt)) now secret (ap_db s) = (Inr (Some x), d)
          \<and> permitted x req
          \<and> (\<forall>c \<in> set (named_calendars req). \<exists>cal a. (cal, a) \<in> set (owned_calendars (ap_db s) (x_user x)) \<and> c_id cal = c)))"
    by (rule share_request_confined [OF assms])
  then show ?thesis using served unfolding permitted_creates by blast
qed

text \<open>A read-write share of the sample event.\<close>

definition item_share_row :: "bytes \<Rightarrow> bytes \<Rightarrow> bytes \<Rightarrow> share" where
  "item_share_row sha blob n = (sample_share_row sha blob n)\<lparr>sh_kind := ''item''\<rparr>"

definition item_share_ctx :: share_ctx where
  "item_share_ctx = (no_ctx sample_dek ''item'' ''rw'' None)\<lparr>x_share := 3, x_user := 7, x_item_uid := JStr ''u1'',
     x_item_kind := JStr ''event'', x_item_calendar := JInt 10, x_readable := [JInt 10], x_writable := [JInt 10]\<rparr>"

lemma item_share_resolves:
  obtains ss ss' where "resolve_share sample_crypto sample_tz 0 ''s3cret'' (sample_routes_db\<lparr>db_shares := ss\<rparr>)
    = (Inr (Some item_share_ctx), sample_routes_db\<lparr>db_shares := ss'\<rparr>)"
proof -
  let ?scope = "ItemScope ''u1'' ''event'' 10"
  let ?p = "share_payload sample_tz sample_dek ''rw'' None ?scope [(10, True)] None"
  have "length (derive_token_key sample_crypto ''s3cret'') = 32" using crypto_okD(2) [OF sample_crypto_ok] by blast
  then obtain c where "cr_seal sample_crypto (derive_token_key sample_crypto ''s3cret'') (replicate 12 5) (encode_text (dumps ?p)) = Inr c"
    using sealed_exists [OF sample_crypto_ok, of "derive_token_key sample_crypto ''s3cret''" "replicate 12 5"] by auto
  then have m: "mint_share sample_crypto sample_tz ''s3cret'' (replicate 12 5) sample_dek ''rw'' None ?scope [(10, True)] None
      = Inr (''s3cret'', digest_of sample_crypto ''s3cret'', c, replicate 12 5)"
    by (simp add: mint_share_def share_modes_def share_kinds_def seal_payload_def wrap_dek_def)
  let ?row = "item_share_row (digest_of sample_crypto ''s3cret'') c (replicate 12 5)"
  have "bytes_ok sample_dek" by code_simp
  then have "resolve_share sample_crypto sample_tz 0 ''s3cret'' (sample_routes_db\<lparr>db_shares := [?row]\<rparr>)
      = (Inr (Some item_share_ctx), touch_share 0 ?row (sample_routes_db\<lparr>db_shares := [?row]\<rparr>))"
    using minted_share_resolves [OF sample_crypto_ok _ _ _ m, of "sample_routes_db\<lparr>db_shares := [?row]\<rparr>" ?row 0]
    by (simp add: item_share_row_def sample_share_row_def item_share_ctx_def no_ctx_def expired_def expiry_ok_def)
  then show thesis by (intro that [of "[?row]"]) (simp add: touch_share_def)
qed

theorem share_write_confined_witness:
  "\<exists>ss s'. share_request sample_rt 0 (Some ''s3cret'') (remove_event 10) (routes_app (sample_routes_db\<lparr>db_shares := ss\<rparr>)) = (Inr None, s')
     \<and> w_dav (ap_world s') = [] \<and> db_accounts (ap_db s') = db_accounts sample_routes_db
     \<and> (\<exists>x :: share_ctx. x_mode x = ''rw'' \<and> has_id 10 (x_writable x) \<and> (\<exists>cal a. (cal, a) \<in> set (owned_calendars sample_routes_db (x_user x)) \<and> c_id cal = 10))"
proof -
  obtain ss ss' where r: "resolve_share sample_crypto sample_tz 0 ''s3cret'' (sample_routes_db\<lparr>db_shares := ss\<rparr>)
      = (Inr (Some item_share_ctx), sample_routes_db\<lparr>db_shares := ss'\<rparr>)" by (rule item_share_resolves)
  let ?s = "routes_app (sample_routes_db\<lparr>db_shares := ss\<rparr>)" and ?s1 = "routes_app (sample_routes_db\<lparr>db_shares := ss'\<rparr>)"
  let ?reply = "share_write sample_rt 0 item_share_ctx (remove_event 10) ?s1"
  have rt: "rt_cr sample_rt = sample_crypto" "e_tz (rt_env sample_rt) = sample_tz" "named_calendars (remove_event 10) = [10]"
    "item_valid (remove_event 10)"
    by (simp_all add: sample_rt_def sample_env_def remove_event_def item_valid_def)
  have own: "owned_calendars (ap_db ?s) u = owned_calendars sample_routes_db u" for u
    by (simp add: routes_app_def owned_calendars_def)
  have "get_share_context sample_crypto sample_tz 0 (Some ''s3cret'') ?s = (Inr item_share_ctx, ?s1)"
    using r by (simp add: get_share_context_def present_def bindi_def on_db_def routes_app_def)
  then have req: "share_request sample_rt 0 (Some ''s3cret'') (remove_event 10) ?s = ?reply"
    by (simp add: share_request_def bindi_def rt)
  have "fst ?reply = Inr None" "w_dav (ap_world (snd ?reply)) = []" by code_simp+
  then obtain s' where run: "share_request sample_rt 0 (Some ''s3cret'') (remove_event 10) ?s = (Inr None, s')" and w: "w_dav (ap_world s') = []"
    unfolding req by (metis prod.collapse)
  have "w_dav (ap_world ?s) \<noteq> []" by (simp add: routes_app_def)
  then have ne: "ap_world s' \<noteq> ap_world ?s" using w by metis
  note C = share_write_confined [OF run]
  obtain x :: share_ctx where "x_mode x = ''rw''" and c: "\<forall>c \<in> set (named_calendars (remove_event 10)). has_id c (x_writable x)
      \<and> (\<exists>cal a. (cal, a) \<in> set (owned_calendars (ap_db ?s) (x_user x)) \<and> c_id cal = c)"
    using C [THEN conjunct2, THEN conjunct2, THEN conjunct2, THEN conjunct2, THEN conjunct1, THEN mp, OF ne] by blast
  moreover have "has_id 10 (x_writable x) \<and> (\<exists>cal a. (cal, a) \<in> set (owned_calendars (ap_db ?s) (x_user x)) \<and> c_id cal = 10)"
    using c unfolding rt(3) by (rule bspec) simp
  moreover have "db_accounts (ap_db s') = db_accounts sample_routes_db" using C by (simp add: routes_app_def)
  ultimately show ?thesis using run w unfolding own by (intro exI [of _ ss] exI [of _ s']) auto
qed

end
