(* ===== verification/Holidays.thy ===== *)
theory Holidays
  imports PyCal Login "HOL-Library.List_Lexorder"
begin

text \<open>
  Out-of-work days (\<open>holidays.py\<close>, \<open>routers/holidays.py\<close>): the definitions with the years they are in
  force, the fixed Easter table, the holidays of a year and of a range, and the route that marks the days
  of a range for the country a user chose.
\<close>

section \<open>Definitions\<close>

datatype hkind = Fixed int int | Easter int   \<comment> \<open>month and day, or days from Easter Sunday\<close>

record holiday_def =
  h_country :: string
  h_key :: string
  h_kind :: hkind
  h_from :: "int option"
  h_to :: "int option"

definition supported_countries :: "string list" where
  "supported_countries = [''none'', ''CZ'']"

text \<open>The date literals, as month and day of the year.\<close>

definition easter_sunday :: "(int \<times> int \<times> int) list" where
  "easter_sunday = [
    (2000, 4, 23), (2001, 4, 15), (2002, 3, 31), (2003, 4, 20), (2004, 4, 11), (2005, 3, 27), (2006, 4, 16),
    (2007, 4, 8), (2008, 3, 23), (2009, 4, 12), (2010, 4, 4), (2011, 4, 24), (2012, 4, 8), (2013, 3, 31),
    (2014, 4, 20), (2015, 4, 5), (2016, 3, 27), (2017, 4, 16), (2018, 4, 1), (2019, 4, 21), (2020, 4, 12),
    (2021, 4, 4), (2022, 4, 17), (2023, 4, 9), (2024, 3, 31), (2025, 4, 20), (2026, 4, 5), (2027, 3, 28),
    (2028, 4, 16), (2029, 4, 1), (2030, 4, 21), (2031, 4, 13), (2032, 3, 28), (2033, 4, 17), (2034, 4, 9),
    (2035, 3, 25), (2036, 4, 13), (2037, 4, 5), (2038, 4, 25), (2039, 4, 10), (2040, 4, 1), (2041, 4, 21),
    (2042, 4, 6), (2043, 3, 29), (2044, 4, 17), (2045, 4, 9), (2046, 3, 25), (2047, 4, 14), (2048, 4, 5),
    (2049, 4, 18), (2050, 4, 10), (2051, 4, 2), (2052, 4, 21), (2053, 4, 6), (2054, 3, 29), (2055, 4, 18),
    (2056, 4, 2), (2057, 4, 22), (2058, 4, 14), (2059, 3, 30), (2060, 4, 18), (2061, 4, 10), (2062, 3, 26),
    (2063, 4, 15), (2064, 4, 6), (2065, 3, 29), (2066, 4, 11), (2067, 4, 3), (2068, 4, 22), (2069, 4, 14),
    (2070, 3, 30), (2071, 4, 19), (2072, 4, 10), (2073, 3, 26), (2074, 4, 15), (2075, 4, 7), (2076, 4, 19),
    (2077, 4, 11), (2078, 4, 3), (2079, 4, 23), (2080, 4, 7), (2081, 3, 30), (2082, 4, 19), (2083, 4, 4),
    (2084, 3, 26), (2085, 4, 15), (2086, 3, 31), (2087, 4, 20), (2088, 4, 11), (2089, 4, 3), (2090, 4, 16),
    (2091, 4, 8), (2092, 3, 30), (2093, 4, 12), (2094, 4, 4), (2095, 4, 24), (2096, 4, 15), (2097, 3, 31),
    (2098, 4, 20), (2099, 4, 12), (2100, 3, 28)]"

definition weekend_days :: "string \<Rightarrow> int list" where
  "weekend_days country = (if country = ''CZ'' then [0, 6] else [])"

definition cz :: "string \<Rightarrow> hkind \<Rightarrow> int option \<Rightarrow> holiday_def" where
  "cz key k since = \<lparr>h_country = ''CZ'', h_key = ''holiday.cz.'' @ key, h_kind = k, h_from = since, h_to = None\<rparr>"

definition holiday_defs :: "holiday_def list" where
  "holiday_defs = [cz ''new_year'' (Fixed 1 1) None, cz ''good_friday'' (Easter (- 2)) (Some 2016),
     cz ''easter_monday'' (Easter 1) None, cz ''labour_day'' (Fixed 5 1) None, cz ''liberation'' (Fixed 5 8) None,
     cz ''ss_cyril_methodius'' (Fixed 7 5) None, cz ''jan_hus'' (Fixed 7 6) None, cz ''st_wenceslas'' (Fixed 9 28) None,
     cz ''independence'' (Fixed 10 28) None, cz ''velvet'' (Fixed 11 17) None, cz ''christmas_eve'' (Fixed 12 24) None,
     cz ''christmas'' (Fixed 12 25) None, cz ''boxing_day'' (Fixed 12 26) None]"

definition applicable :: "string \<Rightarrow> int \<Rightarrow> holiday_def list" where
  "applicable country year =
     filter (\<lambda>d. h_country d = country
        \<and> (case h_from d of None \<Rightarrow> True | Some y \<Rightarrow> y \<le> year)
        \<and> (case h_to d of None \<Rightarrow> True | Some y \<Rightarrow> year \<le> y)) holiday_defs"

text \<open>One definition in one year: its date, if any (Easter outside the table is skipped).\<close>

definition resolve_def :: "int \<Rightarrow> holiday_def \<Rightarrow> (string \<times> string) option res" where
  "resolve_def year d =
     (case h_kind d of
        Fixed m day \<Rightarrow> Inr (Some (pad4 year @ ''-'' @ pad2 m @ ''-'' @ pad2 day, h_key d))
      | Easter off \<Rightarrow>
          (case map_of easter_sunday year of
             None \<Rightarrow> Inr None
           | Some (m, day) \<Rightarrow> bindr (mk_date year m day) (\<lambda>n.
               if ord_ok (n + off) then Inr (Some (iso_date (n + off), h_key d)) else Inl OverflowError)))"

definition holidays_for_year :: "string \<Rightarrow> int \<Rightarrow> (string \<times> string) list res" where
  "holidays_for_year country year =
     bindr (mapr (resolve_def year) (applicable country year)) (\<lambda>hs.
       Inr (sort_key (map ccode \<circ> fst) (concat (map (\<lambda>h. case h of None \<Rightarrow> [] | Some x \<Rightarrow> [x]) hs))))"

text \<open>The holidays of a range as a dictionary: the years from the first to the last, the later of two on
  one date winning.\<close>

definition in_range :: "int \<Rightarrow> int \<Rightarrow> string \<times> string \<Rightarrow> (string \<times> string) list \<Rightarrow> (string \<times> string) list res" where
  "in_range start end h acc =
     bindr (parse_iso_date (fst h)) (\<lambda>n.
       Inr (if start \<le> n \<and> n \<le> end then AList.update (fst h) (snd h) acc else acc))"

fun foldr_res :: "('a \<Rightarrow> 'b \<Rightarrow> 'b res) \<Rightarrow> 'a list \<Rightarrow> 'b \<Rightarrow> 'b res" where
  "foldr_res f [] acc = Inr acc"
| "foldr_res f (x # xs) acc = bindr (f x acc) (foldr_res f xs)"

definition year_in_range :: "string \<Rightarrow> int \<Rightarrow> int \<Rightarrow> int \<Rightarrow> (string \<times> string) list \<Rightarrow> (string \<times> string) list res" where
  "year_in_range country start end year acc =
     bindr (holidays_for_year country year) (\<lambda>hs. foldr_res (in_range start end) hs acc)"

text \<open>The loop over the years, with its test and its step; \<open>None\<close> stands for a loop that never ends.\<close>

partial_function (option) year_loop ::
  "string \<Rightarrow> int \<Rightarrow> int \<Rightarrow> int \<Rightarrow> (string \<times> string) list \<Rightarrow> (string \<times> string) list res option"
where
  "year_loop country start end year acc =
     (if year \<le> year_of end then
        (case year_in_range country start end year acc of
           Inl e \<Rightarrow> Some (Inl e)
         | Inr acc' \<Rightarrow> year_loop country start end (year + 1) acc')
      else Some (Inr acc))"

definition holidays_for_range :: "string \<Rightarrow> int \<Rightarrow> int \<Rightarrow> (string \<times> string) list res option" where
  "holidays_for_range country start end =
     (if end < start then Some (Inr []) else year_loop country start end (year_of start) [])"

section \<open>The route\<close>

record day_row =
  dr_date :: string
  dr_kind :: string
  dr_key :: string

definition mark_day :: "(string \<times> string) list \<Rightarrow> int list \<Rightarrow> int \<Rightarrow> day_row list" where
  "mark_day hols wknd n =
     (let js_dow = (weekday n + 1) mod 7; day = iso_date n in
      case map_of hols day of
        Some key \<Rightarrow> [\<lparr>dr_date = day, dr_kind = ''holiday'', dr_key = key\<rparr>]
      | None \<Rightarrow> if js_dow \<in> set wknd then [\<lparr>dr_date = day, dr_kind = ''weekend'', dr_key = ''holiday.weekend''\<rparr>] else [])"

text \<open>The loop over the days, with its test and its step as they are, so that \<open>None\<close> stands for a loop that
  never ends; the step past the last date a date can hold raises.\<close>

partial_function (option) mark_days ::
  "(string \<times> string) list \<Rightarrow> int list \<Rightarrow> int \<Rightarrow> int \<Rightarrow> day_row list \<Rightarrow> day_row list res option"
where
  "mark_days hols wknd end cur out =
     (if cur \<le> end then
        let out' = out @ mark_day hols wknd cur in
        if ord_ok (cur + 1) then mark_days hols wknd end (cur + 1) out' else Some (Inl OverflowError)
      else Some (Inr out))"

definition marked_range :: "string \<Rightarrow> int \<Rightarrow> int \<Rightarrow> day_row list res option" where
  "marked_range country start end =
     (case holidays_for_range country start end of
        None \<Rightarrow> None
      | Some (Inl e) \<Rightarrow> Some (Inl e)
      | Some (Inr hols) \<Rightarrow> mark_days hols (weekend_days country) end start [])"

text \<open>The route; a value of \<open>None\<close> is an answer that never comes.\<close>

definition get_holidays :: "int \<Rightarrow> string option \<Rightarrow> string \<Rightarrow> string \<Rightarrow> ('s app, day_row list option) io" where
  "get_holidays now cookie from till =
     bindi (get_unrestricted_session now cookie) (\<lambda>e.
     bindi (ask ap_db) (\<lambda>d.
       let s = prefs_of d (s_user e);
           enabled = (case s of None \<Rightarrow> False | Some p \<Rightarrow> p_holidays p);
           country = (case s of None \<Rightarrow> ''none'' | Some p \<Rightarrow> if p_country p = [] then ''none'' else p_country p) in
       if \<not> enabled \<or> country = ''none'' then reti (Some [])
       else case (parse_iso_date from, parse_iso_date till) of
         (Inr start, Inr end) \<Rightarrow>
           if end < start then reti (Some [])
           else (case marked_range country start end of
                   None \<Rightarrow> reti None
                 | Some r \<Rightarrow> bindi (liftr r) (\<lambda>rows. reti (Some rows)))
       | _ \<Rightarrow> reti (Some [])))"

section \<open>The Easter table\<close>

text \<open>The Gregorian computus (the anonymous algorithm of Meeus, Jones and Butcher).\<close>

definition computus :: "int \<Rightarrow> int \<times> int" where
  "computus y =
     (let a = y mod 19; b = y div 100; c = y mod 100; d = b div 4; e = b mod 4; f = (b + 8) div 25;
          g = (b - f + 1) div 3; h = (19 * a + b - d - g + 15) mod 30; i = c div 4; k = c mod 4;
          l = (32 + 2 * e + 2 * i - h - k) mod 7; m = (a + 11 * h + 22 * l) div 451;
          n = h + l - 7 * m + 114 in
      (n div 31, n mod 31 + 1))"

lemma easter_entries:
  "list_all (\<lambda>(y, md). computus y = md) easter_sunday"
  "map fst easter_sunday = [2000..2100]"
  by code_simp+

lemma easter_years: "y \<in> fst ` set easter_sunday \<longleftrightarrow> 2000 \<le> y \<and> y \<le> 2100"
  unfolding set_map [symmetric] easter_entries(2) set_upto atLeastAtMost_iff by (rule refl)

text \<open>The hard-coded table of Easter Sundays is right: for every year from 2000 to 2100 it holds the
  date the Gregorian computus gives, and for no other year anything.\<close>

theorem easter_table_correct:
  "map_of easter_sunday y =
    (if 2000 \<le> y \<and> y \<le> 2100 then Some (computus y) else None)"
proof (cases "map_of easter_sunday y")
  case None
  then have "y \<notin> fst ` set easter_sunday" by (simp add: map_of_eq_None_iff)
  then show ?thesis using None unfolding easter_years by auto
next
  case (Some s)
  then have m: "(y, s) \<in> set easter_sunday" by (rule map_of_SomeD)
  then have "2000 \<le> y \<and> y \<le> 2100" using easter_years by force
  moreover have "computus y = s"
    using m easter_entries(1) by (auto simp: list_all_iff)
  ultimately show ?thesis using Some by simp
qed

section \<open>Ranges\<close>

lemma foldr_res_rel:
  assumes "foldr_res f xs acc = Inr acc'" and "\<And>x a a'. x \<in> set xs \<Longrightarrow> f x a = Inr a' \<Longrightarrow> R {x} a a'"
    and "\<And>a. R {} a a" and "\<And>X Y a b c. R X a b \<Longrightarrow> R Y b c \<Longrightarrow> R (X \<union> Y) a c"
  shows "R (set xs) acc acc'"
  using assms(1,2)
proof (induction xs arbitrary: acc)
  case Nil
  then show ?case using assms(3) by simp
next
  case (Cons x xs)
  then obtain b where "f x acc = Inr b" "foldr_res f xs b = Inr acc'" by (auto simp: bindr_eq_Inr)
  then have "R {x} acc b" "R (set xs) b acc'" using Cons by auto
  from assms(4) [OF this] show ?case by simp
qed

text \<open>What a set of dated names adds to the dictionary: nothing else, and each of its dates in the range.\<close>

definition adds :: "(string \<Rightarrow> bool) \<Rightarrow> (string \<times> string) set \<Rightarrow> (string \<times> string) list \<Rightarrow> (string \<times> string) list \<Rightarrow> bool" where
  "adds P X acc acc' \<longleftrightarrow>
     (\<forall>x k. map_of acc' x = Some k \<longrightarrow> (x, k) \<in> X \<and> P x \<or> map_of acc x = Some k)
   \<and> (\<forall>x. (map_of acc x \<noteq> None \<or> (\<exists>k. (x, k) \<in> X) \<and> P x) \<longrightarrow> map_of acc' x \<noteq> None)"

lemma adds_refl: "adds P {} a a"
  by (simp add: adds_def)

lemma adds_trans: "adds P X a b \<Longrightarrow> adds P Y b c \<Longrightarrow> adds P (X \<union> Y) a c"
  unfolding adds_def by blast

definition dated_in :: "int \<Rightarrow> int \<Rightarrow> string \<Rightarrow> bool" where
  "dated_in start end x \<longleftrightarrow> (\<exists>n. parse_iso_date x = Inr n \<and> start \<le> n \<and> n \<le> end)"

lemma in_range_adds:
  assumes "in_range start end h acc = Inr acc'"
  shows "adds (dated_in start end) {h} acc acc'"
proof -
  obtain x k where h: "h = (x, k)" by (cases h)
  obtain n where n: "parse_iso_date x = Inr n" and a: "acc' = (if start \<le> n \<and> n \<le> end then AList.update x k acc else acc)"
    using assms by (auto simp: in_range_def h bindr_eq_Inr)
  show ?thesis
  proof (cases "start \<le> n \<and> n \<le> end")
    case True
    then have "map_of acc' = (map_of acc)(x \<mapsto> k)" using a by (simp add: update_conv')
    then show ?thesis using True n by (auto simp: adds_def h dated_in_def)
  next
    case False
    then have "acc' = acc" "\<not> dated_in start end x" using a n by (auto simp: dated_in_def)
    then show ?thesis by (auto simp: adds_def h)
  qed
qed

text \<open>The dated names in force in a year.\<close>

definition in_force :: "string \<Rightarrow> int \<Rightarrow> (string \<times> string) set" where
  "in_force country year = {h. \<exists>d \<in> set (applicable country year). resolve_def year d = Inr (Some h)}"

lemma mapr_set: "mapr f xs = Inr rs \<Longrightarrow> set rs = {y. \<exists>x \<in> set xs. f x = Inr y}"
proof (induction xs arbitrary: rs)
  case (Cons x xs)
  then obtain y ys where "f x = Inr y" "mapr f xs = Inr ys" "rs = y # ys" by (auto simp: bindr_eq_Inr)
  with Cons.IH [of ys] show ?case by auto
qed simp

lemma year_in_force: "holidays_for_year country year = Inr hs \<Longrightarrow> set hs = in_force country year"
proof -
  assume "holidays_for_year country year = Inr hs"
  then obtain rs where m: "mapr (resolve_def year) (applicable country year) = Inr rs"
    and s: "set hs = set (concat (map (\<lambda>h. case h of None \<Rightarrow> [] | Some x \<Rightarrow> [x]) rs))"
    by (auto simp: holidays_for_year_def bindr_eq_Inr)
  have "set (concat (map (\<lambda>h. case h of None \<Rightarrow> [] | Some x \<Rightarrow> [x]) rs)) = {h. Some h \<in> set rs}"
    by (induction rs) (auto split: option.splits)
  with s have hs: "set hs = {h. Some h \<in> set rs}" by simp
  have "Some h \<in> set rs \<longleftrightarrow> h \<in> in_force country year" for h
    unfolding in_force_def mapr_set [OF m] by simp
  then show ?thesis using hs by auto
qed

lemma year_loop_run:
  "year_loop country start end year acc = Some (foldr_res (year_in_range country start end) [year..year_of end] acc)"
proof (induction "nat (year_of end + 1 - year)" arbitrary: year acc)
  case 0
  then show ?case by (subst year_loop.simps) simp
next
  case (Suc k)
  then have le: "year \<le> year_of end" by simp
  have "year_loop country start end (year + 1) a = Some (foldr_res (year_in_range country start end) [year + 1..year_of end] a)" for a
    by (rule Suc.hyps(1)) (use Suc.hyps(2) in simp)
  then show ?case using le by (subst year_loop.simps) (simp add: upto_rec1 [OF le] split: sum.split)
qed

text \<open>The holidays of a range are those in force, each on its date: the dictionary names exactly the
  dates from the first to the last day, both included, on which some definition of the country that
  is in force in its year falls, under the name of such a definition; an empty range has none.\<close>

theorem holidays_of_range:
  assumes "holidays_for_range country start end = Some (Inr hols)"
  shows "(\<forall>x k. map_of hols x = Some k \<longrightarrow> start \<le> end \<and> dated_in start end x
            \<and> (\<exists>y. year_of start \<le> y \<and> y \<le> year_of end \<and> (x, k) \<in> in_force country y))
    \<and> (\<forall>y x k. year_of start \<le> y \<longrightarrow> y \<le> year_of end \<longrightarrow> (x, k) \<in> in_force country y \<longrightarrow> dated_in start end x \<longrightarrow>
         map_of hols x \<noteq> None)"
proof (cases "end < start")
  case True
  then show ?thesis using assms by (auto simp: holidays_for_range_def dated_in_def)
next
  case False
  let ?R = "\<lambda>Y. adds (dated_in start end) (\<Union>y \<in> Y. in_force country y)"
  let ?f = "year_in_range country start end"
  have step: "?R {y} a a'" if year: "?f y a = Inr a'" for y a a'
  proof -
    obtain hs where h: "holidays_for_year country y = Inr hs" "foldr_res (in_range start end) hs a = Inr a'"
      using year by (auto simp: year_in_range_def bindr_eq_Inr)
    have "adds (dated_in start end) (set hs) a a'"
      by (rule foldr_res_rel [OF h(2), of "adds (dated_in start end)"]) (auto intro: in_range_adds adds_refl adds_trans)
    then show ?thesis using year_in_force [OF h(1)] by simp
  qed
  have "foldr_res ?f [year_of start..year_of end] [] = Inr hols"
    using assms False by (simp add: holidays_for_range_def year_loop_run)
  then have "?R (set [year_of start..year_of end]) [] hols"
    by (rule foldr_res_rel) (use step adds_refl adds_trans in \<open>auto simp: UN_Un\<close>)
  then show ?thesis using False by (fastforce simp: adds_def)
qed

lemma mark_days_run:
  "ord_ok cur \<Longrightarrow> ord_ok end \<Longrightarrow> cur \<le> end + 1 \<Longrightarrow> mark_days hols wknd end cur out =
     Some (if end < MAXORD then Inr (out @ concat (map (mark_day hols wknd) [cur..end])) else Inl OverflowError)"
proof (induction "nat (end + 1 - cur)" arbitrary: cur out)
  case 0
  then show ?case by (subst mark_days.simps) (simp add: ord_ok_def)
next
  case (Suc k)
  then have le: "cur \<le> end" by simp
  show ?case
  proof (cases "ord_ok (cur + 1)")
    case True
    then have "mark_days hols wknd end (cur + 1) (out @ mark_day hols wknd cur) =
        Some (if end < MAXORD then Inr ((out @ mark_day hols wknd cur) @ concat (map (mark_day hols wknd) [cur + 1..end])) else Inl OverflowError)"
      using Suc.hyps Suc.prems le by (intro Suc.hyps(1)) auto
    then show ?thesis using le True by (subst mark_days.simps) (simp add: upto_rec1 [OF le])
  next
    case False
    then have "\<not> end < MAXORD" using Suc.prems le by (simp add: ord_ok_def)
    then show ?thesis using le False by (subst mark_days.simps) simp
  qed
qed

text \<open>Every definition has a date in every year, and every such date reads back.\<close>

lemma fixed_dates: "m \<in> {1..12} \<Longrightarrow> 1 \<le> day \<Longrightarrow> day \<le> 28 \<Longrightarrow> days_in_month y m \<ge> day"
proof -
  assume m: "m \<in> {1..12}" and d: "day \<le> 28"
  have "nat (m - 1) < 12" using m by (auto simp: nat_less_iff)
  then have "nat (m - 1) < length (month_lengths (is_leap y))" by (simp add: month_lengths_def)
  then have "days_in_month y m \<in> set (month_lengths (is_leap y))" unfolding days_in_month_def by (rule nth_mem)
  then show ?thesis using d by (auto simp: month_lengths_def split: if_splits)
qed

definition resolves :: "int \<Rightarrow> holiday_def \<Rightarrow> bool" where
  "resolves year d \<longleftrightarrow> (case resolve_def year d of
     Inl e \<Rightarrow> False | Inr None \<Rightarrow> True | Inr (Some (x, k)) \<Rightarrow> \<exists>n. parse_iso_date x = Inr n)"

lemma fixed_resolves:
  assumes "h_kind d = Fixed m day" and "1 \<le> m" "m \<le> 12" "1 \<le> day" "day \<le> 28" and "1 \<le> year" "year \<le> 9999"
  shows "resolves year d"
proof -
  have "mk_date year m day = Inr (ymd2ord year m day)" using assms fixed_dates [of m day year] by (simp add: mk_date_def)
  from parse_iso_date_ymd [OF this] show ?thesis using assms by (simp add: resolves_def resolve_def_def)
qed

lemma easter_offsets:
  "list_all (\<lambda>(y, m, d). case mk_date y m d of Inl e \<Rightarrow> False | Inr n \<Rightarrow> ord_ok (n - 2) \<and> ord_ok (n + 1)) easter_sunday"
  by code_simp

lemma easter_resolves:
  assumes "h_kind d = hkind.Easter off" and "off \<in> {- 2, 1}"
  shows "resolves year d"
proof (cases "map_of easter_sunday year")
  case None
  then show ?thesis using assms by (simp add: resolves_def resolve_def_def)
next
  case (Some md)
  obtain m day where md: "md = (m, day)" by (cases md)
  have "(year, m, day) \<in> set easter_sunday" using map_of_SomeD [OF Some] md by simp
  then have "case mk_date year m day of Inl e \<Rightarrow> False | Inr n \<Rightarrow> ord_ok (n - 2) \<and> ord_ok (n + 1)"
    using easter_offsets by (auto simp: list_all_iff)
  then obtain n where n: "mk_date year m day = Inr n" "ord_ok (n + off)"
    using assms(2) by (auto split: sum.splits)
  then show ?thesis using assms Some md parse_iso_date_iso_date [OF n(2)] by (simp add: resolves_def resolve_def_def)
qed

lemma all_resolve:
  assumes "d \<in> set holiday_defs" and "1 \<le> year" "year \<le> 9999"
  shows "resolves year d"
proof -
  have "(\<exists>m day. h_kind d = Fixed m day \<and> 1 \<le> m \<and> m \<le> 12 \<and> 1 \<le> day \<and> day \<le> 28) \<or> (\<exists>off. h_kind d = hkind.Easter off \<and> off \<in> {- 2, 1})"
    using assms(1) by (auto simp: holiday_defs_def cz_def)
  then show ?thesis using fixed_resolves easter_resolves assms(2,3) by blast
qed

lemma holidays_for_year_total:
  assumes "1 \<le> year" and "year \<le> 9999"
  obtains hs where "holidays_for_year country year = Inr hs" and "\<forall>h \<in> set hs. \<exists>n. parse_iso_date (fst h) = Inr n"
proof -
  have d: "resolves year d" if "d \<in> set (applicable country year)" for d
    using that all_resolve [OF _ assms] by (simp add: applicable_def)
  have "\<exists>rs. mapr (resolve_def year) xs = Inr rs \<and> (\<forall>x k. Some (x, k) \<in> set rs \<longrightarrow> (\<exists>n. parse_iso_date x = Inr n))"
    if "\<forall>d \<in> set xs. resolves year d" for xs
    using that
  proof (induction xs)
    case (Cons d xs)
    then show ?case by (cases "resolve_def year d") (auto simp: resolves_def split: option.splits)
  qed simp
  then obtain rs where rs: "mapr (resolve_def year) (applicable country year) = Inr rs"
    "\<And>x k. Some (x, k) \<in> set rs \<Longrightarrow> \<exists>n. parse_iso_date x = Inr n" using d by meson
  show thesis
  proof (rule that)
    show "holidays_for_year country year = Inr (sort_key (map ccode \<circ> fst) (concat (map (\<lambda>h. case h of None \<Rightarrow> [] | Some x \<Rightarrow> [x]) rs)))"
      using rs(1) by (simp add: holidays_for_year_def)
    show "\<forall>h \<in> set (sort_key (map ccode \<circ> fst) (concat (map (\<lambda>h. case h of None \<Rightarrow> [] | Some x \<Rightarrow> [x]) rs))). \<exists>n. parse_iso_date (fst h) = Inr n"
      using rs(2) by (auto split: option.splits)
  qed
qed

lemma foldr_res_total:
  "(\<And>x acc. x \<in> set xs \<Longrightarrow> \<exists>r. f x acc = Inr r) \<Longrightarrow> \<exists>r. foldr_res f xs acc = Inr r"
proof (induction xs arbitrary: acc)
  case (Cons x xs)
  obtain b where "f x acc = Inr b" using Cons.prems [of x acc] by auto
  then show ?case using Cons by simp
qed simp

lemma holidays_for_range_total:
  assumes "ord_ok start" and "ord_ok end"
  shows "\<exists>hols. holidays_for_range country start end = Some (Inr hols)"
proof -
  have y: "1 \<le> year \<and> year \<le> 9999" if "year \<in> set [year_of start..year_of end]" for year
    using that mk_date_ord2ymd(2,3) [OF assms(1) year_month_day] mk_date_ord2ymd(2,3) [OF assms(2) year_month_day] by auto
  have r: "\<exists>r. in_range start end h acc = Inr r" if "\<exists>n. parse_iso_date (fst h) = Inr n" for h acc
    using that by (auto simp: in_range_def)
  have "\<exists>r. year_in_range country start end year acc = Inr r"
    if "year \<in> set [year_of start..year_of end]" for year acc
  proof (rule holidays_for_year_total)
    show "1 \<le> year" "year \<le> 9999" using y [OF that] by simp_all
    fix hs assume h: "holidays_for_year country year = Inr hs" "\<forall>h \<in> set hs. \<exists>n. parse_iso_date (fst h) = Inr n"
    have "\<exists>r. foldr_res (in_range start end) hs acc = Inr r" by (rule foldr_res_total) (use h(2) r in blast)
    then show "\<exists>r. year_in_range country start end year acc = Inr r" using h(1) by (simp add: year_in_range_def)
  qed
  then have "\<exists>r. foldr_res (year_in_range country start end) [year_of start..year_of end] [] = Inr r" by (intro foldr_res_total)
  then show ?thesis by (simp add: holidays_for_range_def year_loop_run)
qed

text \<open>C40: The loop over the days of a range always ends: for any two dates and any country the holidays are
  computed, and the loop returns, with every day from the first to the last marked once and in order, a
  holiday by its name and any other day of the weekend as such; only where the range ends on the last
  day a date can hold does the step past it raise.\<close>

theorem marked_range_days:
  assumes "ord_ok start" and "ord_ok end"
  shows "\<exists>hols. holidays_for_range country start end = Some (Inr hols) \<and> marked_range country start end =
    Some (if end < MAXORD then Inr (concat (map (mark_day hols (weekend_days country)) [start..end])) else Inl OverflowError)"
proof -
  obtain hols where "holidays_for_range country start end = Some (Inr hols)" using holidays_for_range_total [OF assms(1,2)] by blast
  moreover have "mark_days hols (weekend_days country) end start [] = Some (Inr []) \<and> end < MAXORD" if "end < start" for hols
    using that assms by (subst mark_days.simps) (simp add: ord_ok_def)
  ultimately show ?thesis
    using assms mark_days_run [of start "end" hols "weekend_days country" "[]"] by (cases "start \<le> end") (auto simp: marked_range_def)
qed

definition easter_week :: "(string \<times> string) list" where
  "easter_week = [(''2024-03-29'', ''holiday.cz.good_friday''), (''2024-04-01'', ''holiday.cz.easter_monday'')]"

lemma easter_week_2024: "holidays_for_range ''CZ'' 738973 738977 = Some (Inr easter_week)"   \<comment> \<open>2024-03-28 to 2024-04-01\<close>
proof -
  have "foldr_res (year_in_range ''CZ'' 738973 738977) [year_of 738973..year_of 738977] [] = Inr easter_week" by code_simp
  then show ?thesis by (simp add: holidays_for_range_def year_loop_run)
qed

theorem holidays_of_range_witness:
  "\<exists>y. year_of 738973 \<le> y \<and> (''2024-03-29'', ''holiday.cz.good_friday'') \<in> in_force ''CZ'' y"
  using holidays_of_range [OF easter_week_2024] by (force simp: easter_week_def)

theorem marked_range_days_witness:
  "marked_range ''CZ'' 738973 738977 = Some (Inr (concat (map (mark_day easter_week [0, 6]) [738973..738977])))
   \<and> marked_range ''none'' MAXORD MAXORD = Some (Inl OverflowError)"
  using marked_range_days [of 738973 738977 "''CZ''"] marked_range_days [of MAXORD MAXORD "''none''"] easter_week_2024
  by (simp add: ord_ok_def MAXORD_def weekend_days_def)

end
