(* ===== verification/Settings.thy ===== *)
theory Settings
  imports RouteSamples Holidays "HOL-Library.Char_ord"
begin

text \<open>
  The settings of a user (\<open>routers/settings.py\<close>): reading them with their defaults, checking and storing
  a partial update, and applying the change of auto-logout to the session of the request.
\<close>

section \<open>Allowed values\<close>

definition min_auto_logout :: int where "min_auto_logout = 60"
definition agenda_offset_max :: int where "agenda_offset_max = 3650"

definition valid_default_views :: "string list" where
  "valid_default_views = [''agenda'', ''dayGridMonth'', ''timeGridDay'', ''timeGridWeek'']"
definition valid_completed_task :: "string list" where "valid_completed_task = [''grayed'', ''hidden'']"
definition valid_undated_task :: "string list" where "valid_undated_task = [''agenda'', ''today'']"
definition valid_theme :: "string list" where "valid_theme = [''dark'', ''light'', ''system'']"
definition valid_language :: "string list" where "valid_language = [''autodetect'', ''czech'', ''english'']"
definition valid_holidays_country :: "string list" where "valid_holidays_country = supported_countries"

record prefs_in =
  pi_timezone :: "string option"
  pi_fdow :: "int option"
  pi_time_format :: "string option"
  pi_date_format :: "string option"
  pi_view :: "string option"
  pi_auto_logout :: "bool option"
  pi_logout_after :: "int option"
  pi_notify :: "bool option"
  pi_completed :: "string option"
  pi_undated :: "string option"
  pi_theme :: "string option"
  pi_language :: "string option"
  pi_double_click :: "bool option"
  pi_search_from :: "int option"
  pi_search_to :: "int option"
  pi_holidays :: "bool option"
  pi_country :: "string option"

section \<open>The routes\<close>

definition get_settings :: "entry \<Rightarrow> ('s app, prefs) io" where
  "get_settings e =
     bindi (ask ap_db) (\<lambda>d. reti (case prefs_of d (s_user e) of None \<Rightarrow> default_prefs | Some p \<Rightarrow> p))"

text \<open>A refusal names the field; the set of allowed values in the message is printed as Python prints a
  sorted list of strings.\<close>

fun joined :: "string \<Rightarrow> string list \<Rightarrow> string" where   \<comment> \<open>\<open>sep.join(xs)\<close>\<close>
  "joined sep [] = []"
| "joined sep [x] = x"
| "joined sep (x # y # ys) = x @ sep @ joined sep (y # ys)"

definition quoted_list :: "string list \<Rightarrow> string" where
  "quoted_list xs = ''['' @ joined '', '' (map (\<lambda>x. [CHR 0x27] @ x @ [CHR 0x27]) (sort xs)) @ '']''"

definition one_of :: "string \<Rightarrow> string list \<Rightarrow> string option \<Rightarrow> unit res" where
  "one_of name allowed v =
     (case v of None \<Rightarrow> Inr ()
      | Some x \<Rightarrow> if x \<in> set allowed then Inr () else Inl (http 422 (name @ '' must be one of '' @ quoted_list allowed)))"

definition offset_range :: "string \<Rightarrow> int option \<Rightarrow> unit res" where
  "offset_range name v =
     (case v of None \<Rightarrow> Inr ()
      | Some n \<Rightarrow> if 0 \<le> n \<and> n \<le> agenda_offset_max then Inr ()
                else Inl (http 422 (name @ '' must be between 0 and '' @ str_int agenda_offset_max)))"

definition check_prefs :: "prefs_in \<Rightarrow> unit res" where
  "check_prefs b =
     bindr (case pi_logout_after b of None \<Rightarrow> Inr ()
            | Some n \<Rightarrow> if n < min_auto_logout
                      then Inl (http 422 (''auto_logout_timeout_seconds must be >= '' @ str_int min_auto_logout)) else Inr ()) (\<lambda>_.
     bindr (one_of ''default_view'' valid_default_views (pi_view b)) (\<lambda>_.
     bindr (one_of ''completed_task_display'' valid_completed_task (pi_completed b)) (\<lambda>_.
     bindr (one_of ''undated_task_display'' valid_undated_task (pi_undated b)) (\<lambda>_.
     bindr (one_of ''holidays_country'' valid_holidays_country (pi_country b)) (\<lambda>_.
     bindr (one_of ''theme'' valid_theme (pi_theme b)) (\<lambda>_.
     bindr (one_of ''language'' valid_language (pi_language b)) (\<lambda>_.
     bindr (offset_range ''agenda_search_from_days'' (pi_search_from b)) (\<lambda>_.
       offset_range ''agenda_search_to_days'' (pi_search_to b)))))))))"

definition given :: "'a option \<Rightarrow> 'a \<Rightarrow> 'a" where
  "given v old = (case v of None \<Rightarrow> old | Some x \<Rightarrow> x)"

text \<open>The fields given replace the stored ones; notifications force auto-logout off.\<close>

definition merged_prefs :: "prefs_in \<Rightarrow> prefs \<Rightarrow> prefs" where
  "merged_prefs b s =
     (let s' = \<lparr>p_timezone = given (pi_timezone b) (p_timezone s), p_fdow = given (pi_fdow b) (p_fdow s),
          p_time_format = given (pi_time_format b) (p_time_format s), p_date_format = given (pi_date_format b) (p_date_format s),
          p_view = given (pi_view b) (p_view s), p_auto_logout = given (pi_auto_logout b) (p_auto_logout s),
          p_logout_after = given (pi_logout_after b) (p_logout_after s), p_notify = given (pi_notify b) (p_notify s),
          p_completed = given (pi_completed b) (p_completed s), p_undated = given (pi_undated b) (p_undated s),
          p_theme = given (pi_theme b) (p_theme s), p_language = given (pi_language b) (p_language s),
          p_double_click = given (pi_double_click b) (p_double_click s),
          p_search_from = given (pi_search_from b) (p_search_from s), p_search_to = given (pi_search_to b) (p_search_to s),
          p_holidays = given (pi_holidays b) (p_holidays s), p_country = given (pi_country b) (p_country s)\<rparr>
      in if p_notify s' then s'\<lparr>p_auto_logout := False\<rparr> else s')"

text \<open>A user without a row gets one, with the defaults of the columns where nothing is given.\<close>

definition put_settings :: "string option \<Rightarrow> entry \<Rightarrow> prefs_in \<Rightarrow> ('s app, prefs) io" where
  "put_settings cookie e b =
     bindi (liftr (check_prefs b)) (\<lambda>_.
     bindi (ask ap_db) (\<lambda>d.
       let p = merged_prefs b (case prefs_of d (s_user e) of None \<Rightarrow> default_prefs | Some s \<Rightarrow> s) in
       bindi (commit (d\<lparr>db_prefs := AList.update (s_user e) p (db_prefs d)\<rparr>)) (\<lambda>_.
       bindi (if present cookie
              then on_store (\<lambda>st. ((), update_session (the cookie)
                     (\<lambda>s. s\<lparr>s_idle := (if \<not> p_auto_logout p then Never else Seconds (p_logout_after p))\<rparr>) st))
              else reti ()) (\<lambda>_. reti p))))"

section \<open>What is stored\<close>

definition prefs_ok :: "prefs \<Rightarrow> bool" where
  "prefs_ok p \<longleftrightarrow> min_auto_logout \<le> p_logout_after p \<and> p_view p \<in> set valid_default_views
     \<and> p_completed p \<in> set valid_completed_task \<and> p_undated p \<in> set valid_undated_task
     \<and> p_country p \<in> set valid_holidays_country \<and> p_theme p \<in> set valid_theme \<and> p_language p \<in> set valid_language
     \<and> 0 \<le> p_search_from p \<and> p_search_from p \<le> agenda_offset_max \<and> 0 \<le> p_search_to p \<and> p_search_to p \<le> agenda_offset_max
     \<and> (p_notify p \<longrightarrow> \<not> p_auto_logout p)"

definition all_prefs_ok :: "db \<Rightarrow> bool" where
  "all_prefs_ok d \<longleftrightarrow> (\<forall>u p. prefs_of d u = Some p \<longrightarrow> prefs_ok p)"

lemma one_of_ok: "one_of name allowed v = Inr u \<longleftrightarrow> (\<forall>x. v = Some x \<longrightarrow> x \<in> set allowed)"
  by (auto simp: one_of_def split: option.split)

lemma offset_range_ok: "offset_range name v = Inr u \<longleftrightarrow> (\<forall>n. v = Some n \<longrightarrow> 0 \<le> n \<and> n \<le> agenda_offset_max)"
  by (auto simp: offset_range_def split: option.split)

lemma check_prefs_ok:
  "check_prefs b = Inr () \<longleftrightarrow> (\<forall>n. pi_logout_after b = Some n \<longrightarrow> min_auto_logout \<le> n)
     \<and> (\<forall>x. pi_view b = Some x \<longrightarrow> x \<in> set valid_default_views)
     \<and> (\<forall>x. pi_completed b = Some x \<longrightarrow> x \<in> set valid_completed_task)
     \<and> (\<forall>x. pi_undated b = Some x \<longrightarrow> x \<in> set valid_undated_task)
     \<and> (\<forall>x. pi_country b = Some x \<longrightarrow> x \<in> set valid_holidays_country)
     \<and> (\<forall>x. pi_theme b = Some x \<longrightarrow> x \<in> set valid_theme)
     \<and> (\<forall>x. pi_language b = Some x \<longrightarrow> x \<in> set valid_language)
     \<and> (\<forall>n. pi_search_from b = Some n \<longrightarrow> 0 \<le> n \<and> n \<le> agenda_offset_max)
     \<and> (\<forall>n. pi_search_to b = Some n \<longrightarrow> 0 \<le> n \<and> n \<le> agenda_offset_max)"
  by (simp add: check_prefs_def bindr_eq_Inr one_of_ok offset_range_ok not_less split: option.split)

lemma merged_prefs_ok:
  assumes "check_prefs b = Inr ()" and "prefs_ok s"
  shows "prefs_ok (merged_prefs b s)"
proof -
  note c = assms(1) [unfolded check_prefs_ok]
  have "min_auto_logout \<le> given (pi_logout_after b) (p_logout_after s)"
    "given (pi_view b) (p_view s) \<in> set valid_default_views"
    "given (pi_completed b) (p_completed s) \<in> set valid_completed_task"
    "given (pi_undated b) (p_undated s) \<in> set valid_undated_task"
    "given (pi_country b) (p_country s) \<in> set valid_holidays_country"
    "given (pi_theme b) (p_theme s) \<in> set valid_theme" "given (pi_language b) (p_language s) \<in> set valid_language"
    "0 \<le> given (pi_search_from b) (p_search_from s)" "given (pi_search_from b) (p_search_from s) \<le> agenda_offset_max"
    "0 \<le> given (pi_search_to b) (p_search_to s)" "given (pi_search_to b) (p_search_to s) \<le> agenda_offset_max"
    using c assms(2) by (auto simp: prefs_ok_def given_def split: option.split)
  then show ?thesis by (simp add: prefs_ok_def merged_prefs_def Let_def)
qed

lemma default_prefs_ok: "prefs_ok default_prefs"
  by (simp add: prefs_ok_def default_prefs_def min_auto_logout_def agenda_offset_max_def valid_default_views_def
      valid_completed_task_def valid_undated_task_def valid_holidays_country_def supported_countries_def valid_theme_def valid_language_def)

text \<open>C24: The stored settings stay within their bounds, whatever is asked for: a refused update changes
  nothing; an accepted one stores what it answers for the user of the session alone, with auto-logout
  off where notifications are on, and from then on the session of the request times out as the next
  login's would.\<close>

theorem settings_consistent:
  assumes "all_prefs_ok (ap_db s)" and "put_settings cookie e b s = (r, s')"
  shows "all_prefs_ok (ap_db s') \<and>
    (case r of
       Inl x \<Rightarrow> s' = s
     | Inr p \<Rightarrow> prefs_of (ap_db s') (s_user e) = Some p \<and> (\<forall>u. u \<noteq> s_user e \<longrightarrow> prefs_of (ap_db s') u = prefs_of (ap_db s) u)
         \<and> (\<forall>sid e0. cookie = Some sid \<and> sid \<noteq> [] \<and> map_of (st_sessions (ap_store s)) sid = Some e0 \<longrightarrow>
              map_of (st_sessions (ap_store s')) sid = Some (e0\<lparr>s_idle := idle_of g (Some p)\<rparr>)))"
proof (cases "check_prefs b")
  case (Inl x)
  then show ?thesis using assms by (auto simp: put_settings_def)
next
  case (Inr u)
  let ?p = "merged_prefs b (case prefs_of (ap_db s) (s_user e) of None \<Rightarrow> default_prefs | Some q \<Rightarrow> q)"
  let ?d = "(ap_db s)\<lparr>db_prefs := AList.update (s_user e) ?p (db_prefs (ap_db s))\<rparr>"
  have run: "r = Inr ?p" "ap_db s' = ?d"
    "ap_store s' = (if present cookie then update_session (the cookie)
       (\<lambda>t. t\<lparr>s_idle := (if \<not> p_auto_logout ?p then Never else Seconds (p_logout_after ?p))\<rparr>) (ap_store s) else ap_store s)"
    using assms(2) Inr by (cases "present cookie"; auto simp: put_settings_def Let_def bindi_def on_store_def)+
  have look: "prefs_of ?d u = (if u = s_user e then Some ?p else prefs_of (ap_db s) u)" for u
    by (simp add: prefs_of_def update_conv')
  have "prefs_ok ?p"
    using merged_prefs_ok [of b] Inr assms(1) default_prefs_ok by (auto simp: all_prefs_ok_def split: option.split)
  then have "all_prefs_ok ?d" using assms(1) unfolding all_prefs_ok_def look by auto
  moreover have "map_of (st_sessions (ap_store s')) sid = Some (e0\<lparr>s_idle := idle_of g (Some ?p)\<rparr>)"
    if "cookie = Some sid" "sid \<noteq> []" "map_of (st_sessions (ap_store s)) sid = Some e0" for sid e0
    using that run(3) by (simp add: present_def update_session_def put_session_def update_conv' idle_of_def)
  ultimately show ?thesis using run(1,2) look by auto
qed

text \<open>Notifications switch the auto-logout of the running session off; an unknown view is refused.\<close>

definition no_change :: prefs_in where
  "no_change = \<lparr>pi_timezone = None, pi_fdow = None, pi_time_format = None, pi_date_format = None, pi_view = None,
     pi_auto_logout = None, pi_logout_after = None, pi_notify = None, pi_completed = None, pi_undated = None, pi_theme = None,
     pi_language = None, pi_double_click = None, pi_search_from = None, pi_search_to = None, pi_holidays = None, pi_country = None\<rparr>"

theorem settings_consistent_witness:
  "\<exists>p s' s''. put_settings (Some ''sid'') owner_entry (no_change\<lparr>pi_notify := Some True\<rparr>) (routes_app sample_routes_db) = (Inr p, s')
     \<and> map_of (st_sessions (ap_store s')) ''sid'' = Some (owner_entry\<lparr>s_idle := Never\<rparr>)
     \<and> put_settings (Some ''sid'') owner_entry (no_change\<lparr>pi_view := Some ''year''\<rparr>) (routes_app sample_routes_db)
         = (Inl (http 422 ''default_view must be one of ['agenda', 'dayGridMonth', 'timeGridDay', 'timeGridWeek']''), s'')
     \<and> s'' = routes_app sample_routes_db"
proof -
  let ?s = "routes_app sample_routes_db"
  let ?on = "put_settings (Some ''sid'') owner_entry (no_change\<lparr>pi_notify := Some True\<rparr>) ?s"
  let ?bad = "put_settings (Some ''sid'') owner_entry (no_change\<lparr>pi_view := Some ''year''\<rparr>) ?s"
  have ok: "all_prefs_ok (ap_db ?s)"
    by (simp add: all_prefs_ok_def prefs_of_def routes_app_def sample_routes_db_def no_db_def)
  have "(case fst ?on of Inl x \<Rightarrow> False | Inr p \<Rightarrow> \<not> p_auto_logout p)" by code_simp
  then obtain p where p: "fst ?on = Inr p" "\<not> p_auto_logout p" by (cases "fst ?on") auto
  then have on: "?on = (Inr p, snd ?on)" by (metis prod.collapse)
  have sid: "map_of (st_sessions (ap_store ?s)) ''sid'' = Some owner_entry" by (simp add: routes_app_def)
  have "fst ?bad = Inl (http 422 ''default_view must be one of ['agenda', 'dayGridMonth', 'timeGridDay', 'timeGridWeek']'')" by code_simp
  then have bad: "?bad = (Inl (http 422 ''default_view must be one of ['agenda', 'dayGridMonth', 'timeGridDay', 'timeGridWeek']''), snd ?bad)"
    by (metis prod.collapse)
  have "map_of (st_sessions (ap_store (snd ?on))) ''sid'' = Some (owner_entry\<lparr>s_idle := Never\<rparr>)"
    using settings_consistent [OF ok on] sid p(2) by (auto simp: idle_of_def)
  moreover have "snd ?bad = ?s" using settings_consistent [OF ok bad] by simp
  ultimately show ?thesis using on bad by metis
qed

end
