(* ===== verification/Consistency.thy ===== *)
theory Consistency
  imports ShareRoutes Settings
begin

text \<open>
  What every commit keeps of the database: keys are unique, rows refer to rows that exist, no user has two
  default calendars, and the settings stay within their bounds; and what a commit on behalf of a user
  leaves alone, the rows of everybody else. The changes are those of the handlers, one lemma each.
\<close>

section \<open>The invariant\<close>

definition keys_ok :: "db \<Rightarrow> bool" where
  "keys_ok d \<longleftrightarrow> distinct (map u_id (db_users d)) \<and> distinct (map u_email (db_users d)) \<and> distinct (map a_id (db_accounts d))
     \<and> distinct (map c_id (db_calendars d)) \<and> distinct (map t_id (db_tokens d)) \<and> distinct (map sh_id (db_shares d))
     \<and> distinct (map fst (db_prefs d))"

definition links_ok :: "db \<Rightarrow> bool" where
  "links_ok d \<longleftrightarrow> c_account ` set (db_calendars d) \<subseteq> a_id ` set (db_accounts d)
     \<and> tc_token ` set (db_token_calendars d) \<subseteq> t_id ` set (db_tokens d)
     \<and> sc_share ` set (db_share_calendars d) \<subseteq> sh_id ` set (db_shares d)"

definition one_default :: "db \<Rightarrow> bool" where
  "one_default d \<longleftrightarrow> (\<forall>u c a c' a'. (c, a) \<in> set (owned_calendars d u) \<longrightarrow> (c', a') \<in> set (owned_calendars d u) \<longrightarrow>
     c_default c \<longrightarrow> c_default c' \<longrightarrow> c_id c = c_id c')"

definition db_ok :: "db \<Rightarrow> bool" where
  "db_ok d \<longleftrightarrow> keys_ok d \<and> links_ok d \<and> one_default d \<and> all_prefs_ok d"

lemmas db_ok_defs = db_ok_def keys_ok_def links_ok_def

lemma db_okD:
  assumes "db_ok d"
  shows "keys_ok d" "links_ok d" "one_default d" "all_prefs_ok d"
  using assms by (simp_all add: db_ok_def)

lemma linkedE:
  assumes "db_ok d" and "c \<in> set (db_calendars d)"
  obtains a where "a \<in> set (db_accounts d)" "a_id a = c_account c"
proof -
  have "c_account c \<in> a_id ` set (db_accounts d)" using assms by (auto simp: db_ok_defs)
  then show ?thesis using that by auto
qed

lemma image_rest: "k \<in> g ` B \<Longrightarrow> k \<notin> g ` {y \<in> B. P y} \<Longrightarrow> k \<in> g ` {y \<in> B. \<not> P y}"
  by blast

lemma one_default_mono:
  assumes "one_default d"
    and "\<And>u c a. (c, a) \<in> set (owned_calendars d' u) \<Longrightarrow> c_default c \<Longrightarrow> \<exists>b. (c, b) \<in> set (owned_calendars d u)"
  shows "one_default d'"
  unfolding one_default_def
proof (intro allI impI)
  fix u c a c' a'
  assume "(c, a) \<in> set (owned_calendars d' u)" "(c', a') \<in> set (owned_calendars d' u)" "c_default c" "c_default c'"
  with assms(2) obtain b b' where "(c, b) \<in> set (owned_calendars d u)" "(c', b') \<in> set (owned_calendars d u)" by blast
  with assms(1) \<open>c_default c\<close> \<open>c_default c'\<close> show "c_id c = c_id c'" unfolding one_default_def by blast
qed

lemma key_unique: "distinct (map f xs) \<Longrightarrow> x \<in> set xs \<Longrightarrow> y \<in> set xs \<Longrightarrow> f x = f y \<Longrightarrow> x = y"
  by (auto simp: distinct_map inj_on_def)

lemma owned_same:
  assumes "db_accounts d' = db_accounts d" and "db_calendars d' = db_calendars d"
  shows "owned_calendars d' = owned_calendars d"
  using assms by (simp add: owned_calendars_def fun_eq_iff)

lemma one_default_same: "owned_calendars d' = owned_calendars d \<Longrightarrow> one_default d' = one_default d"
  unfolding one_default_def by (simp only:)

section \<open>The rows of the others\<close>

text \<open>A change on behalf of a user: the rows of every other user, and what hangs on them, are as they were.\<close>

definition tokens_of :: "db \<Rightarrow> int \<Rightarrow> (api_token \<times> int list) list" where
  "tokens_of d v = map (\<lambda>t. (t, token_scope_rows d (t_id t))) (filter (\<lambda>t. t_user t = v) (db_tokens d))"

definition shares_of :: "db \<Rightarrow> int \<Rightarrow> (share \<times> share_calendar list) list" where
  "shares_of d v = map (\<lambda>s. (s, scope_rows d (sh_id s))) (filter (\<lambda>s. sh_user s = v) (db_shares d))"

definition others_kept :: "int \<Rightarrow> db \<Rightarrow> db \<Rightarrow> bool" where
  "others_kept u d d' \<longleftrightarrow> (\<forall>v. v \<noteq> u \<longrightarrow> user_of d' v = user_of d v
     \<and> filter (\<lambda>a. a_user a = v) (db_accounts d') = filter (\<lambda>a. a_user a = v) (db_accounts d)
     \<and> owned_calendars d' v = owned_calendars d v \<and> tokens_of d' v = tokens_of d v \<and> shares_of d' v = shares_of d v
     \<and> prefs_of d' v = prefs_of d v)"

lemma others_kept_refl: "others_kept u d d"
  by (simp add: others_kept_def)

lemma others_kept_trans: "others_kept u d d' \<Longrightarrow> others_kept u d' d'' \<Longrightarrow> others_kept u d d''"
  by (simp add: others_kept_def)

text \<open>A change of a user: the invariant, and the rows of the others.\<close>

definition own_change :: "int \<Rightarrow> db \<Rightarrow> db \<Rightarrow> bool" where
  "own_change u d d' \<longleftrightarrow> db_ok d' \<and> others_kept u d d'"

lemma own_changeI:
  assumes "keys_ok d'" "links_ok d'" "one_default d'" "all_prefs_ok d'"
    and "\<And>v. v \<noteq> u \<Longrightarrow> user_of d' v = user_of d v"
    and "\<And>v. v \<noteq> u \<Longrightarrow> filter (\<lambda>a. a_user a = v) (db_accounts d') = filter (\<lambda>a. a_user a = v) (db_accounts d)"
    and "\<And>v. v \<noteq> u \<Longrightarrow> owned_calendars d' v = owned_calendars d v"
    and "\<And>v. v \<noteq> u \<Longrightarrow> tokens_of d' v = tokens_of d v"
    and "\<And>v. v \<noteq> u \<Longrightarrow> shares_of d' v = shares_of d v"
    and "\<And>v. v \<noteq> u \<Longrightarrow> prefs_of d' v = prefs_of d v"
  shows "own_change u d d'"
  using assms by (simp add: own_change_def others_kept_def db_ok_def)

section \<open>Accounts and calendars\<close>

lemma concat_map_filter:
  "(\<And>x. x \<in> set xs \<Longrightarrow> \<not> Q x \<Longrightarrow> f x = []) \<Longrightarrow> concat (map f (filter Q xs)) = concat (map f xs)"
  by (induction xs) auto

lemma add_calendars:
  "\<exists>cs. fold (add_calendar aid) infos d = d\<lparr>db_calendars := db_calendars d @ cs\<rparr>
    \<and> (\<forall>c \<in> set cs. c_account c = aid \<and> c_enabled c \<and> \<not> c_default c) \<and> map c_caldav_id cs = map ci_id infos
    \<and> (distinct (map c_id (db_calendars d)) \<longrightarrow> distinct (map c_id (db_calendars d @ cs)))"
proof (induction infos arbitrary: d)
  case Nil
  show ?case by (rule exI [of _ "[]"]) simp
next
  case (Cons info infos)
  let ?c = "\<lparr>c_id = next_id (map c_id (db_calendars d)), c_account = aid, c_caldav_id = ci_id info, c_name = ci_name info,
    c_color = ci_color info, c_enabled = True, c_default = False\<rparr>"
  have fresh: "next_id (map c_id (db_calendars d)) \<notin> c_id ` set (db_calendars d)"
    using next_id_fresh [of _ "map c_id (db_calendars d)"] by force
  obtain cs where cs: "fold (add_calendar aid) infos (add_calendar aid info d)
      = (add_calendar aid info d)\<lparr>db_calendars := db_calendars (add_calendar aid info d) @ cs\<rparr>"
    "\<forall>c \<in> set cs. c_account c = aid \<and> c_enabled c \<and> \<not> c_default c" "map c_caldav_id cs = map ci_id infos"
    "distinct (map c_id (db_calendars (add_calendar aid info d))) \<longrightarrow> distinct (map c_id (db_calendars (add_calendar aid info d) @ cs))"
    using Cons.IH [of "add_calendar aid info d"] by blast
  have step: "add_calendar aid info d = d\<lparr>db_calendars := db_calendars d @ [?c]\<rparr>" by (simp add: add_calendar_def)
  show ?case
    using cs fresh by (intro exI [of _ "?c # cs"]) (auto simp: step)
qed

lemma add_account_change:
  assumes "db_ok d" and "a_id a = next_id (map a_id (db_accounts d))" and "a_user a = u"
  shows "own_change u d (add_account a infos d)"
proof -
  have fresh: "a_id b \<noteq> a_id a" if "b \<in> set (db_accounts d)" for b
    using that next_id_fresh [of "a_id b" "map a_id (db_accounts d)"] assms(2) by auto
  let ?e = "d\<lparr>db_accounts := db_accounts d @ [a]\<rparr>"
  let ?infos = "if infos \<noteq> [] then infos else [\<lparr>ci_id = a_url a, ci_name = a_username a, ci_color = ''#3788d8''\<rparr>]"
  have dist: "distinct (map c_id (db_calendars d))" using db_okD(1) [OF assms(1)] by (simp add: keys_ok_def)
  obtain cs where f: "fold (add_calendar (a_id a)) ?infos ?e = ?e\<lparr>db_calendars := db_calendars ?e @ cs\<rparr>"
    and c: "\<forall>c \<in> set cs. c_account c = a_id a \<and> c_enabled c \<and> \<not> c_default c" "map c_caldav_id cs = map ci_id ?infos"
      "distinct (map c_id (db_calendars ?e)) \<longrightarrow> distinct (map c_id (db_calendars ?e @ cs))"
    using add_calendars [of "a_id a" ?infos ?e] by (elim exE conjE) (rule that)
  have cs: "\<forall>c \<in> set cs. c_account c = a_id a \<and> \<not> c_default c" "distinct (map c_id (db_calendars d @ cs))"
    using c dist by simp_all
  have d': "add_account a infos d = ?e\<lparr>db_calendars := db_calendars d @ cs\<rparr>" using f unfolding add_account_def by simp
  have "c_account c \<noteq> a_id a" if "c \<in> set (db_calendars d)" for c
  proof -
    from linkedE [OF assms(1) that] obtain b where "b \<in> set (db_accounts d)" "a_id b = c_account c" by blast
    then show ?thesis using fresh by metis
  qed
  then have linked: "\<forall>c \<in> set (db_calendars d). c_account c \<noteq> a_id a" by blast
  show ?thesis
  proof (rule own_changeI)
    have "a_id a \<notin> a_id ` set (db_accounts d)" using fresh by (metis imageE)
    then show "keys_ok (add_account a infos d)" using db_okD(1) [OF assms(1)] cs(2) by (simp add: d' keys_ok_def)
    show "links_ok (add_account a infos d)" using db_okD(2) [OF assms(1)] cs(1) by (auto simp: d' links_ok_def)
    show "one_default (add_account a infos d)"
      by (rule one_default_mono [OF db_okD(3) [OF assms(1)]]) (use cs(1) linked in \<open>auto simp: d' owned_calendars_in\<close>)
    show "all_prefs_ok (add_account a infos d)" using db_okD(4) [OF assms(1)] by (simp add: d' all_prefs_ok_def prefs_of_def)
    fix v assume v: "v \<noteq> u"
    show "owned_calendars (add_account a infos d) v = owned_calendars d v"
      using v assms(3) cs(1) fresh by (auto simp: d' owned_calendars_def filter_empty_conv)
  qed (use assms(3) in \<open>auto simp: d' user_of_def tokens_of_def token_scope_rows_def shares_of_def scope_rows_def prefs_of_def\<close>)
qed

lemma drop_accounts_change:
  assumes "db_ok d" and "\<And>a. a \<in> set (db_accounts d) \<Longrightarrow> P a \<Longrightarrow> a_user a = u"
  shows "own_change u d (drop_accounts P d)"
proof -
  note keys = db_okD(1) [OF assms(1), unfolded keys_ok_def]
  have ids: "distinct (map a_id (db_accounts d))" using keys by blast
  have owned: "(c, a) \<in> set (owned_calendars (drop_accounts P d) w) \<Longrightarrow> (c, a) \<in> set (owned_calendars d w)" for c a w
    by (auto simp: owned_calendars_in drop_accounts_def)
  show ?thesis
  proof (rule own_changeI)
    show "keys_ok (drop_accounts P d)" using keys by (simp add: drop_accounts_def keys_ok_def distinct_map_filter)
    show "links_ok (drop_accounts P d)"
      using db_okD(2) [OF assms(1)] by (simp add: drop_accounts_def links_ok_def image_subset_iff image_rest)
    show "one_default (drop_accounts P d)" by (rule one_default_mono [OF db_okD(3) [OF assms(1)]]) (use owned in blast)
    show "all_prefs_ok (drop_accounts P d)" using db_okD(4) [OF assms(1)] by (simp add: drop_accounts_def all_prefs_ok_def prefs_of_def)
    fix v assume v: "v \<noteq> u"
    have same: "filter (\<lambda>a. a_id a = i \<and> a_user a = v) (filter (\<lambda>a. \<not> P a) (db_accounts d)) = filter (\<lambda>a. a_id a = i \<and> a_user a = v) (db_accounts d)" for i
      using v assms(2) by (auto intro!: filter_cong)
    have gone: "filter (\<lambda>a. a_id a = a_id b \<and> a_user a = v) (db_accounts d) = []" if "b \<in> set (db_accounts d)" "P b" for b
      using that v assms(2) [OF that] key_unique [OF ids _ that(1)] by (auto simp: filter_empty_conv)
    show "owned_calendars (drop_accounts P d) v = owned_calendars d v"
      unfolding owned_calendars_def drop_accounts_def Let_def
      by (simp add: same del: filter_filter) (rule concat_map_filter, auto simp: gone)
    show "filter (\<lambda>a. a_user a = v) (db_accounts (drop_accounts P d)) = filter (\<lambda>a. a_user a = v) (db_accounts d)"
      using v assms(2) by (auto simp: drop_accounts_def intro!: filter_cong)
  qed (simp_all add: drop_accounts_def user_of_def tokens_of_def token_scope_rows_def shares_of_def scope_rows_def prefs_of_def)
qed

lemma patched_change:
  assumes "db_ok d" and "owned_calendar d u cid \<noteq> None"
  shows "own_change u d (patched u cid p d)"
proof -
  note keys = db_okD(1) [OF assms(1), unfolded keys_ok_def]
  have cids: "distinct (map c_id (db_calendars d))" and aids: "distinct (map a_id (db_accounts d))" using keys by blast+
  obtain c0 a0 where own: "c0 \<in> set (db_calendars d)" "c_id c0 = cid" "a0 \<in> set (db_accounts d)" "a_id a0 = c_account c0" "a_user a0 = u"
    using assms(2) owned_calendarD [of d u cid] by (auto simp: owned_calendars_in)
  define others where "others = map (c_id \<circ> fst) (filter (\<lambda>(c, a). c_id c \<noteq> cid \<and> c_default c) (owned_calendars d u))"
  define f where "f c = (if c_id c = cid then patch_row p c
      else if cp_default p = Some True \<and> c_id c \<in> set others then c\<lparr>c_default := False\<rparr> else c)" for c
  have d': "patched u cid p d = d\<lparr>db_calendars := map f (db_calendars d)\<rparr>"
    by (simp add: patched_def f_def others_def Let_def)
  have f [simp]: "c_id (f c) = c_id c" "c_account (f c) = c_account c" for c by (simp_all add: f_def patch_row_def)
  have mine: "a_user a = u" if "c \<in> set (db_calendars d)" "f c \<noteq> c" "a \<in> set (db_accounts d)" "a_id a = c_account c" for c a
  proof -
    have "c_id c = cid \<or> (\<exists>x b. (x, b) \<in> set (owned_calendars d u) \<and> c_id x = c_id c)"
      using that(2) by (auto simp: f_def others_def split: if_split_asm)
    then have "c = c0 \<or> (\<exists>b. (c, b) \<in> set (owned_calendars d u))"
      using that(1) own(1,2) key_unique [OF cids] by (metis owned_calendars_in)
    then obtain b where "b \<in> set (db_accounts d)" "a_id b = c_account c" "a_user b = u"
      using own(3-5) by (auto simp: owned_calendars_in)
    then show ?thesis using key_unique [OF aids, of a b] that(3,4) by simp
  qed
  show ?thesis
  proof (rule own_changeI)
    show "keys_ok (patched u cid p d)" using keys by (simp add: d' keys_ok_def comp_def)
    show "links_ok (patched u cid p d)" using db_okD(2) [OF assms(1)] by (auto simp: d' links_ok_def)
    show "all_prefs_ok (patched u cid p d)" using db_okD(4) [OF assms(1)] by (simp add: d' all_prefs_ok_def prefs_of_def)
    fix v assume v: "v \<noteq> u"
    have "map (Pair (f c)) (filter (\<lambda>a. a_id a = c_account c \<and> a_user a = v) (db_accounts d))
        = map (Pair c) (filter (\<lambda>a. a_id a = c_account c \<and> a_user a = v) (db_accounts d))" if "c \<in> set (db_calendars d)" for c
      using mine [OF that] v by (cases "f c = c") (auto simp: filter_empty_conv)
    then show "owned_calendars (patched u cid p d) v = owned_calendars d v"
      by (auto simp: d' owned_calendars_def comp_def intro!: arg_cong [where f = concat])
  next
    show "one_default (patched u cid p d)"
      unfolding one_default_def
    proof (intro allI impI)
      fix w c a c' a'
      assume in': "(c, a) \<in> set (owned_calendars (patched u cid p d) w)" "(c', a') \<in> set (owned_calendars (patched u cid p d) w)"
        and def': "c_default c" "c_default c'"
      obtain b b' where b: "b \<in> set (db_calendars d)" "c = f b" "b' \<in> set (db_calendars d)" "c' = f b'"
        "(b, a) \<in> set (owned_calendars d w)" "(b', a') \<in> set (owned_calendars d w)"
        using in' by (auto simp: d' owned_calendars_in)
      have here: "c_id x = cid" if "cp_default p = Some True" "(x, y) \<in> set (owned_calendars d u)" "c_default (f x)" for x y
        using that by (force simp: f_def others_def split: if_split_asm)
      have old: "c_default x" if "cp_default p \<noteq> Some True \<or> w \<noteq> u" "(x, y) \<in> set (owned_calendars d w)" "c_default (f x)" for x y
        using that mine [of x y] by (cases "f x = x") (auto simp: f_def patch_row_def owned_calendars_in split: if_split_asm option.split_asm)
      show "c_id c = c_id c'"
      proof (cases "cp_default p \<noteq> Some True \<or> w \<noteq> u")
        case True
        then show ?thesis
          using old [OF _ b(5)] old [OF _ b(6)] def' b db_okD(3) [OF assms(1)] unfolding one_default_def by (metis f(1))
      next
        case False
        then show ?thesis using here [of b a] here [of b' a'] def' b by simp
      qed
    qed
  qed (simp_all add: d' user_of_def tokens_of_def token_scope_rows_def shares_of_def scope_rows_def prefs_of_def)
qed

section \<open>Tokens and shares\<close>

lemma scope_append [simp]:
  "token_scope_rows (d\<lparr>db_tokens := ts, db_token_calendars := db_token_calendars d @ rows\<rparr>) i
    = token_scope_rows d i @ map tc_calendar (filter (\<lambda>r. tc_token r = i) rows)"
  "scope_rows (d\<lparr>db_shares := ss, db_share_calendars := db_share_calendars d @ srows\<rparr>) i
    = scope_rows d i @ filter (\<lambda>r. sc_share r = i) srows"
  by (simp_all add: token_scope_rows_def scope_rows_def)

lemma add_token_change:
  assumes "db_ok d" and "t_id t = next_id (map t_id (db_tokens d))" and "t_user t = u"
  shows "own_change u d (d\<lparr>db_tokens := db_tokens d @ [t],
    db_token_calendars := db_token_calendars d @ map (\<lambda>i. \<lparr>tc_token = t_id t, tc_calendar = i\<rparr>) ids\<rparr>)" (is "own_change u d ?d")
proof -
  have fresh: "t_id r \<noteq> t_id t" if "r \<in> set (db_tokens d)" for r
    using that next_id_fresh [of "t_id r" "map t_id (db_tokens d)"] assms(2) by auto
  then have away: "\<forall>r \<in> set (db_tokens d). t_id t \<noteq> t_id r" by metis
  then have "t_id t \<notin> t_id ` set (db_tokens d)" by blast
  then have k: "keys_ok ?d" using db_okD(1) [OF assms(1)] by (simp add: keys_ok_def)
  have l: "links_ok ?d" using db_okD(2) [OF assms(1)] by (auto simp: links_ok_def)
  have o: "owned_calendars ?d = owned_calendars d" by (rule owned_same) simp_all
  show ?thesis
  proof (rule own_changeI [OF k l])
    show "one_default ?d" using db_okD(3) [OF assms(1)] by (simp only: one_default_same [OF o])
    show "tokens_of ?d v = tokens_of d v" if "v \<noteq> u" for v
      using that assms(3) away by (simp add: tokens_of_def filter_empty_conv)
  qed (use db_okD(4) [OF assms(1)] o in \<open>simp_all add: all_prefs_ok_def user_of_def shares_of_def scope_rows_def prefs_of_def\<close>)
qed

lemma drop_tokens_change:
  assumes "db_ok d" and "\<And>t. t \<in> set (db_tokens d) \<Longrightarrow> P t \<Longrightarrow> t_user t = u"
  shows "own_change u d (drop_tokens P d)"
proof -
  note keys = db_okD(1) [OF assms(1), unfolded keys_ok_def]
  have ids: "distinct (map t_id (db_tokens d))" using keys by blast
  have o: "owned_calendars (drop_tokens P d) = owned_calendars d" by (rule owned_same) (simp_all add: drop_tokens_def)
  show ?thesis
  proof (rule own_changeI)
    show "keys_ok (drop_tokens P d)" using keys by (simp add: drop_tokens_def keys_ok_def distinct_map_filter)
    show "links_ok (drop_tokens P d)" using db_okD(2) [OF assms(1)] by (simp add: drop_tokens_def links_ok_def image_subset_iff image_rest)
    show "one_default (drop_tokens P d)" using db_okD(3) [OF assms(1)] by (simp only: one_default_same [OF o])
    fix v assume v: "v \<noteq> u"
    have mine: "filter (\<lambda>t. t_user t = v) (filter (\<lambda>t. \<not> P t) (db_tokens d)) = filter (\<lambda>t. t_user t = v) (db_tokens d)"
      using v assms(2) by (auto intro!: filter_cong)
    have rows: "token_scope_rows (drop_tokens P d) (t_id t) = token_scope_rows d (t_id t)" if "t \<in> set (db_tokens d)" "t_user t = v" for t
    proof -
      have "\<forall>r \<in> set (db_tokens d). P r \<longrightarrow> t_id r \<noteq> t_id t"
        using that v assms(2) key_unique [OF ids that(1)] by metis
      then show ?thesis by (auto simp: token_scope_rows_def drop_tokens_def intro!: arg_cong [where f = "map tc_calendar"] filter_cong)
    qed
    have "tokens_of (drop_tokens P d) v = map (\<lambda>t. (t, token_scope_rows (drop_tokens P d) (t_id t))) (filter (\<lambda>t. t_user t = v) (db_tokens d))"
      unfolding tokens_of_def mine [symmetric] by (simp add: drop_tokens_def)
    also have "\<dots> = tokens_of d v" using rows by (simp add: tokens_of_def)
    finally show "tokens_of (drop_tokens P d) v = tokens_of d v" .
  qed (use db_okD(4) [OF assms(1)] o in \<open>simp_all add: drop_tokens_def all_prefs_ok_def user_of_def shares_of_def scope_rows_def prefs_of_def\<close>)
qed

lemma add_share_change:
  assumes "db_ok d" and "sh_id s = next_id (map sh_id (db_shares d))" and "sh_user s = u"
    and "\<forall>r \<in> set rows. sc_share r = sh_id s"
  shows "own_change u d (d\<lparr>db_shares := db_shares d @ [s], db_share_calendars := db_share_calendars d @ rows\<rparr>)" (is "own_change u d ?d")
proof -
  have fresh: "sh_id r \<noteq> sh_id s" if "r \<in> set (db_shares d)" for r
    using that next_id_fresh [of "sh_id r" "map sh_id (db_shares d)"] assms(2) by auto
  then have away: "\<forall>r \<in> set (db_shares d). sh_id s \<noteq> sh_id r" by metis
  then have "sh_id s \<notin> sh_id ` set (db_shares d)" by blast
  then have k: "keys_ok ?d" using db_okD(1) [OF assms(1)] by (simp add: keys_ok_def)
  have l: "links_ok ?d" using db_okD(2) [OF assms(1)] assms(4) by (auto simp: links_ok_def)
  have o: "owned_calendars ?d = owned_calendars d" by (rule owned_same) simp_all
  show ?thesis
  proof (rule own_changeI [OF k l])
    show "one_default ?d" using db_okD(3) [OF assms(1)] by (simp only: one_default_same [OF o])
    show "shares_of ?d v = shares_of d v" if "v \<noteq> u" for v
      using that assms(3,4) away by (simp add: shares_of_def filter_empty_conv)
  qed (use db_okD(4) [OF assms(1)] o in \<open>simp_all add: all_prefs_ok_def user_of_def tokens_of_def token_scope_rows_def prefs_of_def\<close>)
qed

lemma drop_shares_change:
  assumes "db_ok d" and "\<And>s. s \<in> set (db_shares d) \<Longrightarrow> P s \<Longrightarrow> sh_user s = u"
  shows "own_change u d (drop_shares P d)"
proof -
  note keys = db_okD(1) [OF assms(1), unfolded keys_ok_def]
  have ids: "distinct (map sh_id (db_shares d))" using keys by blast
  have o: "owned_calendars (drop_shares P d) = owned_calendars d" by (rule owned_same) (simp_all add: drop_shares_def)
  show ?thesis
  proof (rule own_changeI)
    show "keys_ok (drop_shares P d)" using keys by (simp add: drop_shares_def keys_ok_def distinct_map_filter)
    show "links_ok (drop_shares P d)" using db_okD(2) [OF assms(1)] by (simp add: drop_shares_def links_ok_def image_subset_iff image_rest)
    show "one_default (drop_shares P d)" using db_okD(3) [OF assms(1)] by (simp only: one_default_same [OF o])
    fix v assume v: "v \<noteq> u"
    have mine: "filter (\<lambda>s. sh_user s = v) (filter (\<lambda>s. \<not> P s) (db_shares d)) = filter (\<lambda>s. sh_user s = v) (db_shares d)"
      using v assms(2) by (auto intro!: filter_cong)
    have rows: "scope_rows (drop_shares P d) (sh_id s) = scope_rows d (sh_id s)" if "s \<in> set (db_shares d)" "sh_user s = v" for s
    proof -
      have "\<forall>r \<in> set (db_shares d). P r \<longrightarrow> sh_id r \<noteq> sh_id s"
        using that v assms(2) key_unique [OF ids that(1)] by metis
      then show ?thesis by (auto simp: scope_rows_def drop_shares_def intro!: filter_cong)
    qed
    have "shares_of (drop_shares P d) v = map (\<lambda>s. (s, scope_rows (drop_shares P d) (sh_id s))) (filter (\<lambda>s. sh_user s = v) (db_shares d))"
      unfolding shares_of_def mine [symmetric] by (simp add: drop_shares_def)
    also have "\<dots> = shares_of d v" using rows by (simp add: shares_of_def)
    finally show "shares_of (drop_shares P d) v = shares_of d v" .
  qed (use db_okD(4) [OF assms(1)] o in \<open>simp_all add: drop_shares_def all_prefs_ok_def user_of_def tokens_of_def token_scope_rows_def prefs_of_def\<close>)
qed

section \<open>Settings and users\<close>

lemma prefs_change:
  assumes "db_ok d" and "prefs_ok p"
  shows "own_change u d (d\<lparr>db_prefs := AList.update u p (db_prefs d)\<rparr>)" (is "own_change u d ?d")
proof -
  have o: "owned_calendars ?d = owned_calendars d" by (rule owned_same) simp_all
  have look: "prefs_of ?d v = (if v = u then Some p else prefs_of d v)" for v by (simp add: prefs_of_def update_conv')
  show ?thesis
  proof (rule own_changeI)
    show "keys_ok ?d" using db_okD(1) [OF assms(1)] by (simp add: keys_ok_def distinct_update)
    show "links_ok ?d" using db_okD(2) [OF assms(1)] by (simp add: links_ok_def)
    show "one_default ?d" using db_okD(3) [OF assms(1)] by (simp only: one_default_same [OF o])
    show "all_prefs_ok ?d" using db_okD(4) [OF assms(1)] assms(2) unfolding all_prefs_ok_def look by auto
  qed (simp_all add: o look user_of_def tokens_of_def token_scope_rows_def shares_of_def scope_rows_def)
qed

lemma map_update_first: "(\<And>x. f (g x) = f x) \<Longrightarrow> map f (update_first P g xs) = map f xs"
  by (induction xs) auto

lemma set_user_change:
  assumes "db_ok d" and "user_of d u = Some v" and "u_id w = u" and "u_email w = u_email v"
  shows "own_change u d (set_user w d)"
proof -
  have o: "owned_calendars (set_user w d) = owned_calendars d" by (rule owned_same) (simp_all add: set_user_def)
  have frame: "db_accounts (set_user w d) = db_accounts d" "db_calendars (set_user w d) = db_calendars d" "db_tokens (set_user w d) = db_tokens d"
    "db_token_calendars (set_user w d) = db_token_calendars d" "db_shares (set_user w d) = db_shares d"
    "db_share_calendars (set_user w d) = db_share_calendars d" "db_prefs (set_user w d) = db_prefs d"
    by (simp_all add: set_user_def)
  have ids: "map u_id (db_users (set_user w d)) = map u_id (db_users d)"
  proof -
    have "map u_id (update_first (\<lambda>x. u_id x = u_id w) (\<lambda>_. w) xs) = map u_id xs" for xs by (induction xs) auto
    then show ?thesis by (simp add: set_user_def)
  qed
  have mails: "map u_email (db_users (set_user w d)) = map u_email (db_users d)"
  proof -
    have "find (\<lambda>x. u_id x = u_id w) xs = Some v \<Longrightarrow> map u_email (update_first (\<lambda>x. u_id x = u_id w) (\<lambda>_. w) xs) = map u_email xs" for xs
      by (induction xs) (auto simp: assms(4) split: if_split_asm)
    then show ?thesis using assms(2,3) by (simp add: set_user_def user_of_def)
  qed
  have look: "user_of (set_user w d) x = user_of d x" if "x \<noteq> u" for x
  proof -
    have "find (\<lambda>y. u_id y = x) (update_first (\<lambda>y. u_id y = u_id w) (\<lambda>_. w) ys) = find (\<lambda>y. u_id y = x) ys" for ys
      using that assms(3) by (induction ys) auto
    then show ?thesis by (simp add: set_user_def user_of_def)
  qed
  show ?thesis
  proof (rule own_changeI)
    show "keys_ok (set_user w d)" using db_okD(1) [OF assms(1)] unfolding keys_ok_def ids mails by (simp add: frame)
    show "links_ok (set_user w d)" using db_okD(2) [OF assms(1)] by (simp add: links_ok_def frame)
    show "one_default (set_user w d)" using db_okD(3) [OF assms(1)] by (simp only: one_default_same [OF o])
    show "all_prefs_ok (set_user w d)" using db_okD(4) [OF assms(1)] by (simp add: all_prefs_ok_def prefs_of_def frame)
  qed (simp_all add: o look frame tokens_of_def token_scope_rows_def shares_of_def scope_rows_def prefs_of_def)
qed

text \<open>The use of a token or of a share is recorded in its row.\<close>

lemma touch_ok:
  assumes "db_ok d"
  shows "db_ok (touch_token now t d)" and "db_ok (touch_share now s d)"
proof -
  have t: "map t_id (db_tokens (touch_token now t d)) = map t_id (db_tokens d)" "t_id ` set (db_tokens (touch_token now t d)) = t_id ` set (db_tokens d)"
    and s: "map sh_id (db_shares (touch_share now s d)) = map sh_id (db_shares d)" "sh_id ` set (db_shares (touch_share now s d)) = sh_id ` set (db_shares d)"
    by (simp_all add: touch_token_def touch_share_def map_update_first flip: set_map)
  have o: "owned_calendars (touch_token now t d) = owned_calendars d" "owned_calendars (touch_share now s d) = owned_calendars d"
    by (rule owned_same; simp add: touch_token_def touch_share_def)+
  show "db_ok (touch_token now t d)"
    using assms t one_default_same [OF o(1)] by (simp add: db_ok_defs all_prefs_ok_def prefs_of_def) (simp add: touch_token_def)
  show "db_ok (touch_share now s d)"
    using assms s one_default_same [OF o(2)] by (simp add: db_ok_defs all_prefs_ok_def prefs_of_def) (simp add: touch_share_def)
qed

section \<open>Administration\<close>

lemma own_changeD: "own_change u d d' \<Longrightarrow> db_ok d'" "own_change u d d' \<Longrightarrow> others_kept u d d'"
  by (simp_all add: own_change_def)

lemma own_change_trans: "own_change u d d' \<Longrightarrow> own_change u d' d'' \<Longrightarrow> own_change u d d''"
  unfolding own_change_def using others_kept_trans by blast

lemma user_by_emailD:
  assumes "db_ok d" and "user_by_email d email = Some u"
  shows "u \<in> set (db_users d)" "u_email u = email" "user_of d (u_id u) = Some u"
proof -
  show u: "u \<in> set (db_users d)" "u_email u = email" using assms(2) unfolding user_by_email_def by (auto dest!: find_SomeD)
  have "distinct (map u_id (db_users d))" using assms(1) by (simp add: db_ok_defs)
  moreover have "distinct (map u_id xs) \<Longrightarrow> u \<in> set xs \<Longrightarrow> find (\<lambda>v. u_id v = u_id u) xs = Some u" for xs
    by (induction xs) force+
  ultimately show "user_of d (u_id u) = Some u" using u(1) by (simp add: user_of_def)
qed

lemma rekey_user_frame: "rekey_user cr g salt nonce password dek must u = Inr u' \<Longrightarrow> u_id u' = u_id u \<and> u_email u' = u_email u"
  by (auto simp: rekey_user_def bindr_eq_Inr)

lemma create_user_ok:
  assumes "db_ok d"
  shows "db_ok (snd (create_user cr g salt dek nonce email password d))"
proof (cases "user_by_email d email")
  case None
  have free: "email \<notin> u_email ` set (db_users d)"
    using None by (auto simp: user_by_email_def find_None_iff)
  have new: "next_id (map u_id (db_users d)) \<notin> u_id ` set (db_users d)"
    using next_id_fresh [of _ "map u_id (db_users d)"] by force
  show ?thesis
  proof (cases "provision_user cr g salt dek nonce email password d")
    case (Inr d')
    then obtain u where d': "d' = d\<lparr>db_users := db_users d @ [u]\<rparr>" and u: "u_id u = next_id (map u_id (db_users d))" "u_email u = email"
      by (auto simp: provision_user_def Let_def bindr_eq_Inr dest!: rekey_user_frame)
    have o: "owned_calendars d' = owned_calendars d" by (rule owned_same) (simp_all add: d')
    have "db_ok d'" using assms free new u one_default_same [OF o]
      by (simp add: db_ok_defs all_prefs_ok_def prefs_of_def) (simp add: d')
    then show ?thesis using None Inr by (simp add: create_user_def)
  qed (simp add: create_user_def None assms)
qed (simp add: create_user_def assms)

lemma reset_user_change:
  assumes "db_ok d" and "user_by_email d email = Some u"
  shows "own_change (u_id u) d (snd (reset_user cr g salt dek nonce email password d))"
proof -
  define d1 where "d1 = drop_accounts (\<lambda>a. a_user a = u_id u) d"
  define d2 where "d2 = drop_tokens (\<lambda>t. t_user t = u_id u) d1"
  have c1: "own_change (u_id u) d d1" unfolding d1_def by (rule drop_accounts_change [OF assms(1)])
  have c2: "own_change (u_id u) d d2" unfolding d2_def by (rule own_change_trans [OF c1 drop_tokens_change [OF own_changeD(1) [OF c1]]])
  show ?thesis
  proof (cases "rekey_user cr g salt nonce password dek True u")
    case (Inl x)
    then show ?thesis using assms by (simp add: reset_user_def own_change_def others_kept_refl flip: d1_def d2_def)
  next
    case (Inr w)
    have "user_of d2 (u_id u) = Some u"
      using user_by_emailD(3) [OF assms] by (simp add: d2_def d1_def drop_tokens_def drop_accounts_def user_of_def)
    then have "own_change (u_id u) d2 (set_user w d2)"
      using rekey_user_frame [OF Inr] by (intro set_user_change [OF own_changeD(1) [OF c2]]) auto
    then show ?thesis
      using own_change_trans [OF c2] Inr assms(2) by (simp add: reset_user_def flip: d1_def d2_def)
  qed
qed

lemma delete_user_change:
  assumes "db_ok d" and "user_by_email d email = Some u"
  shows "own_change (u_id u) d (snd (delete_user email d))"
proof -
  define d1 where "d1 = drop_accounts (\<lambda>a. a_user a = u_id u) d"
  define d2 where "d2 = drop_tokens (\<lambda>t. t_user t = u_id u) d1"
  define d3 where "d3 = drop_shares (\<lambda>s. sh_user s = u_id u) d2"
  have c1: "own_change (u_id u) d d1" unfolding d1_def by (rule drop_accounts_change [OF assms(1)])
  have c2: "own_change (u_id u) d d2" unfolding d2_def by (rule own_change_trans [OF c1 drop_tokens_change [OF own_changeD(1) [OF c1]]])
  have c3: "own_change (u_id u) d d3" unfolding d3_def by (rule own_change_trans [OF c2 drop_shares_change [OF own_changeD(1) [OF c2]]])
  note ok = own_changeD(1) [OF c3]
  define d4 where "d4 = d3\<lparr>db_prefs := filter (\<lambda>(i, p). i \<noteq> u_id u) (db_prefs d3), db_users := filter (\<lambda>v. u_id v \<noteq> u_id u) (db_users d3)\<rparr>"
  have o: "owned_calendars d4 = owned_calendars d3" by (rule owned_same) (simp_all add: d4_def)
  have p: "prefs_of d4 v = (if v = u_id u then None else prefs_of d3 v)" for v
  proof -
    have "map_of (filter (\<lambda>(i, p). i \<noteq> u_id u) xs) v = (if v = u_id u then None else map_of xs v)" for xs :: "(int \<times> prefs) list"
      by (induction xs) auto
    then show ?thesis by (simp add: d4_def prefs_of_def)
  qed
  have w: "user_of d4 v = user_of d3 v" if "v \<noteq> u_id u" for v
  proof -
    have "find (\<lambda>x. u_id x = v) (filter (\<lambda>x. u_id x \<noteq> u_id u) xs) = find (\<lambda>x. u_id x = v) xs" for xs
      using that by (induction xs) auto
    then show ?thesis by (simp add: d4_def user_of_def)
  qed
  have "own_change (u_id u) d3 d4"
  proof (rule own_changeI)
    show "keys_ok d4" using db_okD(1) [OF ok] by (simp add: keys_ok_def d4_def distinct_map_filter)
    show "links_ok d4" using db_okD(2) [OF ok] by (simp add: links_ok_def d4_def)
    show "one_default d4" using db_okD(3) [OF ok] by (simp only: one_default_same [OF o])
    show "all_prefs_ok d4" using db_okD(4) [OF ok] by (simp add: all_prefs_ok_def p)
  qed (simp_all add: o p w, simp_all add: d4_def tokens_of_def token_scope_rows_def shares_of_def scope_rows_def)
  moreover have "snd (delete_user email d) = d4"
    using assms(2) by (simp add: delete_user_def d4_def d3_def d2_def d1_def Let_def)
  ultimately show ?thesis using own_change_trans [OF c3] by simp
qed

end
