(* ===== verification/Mcp.thy ===== *)
theory Mcp
  imports RouteFacts
begin

text \<open>
  The MCP server (\<open>mcp_server.py\<close>): the tools an assistant calls with an API token, and the middleware
  that resolves the token of each request into the context the tools read. A tool takes the context,
  \<open>None\<close> where the request carried no valid token. Tool errors are HTTP-free: \<open>tool_error\<close> stands for
  \<open>ToolError\<close>, its message given; the text of a wrapped exception is a parameter. A body that fails its
  model's checks raises \<open>ValidationError\<close>, a \<open>ValueError\<close>.
\<close>

section \<open>Contexts\<close>

definition tool_error :: "string \<Rightarrow> exn" where "tool_error message = HTTPException 0 message"

definition not_authenticated :: string where
  "not_authenticated = ''Not authenticated. Send an 'Authorization: Bearer WebCalDav...' header with a token minted in the WebCalDav settings panel.''"

definition current :: "token_ctx option \<Rightarrow> token_ctx res" where   \<comment> \<open>\<open>_ctx\<close>\<close>
  "current c = (case c of None \<Rightarrow> Inl (tool_error not_authenticated) | Some x \<Rightarrow> Inr x)"

definition require_rw :: "token_ctx \<Rightarrow> unit res" where
  "require_rw x =
     (if tx_mode x \<noteq> ''rw''
      then Inl (tool_error ''This token is read-only (WebCalDavRO...). Use a read-write (WebCalDavRW...) token for this operation.'')
      else Inr ())"

definition token_entry :: "int \<Rightarrow> token_ctx \<Rightarrow> entry" where   \<comment> \<open>\<open>_entry\<close>\<close>
  "token_entry now x = \<lparr>s_user = tx_user x, s_dek = tx_dek x, s_last_seen = now, s_restricted = False, s_idle = UseDefault\<rparr>"

definition in_scope :: "token_ctx \<Rightarrow> int \<Rightarrow> bool" where
  "in_scope x cid \<longleftrightarrow> tx_all x \<or> has_id cid (case tx_calendars x of None \<Rightarrow> [] | Some ids \<Rightarrow> ids)"

definition check_scope :: "token_ctx \<Rightarrow> int \<Rightarrow> unit res" where
  "check_scope x cid =
     (if \<not> in_scope x cid then Inl (tool_error (''This token has no access to calendar '' @ str_int cid @ ''.'')) else Inr ())"

definition scoped_calendars :: "token_ctx \<Rightarrow> db \<Rightarrow> (calendar \<times> account) list" where
  "scoped_calendars x d = filter (\<lambda>(c, a). in_scope x (c_id c)) (enabled_calendars d (tx_user x))"

text \<open>\<open>_mcp_event\<close>: the exclusive end of an all-day event becomes its inclusive last day.\<close>

definition inclusive_end :: "tzdb \<Rightarrow> ev_dict \<Rightarrow> ev_dict res" where
  "inclusive_end tz it =
     (if ev_all_day it \<and> present (ev_end it) \<and> (case ev_kind it of ATask x \<Rightarrow> False | _ \<Rightarrow> True)
      then (case bindr (date_fromisoformat (take 10 (the (ev_end it)))) (\<lambda>d. tm_add d (- DAY)) of
              Inl e \<Rightarrow> if e = ValueError then Inr it else Inl e
            | Inr d \<Rightarrow> Inr (it\<lparr>ev_end := Some (isoformat tz d)\<rparr>))
      else Inr it)"

section \<open>Reading\<close>

text \<open>\<open>list_items\<close>. The listing keeps what was read when a later fetch, or the rewriting of an event's
  end, raises; \<open>extend\<close> over a generator has appended the events before the failing one.\<close>

fun appended :: "('a \<Rightarrow> 'b res) \<Rightarrow> 'a list \<Rightarrow> 'b list" where
  "appended f [] = []"
| "appended f (x # xs) = (case f x of Inl e \<Rightarrow> [] | Inr y \<Rightarrow> y # appended f xs)"

definition try_list :: "('s app, ev_dict list) io \<Rightarrow> ('s app, ev_dict list) io" where
  "try_list m = recover m []"

definition wanted :: "int list option \<Rightarrow> (calendar \<times> account) list \<Rightarrow> (calendar \<times> account) list" where
  "wanted ids rows = (case ids of None \<Rightarrow> rows | Some xs \<Rightarrow> filter (\<lambda>(c, a). c_id c \<in> set xs) rows)"

definition list_window :: "tm \<Rightarrow> string option \<Rightarrow> string option \<Rightarrow> (tm \<times> tm) res" where
  "list_window now time_min time_max =
     bindr (parse_dt time_min) (\<lambda>a.
     let from_dt = (case a of Some t \<Rightarrow> t | None \<Rightarrow> now) in
     bindr (parse_dt time_max) (\<lambda>b.
     bindr (case b of Some t \<Rightarrow> Inr t | None \<Rightarrow> tm_add from_dt (30 * DAY)) (\<lambda>to_dt.
       Inr (from_dt, to_dt))))"

definition items_of_calendar ::
  "('s, 'r) rt \<Rightarrow> token_ctx \<Rightarrow> string \<Rightarrow> tm \<Rightarrow> tm \<Rightarrow> calendar \<times> account \<Rightarrow> ev_dict list \<Rightarrow> ('s app, ev_dict list) io"
where
  "items_of_calendar rt x item_type from_dt to_dt row acc =
     (case row of (c, a) \<Rightarrow>
      bindi (liftr (password_of (rt_cr rt) (tx_dek x) a)) (\<lambda>pw.
      let fetch = (\<lambda>f. on_world (f (rt_dav rt) (rt_env rt) (conn_of a pw) (c_caldav_id c) from_dt to_dt (c_color c) (c_id c))) in
      bindi (if item_type \<in> {''events'', ''both''} then
               try_list (bindi (fetch fetch_events) (\<lambda>es. reti (appended (inclusive_end (e_tz (rt_env rt))) es)))
             else reti []) (\<lambda>es.
      bindi (if item_type \<in> {''tasks'', ''both''} then try_list (fetch fetch_tasks) else reti []) (\<lambda>ts.
        reti (acc @ es @ ts)))))"

definition list_items ::
  "('s, 'r) rt \<Rightarrow> token_ctx option \<Rightarrow> string \<Rightarrow> string option \<Rightarrow> string option \<Rightarrow> int list option \<Rightarrow> ('s app, ev_dict list) io"
where
  "list_items rt ctx item_type time_min time_max ids =
     bindi (liftr (current ctx)) (\<lambda>x.
     bindi (liftr (list_window (e_now (rt_env rt)) time_min time_max)) (\<lambda>(from_dt, to_dt).
     bindi (ask ap_db) (\<lambda>d.
       foldi (items_of_calendar rt x item_type from_dt to_dt) (wanted ids (scoped_calendars x d)) [])))"

definition not_found :: "string \<Rightarrow> string \<Rightarrow> int \<Rightarrow> exn" where
  "not_found item_type uid cid = tool_error (item_type @ '' '' @ uid @ '' not found in calendar '' @ str_int cid @ ''.'')"

definition fetcher_of :: "string \<Rightarrow> ('s, 'r) fetcher" where
  "fetcher_of item_type =
     (if item_type = ''event'' then fetch_events else if item_type = ''task'' then fetch_tasks else fetch_journals)"

definition get_item_details ::
  "('s, 'r) rt \<Rightarrow> token_ctx option \<Rightarrow> int \<Rightarrow> string \<Rightarrow> int \<Rightarrow> string \<Rightarrow> ('s app, ev_dict) io"
where
  "get_item_details rt ctx now uid cid item_type =
     bindi (liftr (current ctx)) (\<lambda>x.
     bindi (liftr (check_scope x cid)) (\<lambda>_.
     bindi (calendar_for (token_entry now x) cid) (\<lambda>(c, a).
     bindi (liftr (password_of (rt_cr rt) (tx_dek x) a)) (\<lambda>pw.
     bindi (liftr (tm_add (e_now (rt_env rt)) (- 3650 * DAY))) (\<lambda>from_dt.
     bindi (liftr (tm_add (e_now (rt_env rt)) (3650 * DAY))) (\<lambda>to_dt.
     bindi (on_world (fetcher_of item_type (rt_dav rt) (rt_env rt) (conn_of a pw) (c_caldav_id c) from_dt to_dt (c_color c) (c_id c))) (\<lambda>its.
       case find (\<lambda>it. ev_id it = uid) its of
         None \<Rightarrow> raisei (not_found item_type uid cid)
       | Some it \<Rightarrow> liftr (if item_type = ''event'' then inclusive_end (e_tz (rt_env rt)) it else Inr it))))))))"

record calendar_row =
  cw_id :: int
  cw_name :: string
  cw_color :: string
  cw_default :: bool
  cw_account :: string

definition mcp_calendars :: "token_ctx option \<Rightarrow> ('s app, calendar_row list) io" where   \<comment> \<open>\<open>list_calendars\<close>\<close>
  "mcp_calendars ctx =
     bindi (liftr (current ctx)) (\<lambda>x.
     bindi (ask ap_db) (\<lambda>d.
       reti (map (\<lambda>(c, a). \<lparr>cw_id = c_id c, cw_name = c_name c, cw_color = c_color c, cw_default = c_default c, cw_account = a_url a\<rparr>)
         (scoped_calendars x d))))"

text \<open>\<open>list_journals\<close>: backward from the end of the window, without the bodies.\<close>

definition drop_microseconds :: "tm \<Rightarrow> tm" where   \<comment> \<open>\<open>replace(microsecond=0)\<close>\<close>
  "drop_microseconds t = (case t of Day n \<Rightarrow> Day n | Stamp w f z \<Rightarrow> Stamp (w - w mod SEC) f z)"

definition journal_window :: "tm \<Rightarrow> string option \<Rightarrow> string option \<Rightarrow> (tm \<times> tm) res" where
  "journal_window now time_min time_max =
     bindr (parse_dt time_max) (\<lambda>b.
     let to_dt = (case b of Some t \<Rightarrow> t | None \<Rightarrow> drop_microseconds now) in
     bindr (parse_dt time_min) (\<lambda>a.
     bindr (case a of Some t \<Rightarrow> Inr t | None \<Rightarrow> tm_add to_dt (- 30 * DAY)) (\<lambda>from_dt. Inr (from_dt, to_dt))))"

definition journals_of_calendar ::
  "('s, 'r) rt \<Rightarrow> token_ctx \<Rightarrow> tm \<Rightarrow> tm \<Rightarrow> calendar \<times> account \<Rightarrow> ev_dict list \<Rightarrow> ('s app, ev_dict list) io"
where
  "journals_of_calendar rt x from_dt to_dt row acc =
     (case row of (c, a) \<Rightarrow>
      bindi (liftr (password_of (rt_cr rt) (tx_dek x) a)) (\<lambda>pw.
      bindi (try_list (on_world (fetch_journals (rt_dav rt) (rt_env rt) (conn_of a pw) (c_caldav_id c) from_dt to_dt (c_color c) (c_id c)))) (\<lambda>js.
        reti (acc @ map (\<lambda>j. j\<lparr>ev_props := (ev_props j)\<lparr>p_description := None\<rparr>\<rparr>) js))))"

definition mcp_journals ::
  "('s, 'r) rt \<Rightarrow> token_ctx option \<Rightarrow> string option \<Rightarrow> string option \<Rightarrow> int list option \<Rightarrow> ('s app, ev_dict list) io"
where
  "mcp_journals rt ctx time_min time_max ids =
     bindi (liftr (current ctx)) (\<lambda>x.
     bindi (liftr (journal_window (e_now (rt_env rt)) time_min time_max)) (\<lambda>(from_dt, to_dt).
     bindi (ask ap_db) (\<lambda>d.
       foldi (journals_of_calendar rt x from_dt to_dt) (wanted ids (scoped_calendars x d)) [])))"

section \<open>Writing\<close>

text \<open>What every writing tool checks first: a context, its mode, and the calendar in its scope.\<close>

definition writer :: "token_ctx option \<Rightarrow> int \<Rightarrow> token_ctx res" where
  "writer ctx cid =
     bindr (current ctx) (\<lambda>x. bindr (require_rw x) (\<lambda>_. bindr (check_scope x cid) (\<lambda>_. Inr x)))"

definition wrapped :: "string \<Rightarrow> (exn \<Rightarrow> string) \<Rightarrow> ('w, 'a) io \<Rightarrow> ('w, 'a) io" where
  "wrapped failed exn_text m =
     (\<lambda>w. case m w of (Inl e, w') \<Rightarrow> (Inl (tool_error (failed @ exn_text e)), w') | r \<Rightarrow> r)"

definition validated :: "bool \<Rightarrow> unit res" where
  "validated ok = (if ok then Inr () else Inl ValueError)"

text \<open>The calendar and connection of a tool.\<close>

definition connected :: "('s, 'r) rt \<Rightarrow> int \<Rightarrow> token_ctx \<Rightarrow> int \<Rightarrow> ('s app, conn \<times> string) io" where
  "connected rt now x cid =
     bindi (calendar_for (token_entry now x) cid) (\<lambda>(c, a).
     bindi (liftr (password_of (rt_cr rt) (tx_dek x) a)) (\<lambda>pw. reti (conn_of a pw, c_caldav_id c)))"

text \<open>\<open>_create\<close>, for either kind.\<close>

definition mcp_create_event :: "('s, 'r) rt \<Rightarrow> int \<Rightarrow> token_ctx \<Rightarrow> event_in \<Rightarrow> ('s app, string) io" where
  "mcp_create_event rt now x b =
     (let env = rt_env rt in
      bindi (connected rt now x (en_calendar b)) (\<lambda>(cn, url).
      bindi (liftr (reminder_deltas (en_reminders b) (en_all_day b))) (\<lambda>rs.
      bindi (liftr (resolve_span (e_tz env) b)) (\<lambda>(start, stop).
      bindi (on_world (create_event (rt_dav rt) env cn url (new_uid env) (event_fields b) start stop (en_rule b) rs)) (\<lambda>_.
        reti (new_uid env))))))"

definition mcp_create_task :: "('s, 'r) rt \<Rightarrow> int \<Rightarrow> token_ctx \<Rightarrow> task_in \<Rightarrow> ('s app, string) io" where
  "mcp_create_task rt now x b =
     (let env = rt_env rt in
      bindi (connected rt now x (ta_calendar b)) (\<lambda>(cn, url).
      bindi (liftr (reminder_deltas (ta_reminders b) (ta_all_day b))) (\<lambda>rs.
      bindi (liftr (resolve_task_span (e_tz env) b)) (\<lambda>(start, due).
      bindi (on_world (create_task (rt_dav rt) env cn url (new_uid env) (task_fields b) start due (ta_rule b) rs (ta_priority b))) (\<lambda>_.
        reti (new_uid env))))))"

text \<open>The bodies the tools build: no original calendar and nothing to reset.\<close>

definition plain_event :: "event_in \<Rightarrow> event_in" where
  "plain_event b = b\<lparr>en_original := None, en_reset := False, en_reset_fields := []\<rparr>"

definition plain_task :: "task_in \<Rightarrow> task_in" where
  "plain_task b = b\<lparr>ta_original := None, ta_reset := False, ta_reset_fields := []\<rparr>"

definition create_event_tool ::
  "('s, 'r) rt \<Rightarrow> (exn \<Rightarrow> string) \<Rightarrow> token_ctx option \<Rightarrow> int \<Rightarrow> event_in \<Rightarrow> ('s app, string) io"
where
  "create_event_tool rt exn_text ctx now b =
     bindi (liftr (writer ctx (en_calendar b))) (\<lambda>x.
     bindi (liftr (validated (event_valid b))) (\<lambda>_.
       wrapped ''Failed to create event: '' exn_text (mcp_create_event rt now x (plain_event b))))"

definition create_task_tool ::
  "('s, 'r) rt \<Rightarrow> (exn \<Rightarrow> string) \<Rightarrow> token_ctx option \<Rightarrow> int \<Rightarrow> task_in \<Rightarrow> ('s app, string) io"
where
  "create_task_tool rt exn_text ctx now b =
     bindi (liftr (writer ctx (ta_calendar b))) (\<lambda>x.
     bindi (liftr (validated (task_valid b))) (\<lambda>_.
       wrapped ''Failed to create task: '' exn_text (mcp_create_task rt now x (plain_task b))))"

definition update_event_tool ::
  "('s, 'r) rt \<Rightarrow> (exn \<Rightarrow> string) \<Rightarrow> token_ctx option \<Rightarrow> int \<Rightarrow> string \<Rightarrow> event_in \<Rightarrow> ('s app, unit) io"
where
  "update_event_tool rt exn_text ctx now uid b =
     (let env = rt_env rt in
      bindi (liftr (writer ctx (en_calendar b))) (\<lambda>x.
      bindi (liftr (validated (event_valid b))) (\<lambda>_.
      bindi (liftr (resolve_span (e_tz env) b)) (\<lambda>(start, stop).
      bindi (connected rt now x (en_calendar b)) (\<lambda>(cn, url).
        wrapped ''Failed to update event: '' exn_text
          (bindi (liftr (reminder_deltas (en_reminders b) (en_all_day b))) (\<lambda>rs.
             on_world (update_event (rt_dav rt) env cn url uid (event_fields b) start stop (en_scope b) (en_rid b)
               (if en_scope b \<in> {''all'', ''thisfuture''} then en_rule b else None) rs []))))))))"

definition update_task_tool ::
  "('s, 'r) rt \<Rightarrow> (exn \<Rightarrow> string) \<Rightarrow> token_ctx option \<Rightarrow> int \<Rightarrow> string \<Rightarrow> task_in \<Rightarrow> ('s app, unit) io"
where
  "update_task_tool rt exn_text ctx now uid b =
     (let env = rt_env rt in
      bindi (liftr (writer ctx (ta_calendar b))) (\<lambda>x.
      bindi (liftr (validated (task_valid b))) (\<lambda>_.
      bindi (liftr (resolve_task_span (e_tz env) b)) (\<lambda>(start, due).
      bindi (connected rt now x (ta_calendar b)) (\<lambda>(cn, url).
        wrapped ''Failed to update task: '' exn_text
          (bindi (liftr (reminder_deltas (ta_reminders b) (ta_all_day b))) (\<lambda>rs.
             on_world (update_task (rt_dav rt) env cn url uid (task_fields b) start due (ta_scope b) (ta_rid b)
               (if ta_scope b \<in> {''all'', ''thisfuture''} then ta_rule b else None) rs (ta_priority b) []))))))))"

definition set_task_done ::
  "('s, 'r) rt \<Rightarrow> (exn \<Rightarrow> string) \<Rightarrow> token_ctx option \<Rightarrow> int \<Rightarrow> string \<Rightarrow> status_in \<Rightarrow> ('s app, unit) io"
where
  "set_task_done rt exn_text ctx now uid b =
     bindi (liftr (writer ctx (st_calendar b))) (\<lambda>x.
     bindi (connected rt now x (st_calendar b)) (\<lambda>(cn, url).
       wrapped ''Failed to set task status: '' exn_text
         (on_world (set_task_status (rt_dav rt) (rt_env rt) cn url uid (st_completed b) (st_rid b)))))"

definition delete_event_tool ::
  "('s, 'r) rt \<Rightarrow> (exn \<Rightarrow> string) \<Rightarrow> token_ctx option \<Rightarrow> int \<Rightarrow> string \<Rightarrow> int \<Rightarrow> string \<Rightarrow> string option \<Rightarrow> ('s app, unit) io"
where
  "delete_event_tool rt exn_text ctx now uid cid scope rid =
     bindi (liftr (writer ctx cid)) (\<lambda>x.
     bindi (connected rt now x cid) (\<lambda>(cn, url).
       wrapped ''Failed to delete event: '' exn_text (on_world (delete_event (rt_dav rt) (rt_env rt) cn url uid scope rid))))"

definition delete_task_tool ::
  "('s, 'r) rt \<Rightarrow> (exn \<Rightarrow> string) \<Rightarrow> token_ctx option \<Rightarrow> int \<Rightarrow> string \<Rightarrow> int \<Rightarrow> string \<Rightarrow> string option \<Rightarrow> ('s app, unit) io"
where
  "delete_task_tool rt exn_text ctx now uid cid scope rid =
     bindi (liftr (writer ctx cid)) (\<lambda>x.
     bindi (connected rt now x cid) (\<lambda>(cn, url).
       wrapped ''Failed to delete task: '' exn_text (on_world (delete_task (rt_dav rt) (rt_env rt) cn url uid scope rid))))"

definition create_journal_tool ::
  "('s, 'r) rt \<Rightarrow> (exn \<Rightarrow> string) \<Rightarrow> token_ctx option \<Rightarrow> int \<Rightarrow> journal_in \<Rightarrow> ('s app, string) io"
where
  "create_journal_tool rt exn_text ctx now b =
     (let env = rt_env rt in
      bindi (liftr (writer ctx (jo_calendar b))) (\<lambda>x.
      bindi (liftr (validated (journal_valid b))) (\<lambda>_.
      bindi (liftr (resolve_journal_start (e_tz env) b)) (\<lambda>start.
      bindi (connected rt now x (jo_calendar b)) (\<lambda>(cn, url).
      bindi (wrapped ''Failed to create journal: '' exn_text
               (on_world (create_journal (rt_dav rt) env cn url (new_uid env) (jo_title b) start (jo_description b)))) (\<lambda>_.
        reti (new_uid env)))))))"

definition update_journal_tool ::
  "('s, 'r) rt \<Rightarrow> (exn \<Rightarrow> string) \<Rightarrow> token_ctx option \<Rightarrow> int \<Rightarrow> string \<Rightarrow> journal_in \<Rightarrow> ('s app, unit) io"
where
  "update_journal_tool rt exn_text ctx now uid b =
     bindi (liftr (writer ctx (jo_calendar b))) (\<lambda>x.
     bindi (liftr (validated (journal_valid b))) (\<lambda>_.
     bindi (liftr (resolve_journal_start (e_tz (rt_env rt)) b)) (\<lambda>start.
     bindi (connected rt now x (jo_calendar b)) (\<lambda>(cn, url).
       wrapped ''Failed to update journal: '' exn_text
         (on_world (update_journal (rt_dav rt) (rt_env rt) cn url uid (jo_title b) start (jo_description b)))))))"

definition delete_journal_tool ::
  "('s, 'r) rt \<Rightarrow> (exn \<Rightarrow> string) \<Rightarrow> token_ctx option \<Rightarrow> int \<Rightarrow> string \<Rightarrow> int \<Rightarrow> ('s app, unit) io"
where
  "delete_journal_tool rt exn_text ctx now uid cid =
     bindi (liftr (writer ctx cid)) (\<lambda>x.
     bindi (connected rt now x cid) (\<lambda>(cn, url).
       wrapped ''Failed to delete journal: '' exn_text (on_world (delete_journal (rt_dav rt) cn url uid))))"

section \<open>Authentication\<close>

text \<open>\<open>TokenAuthMiddleware\<close>: the context of a request, from its \<open>Authorization\<close> header; whatever goes
  wrong leaves none. It holds for the request alone.\<close>

definition request_context :: "crypto \<Rightarrow> tzdb \<Rightarrow> int \<Rightarrow> string \<Rightarrow> ('s app, token_ctx option) io" where
  "request_context cr tz now raw =
     (if startswith ''bearer '' (lower raw)
      then recover (\<lambda>s. case resolve_token cr tz now (strip (drop 7 raw)) (ap_db s) of (r, d) \<Rightarrow> (r, s\<lparr>ap_db := d\<rparr>)) None
      else reti None)"

definition mcp_request :: "crypto \<Rightarrow> tzdb \<Rightarrow> int \<Rightarrow> string \<Rightarrow> (token_ctx option \<Rightarrow> ('s app, 'a) io) \<Rightarrow> ('s app, 'a) io" where
  "mcp_request cr tz now raw tool = bindi (request_context cr tz now raw) tool"

section \<open>The end of an all-day event\<close>

lemma take_iso_date [simp]: "take 10 (iso_date n) = iso_date n"
  by simp

lemma iso_date_cons: "\<exists>c cs. iso_date n = c # cs"
  using length_iso_date [of n] by (cases "iso_date n") simp_all

lemma all_day_span_ok:
  assumes "resolve_span tz b = Inr (s, e)" and "en_all_day b"
  obtains m n where "s = Day m" "e = Day (n + 1)" "ord_ok n" "ord_ok (n + 1)" "date_fromisoformat (take 10 (en_start b)) = Inr (Day m)"
proof -
  let ?stop = "case en_end b of Some (c # cs) \<Rightarrow> take 10 (c # cs) | _ \<Rightarrow> take 10 (en_start b)"
  obtain u v where u: "date_fromisoformat (take 10 (en_start b)) = Inr u" "date_fromisoformat ?stop = Inr v" "tm_add v DAY = Inr e" "s = u"
    using assms by (auto simp: resolve_span_def all_day_span_def bad_request_def bindr_def split: sum.split_asm)
  obtain m where m: "u = Day m" using u(1) by (auto simp: date_fromisoformat_def bindr_eq_Inr)
  obtain n where n: "v = Day n" "ord_ok n" using u(2) parse_iso_date_ok by (auto simp: date_fromisoformat_def bindr_eq_Inr)
  have "e = Day (n + 1)" "ord_ok (n + 1)"
    using u(3) n(1) by (auto simp: DAY_def split: if_split_asm)
  then show thesis using that u m n by blast
qed

text \<open>C26: The MCP tools speak of inclusive ends, and what they read they can write: an all-day event that
  was stored with the span of a request is shown by the tools with an end which, sent back as the end
  of the same request, resolves to the very span that is stored, so that reading and writing back
  neither stretches nor shortens it.\<close>

theorem all_day_end_roundtrip:
  assumes "resolve_span tz b = Inr (start, stop)" and "en_all_day b"
    and "decoded DTSTART c = Inr start" and "decoded DTEND c = Inr stop"
    and "vevent_to_dict tz c color i fallback master ovr = Inr (Some it)"
  shows "\<exists>last. inclusive_end tz it = Inr (it\<lparr>ev_end := Some last\<rparr>)
    \<and> resolve_span tz (b\<lparr>en_end := Some last\<rparr>) = Inr (start, stop)"
proof -
  obtain m n where s: "start = Day m" "stop = Day (n + 1)" "ord_ok n" "ord_ok (n + 1)"
    "date_fromisoformat (take 10 (en_start b)) = Inr (Day m)"
    by (rule all_day_span_ok [OF assms(1,2)])
  have e: "ev_end it = Some (iso_date (n + 1))" "ev_all_day it" "ev_kind it = AnEvent"
    using assms(3-5) s decoded_chas [OF assms(3)] decoded_chas [OF assms(4)]
    by (auto simp: vevent_to_dict_def event_end_def bindr_eq_Inr Let_def dt_to_iso_def isoformat_def is_all_day_def split: prod.split_asm)
  have d: "date_fromisoformat (iso_date k) = Inr (Day k)" if "ord_ok k" for k
    using date_fromisoformat_isoformat [OF that] by (simp add: isoformat_def)
  have prev: "tm_add (Day (n + 1)) (- DAY) = Inr (Day n)" and succ: "tm_add (Day n) DAY = Inr (Day (n + 1))"
    using s by (simp_all add: DAY_def)
  have "inclusive_end tz it = Inr (it\<lparr>ev_end := Some (iso_date n)\<rparr>)"
    using e d [OF s(4)] prev iso_date_cons [of "n + 1"] by (auto simp: inclusive_end_def present_def isoformat_def)
  moreover obtain ch cs where c: "iso_date n = ch # cs" using iso_date_cons by blast
  have "resolve_span tz (b\<lparr>en_end := Some (iso_date n)\<rparr>) = Inr (start, stop)"
    using assms(2) s d [OF s(3)] succ take_iso_date [of n]
    by (simp add: resolve_span_def all_day_span_def bad_request_def c del: take_iso_date take_Suc_Cons)
  ultimately show ?thesis by blast
qed

definition day_event :: event_in where   \<comment> \<open>an all-day event of January 1 to 3, 2024\<close>
  "day_event = \<lparr>en_calendar = 10, en_original = None, en_title = ''Trip'', en_all_day = True, en_start = ''2024-01-01'',
     en_end = Some ''2024-01-03'', en_location = None, en_description = None, en_timezone = None, en_scope = ''all'', en_rid = None,
     en_rule = None, en_reminders = None, en_reset = False, en_reset_fields = []\<rparr>"

definition day_component :: vcomp where
  "day_component = cadd DTEND (VTm (Day 738889)) (cadd DTSTART (VTm (Day 738886)) (cadd UID (VText ''u3'') (new_comp ''VEVENT'')))"

theorem all_day_end_roundtrip_witness:
  "\<exists>last. resolve_span sample_tz (day_event\<lparr>en_end := Some last\<rparr>) = Inr (Day 738886, Day 738889)"
proof -
  have r: "resolve_span sample_tz day_event = Inr (Day 738886, Day 738889)" by code_simp
  have c: "decoded DTSTART day_component = Inr (Day 738886)" "decoded DTEND day_component = Inr (Day 738889)" by code_simp+
  let ?it = "vevent_to_dict sample_tz day_component ''#123456'' 10 ''u3'' no_props []"
  have "case ?it of Inr (Some it) \<Rightarrow> True | _ \<Rightarrow> False" by code_simp
  then obtain it where "?it = Inr (Some it)" by (auto split: sum.split_asm option.split_asm)
  from all_day_end_roundtrip [OF r _ c this] show ?thesis by (auto simp: day_event_def)
qed

section \<open>What a token lets its holder write\<close>

lemma resolve_token_frame:
  assumes "resolve_token cr tz now token d = (q, d')"
  shows "\<exists>ts. d' = d\<lparr>db_tokens := ts\<rparr>"
proof -
  have unchanged: "\<exists>ts. d = d\<lparr>db_tokens := ts\<rparr>" by (rule exI [of _ "db_tokens d"]) simp
  have touched: "\<exists>ts. touch_token now row d = d\<lparr>db_tokens := ts\<rparr>" for row by (auto simp: touch_token_def)
  show ?thesis using assms unchanged touched
    by (auto simp: resolve_token_def split: option.split_asm sum.split_asm prod.split_asm)
qed

lemma request_context_total: "\<exists>ctx s1. request_context cr tz now raw s = (Inr ctx, s1)"
  by (auto simp: request_context_def recover_def split: prod.split sum.split)

lemma request_context_frame:
  assumes "request_context cr tz now raw s = (Inr ctx, s1)"
  shows "\<exists>ts. s1 = s\<lparr>ap_db := (ap_db s)\<lparr>db_tokens := ts\<rparr>\<rparr>
    \<and> (\<forall>x. ctx = Some x \<longrightarrow> startswith ''bearer '' (lower raw)
        \<and> (\<exists>d. resolve_token cr tz now (strip (drop 7 raw)) (ap_db s) = (Inr (Some x), d)))"
proof (cases "startswith ''bearer '' (lower raw)")
  case False
  then show ?thesis using assms
    by (intro exI [of _ "db_tokens (ap_db s)"]) (simp add: request_context_def)
next
  case True
  obtain q d where r: "resolve_token cr tz now (strip (drop 7 raw)) (ap_db s) = (q, d)" by fastforce
  obtain ts where "d = (ap_db s)\<lparr>db_tokens := ts\<rparr>" using resolve_token_frame [OF r] by blast
  then show ?thesis using assms True r
    by (intro exI [of _ ts]) (auto simp: request_context_def recover_def split: sum.split_asm)
qed

fun run_tool :: "('s, 'r) rt \<Rightarrow> (exn \<Rightarrow> string) \<Rightarrow> int \<Rightarrow> item_req \<Rightarrow> token_ctx option \<Rightarrow> ('s app, string option) io" where
  "run_tool rt t now (PostEvent b) ctx = bindi (create_event_tool rt t ctx now b) (\<lambda>uid. reti (Some uid))"
| "run_tool rt t now (PutEvent uid b) ctx = bindi (update_event_tool rt t ctx now uid b) (\<lambda>_. reti None)"
| "run_tool rt t now (DeleteEvent uid c scope rid) ctx = bindi (delete_event_tool rt t ctx now uid c scope rid) (\<lambda>_. reti None)"
| "run_tool rt t now (PostTask b) ctx = bindi (create_task_tool rt t ctx now b) (\<lambda>uid. reti (Some uid))"
| "run_tool rt t now (PutTask uid b) ctx = bindi (update_task_tool rt t ctx now uid b) (\<lambda>_. reti None)"
| "run_tool rt t now (TaskStatus uid b) ctx = bindi (set_task_done rt t ctx now uid b) (\<lambda>_. reti None)"
| "run_tool rt t now (DeleteTask uid c scope rid) ctx = bindi (delete_task_tool rt t ctx now uid c scope rid) (\<lambda>_. reti None)"
| "run_tool rt t now (PostJournal b) ctx = bindi (create_journal_tool rt t ctx now b) (\<lambda>uid. reti (Some uid))"
| "run_tool rt t now (PutJournal uid b) ctx = bindi (update_journal_tool rt t ctx now uid b) (\<lambda>_. reti None)"
| "run_tool rt t now (DeleteJournal uid c) ctx = bindi (delete_journal_tool rt t ctx now uid c) (\<lambda>_. reti None)"

definition tool_calendar :: "item_req \<Rightarrow> int" where "tool_calendar req = hd (named_calendars req)"

lemma writer_ok: "writer ctx c = Inr x \<longleftrightarrow> ctx = Some x \<and> tx_mode x = ''rw'' \<and> in_scope x c"
  by (auto simp: writer_def current_def require_rw_def check_scope_def split: option.split if_splits)

lemma wrapped_run: "wrapped failed t m s = (case fst (m s) of Inl e \<Rightarrow> Inl (tool_error (failed @ t e)) | Inr x \<Rightarrow> Inr x, snd (m s))"
  by (simp add: wrapped_def split: prod.split sum.split)

lemma worldly_wrapped [worldly_intros]: "worldly m \<Longrightarrow> worldly (wrapped failed t m)"
  by (simp add: worldly_def wrapped_run)

lemma worldly_connected [worldly_intros]: "worldly (connected rt now x c)"
  unfolding connected_def by (intro worldly_intros)

lemma still_wrapped [still_intros]: "still m s \<Longrightarrow> still (wrapped failed t m) s"
  by (simp add: still_def wrapped_run)

lemma still_connected: "owned_calendar (ap_db s) (tx_user x) c = None \<Longrightarrow> still (bindi (connected rt now x c) f) s"
  unfolding connected_def bindi_assoc by (rule still_foreign) (simp add: token_entry_def)

lemmas tool_defs = create_event_tool_def update_event_tool_def delete_event_tool_def create_task_tool_def update_task_tool_def
  set_task_done_def delete_task_tool_def create_journal_tool_def update_journal_tool_def delete_journal_tool_def
  mcp_create_event_def mcp_create_task_def Let_def

lemma run_tool_worldly: "worldly (run_tool rt t now req ctx)"
  by (cases req; simp only: run_tool.simps tool_defs) (intro worldly_intros)+

lemma run_tool_refused: "writer ctx (tool_calendar req) = Inl e \<Longrightarrow> still (run_tool rt t now req ctx) s"
  by (cases req) (simp_all add: tool_defs tool_calendar_def still_def)

lemma plain_calendar: "en_calendar (plain_event b) = en_calendar b" "ta_calendar (plain_task t) = ta_calendar t"
  by (simp_all add: plain_event_def plain_task_def)

lemma run_tool_foreign:
  assumes "writer ctx (tool_calendar req) = Inr x" and "owned_calendar (ap_db s) (tx_user x) (tool_calendar req) = None"
  shows "still (run_tool rt t now req ctx) s"
proof -
  note go = still_after still_split still_wrapped still_connected
  show ?thesis
    using assms
    by (cases req; simp only: run_tool.simps tool_defs tool_calendar_def named_calendars.simps list.sel(1) bindi_liftr
        plain_calendar)
      (((rule go; assumption?) | (rule still_bindi, rule still_basic))+)
qed

text \<open>C7: Holding a token gives no more than it grants: a writing tool called under an \<open>Authorization\<close>
  header touches the CalDAV side only if the header carries, at that moment, a token that resolves to
  the read-write mode and whose scope holds the calendar of the call, a calendar of the token's user.
  Apart from the CalDAV side only the tokens' rows change (their time of last use).\<close>

theorem tool_write_confined:
  assumes "mcp_request (rt_cr rt) (e_tz (rt_env rt)) now raw (run_tool rt exn_text now req) s = (r, s')"
  shows "(\<exists>w ts. s' = s\<lparr>ap_world := w, ap_db := (ap_db s)\<lparr>db_tokens := ts\<rparr>\<rparr>)
    \<and> (ap_world s' \<noteq> ap_world s \<longrightarrow>
        (\<exists>x d. startswith ''bearer '' (lower raw)
          \<and> resolve_token (rt_cr rt) (e_tz (rt_env rt)) now (strip (drop 7 raw)) (ap_db s) = (Inr (Some x), d)
          \<and> tx_mode x = ''rw'' \<and> in_scope x (tool_calendar req)
          \<and> (\<exists>cal a. (cal, a) \<in> set (owned_calendars (ap_db s) (tx_user x)) \<and> c_id cal = tool_calendar req)))"
proof -
  obtain ctx s1 where c: "request_context (rt_cr rt) (e_tz (rt_env rt)) now raw s = (Inr ctx, s1)"
    using request_context_total by blast
  have run: "run_tool rt exn_text now req ctx s1 = (r, s')" using assms c by (simp add: mcp_request_def)
  obtain ts where s1: "s1 = s\<lparr>ap_db := (ap_db s)\<lparr>db_tokens := ts\<rparr>\<rparr>"
    and x: "\<And>x. ctx = Some x \<Longrightarrow> startswith ''bearer '' (lower raw)
      \<and> (\<exists>d. resolve_token (rt_cr rt) (e_tz (rt_env rt)) now (strip (drop 7 raw)) (ap_db s) = (Inr (Some x), d))"
    using request_context_frame [OF c] by blast
  obtain w where w: "s' = s1\<lparr>ap_world := w\<rparr>"
    using run_tool_worldly [of rt exn_text now req ctx] run unfolding worldly_def by (metis snd_conv)
  have own: "owned_calendars (ap_db s1) u = owned_calendars (ap_db s) u" for u
    by (simp add: s1 owned_calendars_def)
  have moved: "\<not> still (run_tool rt exn_text now req ctx) s1" if "ap_world s' \<noteq> ap_world s"
    using that run s1 by (auto simp: still_def)
  show ?thesis
  proof (intro conjI impI)
    show "\<exists>w ts. s' = s\<lparr>ap_world := w, ap_db := (ap_db s)\<lparr>db_tokens := ts\<rparr>\<rparr>"
      unfolding w s1 by (intro exI [of _ w] exI [of _ ts]) simp
  next
    assume m: "ap_world s' \<noteq> ap_world s"
    obtain x where wr: "writer ctx (tool_calendar req) = Inr x"
      using moved [OF m] run_tool_refused by (cases "writer ctx (tool_calendar req)") blast+
    moreover obtain cal a where "owned_calendar (ap_db s1) (tx_user x) (tool_calendar req) = Some (cal, a)"
      using moved [OF m] run_tool_foreign [OF wr] by (metis option.exhaust prod.exhaust)
    then have "(cal, a) \<in> set (owned_calendars (ap_db s) (tx_user x)) \<and> c_id cal = tool_calendar req"
      using owned_calendarD own by metis
    ultimately show "\<exists>x d. startswith ''bearer '' (lower raw)
          \<and> resolve_token (rt_cr rt) (e_tz (rt_env rt)) now (strip (drop 7 raw)) (ap_db s) = (Inr (Some x), d)
          \<and> tx_mode x = ''rw'' \<and> in_scope x (tool_calendar req)
          \<and> (\<exists>cal a. (cal, a) \<in> set (owned_calendars (ap_db s) (tx_user x)) \<and> c_id cal = tool_calendar req)"
      using x unfolding writer_ok by blast
  qed
qed

text \<open>A read-write token for calendar 10 in the sample state; user 7 owns 10 and 11 besides.\<close>

definition rw_token_row :: "bytes \<Rightarrow> bytes \<Rightarrow> bytes \<Rightarrow> api_token" where
  "rw_token_row sha blob n = \<lparr>t_id = 1, t_user = 7, t_name = ''phone'', t_sha = sha, t_blob = blob, t_nonce = n,
     t_mode = ''rw'', t_all = False, t_expires = None, t_created = Stamp 0 0 None, t_used = None\<rparr>"

definition rw_token_ctx :: token_ctx where
  "rw_token_ctx = \<lparr>tx_user = 7, tx_dek = sample_dek, tx_mode = ''rw'', tx_all = False, tx_calendars = Some [JInt 10], tx_token = 1\<rparr>"

definition bearer :: string where "bearer = ''Bearer '' @ token_prefix @ ''RWs3cret''"

lemma rw_token_resolves:
  obtains ts ts' where "resolve_token sample_crypto sample_tz 0 (strip (drop 7 bearer)) (sample_routes_db\<lparr>db_tokens := ts\<rparr>)
    = (Inr (Some rw_token_ctx), sample_routes_db\<lparr>db_tokens := ts'\<rparr>)"
proof -
  let ?p = "token_payload sample_tz sample_dek ''rw'' False [10] None"
  have "length (derive_token_key sample_crypto ''s3cret'') = 32" using crypto_okD(2) [OF sample_crypto_ok] by blast
  then obtain c where "cr_seal sample_crypto (derive_token_key sample_crypto ''s3cret'') (replicate 12 5) (encode_text (dumps ?p)) = Inr c"
    using sealed_exists [OF sample_crypto_ok, of "derive_token_key sample_crypto ''s3cret''" "replicate 12 5"] by auto
  then have s: "seal_payload sample_crypto (replicate 12 5) ''s3cret'' ?p = Inr (digest_of sample_crypto ''s3cret'', c, replicate 12 5)"
    by (simp add: seal_payload_def wrap_dek_def)
  let ?row = "rw_token_row (digest_of sample_crypto ''s3cret'') c (replicate 12 5)"
  have raw: "strip (drop 7 bearer) = token_prefix @ ''RW'' @ ''s3cret''" by code_simp
  have "bytes_ok sample_dek" by code_simp
  then have "resolve_token sample_crypto sample_tz 0 (token_prefix @ ''RW'' @ ''s3cret'') (sample_routes_db\<lparr>db_tokens := [?row]\<rparr>)
      = (Inr (Some rw_token_ctx), touch_token 0 ?row (sample_routes_db\<lparr>db_tokens := [?row]\<rparr>))"
    using resolve_sealed [of "''rw''" "''RW''" "''s3cret''" sample_crypto "sample_routes_db\<lparr>db_tokens := [?row]\<rparr>" ?row sample_tz sample_dek False "[10]" None 0]
      seal_payload_opens [OF sample_crypto_ok token_payload_ok s]
    by (simp add: modes_def rw_token_row_def rw_token_ctx_def expired_def expiry_ok_def)
  then show thesis by (intro that [of "[?row]"]) (simp add: raw touch_token_def)
qed

theorem tool_write_confined_witness:
  "\<exists>ts s'. mcp_request sample_crypto sample_tz 0 bearer (run_tool sample_rt (\<lambda>_. []) 0 (remove_event 10)) (routes_app (sample_routes_db\<lparr>db_tokens := ts\<rparr>)) = (Inr None, s')
     \<and> w_dav (ap_world s') = []
     \<and> (\<exists>x. tx_mode x = ''rw'' \<and> in_scope x 10 \<and> (\<exists>cal a. (cal, a) \<in> set (owned_calendars sample_routes_db (tx_user x)) \<and> c_id cal = 10))"
proof -
  obtain ts ts' where r: "resolve_token sample_crypto sample_tz 0 (strip (drop 7 bearer)) (sample_routes_db\<lparr>db_tokens := ts\<rparr>)
      = (Inr (Some rw_token_ctx), sample_routes_db\<lparr>db_tokens := ts'\<rparr>)" by (rule rw_token_resolves)
  let ?s = "routes_app (sample_routes_db\<lparr>db_tokens := ts\<rparr>)" and ?s1 = "routes_app (sample_routes_db\<lparr>db_tokens := ts'\<rparr>)"
  let ?tool = "run_tool sample_rt (\<lambda>_. []) 0 (remove_event 10)"
  have rt: "rt_cr sample_rt = sample_crypto" "e_tz (rt_env sample_rt) = sample_tz" "tool_calendar (remove_event 10) = 10"
    by (simp_all add: sample_rt_def sample_env_def tool_calendar_def remove_event_def)
  have own: "owned_calendars (ap_db ?s) u = owned_calendars sample_routes_db u" for u
    by (simp add: routes_app_def owned_calendars_def)
  have "startswith ''bearer '' (lower bearer)" by code_simp
  then have ctx: "request_context sample_crypto sample_tz 0 bearer ?s = (Inr (Some rw_token_ctx), ?s1)"
    using r by (simp add: request_context_def recover_def routes_app_def)
  have "fst (?tool (Some rw_token_ctx) ?s1) = Inr None" "w_dav (ap_world (snd (?tool (Some rw_token_ctx) ?s1))) = []"
    by code_simp+
  then obtain s' where run: "mcp_request sample_crypto sample_tz 0 bearer ?tool ?s = (Inr None, s')" and w: "w_dav (ap_world s') = []"
    by (cases "?tool (Some rw_token_ctx) ?s1") (simp add: mcp_request_def ctx)
  have "w_dav (ap_world ?s) \<noteq> []" by (simp add: routes_app_def)
  then have "ap_world s' \<noteq> ap_world ?s" using w by metis
  then show ?thesis
    using tool_write_confined [of sample_rt 0 bearer "\<lambda>_. []" "remove_event 10" ?s "Inr None" s'] run w
    unfolding rt own by blast
qed

end
