(* ===== verification/Pages.thy ===== *)
theory Pages
  imports RouteSamples
begin

text \<open>
  The pages of the application (\<open>app.py\<close>): the start page with the state of its session, the page of a
  share link, the check of the header that forged requests cannot send, and the language of a page
  (\<open>i18n.py\<close>). The translation catalogue and the version of the static files are files, not program; a
  page carries the language that selects the catalogue. The weights of an \<open>Accept-Language\<close> header are
  floating-point numbers that are compared only: a weight is kept as its rank among them.
\<close>

section \<open>Forged requests\<close>

definition mutating_methods :: "string list" where
  "mutating_methods = [''POST'', ''PUT'', ''PATCH'', ''DELETE'']"

definition csrf_blocked :: "string \<Rightarrow> string \<Rightarrow> string option \<Rightarrow> bool" where
  "csrf_blocked verb path requested_with \<longleftrightarrow>
     verb \<in> set mutating_methods \<and> \<not> startswith ''/mcp'' path \<and> requested_with \<noteq> Some ''fetch''"

definition csrf_header_check :: "string \<Rightarrow> string \<Rightarrow> string option \<Rightarrow> ('w, 'a) io \<Rightarrow> ('w, 'a) io" where
  "csrf_header_check verb path requested_with handler =
     (if csrf_blocked verb path requested_with then raisei (http 403 ''Missing CSRF header'') else handler)"

section \<open>The language of a page\<close>

definition supported_languages :: "string list" where "supported_languages = [''cs'', ''en'']"

definition setting_to_code :: "(string \<times> string option) list" where
  "setting_to_code = [(''autodetect'', None), (''english'', Some ''en''), (''czech'', Some ''cs'')]"

definition primary_subtag :: "string \<Rightarrow> string" where   \<comment> \<open>\<open>tag.split("-", 1)[0]\<close>\<close>
  "primary_subtag tag = takeWhile (\<lambda>c. c \<noteq> CHR ''-'') tag"

text \<open>The rank of a double is the integer its bits spell, sign apart; ranks are ordered as the values are.
  The parameter \<open>quality\<close> is \<open>float\<close> on these ranks, \<open>None\<close> where it raises \<open>ValueError\<close>; a weight that is
  not a number is left aside.\<close>

definition one_rank :: int where "one_rank = 4607182418800017408"    \<comment> \<open>1.0\<close>

definition zero_rank :: int where "zero_rank = 0"

definition weight_of :: "(string \<Rightarrow> int option) \<Rightarrow> string \<Rightarrow> int" where
  "weight_of quality params =
     fold (\<lambda>param q. case partition_at (CHR ''='') param of (key, v) \<Rightarrow>
        if strip key = ''q'' then (case quality (strip (case v of None \<Rightarrow> [] | Some x \<Rightarrow> x)) of None \<Rightarrow> zero_rank | Some r \<Rightarrow> r) else q)
       (split_on (CHR '';'') params) one_rank"

definition language_range :: "(string \<Rightarrow> int option) \<Rightarrow> string \<Rightarrow> (string \<times> int) list" where
  "language_range quality raw =
     (let part = strip raw in
      if part = [] then []
      else case partition_at (CHR '';'') part of
             (tag, Some params) \<Rightarrow> [(lower (strip tag), weight_of quality params)]
           | (_, None) \<Rightarrow> [(lower part, one_rank)])"

definition language_ranges :: "(string \<Rightarrow> int option) \<Rightarrow> string \<Rightarrow> (string \<times> int) list" where
  "language_ranges quality header = concat (map (language_range quality) (split_on (CHR '','') header))"

definition parse_accept_language :: "(string \<Rightarrow> int option) \<Rightarrow> string \<Rightarrow> (string \<times> int) list" where
  "parse_accept_language quality header = rev (sort_key snd (rev (language_ranges quality header)))"   \<comment> \<open>\<open>reverse=True\<close> is stable\<close>

definition resolve_language :: "(string \<Rightarrow> int option) \<Rightarrow> string \<Rightarrow> string option \<Rightarrow> string" where
  "resolve_language quality setting header =
     (case map_of setting_to_code setting of
        Some (Some code) \<Rightarrow> code
      | _ \<Rightarrow>
          (case find (\<lambda>p. p \<in> set supported_languages)
                  (map (primary_subtag \<circ> fst) (if present header then parse_accept_language quality (the header) else [])) of
             None \<Rightarrow> ''en'' | Some p \<Rightarrow> p))"

section \<open>Pages\<close>

record page =
  pg_state :: string
  pg_email :: "string option"
  pg_tz :: string
  pg_fdow :: int
  pg_timefmt :: string
  pg_datefmt :: string
  pg_view :: string
  pg_auto_logout :: bool
  pg_logout_after :: int
  pg_notify :: bool
  pg_completed :: string
  pg_undated :: string
  pg_theme :: string
  pg_language :: string
  pg_double_click :: bool
  pg_holidays :: bool
  pg_country :: string
  pg_mcp :: bool
  pg_sharing :: bool
  pg_lang :: string
  pg_horizon :: int
  pg_lookback :: int
  pg_share :: "int option"

definition prefs_page :: "config \<Rightarrow> prefs \<Rightarrow> string \<Rightarrow> page" where
  "prefs_page g p lang =
     \<lparr>pg_state = ''anonymous'', pg_email = None, pg_tz = p_timezone p, pg_fdow = p_fdow p, pg_timefmt = p_time_format p,
      pg_datefmt = p_date_format p, pg_view = p_view p, pg_auto_logout = p_auto_logout p, pg_logout_after = p_logout_after p,
      pg_notify = p_notify p, pg_completed = p_completed p, pg_undated = p_undated p, pg_theme = p_theme p,
      pg_language = p_language p, pg_double_click = p_double_click p, pg_holidays = p_holidays p, pg_country = p_country p,
      pg_mcp = g_mcp g, pg_sharing = g_sharing g, pg_lang = lang, pg_horizon = g_horizon g, pg_lookback = g_lookback g,
      pg_share = None\<rparr>"

text \<open>The start page. Its session is looked up, and kept alive, like that of a request; the store and the
  tables are there, so that the lookup does not fail.\<close>

definition root_session :: "int \<Rightarrow> string option \<Rightarrow> ('s app, entry option) io" where
  "root_session now cookie =
     (if present cookie then on_store (get_session (the cookie) now) else reti None)"

definition root_page :: "(string \<Rightarrow> int option) \<Rightarrow> config \<Rightarrow> int \<Rightarrow> string option \<Rightarrow> string option \<Rightarrow> ('s app, page) io" where
  "root_page quality g now cookie accept =
     bindi (root_session now cookie) (\<lambda>session.
     bindi (ask ap_db) (\<lambda>d.
       let p = (case session of None \<Rightarrow> default_prefs
                | Some e \<Rightarrow> (case prefs_of d (s_user e) of None \<Rightarrow> default_prefs | Some p \<Rightarrow> p)) in
       reti ((prefs_page g p (resolve_language quality (p_language p) accept))
         \<lparr>pg_state := (case session of None \<Rightarrow> ''anonymous'' | Some e \<Rightarrow> if s_restricted e then ''restricted'' else ''authenticated''),
          pg_email := (case session of None \<Rightarrow> None | Some e \<Rightarrow> map_option u_email (user_of d (s_user e)))\<rparr>)))"

text \<open>The page of a share shows the sharing user's display settings and nothing else of them; the secret
  is not part of the request.\<close>

definition share_page :: "(string \<Rightarrow> int option) \<Rightarrow> config \<Rightarrow> string option \<Rightarrow> int \<Rightarrow> ('s app, page) io" where
  "share_page quality g accept sid =
     bindi (ask ap_db) (\<lambda>d.
       let p = (case find (\<lambda>r. sh_id r = sid) (db_shares d) of None \<Rightarrow> default_prefs
                | Some r \<Rightarrow> (case prefs_of d (sh_user r) of None \<Rightarrow> default_prefs | Some p \<Rightarrow> p)) in
       reti ((prefs_page g p (resolve_language quality (p_language p) accept))
         \<lparr>pg_state := ''share'', pg_view := ''dayGridMonth'', pg_auto_logout := False, pg_logout_after := 3600, pg_notify := False,
          pg_double_click := False, pg_mcp := False, pg_share := Some sid\<rparr>))"

section \<open>The language that is chosen\<close>

lemma find_map_fst: "find P (map f xs) = map_option f (find (\<lambda>x. P (f x)) xs)"
  by (induction xs) auto

lemma find_hd_filter: "find P xs = (case filter P xs of [] \<Rightarrow> None | x # _ \<Rightarrow> Some x)"
  by (induction xs) auto

lemma find_split: "find P xs = Some x \<Longrightarrow> \<exists>us vs. xs = us @ x # vs \<and> P x \<and> (\<forall>u \<in> set us. \<not> P u)"
proof (induction xs)
  case (Cons y ys)
  then show ?case by (cases "P y") (force intro: exI [of _ "[]"] exI [of _ "y # us" for us])+
qed simp

lemma best_first:
  assumes "find P (rev (sort_key f (rev xs))) = Some x"
  shows "find (\<lambda>y. P y \<and> f y = f x) xs = Some x" "\<forall>y \<in> set xs. P y \<longrightarrow> f y \<le> f x"
proof -
  let ?s = "rev (sort_key f (rev xs))"
  obtain us vs where s: "?s = us @ x # vs" "P x" "\<forall>u \<in> set us. \<not> P u"
    using find_split [OF assms] by blast
  have sorted: "sorted_wrt (\<lambda>a b. f b \<le> f a) ?s"
    using sorted_sort_key [of f "rev xs"] by (simp add: sorted_wrt_rev sorted_map)
  have "set xs = set ?s" by simp
  then show "\<forall>y \<in> set xs. P y \<longrightarrow> f y \<le> f x"
    using s sorted by (auto simp: sorted_wrt_append)
  have "filter (\<lambda>y. f y = f x) ?s = filter (\<lambda>y. f y = f x) xs"
    by (simp add: rev_filter [symmetric] sort_key_stable)
  then have "filter (\<lambda>y. P y \<and> f y = f x) ?s = filter (\<lambda>y. P y \<and> f y = f x) xs"
    by (metis (no_types, lifting) filter_filter filter_cong)
  moreover have "filter (\<lambda>y. P y \<and> f y = f x) ?s = x # filter (\<lambda>y. P y \<and> f y = f x) vs"
    unfolding s(1) using s(2,3) by (auto simp: filter_empty_conv)
  ultimately show "find (\<lambda>y. P y \<and> f y = f x) xs = Some x"
    unfolding find_hd_filter by (metis list.simps(5))
qed

text \<open>C39: A page is in a supported language: the one the user chose, else the one the browser weighs
  highest among those supported, the first named of several with that weight, and English where the
  header names none.\<close>

theorem language_best_supported:
  "resolve_language quality setting header \<in> set supported_languages
   \<and> (case map_of setting_to_code setting of
        Some (Some code) \<Rightarrow> resolve_language quality setting header = code
      | _ \<Rightarrow> (let ranges = (case header of None \<Rightarrow> [] | Some h \<Rightarrow> if h = [] then [] else language_ranges quality h);
                  ok = (\<lambda>r. primary_subtag (fst r) \<in> set supported_languages) in
           if \<exists>r \<in> set ranges. ok r
           then \<exists>r. find (\<lambda>y. ok y \<and> snd y = snd r) ranges = Some r \<and> (\<forall>y \<in> set ranges. ok y \<longrightarrow> snd y \<le> snd r)
             \<and> resolve_language quality setting header = primary_subtag (fst r)
           else resolve_language quality setting header = ''en''))"
proof (cases "\<exists>code. map_of setting_to_code setting = Some (Some code)")
  case True
  then obtain code where "map_of setting_to_code setting = Some (Some code)" by blast
  moreover from this have "code \<in> set supported_languages"
    by (auto simp: setting_to_code_def supported_languages_def split: if_split_asm)
  ultimately show ?thesis by (simp add: resolve_language_def)
next
  case False
  define ranges where "ranges = (case header of None \<Rightarrow> [] | Some h \<Rightarrow> if h = [] then [] else language_ranges quality h)"
  let ?ok = "\<lambda>r :: string \<times> int. primary_subtag (fst r) \<in> set supported_languages"
  have parsed: "(if present header then parse_accept_language quality (the header) else []) = rev (sort_key snd (rev ranges))"
    by (auto simp: ranges_def present_def parse_accept_language_def split: option.split list.split)
  have res: "resolve_language quality setting header
      = (case find ?ok (rev (sort_key snd (rev ranges))) of None \<Rightarrow> ''en'' | Some r \<Rightarrow> primary_subtag (fst r))"
    using False unfolding resolve_language_def parsed find_map_fst
    by (auto simp: comp_def split: option.split)
  have goal: "resolve_language quality setting header \<in> set supported_languages
    \<and> (if \<exists>r \<in> set ranges. ?ok r
       then \<exists>r. find (\<lambda>y. ?ok y \<and> snd y = snd r) ranges = Some r \<and> (\<forall>y \<in> set ranges. ?ok y \<longrightarrow> snd y \<le> snd r)
         \<and> resolve_language quality setting header = primary_subtag (fst r)
       else resolve_language quality setting header = ''en'')"
  proof (cases "find ?ok (rev (sort_key snd (rev ranges)))")
    case None
    then have "\<not> (\<exists>r \<in> set ranges. ?ok r)" by (auto simp: find_None_iff)
    then show ?thesis using None by (simp add: res supported_languages_def)
  next
    case (Some r)
    note b = best_first [OF Some]
    have "?ok r" and ex: "\<exists>r \<in> set ranges. ?ok r" using find_SomeD [OF b(1)] by blast+
    moreover have "resolve_language quality setting header = primary_subtag (fst r)" using Some res by simp
    ultimately show ?thesis unfolding if_P [OF ex] using b by (intro conjI exI [of _ r]) simp_all
  qed
  have "map_of setting_to_code setting = None \<or> map_of setting_to_code setting = Some None"
    using False by (cases "map_of setting_to_code setting") auto
  then show ?thesis
    using goal unfolding ranges_def [symmetric] Let_def by (elim disjE) (simp_all only: option.case simp_thms, (erule conjunct2)+)
qed

definition sample_quality :: "string \<Rightarrow> int option" where
  "sample_quality s = (if s = ''0.9'' then Some 4606281698874543309 else if s = ''0'' then Some 0 else None)"

theorem language_best_supported_witness:
  "resolve_language sample_quality ''autodetect'' (Some ''de;q=0.9, cs-CZ ;q=0.9,en;q=0'') = ''cs''"
proof -
  let ?h = "''de;q=0.9, cs-CZ ;q=0.9,en;q=0''"
  have r: "language_ranges sample_quality ?h = [(''de'', 4606281698874543309), (''cs-cz'', 4606281698874543309), (''en'', 0)]"
    by code_simp
  have c: "map_of setting_to_code ''autodetect'' = Some None" by (simp add: setting_to_code_def)
  show ?thesis
    using language_best_supported [of sample_quality "''autodetect''" "Some ?h"] unfolding Let_def c option.case r
    by (auto simp: primary_subtag_def supported_languages_def split: if_split_asm)
qed

section \<open>What a page tells\<close>

text \<open>C36: The start page tells the truth about its session: it says authenticated exactly if the routes
  would serve the same cookie at that moment, restricted exactly if they would ask for a password
  change first, and anonymous exactly if they would refuse it; showing it keeps the session alive as a
  request does and changes nothing else.\<close>

theorem page_state_truthful:
  fixes s :: "'s app"
  assumes "root_page quality g now cookie accept s = (Inr pg, s')"
    and "get_unrestricted_session now cookie s = (r, s'')"
  shows "(pg_state pg = ''authenticated'' \<longleftrightarrow> (\<exists>e. r = Inr e))
    \<and> (pg_state pg = ''restricted'' \<longleftrightarrow> r = Inl (http 403 ''Password change required''))
    \<and> (pg_state pg = ''anonymous'' \<longleftrightarrow> r \<in> {Inl (http 401 ''Not authenticated''), Inl (http 401 ''Session expired or invalid'')})
    \<and> s' = s''"
proof (cases "present cookie")
  case False
  then have "r = Inl (http 401 ''Not authenticated'')" "s'' = s"
    using assms(2) by (auto simp: get_unrestricted_session_def get_current_session_def present_def split: option.split_asm if_split_asm list.split_asm)
  moreover have "pg_state pg = ''anonymous''" "s' = s"
    using assms(1) False by (auto simp: root_page_def root_session_def)
  ultimately show ?thesis by (simp add: http_def)
next
  case True
  then obtain sid where sid: "cookie = Some sid" "sid \<noteq> []" by (auto simp: present_def split: option.split_asm list.split_asm)
  obtain q st where look: "get_session sid now (ap_store s) = (q, st)" by fastforce
  have "s'' = s\<lparr>ap_store := st\<rparr>" "r = (case q of None \<Rightarrow> Inl (http 401 ''Session expired or invalid'')
      | Some e \<Rightarrow> if s_restricted e then Inl (http 403 ''Password change required'') else Inr e)"
    using assms(2) sid look
    by (cases q; auto simp: get_unrestricted_session_def get_current_session_def bindi_def on_store_def split: if_split_asm)+
  moreover have "s' = s\<lparr>ap_store := st\<rparr>" "pg_state pg = (case q of None \<Rightarrow> ''anonymous''
      | Some e \<Rightarrow> if s_restricted e then ''restricted'' else ''authenticated'')"
    using assms(1) True sid look
    by (cases q; auto simp: root_page_def root_session_def bindi_def on_store_def Let_def)+
  ultimately show ?thesis by (auto simp: http_def split: option.split)
qed

theorem page_state_truthful_witness:
  "\<exists>pg s' e. root_page (\<lambda>_. None) default_config SEC (Some ''sid'') None (routes_app sample_routes_db) = (Inr pg, s')
     \<and> get_unrestricted_session SEC (Some ''sid'') (routes_app sample_routes_db) = (Inr e, s')
     \<and> pg_state pg = ''authenticated'' \<and> pg_lang pg = ''en''"
proof -
  let ?s = "routes_app sample_routes_db"
  let ?page = "root_page (\<lambda>_. None) default_config SEC (Some ''sid'') None ?s"
  have "(case fst ?page of Inl x \<Rightarrow> False | Inr pg \<Rightarrow> pg_state pg = ''authenticated'' \<and> pg_lang pg = ''en'')" by code_simp
  then obtain pg where pg: "fst ?page = Inr pg" "pg_state pg = ''authenticated''" "pg_lang pg = ''en''" by (cases "fst ?page") auto
  then have p: "?page = (Inr pg, snd ?page)" by (metis prod.collapse)
  obtain r s'' where g: "get_unrestricted_session SEC (Some ''sid'') ?s = (r, s'')" by fastforce
  from page_state_truthful [OF p g] pg(2) have "(\<exists>e. r = Inr e) \<and> snd ?page = s''" by simp
  then show ?thesis using p pg(2,3) g by metis
qed

end
