(* ===== verification/Server.thy ===== *)
theory Server
  imports Consistency Mcp Pages
begin

text \<open>
  The application as a whole (\<open>app.py\<close>): the routes its routers register, each with the credential it asks
  for, behind the check against forged requests, and the administration commands (\<open>admin.py\<close>) beside it. A
  run of the system is a sequence of requests and commands; what every state of a run satisfies is proved
  by induction over it.
\<close>

section \<open>Requests\<close>

text \<open>What a request brings with it: the session cookie, the share secret, the \<open>Authorization\<close> header, the
  header against forgery, and the moment. Random values are drawn by the handlers; they are part of the
  request here.\<close>

record envelope =
  v_now :: int
  v_cookie :: "string option"
  v_secret :: "string option"
  v_bearer :: string
  v_requested_with :: "string option"

datatype request =
    LogIn string "string option" "string option" string string
  | LogOut
  | SessionPoll
  | ChangePassword bytes bytes string string
  | ListAccounts
  | CreateAccount bytes string string string
  | DeleteAccount int
  | ListCalendars
  | CalendarTags
  | PatchCalendar int calendar_patch
  | GetEvents "string option" "string option"
  | GetTasks "string option" "string option"
  | GetJournals "string option" "string option"
  | GetAll "string option" "string option" "string option"
  | PreviewRule string bool "string option" rule_in
  | Item item_req
  | GetSettings
  | PutSettings prefs_in
  | GetHolidays string string
  | ListTokens
  | CreateToken string bytes token_in
  | RevokeToken int
  | ListShares
  | CreateShare string bytes http_req share_in
  | RevokeShare int
  | ExportOwn share_in
  | ShareView
  | ShareItems
  | ShareItem item_req
  | ShareExport int
  | Tool item_req
  | ToolList string "string option" "string option" "int list option"
  | ToolDetails string int string
  | ToolCalendars
  | ToolJournals "string option" "string option" "int list option"
  | StartPage "string option"
  | SharePage "string option" int

text \<open>The method of a route and the head of its path.\<close>

fun item_route :: "string \<Rightarrow> item_req \<Rightarrow> string \<times> string" where
  "item_route prefix (PostEvent b) = (''POST'', prefix @ ''/events'')"
| "item_route prefix (PutEvent uid b) = (''PUT'', prefix @ ''/events/'' @ uid)"
| "item_route prefix (DeleteEvent uid c sc r) = (''DELETE'', prefix @ ''/events/'' @ uid)"
| "item_route prefix (PostTask b) = (''POST'', prefix @ ''/tasks'')"
| "item_route prefix (PutTask uid b) = (''PUT'', prefix @ ''/tasks/'' @ uid)"
| "item_route prefix (TaskStatus uid b) = (''POST'', prefix @ ''/tasks/'' @ uid @ ''/status'')"
| "item_route prefix (DeleteTask uid c sc r) = (''DELETE'', prefix @ ''/tasks/'' @ uid)"
| "item_route prefix (PostJournal b) = (''POST'', prefix @ ''/journals'')"
| "item_route prefix (PutJournal uid b) = (''PUT'', prefix @ ''/journals/'' @ uid)"
| "item_route prefix (DeleteJournal uid c) = (''DELETE'', prefix @ ''/journals/'' @ uid)"

fun route :: "request \<Rightarrow> string \<times> string" where
  "route (LogIn a b c d p) = (''POST'', ''/auth/login'')"
| "route LogOut = (''POST'', ''/auth/logout'')"
| "route SessionPoll = (''GET'', ''/auth/session'')"
| "route (ChangePassword a b c d) = (''POST'', ''/auth/change-password'')"
| "route ListAccounts = (''GET'', ''/caldav-accounts'')"
| "route (CreateAccount a b c d) = (''POST'', ''/caldav-accounts'')"
| "route (DeleteAccount i) = (''DELETE'', ''/caldav-accounts/'' @ str_int i)"
| "route ListCalendars = (''GET'', ''/calendars'')"
| "route CalendarTags = (''GET'', ''/calendars/ctags'')"
| "route (PatchCalendar i p) = (''PATCH'', ''/calendars/'' @ str_int i)"
| "route (GetEvents a b) = (''GET'', ''/events'')"
| "route (GetTasks a b) = (''GET'', ''/tasks'')"
| "route (GetJournals a b) = (''GET'', ''/journals'')"
| "route (GetAll a b c) = (''GET'', ''/calendar-data'')"
| "route (PreviewRule a b c d) = (''POST'', ''/events/recurrence-preview'')"
| "route (Item q) = item_route [] q"
| "route GetSettings = (''GET'', ''/settings'')"
| "route (PutSettings p) = (''PUT'', ''/settings'')"
| "route (GetHolidays a b) = (''GET'', ''/holidays'')"
| "route ListTokens = (''GET'', ''/api-tokens'')"
| "route (CreateToken a b c) = (''POST'', ''/api-tokens'')"
| "route (RevokeToken i) = (''DELETE'', ''/api-tokens/'' @ str_int i)"
| "route ListShares = (''GET'', ''/shares'')"
| "route (CreateShare a b c d) = (''POST'', ''/shares'')"
| "route (RevokeShare i) = (''DELETE'', ''/shares/'' @ str_int i)"
| "route (ExportOwn b) = (''POST'', ''/shares/export.ics'')"
| "route ShareView = (''POST'', ''/shares/resolve'')"
| "route ShareItems = (''GET'', ''/shares/items'')"
| "route (ShareItem q) = item_route ''/shares'' q"
| "route (ShareExport i) = (''GET'', ''/shares/'' @ str_int i @ ''/export.ics'')"
| "route (Tool q) = (''POST'', ''/mcp'')"
| "route (ToolList a b c d) = (''POST'', ''/mcp'')"
| "route (ToolDetails a b c) = (''POST'', ''/mcp'')"
| "route ToolCalendars = (''POST'', ''/mcp'')"
| "route (ToolJournals a b c) = (''POST'', ''/mcp'')"
| "route (StartPage a) = (''GET'', ''/'')"
| "route (SharePage a i) = (''GET'', ''/s/'' @ str_int i)"

section \<open>Serving a request\<close>

text \<open>What is around the handlers: the resolver of the URL guard, the texts of exceptions, what an
  \<open>Accept-Language\<close> header prefers, and the local date.\<close>

record ('s, 'r) site =
  w_rt :: "('s, 'r) rt"
  w_config :: config
  w_dns :: "string \<Rightarrow> int option \<Rightarrow> dns_answer"
  w_text :: "exn \<Rightarrow> string"
  w_quality :: "string \<Rightarrow> int option"
  w_today :: int

definition done_with :: "('w, 'a) io \<Rightarrow> ('w, unit) io" where
  "done_with m = bindi m (\<lambda>_. reti ())"

definition as_user :: "envelope \<Rightarrow> (entry \<Rightarrow> ('s app, 'a) io) \<Rightarrow> ('s app, unit) io" where
  "as_user v h = done_with (under_session (v_now v) (v_cookie v) h)"

definition by_link :: "('s, 'r) site \<Rightarrow> envelope \<Rightarrow> (share_ctx \<Rightarrow> ('s app, 'a) io) \<Rightarrow> ('s app, unit) io" where
  "by_link w v h = done_with (bindi (get_share_context (rt_cr (w_rt w)) (e_tz (rt_env (w_rt w))) (v_now v) (v_secret v)) h)"

definition by_token :: "('s, 'r) site \<Rightarrow> envelope \<Rightarrow> (token_ctx option \<Rightarrow> ('s app, 'a) io) \<Rightarrow> ('s app, unit) io" where
  "by_token w v tool =
     (if g_mcp (w_config w) then done_with (mcp_request (rt_cr (w_rt w)) (e_tz (rt_env (w_rt w))) (v_now v) (v_bearer v) tool)
      else raisei (http 404 ''Not Found''))"

fun handle :: "('s, 'r) site \<Rightarrow> envelope \<Rightarrow> request \<Rightarrow> ('s app, unit) io" where
  "handle w v (LogIn sid fwd host email pw) = done_with (login (rt_cr (w_rt w)) (w_config w) (v_now v) sid fwd host email pw)"
| "handle w v LogOut = logout (v_cookie v)"
| "handle w v SessionPoll = done_with (session_state (v_now v) (v_cookie v))"
| "handle w v (ChangePassword salt nonce old new) = change_password (rt_cr (w_rt w)) (w_config w) (v_now v) salt nonce (v_cookie v) old new"
| "handle w v ListAccounts = done_with (list_accounts (e_tz (rt_env (w_rt w))) (v_now v) (v_cookie v))"
| "handle w v (CreateAccount nonce url user pw) =
     done_with (create_account (rt_cr (w_rt w)) (e_tz (rt_env (w_rt w))) (w_config w) (rt_dav (w_rt w)) (w_dns w) (w_text w) (v_now v) nonce (v_cookie v) url user pw)"
| "handle w v (DeleteAccount i) = delete_account (v_now v) (v_cookie v) i"
| "handle w v ListCalendars = done_with (list_calendars (v_now v) (v_cookie v))"
| "handle w v CalendarTags = done_with (calendar_ctags (rt_cr (w_rt w)) (rt_dav (w_rt w)) (v_now v) (v_cookie v))"
| "handle w v (PatchCalendar i p) = done_with (patch_calendar (v_now v) (v_cookie v) i p)"
| "handle w v (GetEvents a b) = as_user v (\<lambda>e. get_events (w_rt w) e (w_today w) a b)"
| "handle w v (GetTasks a b) = as_user v (\<lambda>e. get_tasks (w_rt w) e a b)"
| "handle w v (GetJournals a b) = as_user v (\<lambda>e. get_journals (w_rt w) e a b)"
| "handle w v (GetAll a b kinds) = as_user v (\<lambda>e. get_calendar_data (w_rt w) e (w_today w) a b kinds)"
| "handle w v (PreviewRule start all_day zone rule) =
     as_user v (\<lambda>e. liftr (recurrence_preview (rt_env (w_rt w)) (w_text w) start all_day zone rule))"
| "handle w v (Item q) = done_with (session_request (w_rt w) (v_now v) (v_cookie v) q)"
| "handle w v GetSettings = as_user v get_settings"
| "handle w v (PutSettings p) = as_user v (\<lambda>e. put_settings (v_cookie v) e p)"
| "handle w v (GetHolidays a b) = done_with (get_holidays (v_now v) (v_cookie v) a b)"
| "handle w v ListTokens = done_with (list_tokens (e_tz (rt_env (w_rt w))) (v_now v) (v_cookie v))"
| "handle w v (CreateToken secret nonce b) =
     (if token_valid b
      then done_with (create_token (rt_cr (w_rt w)) (e_tz (rt_env (w_rt w))) (w_config w) (v_now v) secret nonce (v_cookie v) b)
      else as_user v (\<lambda>_. raisei unprocessable :: (_, unit) io))"
| "handle w v (RevokeToken i) = revoke_token (v_now v) (v_cookie v) i"
| "handle w v ListShares = as_user v (\<lambda>e. list_shares (e_tz (rt_env (w_rt w))) e)"
| "handle w v (CreateShare secret nonce req b) = as_user v (\<lambda>e.
     if share_valid b then done_with (create_share (rt_cr (w_rt w)) (e_tz (rt_env (w_rt w))) (w_config w) (v_now v) secret nonce req e b)
     else raisei unprocessable)"
| "handle w v (RevokeShare i) = as_user v (\<lambda>e. revoke_share e i)"
| "handle w v (ExportOwn b) = as_user v (\<lambda>e. owner_export_ics (w_rt w) (w_config w) e b)"
| "handle w v ShareView = by_link w v (resolve_view (e_tz (rt_env (w_rt w))))"
| "handle w v ShareItems = by_link w v (share_items (w_rt w))"
| "handle w v (ShareItem q) = done_with (share_request (w_rt w) (v_now v) (v_secret v) q)"
| "handle w v (ShareExport i) = by_link w v (\<lambda>x. export_ics (w_rt w) x i)"
| "handle w v (Tool q) = by_token w v (run_tool (w_rt w) (w_text w) (v_now v) q)"
| "handle w v (ToolList kind a b ids) = by_token w v (\<lambda>ctx. list_items (w_rt w) ctx kind a b ids)"
| "handle w v (ToolDetails uid c kind) = by_token w v (\<lambda>ctx. get_item_details (w_rt w) ctx (v_now v) uid c kind)"
| "handle w v ToolCalendars = by_token w v mcp_calendars"
| "handle w v (ToolJournals a b ids) = by_token w v (\<lambda>ctx. mcp_journals (w_rt w) ctx a b ids)"
| "handle w v (StartPage accept) = done_with (root_page (w_quality w) (w_config w) (v_now v) (v_cookie v) accept)"
| "handle w v (SharePage accept i) = done_with (share_page (w_quality w) (w_config w) accept i)"

definition serve :: "('s, 'r) site \<Rightarrow> envelope \<Rightarrow> request \<Rightarrow> ('s app, unit) io" where
  "serve w v q = (case route q of (verb, path) \<Rightarrow> csrf_header_check verb path (v_requested_with v) (handle w v q))"

section \<open>Runs\<close>

text \<open>The administration commands work on the database beside the server; a start of the server begins with
  no sessions and no counted attempts (\<open>lifespan\<close>).\<close>

datatype command =
    CreateUser bytes bytes bytes string string
  | ResetPassword bytes bytes bytes string string
  | DeleteUser string

fun run_command :: "('s, 'r) site \<Rightarrow> command \<Rightarrow> ('s app, unit) io" where
  "run_command w (CreateUser salt dek nonce email pw) = done_with (on_db (create_user (rt_cr (w_rt w)) (w_config w) salt dek nonce email pw))"
| "run_command w (ResetPassword salt dek nonce email pw) = done_with (on_db (reset_user (rt_cr (w_rt w)) (w_config w) salt dek nonce email pw))"
| "run_command w (DeleteUser email) = done_with (on_db (delete_user email))"

definition boot :: "config \<Rightarrow> 's app \<Rightarrow> 's app" where
  "boot g s = s\<lparr>ap_store := \<lparr>st_sessions = [], st_default = g_idle_timeout g\<rparr>,
     ap_limiter := \<lparr>rl_max = g_login_attempts g, rl_window = g_login_window g, rl_attempts = []\<rparr>, ap_active := 0\<rparr>"

inductive reachable :: "('s, 'r) site \<Rightarrow> 's app \<Rightarrow> 's app \<Rightarrow> bool" for w s0 where
  begins: "reachable w s0 (boot (w_config w) s0)"
| restarts: "reachable w s0 s \<Longrightarrow> reachable w s0 (boot (w_config w) s)"
| serves: "reachable w s0 s \<Longrightarrow> serve w v q s = (r, s') \<Longrightarrow> reachable w s0 s'"
| administers: "reachable w s0 s \<Longrightarrow> run_command w c s = (r, s') \<Longrightarrow> reachable w s0 s'"

section \<open>What a computation keeps of the database\<close>

definition keeps_db :: "(db \<Rightarrow> bool) \<Rightarrow> ('s app, 'a) io \<Rightarrow> bool" where
  "keeps_db P m \<longleftrightarrow> (\<forall>s. P (ap_db s) \<longrightarrow> P (ap_db (snd (m s))))"

named_theorems keeps_db_intros \<open>computations that keep a property of the database\<close>

lemma keeps_db_worldly: "worldly m \<Longrightarrow> keeps_db P m"
  unfolding keeps_db_def worldly_def by (metis app.select_convs(2) app.surjective app.update_convs(1))

lemma keeps_db_basic [keeps_db_intros]:
  "keeps_db P (reti x)" "keeps_db P (raisei e)" "keeps_db P (liftr r)" "keeps_db P (ask f)" "keeps_db P (require e' y)"
  "keeps_db P (on_store h)" "keeps_db P (on_limiter k)" "keeps_db P update_gauge" "keeps_db P (on_world mw)" "keeps_db P (guard b e)"
  by (simp_all add: keeps_db_def require_def guard_def on_store_def on_limiter_def on_world_def split: prod.split)

lemma keeps_db_pair [keeps_db_intros]: "keeps_db P (Pair r)"
  by (simp add: keeps_db_def)

lemma keeps_db_bindi [keeps_db_intros]:
  assumes "keeps_db P m" and "\<And>x. keeps_db P (f x)"
  shows "keeps_db P (bindi m f)"
  using assms by (auto simp: keeps_db_def run_eqs(2) split: sum.split)

lemma keeps_db_ask:
  assumes "\<And>d. P d \<Longrightarrow> keeps_db P (f d)"
  shows "keeps_db P (bindi (ask ap_db) f)"
  using assms by (simp add: keeps_db_def)

lemma keeps_db_liftr:
  assumes "\<And>x. r = Inr x \<Longrightarrow> keeps_db P (f x)"
  shows "keeps_db P (bindi (liftr r) f)"
  using assms by (cases r) (simp_all add: keeps_db_basic)

lemma keeps_db_require:
  assumes "\<And>x. y = Some x \<Longrightarrow> keeps_db P (f x)"
  shows "keeps_db P (bindi (require e y) f)"
  using assms by (cases y) (simp_all add: keeps_db_basic)

lemma keeps_db_commit: "P d \<Longrightarrow> keeps_db P (commit d)"
  by (simp add: keeps_db_def)

lemma keeps_db_if [keeps_db_intros]: "(b \<Longrightarrow> keeps_db P m) \<Longrightarrow> (\<not> b \<Longrightarrow> keeps_db P n) \<Longrightarrow> keeps_db P (if b then m else n)"
  by simp

lemma keeps_db_split [keeps_db_intros]: "(\<And>x y. keeps_db P (f x y)) \<Longrightarrow> keeps_db P (case p of (x, y) \<Rightarrow> f x y)"
  by (cases p) simp

lemma keeps_db_option [keeps_db_intros]:
  "keeps_db P m \<Longrightarrow> (\<And>x. keeps_db P (f x)) \<Longrightarrow> keeps_db P (case y of None \<Rightarrow> m | Some x \<Rightarrow> f x)"
  by (cases y) simp_all

lemma keeps_db_sum [keeps_db_intros]:
  "(\<And>x. keeps_db P (f x)) \<Longrightarrow> (\<And>y. keeps_db P (h y)) \<Longrightarrow> keeps_db P (case r of Inl x \<Rightarrow> f x | Inr y \<Rightarrow> h y)"
  by (cases r) simp_all

lemma keeps_db_done [keeps_db_intros]: "keeps_db P m \<Longrightarrow> keeps_db P (done_with m)"
  unfolding done_with_def by (intro keeps_db_intros)

lemma keeps_db_recover [keeps_db_intros]: "keeps_db P m \<Longrightarrow> keeps_db P (recover m x)"
  by (simp add: keeps_db_def run_eqs(3))

lemma keeps_db_foldi [keeps_db_intros]: "(\<And>x a. keeps_db P (f x a)) \<Longrightarrow> keeps_db P (foldi f xs a)"
  by (induction xs arbitrary: a) (auto intro!: keeps_db_intros)

lemma keeps_db_on_db: "(\<And>d. P d \<Longrightarrow> P (snd (m d))) \<Longrightarrow> keeps_db P (on_db m)"
  unfolding keeps_db_def on_db_def by (auto split: prod.split) (metis snd_conv)

lemma keeps_db_sessions [keeps_db_intros]:
  "keeps_db P (get_current_session now cookie)" "keeps_db P (get_unrestricted_session now cookie)"
  by (auto simp: get_unrestricted_session_def get_current_session_def intro!: keeps_db_intros)

text \<open>Computations that leave the database alone, those that act for one user, and those that act for the
  user of the session their cookie names.\<close>

definition silent :: "('s app, 'a) io \<Rightarrow> bool" where
  "silent m \<longleftrightarrow> (\<forall>P. keeps_db P m)"

definition acts_for :: "int \<Rightarrow> ('s app, 'a) io \<Rightarrow> bool" where
  "acts_for u m \<longleftrightarrow> (\<forall>d0. keeps_db (own_change u d0) m)"

definition acts_under :: "string option \<Rightarrow> ('s app, 'a) io \<Rightarrow> bool" where
  "acts_under cookie m \<longleftrightarrow> (\<forall>s. db_ok (ap_db s) \<longrightarrow> ap_db (snd (m s)) = ap_db s
     \<or> (\<exists>sid e. cookie = Some sid \<and> map_of (st_sessions (ap_store s)) sid = Some e
          \<and> own_change (s_user e) (ap_db s) (ap_db (snd (m s)))))"

lemma silentI: "(\<And>P. keeps_db P m) \<Longrightarrow> silent m"
  by (simp add: silent_def)

lemma silent_worldly: "worldly m \<Longrightarrow> silent m"
  by (simp add: silent_def keeps_db_worldly)

lemma silent_same: "silent m \<Longrightarrow> ap_db (snd (m s)) = ap_db s"
  unfolding silent_def keeps_db_def by (drule spec [of _ "\<lambda>d. d = ap_db s"]) simp

lemma acts_for_silent: "silent m \<Longrightarrow> acts_for u m"
  by (simp add: silent_def acts_for_def)

lemma acts_for_result: "acts_for u m \<Longrightarrow> db_ok (ap_db s) \<Longrightarrow> own_change u (ap_db s) (ap_db (snd (m s)))"
  unfolding acts_for_def keeps_db_def using others_kept_refl by (metis own_change_def)

lemma acts_under_silent: "silent m \<Longrightarrow> acts_under cookie m"
  by (simp add: acts_under_def silent_same)

lemma done_with_snd: "snd (done_with m s) = snd (m s)"
  by (simp add: done_with_def run_eqs(2) split: sum.split)

lemma acts_under_done: "acts_under cookie m \<Longrightarrow> acts_under cookie (done_with m)"
  by (simp add: acts_under_def done_with_snd)

lemma acts_for_done: "acts_for u m \<Longrightarrow> acts_for u (done_with m)"
  by (simp add: acts_for_def keeps_db_done)

lemma session_entry:
  assumes "get_session sid now st = (Some e, st')"
  shows "\<exists>e0. map_of (st_sessions st) sid = Some e0 \<and> s_user e = s_user e0"
  using assms by (auto simp: get_session_def Let_def split: option.split_asm if_split_asm)

lemma current_session_run:
  "fst (get_current_session now cookie s) = Inr e \<Longrightarrow>
   \<exists>sid e0. cookie = Some sid \<and> map_of (st_sessions (ap_store s)) sid = Some e0 \<and> s_user e = s_user e0"
  "ap_db (snd (get_current_session now cookie s)) = ap_db s"
proof -
  have "silent (get_current_session now cookie)" by (intro silentI keeps_db_intros)
  then show "ap_db (snd (get_current_session now cookie s)) = ap_db s" by (rule silent_same)
  assume "fst (get_current_session now cookie s) = Inr e"
  then obtain sid where "cookie = Some sid" "fst (get_session sid now (ap_store s)) = Some e"
    by (cases "fst (get_session (the cookie) now (ap_store s))")
      (auto simp: get_current_session_def run_eqs(2) on_store_def split: option.split_asm if_split_asm prod.split_asm)
  then show "\<exists>sid e0. cookie = Some sid \<and> map_of (st_sessions (ap_store s)) sid = Some e0 \<and> s_user e = s_user e0"
    using session_entry [of sid now "ap_store s" e "snd (get_session sid now (ap_store s))"] by (metis prod.collapse)
qed

lemma acts_under_current:
  fixes h :: "entry \<Rightarrow> ('s app, 'a) io"
  assumes "\<And>e. acts_for (s_user e) (h e)"
  shows "acts_under cookie (bindi (get_current_session now cookie) h)"
  unfolding acts_under_def
proof (intro allI impI)
  fix s :: "'s app"
  assume ok: "db_ok (ap_db s)"
  show "ap_db (snd (bindi (get_current_session now cookie) h s)) = ap_db s
    \<or> (\<exists>sid e. cookie = Some sid \<and> map_of (st_sessions (ap_store s)) sid = Some e
        \<and> own_change (s_user e) (ap_db s) (ap_db (snd (bindi (get_current_session now cookie) h s))))"
  proof (cases "fst (get_current_session now cookie s)")
    case (Inl x)
    then show ?thesis by (simp add: run_eqs(2) current_session_run(2))
  next
    case (Inr e)
    have "own_change (s_user e) (ap_db s) (ap_db (snd (h e (snd (get_current_session now cookie s)))))"
      using acts_for_result [OF assms, of "snd (get_current_session now cookie s)" e] ok by (simp add: current_session_run(2))
    then show ?thesis using current_session_run(1) [OF Inr] Inr by (simp add: run_eqs(2)) metis
  qed
qed

lemma acts_under_session:
  assumes "\<And>e. acts_for (s_user e) (h e)"
  shows "acts_under cookie (bindi (get_unrestricted_session now cookie) h)"
  unfolding get_unrestricted_session_def bindi_assoc
proof (rule acts_under_current)
  fix e
  show "acts_for (s_user e) (bindi (if s_restricted e then raisei (http 403 ''Password change required'') else reti e) h)"
    using assms [of e] by (cases "s_restricted e") (simp_all add: acts_for_def keeps_db_basic)
qed

lemma acts_under_user: "(\<And>e. acts_for (s_user e) (h e)) \<Longrightarrow> acts_under (v_cookie v) (as_user v h)"
  unfolding as_user_def under_session_def by (intro acts_under_done acts_under_session)

section \<open>The handlers\<close>

text \<open>The changes of one user.\<close>

lemma acts_for_ask: "(\<And>d d0. own_change u d0 d \<Longrightarrow> keeps_db (own_change u d0) (f d)) \<Longrightarrow> acts_for u (bindi (ask ap_db) f)"
  unfolding acts_for_def by (intro allI keeps_db_ask)

lemma commit_own:
  assumes "own_change u d0 d" and "db_ok d \<Longrightarrow> own_change u d d'"
  shows "keeps_db (own_change u d0) (commit d')"
  using own_change_trans [OF assms(1) assms(2) [OF own_changeD(1) [OF assms(1)]]] by (rule keeps_db_commit)

lemma found_in: "find P xs = Some x \<Longrightarrow> x \<in> set xs \<and> P x"
  by (auto dest: find_SomeD)

lemma account_under: "acts_under cookie (create_account cr tz g dav dns t now nonce cookie url user pw)"
proof -
  have disc: "keeps_db P (\<lambda>a. case on_world m a of (Inl x, a') \<Rightarrow> (Inl (f x), a') | r \<Rightarrow> r)" for P m f
    by (auto simp: keeps_db_def on_world_def split: prod.split sum.split)
  show ?thesis
    unfolding create_account_def Let_def
    by (rule acts_under_session) (unfold acts_for_def, intro allI keeps_db_bindi keeps_db_split keeps_db_basic disc keeps_db_ask,
        rule commit_own, assumption, rule add_account_change, simp_all)
qed

lemma delete_account_under: "acts_under cookie (delete_account now cookie i)"
  unfolding delete_account_def
proof (rule acts_under_session, rule acts_for_ask, rule keeps_db_require)
  fix e d d0 a
  assume o: "own_change (s_user e) d0 d" and f: "find (\<lambda>a. a_id a = i \<and> a_user a = s_user e) (db_accounts d) = Some a"
  have "b = a" if "db_ok d" "b \<in> set (db_accounts d)" "a_id b = a_id a" for b
    using that found_in [OF f] key_unique [of a_id "db_accounts d" b a] by (simp add: db_ok_defs)
  then show "keeps_db (own_change (s_user e) d0) (commit (drop_accounts (\<lambda>b. a_id b = a_id a) d))"
    using found_in [OF f] by (intro commit_own [OF o] drop_accounts_change) auto
qed

lemma patch_under: "acts_under cookie (patch_calendar now cookie i p)"
  unfolding patch_calendar_def
  by (rule acts_under_session, rule acts_for_ask, rule keeps_db_require, rule keeps_db_split, rule keeps_db_bindi, rule commit_own)
    (auto intro!: patched_change keeps_db_basic)

lemma create_token_under: "acts_under cookie (create_token cr tz g now secret nonce cookie b)"
  unfolding create_token_def Let_def
  by (rule acts_under_session) (unfold acts_for_def, intro allI keeps_db_if keeps_db_bindi keeps_db_split keeps_db_basic keeps_db_ask,
      rule commit_own, assumption, rule add_token_change, simp_all)

lemma revoke_token_under: "acts_under cookie (revoke_token now cookie i)"
  unfolding revoke_token_def
proof (rule acts_under_session, rule acts_for_ask, rule keeps_db_require)
  fix e d d0 t
  assume o: "own_change (s_user e) d0 d" and f: "find (\<lambda>t. t_id t = i \<and> t_user t = s_user e) (db_tokens d) = Some t"
  have "r = t" if "db_ok d" "r \<in> set (db_tokens d)" "t_id r = t_id t" for r
    using that found_in [OF f] key_unique [of t_id "db_tokens d" r t] by (simp add: db_ok_defs)
  then show "keeps_db (own_change (s_user e) d0) (commit (drop_tokens (\<lambda>r. t_id r = t_id t) d))"
    using found_in [OF f] by (intro commit_own [OF o] drop_tokens_change) auto
qed

lemma revoke_share_for: "acts_for (s_user e) (revoke_share e i)"
  unfolding revoke_share_def
proof (rule acts_for_ask, rule keeps_db_require)
  fix d d0 t
  assume o: "own_change (s_user e) d0 d" and f: "find (\<lambda>s. sh_id s = i \<and> sh_user s = s_user e) (db_shares d) = Some t"
  have "r = t" if "db_ok d" "r \<in> set (db_shares d)" "sh_id r = sh_id t" for r
    using that found_in [OF f] key_unique [of sh_id "db_shares d" r t] by (simp add: db_ok_defs)
  then show "keeps_db (own_change (s_user e) d0) (commit (drop_shares (\<lambda>r. sh_id r = sh_id t) d))"
    using found_in [OF f] by (intro commit_own [OF o] drop_shares_change) auto
qed

lemma create_share_for: "acts_for (s_user e) (create_share cr tz g now secret nonce req e b)"
proof -
  have row: "sh_id (share_row now i u b plan expires sealed) = i" "sh_user (share_row now i u b plan expires sealed) = u"
    for i u plan expires sealed by (simp_all add: share_row_def split: prod.split)
  show ?thesis
    unfolding create_share_def acts_for_def Let_def
    by (intro allI keeps_db_if keeps_db_bindi keeps_db_split keeps_db_basic keeps_db_ask, rule commit_own, assumption, rule add_share_change)
      (auto simp: row split: prod.split)
qed

lemma put_settings_for: "acts_for (s_user e) (put_settings cookie e b)"
  unfolding put_settings_def acts_for_def Let_def
proof (intro allI, rule keeps_db_liftr, rule keeps_db_ask)
  fix d0 d and u :: unit
  let ?p = "merged_prefs b (case prefs_of d (s_user e) of None \<Rightarrow> default_prefs | Some s \<Rightarrow> s)"
  assume c: "check_prefs b = Inr u" and o: "own_change (s_user e) d0 d"
  have "prefs_ok ?p" if "db_ok d"
    using that merged_prefs_ok [of b] c default_prefs_ok db_okD(4) [OF that] by (auto simp: all_prefs_ok_def split: option.split)
  then show "keeps_db (own_change (s_user e) d0) (bindi (commit (d\<lparr>db_prefs := AList.update (s_user e) ?p (db_prefs d)\<rparr>))
      (\<lambda>_. bindi (if present cookie then on_store (\<lambda>st. ((), update_session (the cookie)
         (\<lambda>s. s\<lparr>s_idle := if \<not> p_auto_logout ?p then Never else Seconds (p_logout_after ?p)\<rparr>) st)) else reti ()) (\<lambda>_. reti ?p)))"
    by (intro keeps_db_bindi commit_own [OF o] prefs_change keeps_db_intros)
qed

lemma change_password_under: "acts_under cookie (change_password cr g now salt nonce cookie old new)"
  unfolding change_password_def
proof (rule acts_under_current)
  fix e
  show "acts_for (s_user e) (if int (length new) < g_min_password g
     then raisei (http 400 (''New password must be at least '' @ str_int (g_min_password g) @ '' characters''))
     else bindi (ask ap_db) (\<lambda>d.
     bindi (require (http 404 ''User not found'') (user_of d (s_user e))) (\<lambda>u.
     bindi (liftr (derive_kek cr old (u_salt u) (u_time u) (u_memory u) (u_lanes u))) (\<lambda>old_kek.
     if \<not> verify_kek cr old_kek (u_verifier u) then raisei (http 401 ''Current password is incorrect'')
     else case unwrap_dek cr (u_wrapped_dek u) (u_dek_nonce u) old_kek of
       Inl x \<Rightarrow> raisei (http 401 ''Current password is incorrect'')
     | Inr dek \<Rightarrow>
         bindi (liftr (rekey_user cr g salt nonce new dek False u)) (\<lambda>u'.
         bindi (commit (set_user u' d)) (\<lambda>_.
           (case cookie of
              None \<Rightarrow> reti ()
            | Some sid \<Rightarrow> if sid = [] then reti ()
                else on_store (\<lambda>st. ((), update_session sid (\<lambda>s. s\<lparr>s_dek := dek, s_restricted := False\<rparr>) st)))))))))"
    unfolding acts_for_def
  proof (intro allI keeps_db_if keeps_db_basic, rule keeps_db_ask, rule keeps_db_require, rule keeps_db_bindi, rule keeps_db_basic,
      rule keeps_db_if, rule keeps_db_basic)
    fix d0 d u kek
    assume o: "own_change (s_user e) d0 d" and u: "user_of d (s_user e) = Some u"
    have i: "u_id u = s_user e" using u by (auto simp: user_of_def dest: find_SomeD)
    have c: "own_change (s_user e) d (set_user w d)" if "db_ok d" "rekey_user cr g salt nonce new dek False u = Inr w" for w dek
      using set_user_change [OF that(1) u] rekey_user_frame [OF that(2)] i by simp
    show "keeps_db (own_change (s_user e) d0) (case unwrap_dek cr (u_wrapped_dek u) (u_dek_nonce u) kek of
       Inl x \<Rightarrow> raisei (http 401 ''Current password is incorrect'')
     | Inr dek \<Rightarrow>
         bindi (liftr (rekey_user cr g salt nonce new dek False u)) (\<lambda>u'.
         bindi (commit (set_user u' d)) (\<lambda>_.
           (case cookie of
              None \<Rightarrow> reti ()
            | Some sid \<Rightarrow> if sid = [] then reti ()
                else on_store (\<lambda>st. ((), update_session sid (\<lambda>s. s\<lparr>s_dek := dek, s_restricted := False\<rparr>) st))))))"
      by (cases "unwrap_dek cr (u_wrapped_dek u) (u_dek_nonce u) kek")
        (auto intro!: keeps_db_basic keeps_db_liftr keeps_db_bindi [of _ "commit x" for x] commit_own [OF o] c keeps_db_option)
  qed
qed

text \<open>The readers, and those that write to the CalDAV side or to the sessions alone.\<close>

lemmas reader_defs = login_def logout_def session_state_def list_accounts_def list_calendars_def calendar_ctags_def per_calendar_def
  get_events_def get_tasks_def get_journals_def load_items_def get_calendar_data_def get_settings_def get_holidays_def list_tokens_def
  list_shares_def owner_export_ics_def root_page_def root_session_def share_page_def resolve_view_def share_items_def single_item_def
  account_data_def export_ics_def list_items_def items_of_calendar_def try_list_def mcp_calendars_def mcp_journals_def
  journals_of_calendar_def get_item_details_def calendar_for_def password_for_def as_user_def under_session_def Let_def

lemma silent_readers:
  "silent (login cr g now sid fwd host email pw)" "silent (logout cookie)" "silent (session_state now cookie)"
  "silent (list_accounts tz now cookie)" "silent (list_calendars now cookie)" "silent (calendar_ctags cr dav now cookie)"
  "silent (list_tokens tz now cookie)" "silent (get_holidays now cookie x y)"
  "silent (root_page quality g now cookie accept)" "silent (share_page quality g accept i)"
  by (intro silentI; unfold reader_defs; auto intro!: keeps_db_intros)+

lemma silent_entry_readers:
  "silent (get_events rt e today x y)" "silent (get_tasks rt e x y)" "silent (get_journals rt e x y)"
  "silent (get_calendar_data rt e today x y kinds)" "silent (get_settings e)" "silent (list_shares tz e)" "silent (owner_export_ics rt g e b)"
  by (intro silentI; unfold reader_defs; auto intro!: keeps_db_intros)+

lemma silent_link_readers: "silent (resolve_view tz x)" "silent (share_items rt x)" "silent (export_ics rt x i)"
  by (intro silentI; unfold reader_defs; auto intro!: keeps_db_intros)+

lemma silent_tools:
  "silent (list_items rt ctx kind x y ids)" "silent (get_item_details rt ctx now uid c kind)" "silent (mcp_calendars ctx)"
  "silent (mcp_journals rt ctx x y ids)" "silent (run_tool rt t now q ctx)"
  using silent_worldly [OF run_tool_worldly, of rt t now q ctx]
  by (simp_all, (intro silentI; unfold reader_defs; auto intro!: keeps_db_intros)+)

lemma item_under: "acts_under cookie (session_request rt now cookie q)"
  unfolding session_request_def under_session_def
  using silent_worldly [OF run_item_worldly, of rt _ q]
  by (intro acts_under_session acts_for_silent) (auto intro!: silentI keeps_db_intros simp: silent_def)

text \<open>Resolving a link or a token stamps its row at most.\<close>

lemma resolve_ok:
  assumes "db_ok d"
  shows "db_ok (snd (resolve_share cr tz now secret d))" and "db_ok (snd (resolve_token cr tz now token d))"
  using assms touch_ok [OF assms]
  by (auto simp: resolve_share_def resolve_token_def split: option.split sum.split prod.split)

lemma link_keeps_ok: "keeps_db db_ok (get_share_context cr tz now header)"
  unfolding get_share_context_def
  by (intro keeps_db_if keeps_db_basic keeps_db_bindi keeps_db_option keeps_db_on_db resolve_ok)

lemma token_keeps_ok: "keeps_db db_ok (request_context cr tz now raw)"
proof -
  have "keeps_db db_ok (\<lambda>s. case resolve_token cr tz now (strip (drop 7 raw)) (ap_db s) of (r, d) \<Rightarrow> (r, s\<lparr>ap_db := d\<rparr>))"
    using keeps_db_on_db [of db_ok "resolve_token cr tz now (strip (drop 7 raw))", OF resolve_ok(2)] by (simp add: on_db_def)
  then show ?thesis unfolding request_context_def by (intro keeps_db_if keeps_db_basic keeps_db_recover)
qed

lemma silent_keeps: "silent m \<Longrightarrow> keeps_db P m"
  by (simp add: silent_def)

lemma by_link_ok: "(\<And>x. silent (h x)) \<Longrightarrow> keeps_db db_ok (by_link w v h)"
  unfolding by_link_def by (intro keeps_db_done keeps_db_bindi link_keeps_ok silent_keeps)

lemma by_token_ok: "(\<And>ctx. silent (tool ctx)) \<Longrightarrow> keeps_db db_ok (by_token w v tool)"
  unfolding by_token_def mcp_request_def by (intro keeps_db_if keeps_db_done keeps_db_bindi token_keeps_ok silent_keeps keeps_db_basic)

lemma share_request_ok: "keeps_db db_ok (share_request rt now header q)"
proof -
  have "worldly (share_write rt now x q)" for x
  proof -
    obtain err where "share_write rt now x q = (if permitted x q then run_item rt (share_entry now x) q else raisei err)"
      by (rule share_write_run)
    then show ?thesis by (simp add: run_item_worldly worldly_basic)
  qed
  then show ?thesis
    unfolding share_request_def
    by (intro keeps_db_bindi link_keeps_ok keeps_db_if silent_keeps silent_worldly keeps_db_basic)
qed

text \<open>The requests whose credential is a link's secret or a token; all others go by the cookie.\<close>

fun by_cookie :: "request \<Rightarrow> bool" where
  "by_cookie ShareView = False" | "by_cookie ShareItems = False" | "by_cookie (ShareItem q) = False" | "by_cookie (ShareExport i) = False"
| "by_cookie (Tool q) = False" | "by_cookie (ToolList a b c d) = False" | "by_cookie (ToolDetails a b c) = False"
| "by_cookie ToolCalendars = False" | "by_cookie (ToolJournals a b c) = False" | "by_cookie _ = True"

lemmas cookie_rules = acts_under_done acts_under_user silent_readers [THEN acts_under_silent] silent_entry_readers [THEN acts_for_silent]
  account_under delete_account_under patch_under create_token_under revoke_token_under change_password_under item_under
  revoke_share_for create_share_for put_settings_for

lemma handle_cookie: "by_cookie q \<Longrightarrow> acts_under (v_cookie v) (handle w v q)"
proof (cases q)
  case (PreviewRule a b c d)
  then show ?thesis by (auto intro!: acts_under_user acts_for_silent silentI keeps_db_basic)
next
  case (CreateToken a b c)
  have "acts_under (v_cookie v) (as_user v (\<lambda>_. raisei unprocessable :: (_, unit) io))"
    by (rule acts_under_user) (simp add: acts_for_def keeps_db_basic)
  then show ?thesis
    using CreateToken acts_under_done [OF create_token_under] by (cases "token_valid c") simp_all
next
  case (CreateShare a b c d)
  have "acts_for (s_user e) (if share_valid d then done_with (create_share cr tz g now a b c e d) else raisei unprocessable)" for e cr tz g now
    by (cases "share_valid d") (simp add: acts_for_done create_share_for, simp add: acts_for_def keeps_db_basic)
  then show ?thesis using CreateShare by (auto intro!: acts_under_user)
qed (auto intro!: cookie_rules)

lemma handle_other: "\<not> by_cookie q \<Longrightarrow> keeps_db db_ok (handle w v q)"
  by (cases q) (auto intro!: by_link_ok by_token_ok keeps_db_done share_request_ok silent_link_readers silent_tools)

lemma acts_under_ok: "acts_under cookie m \<Longrightarrow> keeps_db db_ok m"
  unfolding acts_under_def keeps_db_def using own_changeD(1) by metis

lemma serve_ok: "keeps_db db_ok (serve w v q)"
  unfolding serve_def csrf_header_check_def
  using handle_other [of q w v] acts_under_ok [OF handle_cookie, of q w v]
  by (cases "by_cookie q") (auto intro!: keeps_db_intros)

lemma command_ok: "keeps_db db_ok (run_command w c)"
proof (cases c)
  case (ResetPassword salt dek nonce email pw)
  have "db_ok d \<Longrightarrow> db_ok (snd (reset_user cr g salt dek nonce email pw d))" for cr g d
    using own_changeD(1) [OF reset_user_change, of d email] by (cases "user_by_email d email") (auto simp: reset_user_def)
  then show ?thesis using ResetPassword by (auto intro!: keeps_db_done keeps_db_on_db)
next
  case (DeleteUser email)
  have "db_ok d \<Longrightarrow> db_ok (snd (delete_user email d))" for d
    using own_changeD(1) [OF delete_user_change, of d email] by (cases "user_by_email d email") (auto simp: delete_user_def)
  then show ?thesis using DeleteUser by (auto intro!: keeps_db_done keeps_db_on_db)
qed (auto intro!: keeps_db_done keeps_db_on_db create_user_ok)

section \<open>The system\<close>

text \<open>C1: Whatever is asked of the server, in whatever order, with whatever credentials, and whatever
  the administrator does in between, restarts included, the database stays consistent: ids and e-mail
  addresses are unique, every calendar belongs to an account, every scope row to its token or share, no
  user has two default calendars, and the stored settings are within their bounds.\<close>

theorem database_consistent:
  assumes "reachable w s0 s" and "db_ok (ap_db s0)"
  shows "db_ok (ap_db s)"
  using assms(1)
proof (induction rule: reachable.induct)
  case begins
  then show ?case using assms(2) by (simp add: boot_def)
next
  case (restarts s)
  then show ?case by (simp add: boot_def)
next
  case (serves s v q r s')
  then show ?case using serve_ok [of w v q] unfolding keeps_db_def by (metis snd_conv)
next
  case (administers s c r s')
  then show ?case using command_ok [of w c] unfolding keeps_db_def by (metis snd_conv)
qed

text \<open>C2: No request made with a session reaches the rows of another user: everybody else's user row,
  accounts, calendars, tokens with their scopes, shares with their scopes, and settings are as they
  were, and without a session of that cookie the database does not change at all.\<close>

theorem other_users_untouched:
  assumes "db_ok (ap_db s)" and "by_cookie q" and "serve w v q s = (r, s')" and "ap_db s' \<noteq> ap_db s"
  shows "\<exists>sid e. v_cookie v = Some sid \<and> map_of (st_sessions (ap_store s)) sid = Some e
    \<and> others_kept (s_user e) (ap_db s) (ap_db s')"
proof -
  have "serve w v q s = handle w v q s"
    using assms(3,4) by (auto simp: serve_def csrf_header_check_def split: prod.split_asm if_split_asm)
  then show ?thesis
    using handle_cookie [OF assms(2), of v w] assms(1,3,4) own_changeD(2) unfolding acts_under_def by (metis snd_conv)
qed

text \<open>C37: Deleting a user does not end its sessions, and ids are given out again: where the deleted user was
  the last one created, the next user gets its id, and a session of the deleted one, still alive, is then
  served as a session of the new user, not even asked to change the one-off password.\<close>

theorem deleted_user_session_survives:
  fixes s :: "'s app"
  assumes "user_by_email (ap_db s) email = Some u"
    and "u_id u = next_id (map u_id (filter (\<lambda>v. u_id v \<noteq> u_id u) (db_users (ap_db s))))"
    and "map_of (st_sessions (ap_store s)) sid = Some e" and "sid \<noteq> []" and "s_user e = u_id u" and "\<not> s_restricted e"
    and "\<not> idled_out (ap_store s) e now"
    and "run_command w (DeleteUser email) s = (Inr (), s1)"
    and "create_user (rt_cr (w_rt w)) (w_config w) salt dek nonce email' pw (ap_db s1) = (Inr (Some pw), d2)"
    and "run_command w (CreateUser salt dek nonce email' pw) s1 = (r, s2)"
  shows "\<exists>u' e'. u' \<in> set (db_users (ap_db s2)) \<and> u_email u' = email' \<and> u_must_change u'
    \<and> fst (get_unrestricted_session now (Some sid) s2) = Inr e' \<and> s_user e' = u_id u'"
proof -
  have users: "db_users (ap_db s1) = filter (\<lambda>v. u_id v \<noteq> u_id u) (db_users (ap_db s))" and st1: "ap_store s1 = ap_store s"
    using assms(8,1) by (auto simp: done_with_def bindi_def on_db_def delete_user_def Let_def drop_accounts_def drop_tokens_def drop_shares_def)
  have s2: "s2 = s1\<lparr>ap_db := d2\<rparr>"
    using assms(9,10) by (simp add: done_with_def bindi_def on_db_def)
  obtain u' where "d2 = (ap_db s1)\<lparr>db_users := db_users (ap_db s1) @ [u']\<rparr>" "u_id u' = next_id (map u_id (db_users (ap_db s1)))"
    "u_email u' = email'" "u_must_change u'"
    using assms(9) by (auto simp: create_user_def provision_user_def Let_def bindr_eq_Inr rekey_user_def split: option.split_asm sum.split_asm)
  moreover have "fst (get_unrestricted_session now (Some sid) s2) = Inr (e\<lparr>s_last_seen := now\<rparr>)"
    using assms(3,4,6,7) st1
    by (simp add: get_unrestricted_session_def get_current_session_def bindi_def on_store_def get_session_def s2)
  ultimately show ?thesis using assms(2,5) users s2 by (intro exI [of _ u'] exI [of _ "e\<lparr>s_last_seen := now\<rparr>"]) simp
qed

section \<open>Witnesses\<close>

definition sample_site :: "((string \<times> vcal) list, tm list) site" where
  "sample_site = \<lparr>w_rt = sample_rt, w_config = default_config, w_dns = (\<lambda>_ _. Unresolved), w_text = (\<lambda>_. []), w_quality = (\<lambda>_. None),
     w_today = 738886\<rparr>"

definition from_browser :: envelope where
  "from_browser = \<lparr>v_now = SEC, v_cookie = Some ''sid'', v_secret = None, v_bearer = [], v_requested_with = Some ''fetch''\<rparr>"

lemma no_db_ok: "db_ok no_db"
  by (simp add: db_ok_defs one_default_def all_prefs_ok_def prefs_of_def owned_calendars_in) (simp add: no_db_def)

lemma sample_db_ok: "db_ok sample_routes_db"
proof -
  have "keys_ok sample_routes_db" "links_ok sample_routes_db" by code_simp+
  moreover have "one_default sample_routes_db"
    by (auto simp: one_default_def owned_calendars_in sample_routes_db_def no_db_def sample_calendar_def)
  moreover have "all_prefs_ok sample_routes_db" by (simp add: all_prefs_ok_def prefs_of_def sample_routes_db_def no_db_def)
  ultimately show ?thesis by (simp add: db_ok_def)
qed

definition hire :: "string \<Rightarrow> command" where
  "hire email = CreateUser [7] sample_dek (replicate 12 5) email ''one-off''"

theorem database_consistent_witness:
  "\<exists>s. reachable sample_site (routes_app no_db) s \<and> map u_email (db_users (ap_db s)) = [''ann''] \<and> length (st_sessions (ap_store s)) = 1
     \<and> db_ok (ap_db s)"
proof -
  let ?s0 = "routes_app no_db"
  define s1 where "s1 = snd (run_command sample_site (hire ''ann'') (boot default_config ?s0))"
  define s2 where "s2 = snd (serve sample_site from_browser (LogIn ''new'' None None ''ann'' ''one-off'') s1)"
  have c: "w_config sample_site = default_config" by (simp add: sample_site_def)
  have "reachable sample_site ?s0 s1"
    unfolding s1_def by (rule reachable.administers [OF reachable.begins [of sample_site ?s0, unfolded c] prod.collapse [symmetric]])
  then have s2: "reachable sample_site ?s0 s2"
    unfolding s2_def by (rule reachable.serves [OF _ prod.collapse [symmetric]])
  have "map u_email (db_users (ap_db s2)) = [''ann''] \<and> length (st_sessions (ap_store s2)) = 1"
    unfolding s2_def s1_def by code_simp
  moreover have "db_ok (ap_db s2)" using database_consistent [OF s2] no_db_ok by (simp add: routes_app_def)
  ultimately show ?thesis using s2 by (intro exI [of _ s2] conjI) simp_all
qed

definition make_default :: "int \<Rightarrow> request" where
  "make_default i = PatchCalendar i \<lparr>cp_color = None, cp_enabled = None, cp_default = Some True\<rparr>"

theorem other_users_untouched_witness:
  "\<exists>r s'. serve sample_site from_browser (make_default 10) (routes_app sample_routes_db) = (r, s')
     \<and> map c_default (db_calendars (ap_db s')) = [True, False, False] \<and> others_kept 7 sample_routes_db (ap_db s')"
proof -
  let ?s = "routes_app sample_routes_db"
  let ?run = "serve sample_site from_browser (make_default 10) ?s"
  have d: "map c_default (db_calendars (ap_db (snd ?run))) = [True, False, False]"
    "map c_default (db_calendars sample_routes_db) = [False, False, False]" by code_simp+
  have fixed: "ap_db ?s = sample_routes_db" "v_cookie from_browser = Some ''sid''" "map_of (st_sessions (ap_store ?s)) ''sid'' = Some owner_entry"
    "s_user owner_entry = 7" "by_cookie (make_default 10)"
    by (simp_all add: routes_app_def from_browser_def owner_entry_def make_default_def)
  have "ap_db (snd ?run) \<noteq> ap_db ?s" using d fixed(1) by auto
  then have "others_kept 7 sample_routes_db (ap_db (snd ?run))"
    using other_users_untouched [of ?s "make_default 10" sample_site from_browser "fst ?run" "snd ?run"] fixed sample_db_ok by auto
  then show ?thesis using d(1) by (metis prod.collapse)
qed

definition stale_app :: "(string \<times> vcal) list app" where   \<comment> \<open>user 1 alone, with a session\<close>
  "stale_app = (routes_app (no_db\<lparr>db_users := [sample_user]\<rparr>))
     \<lparr>ap_store := \<lparr>st_sessions = [(''sid'', owner_entry\<lparr>s_user := 1\<rparr>)], st_default = 3600\<rparr>\<rparr>"

theorem deleted_user_session_survives_witness:
  "\<exists>s1 s2 r u' e'. run_command sample_site (DeleteUser ''ann'') stale_app = (Inr (), s1)
     \<and> run_command sample_site (hire ''bob'') s1 = (r, s2) \<and> u' \<in> set (db_users (ap_db s2)) \<and> u_email u' = ''bob''
     \<and> fst (get_unrestricted_session SEC (Some ''sid'') s2) = Inr e' \<and> s_user e' = u_id u'"
proof -
  let ?del = "run_command sample_site (DeleteUser ''ann'') stale_app"
  let ?new = "run_command sample_site (hire ''bob'') (snd ?del)"
  let ?made = "create_user (rt_cr (w_rt sample_site)) (w_config sample_site) [7] sample_dek (replicate 12 5) ''bob'' ''one-off'' (ap_db (snd ?del))"
  have found: "user_by_email (ap_db stale_app) ''ann'' = Some sample_user" by code_simp
  have last: "u_id sample_user = next_id (map u_id (filter (\<lambda>v. u_id v \<noteq> u_id sample_user) (db_users (ap_db stale_app))))" by code_simp
  have alive: "map_of (st_sessions (ap_store stale_app)) ''sid'' = Some (owner_entry\<lparr>s_user := 1\<rparr>)"
    "s_user (owner_entry\<lparr>s_user := 1\<rparr>) = u_id sample_user" "\<not> s_restricted (owner_entry\<lparr>s_user := 1\<rparr>)"
    "\<not> idled_out (ap_store stale_app) (owner_entry\<lparr>s_user := 1\<rparr>) SEC"
    by (code_simp+)
  have "fst ?del = Inr ()" by code_simp
  then have del: "?del = (Inr (), snd ?del)" by (metis prod.collapse)
  have "fst ?made = Inr (Some ''one-off'')" by code_simp
  then have made: "?made = (Inr (Some ''one-off''), snd ?made)" by (metis prod.collapse)
  have new: "run_command sample_site (CreateUser [7] sample_dek (replicate 12 5) ''bob'' ''one-off'') (snd ?del) = (fst ?new, snd ?new)"
    by (simp add: hire_def)
  show ?thesis
    using deleted_user_session_survives [OF found last alive(1) _ alive(2-4) del made new] del by (metis list.distinct(1) prod.collapse)
qed

end
