(* ===== verification/Admin.thy ===== *)
theory Admin
  imports Server
begin

text \<open>
  The rest of the administration commands (\<open>admin.py\<close>), the one-off password and the list of users, and
  the way of a new user into the application: created by the administrator, logged in with the printed
  password, and admitted once it is changed.
\<close>

section \<open>One-off passwords and the list of users\<close>

definition password_letters :: string where   \<comment> \<open>\<open>string.ascii_letters + string.digits\<close>\<close>
  "password_letters = ''abcdefghijklmnopqrstuvwxyzABCDEFGHIJKLMNOPQRSTUVWXYZ0123456789''"

text \<open>\<open>secrets.choice\<close> is a parameter: the index it draws, of the \<open>k\<close>th call.\<close>

definition rand_password :: "(nat \<Rightarrow> nat) \<Rightarrow> nat \<Rightarrow> string" where
  "rand_password choice n = map (\<lambda>k. password_letters ! (choice k mod length password_letters)) [0..<n]"

definition pad_right :: "nat \<Rightarrow> string \<Rightarrow> string" where   \<comment> \<open>\<open>f"{s:<n}"\<close>\<close>
  "pad_right n s = s @ replicate (n - length s) (CHR '' '')"

definition user_line :: "user \<Rightarrow> string" where
  "user_line u = pad_right 6 (str_int (u_id u)) @ '' '' @ pad_right 40 (u_email u) @ '' '' @ (if u_must_change u then ''True'' else ''False'')"

definition list_users :: "db \<Rightarrow> string list" where
  "list_users d =
     (if db_users d = [] then [''No users.'']
      else (pad_right 6 ''ID'' @ '' '' @ pad_right 40 ''EMAIL'' @ '' MUST_CHANGE_PW'') # map user_line (db_users d))"

section \<open>The way in\<close>

lemma found_by_key: "find (\<lambda>v. f v = k) (xs @ [u]) = Some u" if "k \<notin> f ` set xs" "f u = k"
  using that by (induction xs) auto

lemma create_userD:
  assumes "crypto_ok cr" and "create_user cr g salt dek nonce email password d = (Inr (Some pw), d')"
  obtains u where "pw = password" "user_by_email d email = None" "d' = d\<lparr>db_users := db_users d @ [u]\<rparr>"
    "u_id u = next_id (map u_id (db_users d))" "u_email u = email" "u_must_change u" "authenticate cr g (Some u) password = Inr (u, dek)"
    "user_by_email d' email = Some u" "user_of d' (u_id u) = Some u"
proof -
  have none: "user_by_email d email = None" using assms(2) by (cases "user_by_email d email") (auto simp: create_user_def)
  obtain d1 where p: "provision_user cr g salt dek nonce email password d = Inr d1" "d1 = d'" "pw = password"
    using assms(2) none by (cases "provision_user cr g salt dek nonce email password d") (auto simp: create_user_def)
  let ?b = "\<lparr>u_id = next_id (map u_id (db_users d)), u_email = email, u_salt = [], u_time = 0, u_memory = 0, u_lanes = 0,
                   u_wrapped_dek = [], u_dek_nonce = [], u_verifier = [], u_must_change = True\<rparr>"
  obtain u where r: "rekey_user cr g salt nonce password dek True ?b = Inr u" "d1 = d\<lparr>db_users := db_users d @ [u]\<rparr>"
    using p(1) unfolding provision_user_def Let_def by (auto simp: bindr_eq_Inr)
  note k = rekey_user_authenticates [OF assms(1) r(1)]
  have "next_id (map u_id (db_users d)) \<notin> u_id ` set (db_users d)" using next_id_fresh [of _ "map u_id (db_users d)"] by force
  moreover have d': "d' = d\<lparr>db_users := db_users d @ [u]\<rparr>" using p(2) r(2) by simp
  ultimately have by_id: "user_of d' (u_id u) = Some u" using k by (simp add: user_of_def found_by_key)
  have by_email: "user_by_email d' email = Some u"
    using none k by (simp add: d' user_by_email_def, intro found_by_key, auto simp: find_None_iff)
  show ?thesis by (rule that [OF p(3) none d' _ _ _ _ by_email by_id]) (use k in simp_all)
qed

lemma login_admitted:
  assumes "fst (check_ip (client_ip forwarded host) now (ap_limiter a)) = None"
    and "authenticate cr g (user_by_email (ap_db a) email) password = Inr (u, dek)"
  obtains a' where "login cr g now sid forwarded host email password a = (Inr (Welcome sid (u_must_change u)), a')" "ap_db a' = ap_db a"
    "map_of (st_sessions (ap_store a')) sid = Some \<lparr>s_user = u_id u, s_dek = dek, s_last_seen = now, s_restricted = u_must_change u,
       s_idle = idle_of g (prefs_of (ap_db a) (u_id u))\<rparr>"
proof -
  obtain l where "check_ip (client_ip forwarded host) now (ap_limiter a) = (None, l)" using assms(1) by (metis prod.collapse)
  then show ?thesis using assms(2) that by (auto simp: login_def Let_def bindi_def create_session_def)
qed

lemma change_password_runs:
  assumes "sid \<noteq> []" and "get_session sid now (ap_store a) = (Some e, st)" and "user_of (ap_db a) (s_user e) = Some u"
    and "g_min_password g \<le> int (length new_password)" and "authenticate cr g (Some u) old_password = Inr (u, dek)"
  shows "change_password cr g now salt nonce (Some sid) old_password new_password a =
    (case rekey_user cr g salt nonce new_password dek False u of
       Inl x \<Rightarrow> (Inl x, a\<lparr>ap_store := st\<rparr>)
     | Inr u' \<Rightarrow> (Inr (), a\<lparr>ap_db := set_user u' (ap_db a), ap_store := update_session sid (\<lambda>s. s\<lparr>s_dek := dek, s_restricted := False\<rparr>) st\<rparr>))"
proof -
  obtain kek where "derive_kek cr old_password (u_salt u) (u_time u) (u_memory u) (u_lanes u) = Inr kek"
    "make_verifier cr kek = u_verifier u" "unwrap_dek cr (u_wrapped_dek u) (u_dek_nonce u) kek = Inr dek"
    using assms(5) by (auto simp: authenticate_eq)
  then show ?thesis
    using assms(1-4) by (auto simp: change_password_def get_current_session_def bindi_def verify_kek_def split: sum.split)
qed

lemma fresh_session_lives:
  assumes "all_prefs_ok d" and "0 \<le> g_idle_timeout g" and "s_idle e = idle_of g (prefs_of d i)" and "s_last_seen e = now"
  shows "\<not> idled_out st e now"
proof (cases "prefs_of d i")
  case (Some p)
  then have "60 \<le> p_logout_after p" using assms(1) by (simp add: all_prefs_ok_def prefs_ok_def min_auto_logout_def)
  then show ?thesis using assms(3,4) Some by (simp add: idled_out_def effective_timeout_def idle_of_def SEC_def)
qed (use assms(2-4) in \<open>simp add: idled_out_def effective_timeout_def idle_of_def SEC_def\<close>)

text \<open>Where a new password has been set, it logs in and gives the same key.\<close>

lemma rekeyed_login:
  assumes "crypto_ok cr" and "rekey_user cr g salt nonce new_password dek False u = Inr u'" and "user_by_email d email = Some u"
    and "ap_db b = set_user u' d" and "fst (check_ip (client_ip forwarded host) later (ap_limiter b)) = None"
  shows "\<exists>b'. login cr g later sid forwarded host email new_password b = (Inr (Welcome sid False), b')
    \<and> (\<exists>e. map_of (st_sessions (ap_store b')) sid = Some e \<and> s_dek e = dek \<and> \<not> s_restricted e)"
proof -
  note k = rekey_user_authenticates [OF assms(1,2)]
  have "find (\<lambda>v. u_email v = email) (update_first (\<lambda>v. u_id v = u_id u') (\<lambda>_. u') (db_users d)) = Some u'"
    by (rule find_replaced [OF assms(3) [unfolded user_by_email_def]])
      (use k(2,3) find_SomeD [OF assms(3) [unfolded user_by_email_def]] in simp_all)
  then have "authenticate cr g (user_by_email (ap_db b) email) new_password = Inr (u', dek)"
    using k(1) by (simp add: assms(4) user_by_email_def set_user_def)
  then show ?thesis by (rule login_admitted [OF assms(5), where sid = sid]) (use k(4) in auto)
qed

text \<open>C4: A new user gets in, and only with the new password for more than that: the printed password
  logs in, to a session that is refused everything but the change; changing the password fails only where
  the cryptography does and then changes nothing in the database; once it succeeds, that session is
  served, holding the key that was made when the user was created, and a later login with the new
  password gets the same key without being asked again.\<close>

theorem new_user_gets_in:
  fixes a :: "'s app"
  assumes "crypto_ok cr" and "db_ok d" and "0 \<le> g_idle_timeout g"
    and "create_user cr g salt dek nonce email password d = (Inr (Some pw), d')" and "ap_db a = d'"
    and "fst (check_ip (client_ip forwarded host) now (ap_limiter a)) = None" and "sid \<noteq> []"
    and "g_min_password g \<le> int (length new_password)"
  shows "\<exists>a1. login cr g now sid forwarded host email pw a = (Inr (Welcome sid True), a1)
    \<and> fst (get_unrestricted_session now (Some sid) a1) = Inl (http 403 ''Password change required'')
    \<and> (case change_password cr g now salt2 nonce2 (Some sid) pw new_password a1 of
         (Inl x, a2) \<Rightarrow> ap_db a2 = d' \<and> (\<exists>u. rekey_user cr g salt2 nonce2 new_password dek False u = Inl x)
       | (Inr _, a2) \<Rightarrow> (\<exists>e. fst (get_unrestricted_session now (Some sid) a2) = Inr e \<and> s_user e = next_id (map u_id (db_users d)) \<and> s_dek e = dek)
           \<and> (\<forall>later sid2 fwd2 host2 (b :: 's app). ap_db b = ap_db a2 \<and> fst (check_ip (client_ip fwd2 host2) later (ap_limiter b)) = None \<longrightarrow>
                (\<exists>a3 e. login cr g later sid2 fwd2 host2 email new_password b = (Inr (Welcome sid2 False), a3)
                   \<and> map_of (st_sessions (ap_store a3)) sid2 = Some e \<and> s_dek e = dek \<and> \<not> s_restricted e)))"
proof -
  obtain u where u: "pw = password" "user_by_email d email = None" "d' = d\<lparr>db_users := db_users d @ [u]\<rparr>"
    "u_id u = next_id (map u_id (db_users d))" "u_email u = email" "u_must_change u" "authenticate cr g (Some u) password = Inr (u, dek)"
    "user_by_email d' email = Some u" "user_of d' (u_id u) = Some u"
    by (rule create_userD [OF assms(1,4)])
  have ok: "db_ok d'" using create_user_ok [OF assms(2)] assms(4) by (metis snd_conv)
  let ?e = "\<lparr>s_user = u_id u, s_dek = dek, s_last_seen = now, s_restricted = True, s_idle = idle_of g (prefs_of d' (u_id u))\<rparr>"
  obtain a1 where a1: "login cr g now sid forwarded host email pw a = (Inr (Welcome sid True), a1)" "ap_db a1 = d'"
    "map_of (st_sessions (ap_store a1)) sid = Some ?e"
    using login_admitted [OF assms(6), of cr g email password u dek sid] u(8) assms(5) u(1,6,7) by metis
  have alive: "\<not> idled_out st ?e now" "\<not> idled_out st (?e\<lparr>s_restricted := False\<rparr>) now" for st
    by (rule fresh_session_lives [OF db_okD(4) [OF ok] assms(3)]; simp)+
  have found: "get_session sid now (ap_store a1) = (Some ?e, put_session sid ?e (ap_store a1))"
    using a1(3) alive(1) by (simp add: get_session_def)
  have refused: "fst (get_unrestricted_session now (Some sid) a1) = Inl (http 403 ''Password change required'')"
    using assms(7) found by (simp add: get_unrestricted_session_def get_current_session_def bindi_def)
  note run = change_password_runs [OF assms(7) found, of u g new_password cr pw dek salt2 nonce2, simplified, unfolded a1(2), OF u(9) assms(8) u(7) [folded u(1)]]
  show ?thesis
  proof (cases "rekey_user cr g salt2 nonce2 new_password dek False u")
    case (Inl x)
    then show ?thesis using a1(1,2) refused run by (intro exI [of _ a1]) auto
  next
    case (Inr u')
    define a2 where "a2 = a1\<lparr>ap_db := set_user u' d', ap_store := update_session sid (\<lambda>s. s\<lparr>s_dek := dek, s_restricted := False\<rparr>) (put_session sid ?e (ap_store a1))\<rparr>"
    have c: "change_password cr g now salt2 nonce2 (Some sid) pw new_password a1 = (Inr (), a2)" using run Inr by (simp add: a2_def)
    have "map_of (st_sessions (ap_store a2)) sid = Some (?e\<lparr>s_restricted := False\<rparr>)"
      by (simp add: a2_def update_session_def put_session_def update_conv')
    then have "\<exists>e. fst (get_unrestricted_session now (Some sid) a2) = Inr e \<and> s_user e = next_id (map u_id (db_users d)) \<and> s_dek e = dek"
      using assms(7) alive(2) u(4) by (simp add: get_unrestricted_session_def get_current_session_def get_session_def bindi_def)
    moreover have "ap_db a2 = set_user u' d'" by (simp add: a2_def)
    ultimately show ?thesis
      using a1(1) refused c by (intro exI [of _ a1]) (simp add: rekeyed_login [OF assms(1) Inr u(8)])
  qed
qed

section \<open>Witness\<close>

theorem new_user_gets_in_witness:
  "\<exists>d' a1 a2 e. create_user sample_crypto default_config [9] sample_dek (replicate 12 6) ''bea'' ''one-off'' sample_routes_db = (Inr (Some ''one-off''), d')
     \<and> login sample_crypto default_config SEC ''new'' None None ''bea'' ''one-off'' (routes_app d') = (Inr (Welcome ''new'' True), a1)
     \<and> change_password sample_crypto default_config SEC [8] (replicate 12 7) (Some ''new'') ''one-off'' ''a-longer-password'' a1 = (Inr (), a2)
     \<and> fst (get_unrestricted_session SEC (Some ''new'') a2) = Inr e \<and> s_dek e = sample_dek"
proof -
  let ?create = "create_user sample_crypto default_config [9] sample_dek (replicate 12 6) ''bea'' ''one-off'' sample_routes_db"
  have "fst ?create = Inr (Some ''one-off'')" by code_simp
  then have c: "?create = (Inr (Some ''one-off''), snd ?create)" by (metis prod.collapse)
  let ?a = "routes_app (snd ?create)"
  have a: "ap_db ?a = snd ?create" "fst (check_ip (client_ip None None) SEC (ap_limiter ?a)) = None"
    by (simp add: routes_app_def) (simp add: routes_app_def check_ip_def client_ip_def Let_def prune_def attempts_of_def recent_def)
  have ok: "db_ok sample_routes_db" by (rule sample_db_ok)
  have g: "0 \<le> g_idle_timeout default_config" "g_min_password default_config \<le> int (length ''a-longer-password'')"
    by (simp_all add: default_config_def)
  have new: "''new'' \<noteq> []" by simp
  obtain a1 where a1: "login sample_crypto default_config SEC ''new'' None None ''bea'' ''one-off'' ?a = (Inr (Welcome ''new'' True), a1)"
    and r: "case change_password sample_crypto default_config SEC [8] (replicate 12 7) (Some ''new'') ''one-off'' ''a-longer-password'' a1 of
         (Inl x, a2) \<Rightarrow> ap_db a2 = snd ?create \<and> (\<exists>u. rekey_user sample_crypto default_config [8] (replicate 12 7) ''a-longer-password'' sample_dek False u = Inl x)
       | (Inr _, a2) \<Rightarrow> (\<exists>e. fst (get_unrestricted_session SEC (Some ''new'') a2) = Inr e \<and> s_dek e = sample_dek)"
    using new_user_gets_in [OF sample_crypto_ok ok g(1) c a new g(2), of "[8]" "replicate 12 7"] by (fastforce split: prod.splits sum.splits)
  have rekeyed: "\<exists>v. rekey_user sample_crypto default_config [8] (replicate 12 7) ''a-longer-password'' sample_dek False u = Inr v" for u
    by (simp add: rekey_user_def derive_kek_def wrap_dek_def sample_crypto_def pad32_def)
  obtain q a2 where q: "change_password sample_crypto default_config SEC [8] (replicate 12 7) (Some ''new'') ''one-off'' ''a-longer-password'' a1 = (q, a2)"
    by fastforce
  show ?thesis
  proof (cases q)
    case (Inl x)
    then obtain u where "rekey_user sample_crypto default_config [8] (replicate 12 7) ''a-longer-password'' sample_dek False u = Inl x"
      using r q by auto
    then show ?thesis using rekeyed [of u] by simp
  next
    case (Inr y)
    then obtain e where "fst (get_unrestricted_session SEC (Some ''new'') a2) = Inr e" "s_dek e = sample_dek" using r q by auto
    then show ?thesis using c a1 q Inr by (intro exI [of _ "snd ?create"] exI [of _ a1] exI [of _ a2] exI [of _ e]) simp
  qed
qed

end
