(* ===== verification/Forgery.thy ===== *)
theory Forgery
  imports Server
begin

text \<open>
  What a page of another site can make a browser do: it can send any request with the user's cookie, but
  neither the header the server asks of every changing method, nor a share's secret, nor a token. The
  reading routes are shown to change nothing, so that the check of the header is enough.
\<close>

section \<open>Requests that only look\<close>

definition looked :: "'s app \<Rightarrow> 's app \<Rightarrow> bool" where
  "looked s s' \<longleftrightarrow> ap_db s' = ap_db s \<and> w_dav (ap_world s') = w_dav (ap_world s)
     \<and> fst ` set (st_sessions (ap_store s')) \<subseteq> fst ` set (st_sessions (ap_store s))"

definition calm :: "('s app, 'a) io \<Rightarrow> bool" where
  "calm m \<longleftrightarrow> (\<forall>s. looked s (snd (m s)))"

definition quiet_dav :: "('s world, 'a) io \<Rightarrow> bool" where
  "quiet_dav m \<longleftrightarrow> (\<forall>w. w_dav (snd (m w)) = w_dav w)"

text \<open>A CalDAV server that is not changed by being searched or asked for its sync token.\<close>

definition observing :: "'s dav \<Rightarrow> bool" where
  "observing dav \<longleftrightarrow> read_only dav \<and> (\<forall>cn url s. snd (d_sync_token dav cn url s) = s)"

lemma looked_refl [simp]: "looked s s"
  by (simp add: looked_def)

lemma looked_trans: "looked s t \<Longrightarrow> looked t u \<Longrightarrow> looked s u"
  unfolding looked_def by (elim conjE) (intro conjI, simp, simp, rule subset_trans)

named_theorems calm_intros \<open>computations that only look\<close>

lemma calm_basic [calm_intros]:
  "calm (reti x)" "calm (raisei e)" "calm (liftr r)" "calm (ask f)" "calm (require e' y)" "calm (guard b e)" "calm update_gauge" "calm (Pair r)"
  by (simp_all add: calm_def require_def guard_def looked_def split: option.split)

lemma calm_bindi [calm_intros]:
  assumes "calm m" and "\<And>x. calm (f x)"
  shows "calm (bindi m f)"
  unfolding calm_def
proof
  fix s
  show "looked s (snd (bindi m f s))"
    using assms looked_trans [of s "snd (m s)"] by (simp add: calm_def run_eqs(2) split: sum.split)
qed

lemma calm_liftr:
  assumes "\<And>x. r = Inr x \<Longrightarrow> calm (f x)"
  shows "calm (bindi (liftr r) f)"
  using assms by (cases r) (simp_all add: calm_basic)

lemma calm_if [calm_intros]: "calm m \<Longrightarrow> calm n \<Longrightarrow> calm (if b then m else n)"
  by simp

lemma calm_split [calm_intros]: "(\<And>x y. calm (f x y)) \<Longrightarrow> calm (case p of (x, y) \<Rightarrow> f x y)"
  by (cases p) simp

lemma calm_option [calm_intros]: "calm m \<Longrightarrow> (\<And>x. calm (f x)) \<Longrightarrow> calm (case y of None \<Rightarrow> m | Some x \<Rightarrow> f x)"
  by (cases y) simp_all

lemma calm_sum [calm_intros]: "(\<And>x. calm (f x)) \<Longrightarrow> (\<And>y. calm (h y)) \<Longrightarrow> calm (case r of Inl x \<Rightarrow> f x | Inr y \<Rightarrow> h y)"
  by (cases r) simp_all

lemma calm_done [calm_intros]: "calm m \<Longrightarrow> calm (done_with m)"
  unfolding done_with_def by (intro calm_intros)

lemma calm_world: "quiet_dav m \<Longrightarrow> calm (on_world m)"
  by (simp add: calm_def quiet_dav_def looked_def on_world_def split: prod.split) (metis snd_conv)

lemma calm_store: "(\<And>st. fst ` set (st_sessions (snd (h st))) \<subseteq> fst ` set (st_sessions st)) \<Longrightarrow> calm (on_store h)"
  by (simp add: calm_def looked_def on_store_def split: prod.split) (metis snd_conv)

lemma put_known: "map_of (st_sessions st) sid = Some e \<Longrightarrow> fst ` set (st_sessions (put_session sid e' st)) = fst ` set (st_sessions st)"
  by (auto simp: put_session_def dom_map_of_conv_image_fst [symmetric] update_conv' split: if_split_asm)

lemma drop_known: "fst ` set (st_sessions (drop_session sid st)) \<subseteq> fst ` set (st_sessions st)"
  by (auto simp: drop_session_def dom_map_of_conv_image_fst [symmetric] delete_conv' split: if_split_asm)

lemma calm_sessions [calm_intros]:
  "calm (on_store (get_session sid now))" "calm (get_current_session now cookie)" "calm (get_unrestricted_session now cookie)"
  "calm (on_store (session_status sid now))"
proof -
  show g: "calm (on_store (get_session sid now))" for sid
    by (rule calm_store) (simp add: get_session_def put_known drop_known split: option.split)
  show "calm (get_current_session now cookie)" "calm (get_unrestricted_session now cookie)"
    unfolding get_unrestricted_session_def get_current_session_def by (intro calm_intros g)+
  show "calm (on_store (session_status sid now))"
    by (rule calm_store) (simp add: session_status_def put_known drop_known Let_def split: option.split)
qed

section \<open>The reading routes\<close>

lemma quiet_watch: "watches m \<Longrightarrow> quiet_dav m"
  by (simp add: watches_def quiet_dav_def)

lemma quiet_gather: "(\<And>m. m \<in> set ms \<Longrightarrow> quiet_dav m) \<Longrightarrow> quiet_dav (gather ms)"
proof (induction ms)
  case (Cons m ms)
  then have "quiet_dav m" "quiet_dav (gather ms)" by simp_all
  then show ?case by (auto simp: quiet_dav_def bindi_def split: prod.split sum.split) (metis snd_conv)+
qed (simp add: quiet_dav_def)

lemma calm_jobs:
  assumes "\<And>x job. f x = Inr job \<Longrightarrow> quiet_dav job"
  shows "calm (bindi (liftr (mapr f rows)) (\<lambda>jobs. on_world (gather jobs)))"
proof (rule calm_liftr)
  fix jobs assume "mapr f rows = Inr jobs"
  then show "calm (on_world (gather jobs))" using assms mapr_in by (metis calm_world quiet_gather)
qed

lemma calm_per_calendar: "(\<And>cn c. quiet_dav (job cn c)) \<Longrightarrow> calm (per_calendar cr dek job rows)"
  unfolding per_calendar_def by (rule calm_jobs) (auto simp: bindr_eq_Inr)

lemma quiet_fetches:
  assumes "observing dav"
  shows "quiet_dav (fetch_events dav env cn url a b color i)" "quiet_dav (fetch_tasks dav env cn url a b color i)"
    "quiet_dav (fetch_journals dav env cn url a b color i)" "quiet_dav (fetch_sync_token dav cn url)"
    "quiet_dav (fetch_account_data dav env cn refs a b kinds)"
proof -
  have r: "read_only dav" and t: "snd (d_sync_token dav cn url s) = s" for s using assms by (simp_all add: observing_def)
  show "quiet_dav (fetch_events dav env cn url a b color i)" "quiet_dav (fetch_tasks dav env cn url a b color i)"
    "quiet_dav (fetch_journals dav env cn url a b color i)" by (intro quiet_watch watches_fetches r)+
  show "quiet_dav (fetch_sync_token dav cn url)" by (simp add: quiet_dav_def fetch_sync_token_def observed_dav run_eqs(1) t)
  show "quiet_dav (fetch_account_data dav env cn refs a b kinds)" by (simp add: quiet_dav_def fetch_account_data_run [OF r])
qed

lemma calm_loads:
  assumes "observing (rt_dav rt)"
  shows "calm (get_events rt e today x y)" "calm (get_tasks rt e x y)" "calm (get_journals rt e x y)"
    "calm (get_calendar_data rt e today x y kinds)" "calm (calendar_ctags cr (rt_dav rt) now cookie)"
proof -
  note q = quiet_fetches [OF assms]
  show "calm (get_events rt e today x y)" "calm (get_tasks rt e x y)" "calm (get_journals rt e x y)"
    unfolding get_events_def get_tasks_def get_journals_def load_items_def Let_def by (intro calm_intros calm_per_calendar q)+
  show "calm (calendar_ctags cr (rt_dav rt) now cookie)"
    unfolding calendar_ctags_def Let_def by (intro calm_intros calm_per_calendar q)
  have jobs: "calm (bindi (liftr (account_jobs rt e u v kinds groups)) (\<lambda>jobs. bindi (on_world (gather jobs)) h))"
    if "\<And>x. calm (h x)" for u v kinds groups and h :: "fetched res list \<Rightarrow> ('a app, data_out) io"
  proof -
    have "calm (bindi (liftr (account_jobs rt e u v kinds groups)) (\<lambda>jobs. on_world (gather jobs)))"
      unfolding account_jobs_def by (rule calm_jobs) (auto simp: bindr_eq_Inr q)
    then have "calm (bindi (bindi (liftr (account_jobs rt e u v kinds groups)) (\<lambda>jobs. on_world (gather jobs))) h)"
      by (rule calm_bindi) (rule that)
    then show ?thesis by (simp only: bindi_assoc)
  qed
  show "calm (get_calendar_data rt e today x y kinds)"
    unfolding get_calendar_data_def Let_def by (intro calm_intros jobs)
qed

lemma calm_readers:
  "calm (session_state now cookie)" "calm (list_accounts tz now cookie)" "calm (list_calendars now cookie)"
  "calm (list_tokens tz now cookie)" "calm (get_holidays now cookie x y)" "calm (get_settings e)" "calm (list_shares tz e)"
  "calm (root_page quality g now cookie accept)" "calm (share_page quality g accept i)"
  unfolding session_state_def list_accounts_def list_calendars_def list_tokens_def get_holidays_def get_settings_def list_shares_def
    root_page_def root_session_def share_page_def Let_def
  by (intro calm_intros)+

lemma calm_user: "(\<And>e. calm (h e)) \<Longrightarrow> calm (as_user v h)"
  unfolding as_user_def under_session_def by (intro calm_intros)

section \<open>Forged requests\<close>

text \<open>The tools are the requests outside the check.\<close>

fun is_tool :: "request \<Rightarrow> bool" where
  "is_tool (Tool q) = True" | "is_tool (ToolList a b c d) = True" | "is_tool (ToolDetails a b c) = True"
| "is_tool ToolCalendars = True" | "is_tool (ToolJournals a b c) = True" | "is_tool _ = False"

lemma read_or_checked:
  assumes "observing (rt_dav (w_rt w))" and "\<not> present (v_secret v)" and "\<not> is_tool q"
  shows "csrf_blocked (fst (route q)) (snd (route q)) None \<or> calm (handle w v q)"
proof (cases q)
  case (Item r)
  then show ?thesis by (cases r) (simp_all add: csrf_blocked_def mutating_methods_def startswith_def)
next
  case (ShareItem r)
  then show ?thesis by (cases r) (simp_all add: csrf_blocked_def mutating_methods_def startswith_def)
qed (use assms in \<open>auto simp: csrf_blocked_def mutating_methods_def startswith_def by_link_def get_share_context_def
    intro!: calm_done calm_user calm_readers calm_loads calm_basic\<close>)

text \<open>C3: A request forged by another site changes nothing: without the header that such a site cannot
  send, and without a share's secret, no route outside the token-authenticated tools changes the
  database or a calendar on the CalDAV server, or opens a session, whatever cookie the browser adds. The
  server is one that being searched does not change.\<close>

theorem forged_request_harmless:
  assumes "observing (rt_dav (w_rt w))" and "v_requested_with v \<noteq> Some ''fetch''" and "\<not> present (v_secret v)" and "\<not> is_tool q"
    and "serve w v q s = (r, s')"
  shows "ap_db s' = ap_db s \<and> w_dav (ap_world s') = w_dav (ap_world s)
    \<and> fst ` set (st_sessions (ap_store s')) \<subseteq> fst ` set (st_sessions (ap_store s))"
proof -
  have "looked s s'"
    using read_or_checked [OF assms(1,3,4)] assms(2,5)
    by (auto simp: serve_def csrf_header_check_def csrf_blocked_def calm_def split: prod.split_asm if_split_asm) (metis snd_conv)+
  then show ?thesis by (simp add: looked_def)
qed

section \<open>Witness\<close>

definition forged :: envelope where
  "forged = from_browser\<lparr>v_requested_with := None\<rparr>"

theorem forged_request_harmless_witness:
  "ap_db (snd (serve sample_site forged (DeleteAccount 1) (routes_app sample_routes_db))) = sample_routes_db
   \<and> w_dav (ap_world (snd (serve sample_site forged (GetEvents None None) (routes_app sample_routes_db)))) = [(''u1'', single_event)]"
proof -
  let ?s = "routes_app sample_routes_db"
  have o: "observing (rt_dav (w_rt sample_site))"
    by (simp add: observing_def sample_site_def sample_rt_def sample_read_only) (simp add: sample_dav_def)
  have e: "v_requested_with forged \<noteq> Some ''fetch''" "\<not> present (v_secret forged)"
    by (simp_all add: forged_def from_browser_def present_def)
  have "ap_db (snd (serve sample_site forged (DeleteAccount 1) ?s)) = ap_db ?s"
    using forged_request_harmless [OF o e _ prod.collapse [symmetric], of "DeleteAccount 1" ?s] by simp
  moreover have "w_dav (ap_world (snd (serve sample_site forged (GetEvents None None) ?s))) = w_dav (ap_world ?s)"
    using forged_request_harmless [OF o e _ prod.collapse [symmetric], of "GetEvents None None" ?s] by simp
  ultimately show ?thesis by (simp add: routes_app_def)
qed

end
