(* ===== verification/Spans.thy ===== *)
theory Spans
  imports Mcp
begin

text \<open>
  What the span of an event is once a request is accepted (\<open>_resolve_span\<close> of \<open>routers/events.py\<close>): two
  dates, or two readings of one clock in order.
\<close>

lemma into_zone_typed:
  assumes "into_zone tz z t = Inr t'" and "tm_ok t" and "is_datetime t"
  shows "\<exists>w f. t' = Stamp w f (Some z) \<and> wall_ok w"
    and "tzdb_ok tz \<Longrightarrow> instant tz t = Some u \<Longrightarrow> instant tz t' = Some u"
proof -
  obtain w f mz where t: "t = Stamp w f mz" using assms(3) by (cases t) auto
  show "\<exists>w f. t' = Stamp w f (Some z) \<and> wall_ok w"
    using assms(1,2) t by (auto simp: into_zone_def astimezone_def Let_def split: if_split_asm prod.split_asm)
  show "instant tz t' = Some u" if "tzdb_ok tz" "instant tz t = Some u"
    using assms(1) that astimezone_instant(1) [OF that(1)] by (cases mz) (auto simp: into_zone_def t)
qed

text \<open>C25: The span of an accepted event is well-typed: an all-day event gets two dates that exist, the
  second exclusive, and a timed one two readings of the clock of the request's zone, both of which a
  datetime can hold, the end after the start; a reading that came with an offset keeps its instant.\<close>

theorem request_span_typed:
  assumes "resolve_span tz b = Inr (s, e)"
  shows "if en_all_day b then \<exists>m n. s = Day m \<and> e = Day (n + 1) \<and> ord_ok m \<and> ord_ok (n + 1)
    else \<exists>z w f w' f'. request_zone tz (en_timezone b) = Inr z \<and> s = Stamp w f (Some z) \<and> e = Stamp w' f' (Some z)
      \<and> wall_ok w \<and> wall_ok w' \<and> w < w'
      \<and> (\<forall>t u. tzdb_ok tz \<and> datetime_fromisoformat (en_start b) = Inr t \<and> instant tz t = Some u \<longrightarrow> instant tz s = Some u)"
proof (cases "en_all_day b")
  case True
  then show ?thesis
    using assms parse_iso_date_ok by (elim all_day_span_ok) (auto simp: date_fromisoformat_def bindr_eq_Inr)
next
  case False
  obtain c cs where stop: "en_end b = Some (c # cs)"
    using assms False by (cases "en_end b"; cases "the (en_end b)") (auto simp: resolve_span_def timed_span_def bindr_eq_Inr)
  obtain z s0 e0 where z: "request_zone tz (en_timezone b) = Inr z" and p: "datetime_fromisoformat (en_start b) = Inr s0"
    "datetime_fromisoformat (c # cs) = Inr e0" and i: "into_zone tz z s0 = Inr s" "into_zone tz z e0 = Inr e"
    and o: "tm_leq tz e s = Inr False"
    using assms False by (auto simp: resolve_span_def timed_span_def stop bad_request_def bindr_def
      split: sum.split_asm if_split_asm prod.split_asm)
  have ok: "tm_ok s0" "is_datetime s0" "tm_ok e0" "is_datetime e0" using p datetime_fromisoformat_ok by blast+
  obtain w f w' f' where "s = Stamp w f (Some z)" "wall_ok w" "e = Stamp w' f' (Some z)" "wall_ok w'"
    using into_zone_typed(1) [OF i(1) ok(1,2)] into_zone_typed(1) [OF i(2) ok(3,4)] by blast
  moreover from this have "w < w'" using o by (simp add: tm_leq_def)
  ultimately show ?thesis using False z p(1) into_zone_typed(2) [OF i(1) ok(1,2)] by auto
qed

definition call_event :: event_in where   \<comment> \<open>a drag of the calendar: the start with an offset\<close>
  "call_event = day_event\<lparr>en_all_day := False, en_start := ''2024-01-01T10:00:00+02:00'', en_end := Some ''2024-01-01T09:30:00'', en_timezone := None\<rparr>"

theorem request_span_typed_witness:
  "\<exists>s e w w'. resolve_span sample_tz call_event = Inr (s, e) \<and> s = Stamp w 0 (Some Utc) \<and> e = Stamp w' 0 (Some Utc) \<and> w < w'"
proof -
  have "case resolve_span sample_tz call_event of Inl x \<Rightarrow> False | Inr (s, e) \<Rightarrow> s = Stamp (wall s) 0 (Some Utc) \<and> e = Stamp (wall e) 0 (Some Utc)"
    by code_simp
  then obtain s e where r: "resolve_span sample_tz call_event = Inr (s, e)" "s = Stamp (wall s) 0 (Some Utc)" "e = Stamp (wall e) 0 (Some Utc)"
    by (auto split: sum.split_asm prod.split_asm)
  have t: "\<not> en_all_day call_event" by (simp add: call_event_def)
  obtain z w f w' f' where "s = Stamp w f (Some z)" "e = Stamp w' f' (Some z)" "w < w'"
    using request_span_typed [OF r(1)] unfolding if_not_P [OF t] by blast
  then have "wall s < wall e" by simp
  then show ?thesis using r by blast
qed

end
