(* ===== verification/Moves.thy ===== *)
theory Moves
  imports RouteFacts
begin

text \<open>
  Moving an event to another calendar (\<open>put_event\<close> of \<open>routers/events.py\<close>): what happens on the CalDAV side, in
  which order, and what the moved event keeps.
\<close>

section \<open>The order of a move\<close>

lemma fetch_state: "ap_world (snd (on_world m s)) = snd (m (ap_world s))" "fst (on_world m s) = fst (m (ap_world s))"
  by (simp_all add: on_world_def split: prod.split)

lemma relocate_run:
  assumes "relocate rt e source create drop_item s = (r, s')"
  obtains (untouched) "s' = s" "\<exists>x. r = Inl x"
  | (not_created) x where "create s = (Inl x, s')" "r = Inl x"
  | (moved) u s1 c a pw where "create s = (Inr u, s1)" "owned_calendar (ap_db s) (s_user e) source = Some (c, a)"
      "ap_world s' = snd (drop_item (conn_of a pw) (c_caldav_id c) (ap_world s1))"
      "r = fst (drop_item (conn_of a pw) (c_caldav_id c) (ap_world s1))"
proof (cases "owned_calendar (ap_db s) (s_user e) source")
  case None
  then show thesis using assms untouched by (auto simp: relocate_def bindi_calendar_for)
next
  case (Some x)
  obtain c a where x: "x = (c, a)" by (cases x)
  show thesis
  proof (cases "password_of (rt_cr rt) (s_dek e) a")
    case (Inl y)
    then show thesis using assms Some x untouched by (auto simp: relocate_def bindi_calendar_for password_for_def)
  next
    case (Inr pw)
    then have run: "relocate rt e source create drop_item s = bindi create (\<lambda>_. on_world (drop_item (conn_of a pw) (c_caldav_id c))) s"
      using Some x by (simp add: relocate_def bindi_calendar_for password_for_def)
    show thesis
    proof (cases "fst (create s)")
      case (Inl y)
      then show thesis using assms run not_created by (simp add: run_eqs(2)) (metis prod.collapse)
    next
      case (Inr u)
      have c: "create s = (Inr u, snd (create s))" using Inr by (simp add: prod_eq_iff)
      have d: "on_world (drop_item (conn_of a pw) (c_caldav_id c)) (snd (create s)) = (r, s')"
        using assms run by (simp add: bindi_simps(1) [of create s u "snd (create s)", OF c])
      show thesis
        by (rule moved [OF c Some [unfolded x]]) (use fetch_state [of "drop_item (conn_of a pw) (c_caldav_id c)" "snd (create s)"] d in simp_all)
    qed
  qed
qed

text \<open>The object a move creates: one component with the edited fields, without rule, overrides or
  exclusions.\<close>

definition moved_object :: "'r env \<Rightarrow> string \<Rightarrow> event_in \<Rightarrow> tm \<Rightarrow> tm \<Rightarrow> (delta \<times> string) list option \<Rightarrow> vcal" where
  "moved_object env uid b start stop rs = series_ical env uid (timed (event_fields b) start stop) None [] [] rs [] EVENT None None"

lemma create_plain_run:
  "w_dav (snd (create_event dav env cn url uid f start stop None rs w))
     = snd (d_create dav cn url ''VEVENT'' (series_ical env uid (timed f start stop) None [] [] rs [] EVENT None None) (w_dav w))"
  "fst (create_event dav env cn url uid f start stop None rs w)
     = fst (d_create dav cn url ''VEVENT'' (series_ical env uid (timed f start stop) None [] [] rs [] EVENT None None) (w_dav w))"
  by (simp_all add: create_event_def observed_dav observed_result sync_create_event_def opt_rule_def run_eqs(1))

definition single_copy :: "string \<Rightarrow> string \<Rightarrow> vcal \<Rightarrow> bool" where
  "single_copy uid title obj \<longleftrightarrow> (\<exists>m. vsubs obj = [m] \<and> cvals m UID = [VText uid] \<and> cvals m SUMMARY = text_vals (Some title)
     \<and> \<not> has_rrule m \<and> cvals m EXDATE = [])"

lemma moved_object_single: "single_copy uid (en_title b) (moved_object env uid b start stop rs)"
  by (simp add: single_copy_def moved_object_def series_ical_def has_rrule_def series_comp_vals rule_vals_def timed_def event_fields_def)

lemma put_event_moves:
  assumes "put_event rt e uid b s = (r, s')" and "en_scope b = ''all''" and "moves (en_original b) (en_calendar b)"
  obtains (refused) "s' = s" "\<exists>x. r = Inl x"
  | (runs) c a pw start stop rs q where "owned_calendar (ap_db s) (s_user e) (en_calendar b) = Some (c, a)" "password_of (rt_cr rt) (s_dek e) a = Inr pw"
      "relocate rt e (the (en_original b))
         (on_world (create_event (rt_dav rt) (rt_env rt) (conn_of a pw) (c_caldav_id c) uid (event_fields b) start stop None rs))
         (\<lambda>cn url. delete_event (rt_dav rt) (rt_env rt) cn url uid ''all'' None) s = (q, s')"
      "(\<exists>x. r = Inl x) \<longleftrightarrow> (\<exists>x. q = Inl x)"
proof -
  let ?dav = "rt_dav rt" and ?env = "rt_env rt"
  note d = put_event_def recur_scopes_def bindi_calendar_for password_for_def Let_def
  consider (foreign) "owned_calendar (ap_db s) (s_user e) (en_calendar b) = None"
    | (early) c a y where "owned_calendar (ap_db s) (s_user e) (en_calendar b) = Some (c, a)" "resolve_span (e_tz ?env) b = Inl y \<or> password_of (rt_cr rt) (s_dek e) a = Inl y"
    | (goes) c a pw start stop where "owned_calendar (ap_db s) (s_user e) (en_calendar b) = Some (c, a)" "resolve_span (e_tz ?env) b = Inr (start, stop)"
        "password_of (rt_cr rt) (s_dek e) a = Inr pw"
    by (metis old.sum.exhaust prod.collapse option.exhaust)
  then show thesis
  proof cases
    case foreign
    then show thesis using refused assms by (auto simp: d)
  next
    case early
    then show thesis using refused assms by (cases "resolve_span (e_tz ?env) b") (auto simp: d split: prod.split_asm)
  next
    case goes
    define create where "create = bindi (liftr (reminder_deltas (en_reminders b) (en_all_day b)))
      (\<lambda>rs. on_world (create_event ?dav ?env (conn_of a pw) (c_caldav_id c) uid (event_fields b) start stop None rs) :: ('a app, unit) io)"
    have run: "put_event rt e uid b s = upstream_item ''Event not found'' ''Failed to update event on CalDAV server''
        (relocate rt e (the (en_original b)) create (\<lambda>cn url. delete_event ?dav ?env cn url uid ''all'' None)) s"
      using assms(2,3) goes unfolding create_def by (simp add: d)
    obtain q t where q: "relocate rt e (the (en_original b)) create (\<lambda>cn url. delete_event ?dav ?env cn url uid ''all'' None) s = (q, t)" by fastforce
    have r: "s' = t" "(\<exists>x. r = Inl x) \<longleftrightarrow> (\<exists>x. q = Inl x)"
      using assms(1) run q by (auto simp: upstream_run split: sum.split_asm)
    show thesis
    proof (cases "reminder_deltas (en_reminders b) (en_all_day b)")
      case (Inl y)
      then have "create = raisei y" by (simp add: create_def)
      from q [unfolded this] show thesis
        by (cases rule: relocate_run) (use r refused in auto)
    next
      case (Inr rs)
      then have "create = on_world (create_event ?dav ?env (conn_of a pw) (c_caldav_id c) uid (event_fields b) start stop None rs)"
        by (simp add: create_def)
      then show thesis using runs [OF goes(1,3)] q r by blast
    qed
  qed
qed

text \<open>C10: A move creates before it deletes: editing a whole event with another calendar as its target either
  leaves the CalDAV side as it is and fails, or stores on the target, a calendar of the user, an object
  with the UID and the edited title; where that fails nothing else is touched, and only where it succeeds
  is the original deleted, from its own calendar. The object is a single event: a rule, its exclusions and
  overrides do not move with it.\<close>

theorem event_move_order:
  assumes "put_event rt e uid b s = (r, s')" and "en_scope b = ''all''" and "moves (en_original b) (en_calendar b)"
  shows "s' = s \<and> (\<exists>x. r = Inl x)
   \<or> (\<exists>c a pw obj. owned_calendar (ap_db s) (s_user e) (en_calendar b) = Some (c, a) \<and> password_of (rt_cr rt) (s_dek e) a = Inr pw
      \<and> single_copy uid (en_title b) obj
      \<and> (case d_create (rt_dav rt) (conn_of a pw) (c_caldav_id c) ''VEVENT'' obj (w_dav (ap_world s)) of
           (Inl x, d1) \<Rightarrow> w_dav (ap_world s') = d1 \<and> (\<exists>y. r = Inl y)
         | (Inr u, d1) \<Rightarrow> \<exists>c0 a0 pw0 w1. w_dav w1 = d1 \<and> owned_calendar (ap_db s) (s_user e) (the (en_original b)) = Some (c0, a0)
              \<and> ap_world s' = snd (delete_event (rt_dav rt) (rt_env rt) (conn_of a0 pw0) (c_caldav_id c0) uid ''all'' None w1)))"
  using assms
proof (cases rule: put_event_moves)
  case (runs c a pw start stop rs q)
  let ?obj = "moved_object (rt_env rt) uid b start stop rs"
  let ?made = "d_create (rt_dav rt) (conn_of a pw) (c_caldav_id c) ''VEVENT'' ?obj (w_dav (ap_world s))"
  let ?create = "on_world (create_event (rt_dav rt) (rt_env rt) (conn_of a pw) (c_caldav_id c) uid (event_fields b) start stop None rs)"
  have made: "?made = (fst (?create s), w_dav (ap_world (snd (?create s))))"
    by (simp add: prod_eq_iff fetch_state create_plain_run moved_object_def)
  note target = exI [of _ c] exI [of _ a] exI [of _ pw] exI [of _ ?obj] runs(1,2) moved_object_single [of uid b "rt_env rt" start stop rs]
  from runs(3) show ?thesis
  proof (cases rule: relocate_run)
    case untouched
    then show ?thesis using runs(4) by simp
  next
    case (not_created x)
    then have "?made = (Inl x, w_dav (ap_world s'))" using made by simp
    then show ?thesis using not_created(2) runs(4) by (intro disjI2 target conjI) simp
  next
    case (moved u s1 c0 a0 pw0)
    then have "?made = (Inr u, w_dav (ap_world s1))" using made by simp
    then show ?thesis using moved(2,3) by (intro disjI2 target conjI) auto
  qed
qed simp

section \<open>Witness\<close>

definition move_request :: event_in where   \<comment> \<open>from calendar 10 to calendar 11\<close>
  "move_request = \<lparr>en_calendar = 11, en_original = Some 10, en_title = ''Moved'', en_all_day = True, en_start = ''2024-01-01'',
     en_end = None, en_location = None, en_description = None, en_timezone = None, en_scope = ''all'', en_rid = None,
     en_rule = None, en_reminders = None, en_reset = False, en_reset_fields = []\<rparr>"

theorem event_move_order_witness:
  "\<exists>s' obj. put_event sample_rt owner_entry ''u1'' move_request (routes_app sample_routes_db) = (Inr (), s')
     \<and> single_copy ''u1'' ''Moved'' obj \<and> map fst (w_dav (ap_world s')) = [''new'']"
proof -
  let ?run = "put_event sample_rt owner_entry ''u1'' move_request (routes_app sample_routes_db)"
  have c: "fst ?run = Inr ()" "map fst (w_dav (ap_world (snd ?run))) = [''new'']" by code_simp+
  then have run: "?run = (Inr (), snd ?run)" by (simp add: prod_eq_iff)
  have b: "en_scope move_request = ''all''" "moves (en_original move_request) (en_calendar move_request)" "en_title move_request = ''Moved''"
    by (simp_all add: move_request_def moves_def)
  obtain obj where "single_copy ''u1'' ''Moved'' obj" using event_move_order [OF run b(1,2)] b(3) by auto
  then show ?thesis using run c(2) by (intro exI [of _ "snd ?run"] exI [of _ obj] conjI)
qed

end
