(* ===== verification/Grants.thy ===== *)
theory Grants
  imports Server
begin

text \<open>
  What is granted is what is had: an API token or a share link, from the route that creates it, through
  the stored row, to the request that presents it, and until it is revoked; and the credentials of a
  CalDAV account, from the form to the connection that uses them.
\<close>

section \<open>Expiry\<close>

lemma parse_expiry_ok:
  assumes "parse_expiry tz now raw = Inr expires"
  shows "expiry_ok tz expires"
proof (cases expires)
  case (Some t')
  then obtain c cs t where t: "raw = Some (c # cs)" "datetime_fromisoformat (c # cs) = Inr t"
    "t' = (if tzinfo t = None then replace_tz t Utc else t)"
    using assms by (auto simp: parse_expiry_def Let_def bindr_eq_Inr split: option.split_asm list.split_asm sum.split_asm if_split_asm)
  have ok: "tm_ok t" "is_datetime t" "offset_ok tz t" using datetime_fromisoformat_ok [OF t(2)] by blast+
  show ?thesis
    using ok t(3) Some by (cases t) (auto simp: expiry_ok_def offset_ok_def utcoffset_def split: option.split)
qed (simp add: expiry_ok_def)

lemma find_fresh: "\<forall>r \<in> set xs. \<not> P r \<Longrightarrow> P t \<Longrightarrow> find P (xs @ [t]) = Some t"
  by (induction xs) auto

section \<open>Tokens\<close>

lemma has_id_ints: "has_id c (map JInt xs) \<longleftrightarrow> c \<in> set xs"
  by (induction xs) (auto simp: has_id_def)

lemma create_tokenD:
  assumes "create_token cr tz g now secret nonce cookie b s = (Inr (full, view), s')"
    and "get_unrestricted_session now cookie s = (Inr e, s1)"
  obtains expires ids sha blob n t where "parse_expiry tz now (ti_expires b) = Inr expires" "scoped_ids (ap_db s) (s_user e) b = Inr ids"
    "mint_token cr tz secret nonce (s_dek e) (ti_mode b) (ti_all b) (Some ids) expires = Inr (full, sha, blob, n)"
    "db_tokens (ap_db s') = db_tokens (ap_db s) @ [t]" "t_sha t = sha" "t_blob t = blob" "t_nonce t = n" "t_user t = s_user e" "t_id t = to_id view"
proof -
  have d: "ap_db s1 = ap_db s"
    using silent_same [of "get_unrestricted_session now cookie" s] assms(2) keeps_db_sessions(2) by (metis silentI snd_conv)
  show ?thesis
    using assms that d
    by (auto simp: create_token_def bindi_def Let_def liftr_def token_view_def split: if_split_asm sum.split_asm prod.split_asm)
qed

text \<open>C8: A token does what its form said: the plaintext a successful creation hands out resolves, in the
  state it leaves and from any later moment before its expiry, to the user of the session, that user's
  data key and the mode asked for, with every calendar in scope or exactly those asked for, each of them
  the user's own; from its expiry on it resolves to nothing. Its secret must not collide with that of
  an earlier token.\<close>

theorem created_token_resolves:
  assumes "crypto_ok cr" and "secret \<noteq> []" and "bytes_ok (s_dek e)"
    and "\<forall>r \<in> set (db_tokens (ap_db s)). t_sha r \<noteq> digest_of cr secret"
    and "get_unrestricted_session now cookie s = (Inr e, s1)"
    and "create_token cr tz g now secret nonce cookie b s = (Inr (full, view), s')"
  shows "\<exists>expires. parse_expiry tz now (ti_expires b) = Inr expires \<and>
    (if expired tz later expires then resolve_token cr tz later full (ap_db s') = (Inr None, ap_db s')
     else \<exists>x d. resolve_token cr tz later full (ap_db s') = (Inr (Some x), d)
       \<and> tx_user x = s_user e \<and> tx_dek x = s_dek e \<and> tx_mode x = ti_mode b \<and> tx_token x = to_id view
       \<and> (\<forall>c. in_scope x c \<longleftrightarrow> ti_all b \<or> c \<in> set (case ti_calendars b of None \<Rightarrow> [] | Some ids \<Rightarrow> ids))
       \<and> (\<forall>c. in_scope x c \<longrightarrow> ti_all b \<or> c \<in> set (map (c_id \<circ> fst) (owned_calendars (ap_db s) (s_user e)))))"
proof -
  obtain expires ids sha blob n t where c: "parse_expiry tz now (ti_expires b) = Inr expires" "scoped_ids (ap_db s) (s_user e) b = Inr ids"
    "mint_token cr tz secret nonce (s_dek e) (ti_mode b) (ti_all b) (Some ids) expires = Inr (full, sha, blob, n)"
    and t: "db_tokens (ap_db s') = db_tokens (ap_db s) @ [t]" "t_sha t = sha" "t_blob t = blob" "t_nonce t = n" "t_user t = s_user e" "t_id t = to_id view"
    by (rule create_tokenD [OF assms(6,5)])
  obtain label where l: "map_of modes (ti_mode b) = Some label" "full = token_prefix @ label @ secret" "sha = digest_of cr secret"
    and o: "open_payload cr secret blob n = Inr (token_payload tz (s_dek e) (ti_mode b) (ti_all b) ids expires)"
    using mint_tokenD [OF assms(1) c(3)] by (metis option.simps(5))
  have f: "find (\<lambda>r. t_sha r = digest_of cr secret) (db_tokens (ap_db s')) = Some t"
    unfolding t(1) by (rule find_fresh) (use assms(4) t(2) l(3) in auto)
  note r = resolve_sealed [OF l(1) assms(2) f _ assms(3) parse_expiry_ok [OF c(1)], unfolded t(3,4), OF o, of later, folded l(2)]
  have scope: "\<not> ti_all b \<Longrightarrow> set ids = set (case ti_calendars b of None \<Rightarrow> [] | Some xs \<Rightarrow> xs)
      \<and> set ids \<subseteq> set (map (c_id \<circ> fst) (owned_calendars (ap_db s) (s_user e)))"
    using c(2) by (auto simp: scoped_ids_def Let_def split: if_split_asm)
  show ?thesis
    using c(1) r scope t(5,6) by (intro exI [of _ expires]) (auto simp: in_scope_def has_id_ints)
qed

section \<open>Shares\<close>

text \<open>The calendars a form asks for, with the write flag each.\<close>

definition asked :: "share_in \<Rightarrow> (int \<times> bool) list" where
  "asked b =
     (if si_kind b = ''item'' then (case si_item b of None \<Rightarrow> [] | Some (u, k, c) \<Rightarrow> [(c, True)])
      else (case si_calendars b of None \<Rightarrow> [] | Some cs \<Rightarrow> cs))"

lemma grant_calendarsD:
  assumes "grant_calendars d u b = Inr (cals, dflt)" and "si_kind b \<noteq> ''item''"
  shows "fst ` set (asked b) \<subseteq> set (owned_ids d u)" "fst ` set cals = fst ` set (asked b)"
    "si_mode b = ''rw'' \<Longrightarrow> (c, True) \<in> set cals \<longleftrightarrow> (c, True) \<in> set (asked b)"
proof -
  define cs where "cs = (case si_calendars b of None \<Rightarrow> [] | Some cs \<Rightarrow> cs)"
  define ws where "ws = (if si_mode b = ''rw'' then map fst (filter snd cs) else [])"
  have a: "asked b = cs" using assms(2) by (simp add: asked_def cs_def)
  have c: "set (map fst cs) \<subseteq> set (owned_ids d u)" "cals = map (\<lambda>c. (c, c \<in> set ws)) (map fst cs)"
    using assms(1) unfolding grant_calendars_def Let_def cs_def [symmetric] ws_def [symmetric] by (auto split: if_split_asm)
  show "fst ` set (asked b) \<subseteq> set (owned_ids d u)" using c(1) a by simp
  show "fst ` set cals = fst ` set (asked b)" using c(2) a by force
  show "(c, True) \<in> set cals \<longleftrightarrow> (c, True) \<in> set (asked b)" if "si_mode b = ''rw''"
    using that c(2) a by (force simp: ws_def)
qed

lemma plan_shareD:
  assumes "plan_share tz d u b = Inr (scope, cals, dflt, bounds)" and "si_kind b \<in> set share_kinds"
  shows "scope_kind scope = si_kind b \<and> fst ` set (asked b) \<subseteq> set (owned_ids d u)
    \<and> (\<forall>x. share_grant tz x0 scope cals dflt = Some x \<longrightarrow>
       x_dek x = x_dek x0 \<and> x_kind x = x_kind x0 \<and> x_mode x = x_mode x0
       \<and> (\<forall>c. has_id c (x_readable x) \<longleftrightarrow> c \<in> fst ` set (asked b))
       \<and> (x_mode x0 = si_mode b \<longrightarrow> (\<forall>c. has_id c (x_writable x) \<longleftrightarrow> si_mode b = ''rw'' \<and> (c, True) \<in> set (asked b))))
    \<and> (share_grant tz x0 scope cals dflt = None \<longrightarrow> si_kind b = ''grid'' \<and> (\<exists>v a. si_grid b = Some (v, a) \<and> \<not> sound_anchor a))"
proof -
  obtain zone fdow where v: "view_settings d u = (zone, fdow)" by fastforce
  show ?thesis
  proof (cases "si_kind b = ''item''")
    case True
    then obtain i k c where "si_item b = Some (i, k, c)" "c \<in> set (owned_ids d u)" "scope = ItemScope i k c"
      using assms(1) v by (auto simp: plan_share_def split: option.split_asm if_split_asm)
    then show ?thesis using True by (auto simp: asked_def has_id_def)
  next
    case False
    then obtain granted where g: "grant_calendars d u b = Inr (cals, dflt)"
      and s: "(\<exists>v a. scope = GridScope v a zone fdow \<and> si_kind b = ''grid'' \<and> si_grid b = Some (v, a))
        \<or> (\<exists>f t b1. scope = AgendaScope f t zone \<and> si_kind b = ''agenda'' \<and> agenda_bounds tz f t = Inr b1)"
      using assms v by (auto simp: plan_share_def bindr_eq_Inr share_kinds_def split: option.split_asm if_split_asm prod.split_asm)
    note gr = grant_calendarsD [OF g False]
    have range: "(\<forall>c. has_id c (x_readable (grant_range x0 zone cals dflt)) \<longleftrightarrow> c \<in> fst ` set (asked b))
      \<and> (x_mode x0 = si_mode b \<longrightarrow> (\<forall>c. has_id c (x_writable (grant_range x0 zone cals dflt)) \<longleftrightarrow> si_mode b = ''rw'' \<and> (c, True) \<in> set (asked b)))"
      using gr(2,3) by (auto simp: grant_range_def has_id_ints image_iff)
    have frame: "x_dek (grant_range x0 zone cals dflt) = x_dek x0 \<and> x_kind (grant_range x0 zone cals dflt) = x_kind x0
      \<and> x_mode (grant_range x0 zone cals dflt) = x_mode x0" by (simp add: grant_range_def)
    have parsed: "\<exists>t1 t2. datetime_fromisoformat f = Inr t1 \<and> datetime_fromisoformat t = Inr t2" if "agenda_bounds tz f t = Inr b1" for f t b1
      using that by (auto simp: agenda_bounds_def bad_request_def bindr_eq_Inr split: sum.split_asm)
    from s show ?thesis
    proof (elim disjE exE conjE)
      fix v a assume "scope = GridScope v a zone fdow" "si_kind b = ''grid''" "si_grid b = Some (v, a)"
      then show ?thesis
        using gr(1) range frame grid_window_total [of a tz v fdow zone] by (cases "grid_window tz v a fdow zone") (auto simp del: image_iff)
    next
      fix f t b1 assume p: "scope = AgendaScope f t zone" "si_kind b = ''agenda''" "agenda_bounds tz f t = Inr b1"
      obtain t1 t2 where "datetime_fromisoformat f = Inr t1" "datetime_fromisoformat t = Inr t2" using parsed [OF p(3)] by blast
      then show ?thesis using p(1,2) gr(1) range frame by simp
    qed
  qed
qed

lemma create_shareD:
  assumes "create_share cr tz g now secret nonce req e b s = (Inr (url, view), s')"
  obtains expires scope cals dflt bounds link sha blob n row where "parse_expiry tz now (si_expires b) = Inr expires"
    "plan_share tz (ap_db s) (s_user e) b = Inr (scope, cals, dflt, bounds)"
    "mint_share cr tz secret nonce (s_dek e) (si_mode b) expires scope cals dflt = Inr (link, sha, blob, n)"
    "db_shares (ap_db s') = db_shares (ap_db s) @ [row]" "sh_sha row = sha" "sh_blob row = blob" "sh_nonce row = n" "sh_user row = s_user e"
    "url = base_url (g_base_url g) req @ ''/s/'' @ str_int (sh_id row) @ ''#'' @ link"
  using assms that
  by (auto simp: create_share_def bindi_def Let_def liftr_def share_row_def split: if_split_asm sum.split_asm prod.split_asm)

text \<open>What opening a link finds that was just created, from the plan of its form.\<close>

lemma created_share_opens:
  assumes "crypto_ok cr" and "secret \<noteq> []" and "bytes_ok (s_dek e)"
    and "\<forall>r \<in> set (db_shares (ap_db s)). sh_sha r \<noteq> digest_of cr secret"
    and "create_share cr tz g now secret nonce req e b s = (Inr (url, view), s')"
  obtains expires scope cals dflt bounds row where "parse_expiry tz now (si_expires b) = Inr expires"
    "plan_share tz (ap_db s) (s_user e) b = Inr (scope, cals, dflt, bounds)" "sh_user row = s_user e"
    "url = base_url (g_base_url g) req @ ''/s/'' @ str_int (sh_id row) @ ''#'' @ secret"
    "resolve_share cr tz later secret (ap_db s') =
      (if expired tz later expires then (Inr None, ap_db s')
       else case share_grant tz (no_ctx (s_dek e) (scope_kind scope) (si_mode b) (map_option (iso_view tz) expires)) scope cals dflt of
           None \<Rightarrow> (Inr None, ap_db s')
         | Some x \<Rightarrow> (Inr (Some (x\<lparr>x_share := sh_id row, x_user := sh_user row\<rparr>)), touch_share later row (ap_db s')))"
proof -
  obtain expires scope cals dflt bounds link sha blob n row where c: "parse_expiry tz now (si_expires b) = Inr expires"
    "plan_share tz (ap_db s) (s_user e) b = Inr (scope, cals, dflt, bounds)"
    "mint_share cr tz secret nonce (s_dek e) (si_mode b) expires scope cals dflt = Inr (link, sha, blob, n)"
    and r: "db_shares (ap_db s') = db_shares (ap_db s) @ [row]" "sh_sha row = sha" "sh_blob row = blob" "sh_nonce row = n" "sh_user row = s_user e"
    and url: "url = base_url (g_base_url g) req @ ''/s/'' @ str_int (sh_id row) @ ''#'' @ link"
    by (rule create_shareD [OF assms(5)])
  have l: "link = secret" "sha = digest_of cr secret"
    using c(3) by (auto simp: mint_share_def seal_payload_def bindr_eq_Inr split: if_split_asm)
  have "find (\<lambda>q. sh_sha q = sha) (db_shares (ap_db s')) = Some row"
    unfolding r(1) using assms(4) r(2) l by (intro find_fresh) auto
  note res = minted_share_resolves [OF assms(1,3,2) parse_expiry_ok [OF c(1)] c(3) this r(3,4), of later]
  show thesis by (rule that [OF c(1,2) r(5) url [unfolded l(1)]]) (simp add: res)
qed

text \<open>C6: A link does what its form said: its URL ends in the secret, and opening that, from any later
  moment before the expiry, gives the user of the session, that user's data key, and the kind and mode
  asked for; it may read exactly the calendars asked for, all of them the user's, and write exactly those
  marked, in a read-write share, and none otherwise. From its expiry on it opens nothing. The only other link that
  may open nothing is that of a grid whose form gave an anchor that is no date, which is not checked, or a
  date within weeks of the first or the last one there is. Its secret must not collide with that of an
  earlier share.\<close>

theorem created_share_resolves:
  assumes "crypto_ok cr" and "secret \<noteq> []" and "bytes_ok (s_dek e)" and "share_valid b"
    and "\<forall>r \<in> set (db_shares (ap_db s)). sh_sha r \<noteq> digest_of cr secret"
    and "create_share cr tz g now secret nonce req e b s = (Inr (url, view), s')"
  shows "\<exists>expires i. parse_expiry tz now (si_expires b) = Inr expires
    \<and> url = base_url (g_base_url g) req @ ''/s/'' @ str_int i @ ''#'' @ secret
    \<and> fst ` set (asked b) \<subseteq> set (owned_ids (ap_db s) (s_user e))
    \<and> (case fst (resolve_share cr tz later secret (ap_db s')) of
         Inl err \<Rightarrow> False
       | Inr None \<Rightarrow> expired tz later expires \<or> si_kind b = ''grid'' \<and> (\<exists>v a. si_grid b = Some (v, a) \<and> \<not> sound_anchor a)
       | Inr (Some x) \<Rightarrow> \<not> expired tz later expires \<and> x_share x = i \<and> x_user x = s_user e \<and> x_dek x = s_dek e
           \<and> x_kind x = si_kind b \<and> x_mode x = si_mode b
           \<and> (\<forall>c. has_id c (x_readable x) \<longleftrightarrow> c \<in> fst ` set (asked b))
           \<and> (\<forall>c. has_id c (x_writable x) \<longleftrightarrow> si_mode b = ''rw'' \<and> (c, True) \<in> set (asked b)))"
proof -
  obtain expires scope cals dflt bounds row where c: "parse_expiry tz now (si_expires b) = Inr expires"
    "plan_share tz (ap_db s) (s_user e) b = Inr (scope, cals, dflt, bounds)" and r: "sh_user row = s_user e"
    and u: "url = base_url (g_base_url g) req @ ''/s/'' @ str_int (sh_id row) @ ''#'' @ secret"
    and res: "resolve_share cr tz later secret (ap_db s') =
      (if expired tz later expires then (Inr None, ap_db s')
       else case share_grant tz (no_ctx (s_dek e) (scope_kind scope) (si_mode b) (map_option (iso_view tz) expires)) scope cals dflt of
           None \<Rightarrow> (Inr None, ap_db s')
         | Some x \<Rightarrow> (Inr (Some (x\<lparr>x_share := sh_id row, x_user := sh_user row\<rparr>)), touch_share later row (ap_db s')))"
    by (rule created_share_opens [OF assms(1-3,5,6), where later = later])
  define x0 where "x0 = no_ctx (s_dek e) (scope_kind scope) (si_mode b) (map_option (iso_view tz) expires)"
  note res = res [folded x0_def]
  have "si_kind b \<in> set share_kinds" using assms(4) by (simp add: share_valid_def)
  note plan = plan_shareD [OF c(2) this, of x0]
  have x0: "x_dek x0 = s_dek e" "x_mode x0 = si_mode b" "x_kind x0 = scope_kind scope" by (simp_all add: x0_def no_ctx_def)
  show ?thesis
  proof (intro exI [of _ expires] exI [of _ "sh_id row"] conjI c(1) u)
    show "fst ` set (asked b) \<subseteq> set (owned_ids (ap_db s) (s_user e))" using plan by blast
    show "case fst (resolve_share cr tz later secret (ap_db s')) of
         Inl err \<Rightarrow> False
       | Inr None \<Rightarrow> expired tz later expires \<or> si_kind b = ''grid'' \<and> (\<exists>v a. si_grid b = Some (v, a) \<and> \<not> sound_anchor a)
       | Inr (Some x) \<Rightarrow> \<not> expired tz later expires \<and> x_share x = sh_id row \<and> x_user x = s_user e \<and> x_dek x = s_dek e
           \<and> x_kind x = si_kind b \<and> x_mode x = si_mode b
           \<and> (\<forall>c. has_id c (x_readable x) \<longleftrightarrow> c \<in> fst ` set (asked b))
           \<and> (\<forall>c. has_id c (x_writable x) \<longleftrightarrow> si_mode b = ''rw'' \<and> (c, True) \<in> set (asked b))"
    proof (cases "expired tz later expires")
      case False
      then show ?thesis
      proof (cases "share_grant tz x0 scope cals dflt")
        case None
        then show ?thesis using False res plan by simp
      next
        case (Some x)
        then show ?thesis using False res plan x0 r by simp
      qed
    qed (simp add: res)
  qed
qed

section \<open>Revocation\<close>

lemma revokedD:
  assumes "bindi (get_unrestricted_session now cookie) h s = (Inr x, s')"
  obtains e s1 where "get_unrestricted_session now cookie s = (Inr e, s1)" "h e s1 = (Inr x, s')" "ap_db s1 = ap_db s"
proof -
  have "ap_db (snd (get_unrestricted_session now cookie s)) = ap_db s"
    by (rule silent_same) (intro silentI keeps_db_intros)
  then show ?thesis
    using assms that by (cases "get_unrestricted_session now cookie s") (auto simp: bindi_def split: sum.split_asm)
qed

lemma find_removed:
  assumes "distinct (map f xs)" and "find (\<lambda>x. f x = k) xs = Some t" and "P t"
  shows "find (\<lambda>x. f x = k) (filter (\<lambda>x. \<not> P x) xs) = None"
  using assms found_in [OF assms(2)] key_unique [OF assms(1)] by (fastforce simp: find_None_iff)

lemma revoked_token:
  assumes "distinct (map t_sha (db_tokens (ap_db s)))" and "revoke_token now cookie (t_id t) s = (Inr (), s')"
    and "find (\<lambda>r. t_sha r = digest_of cr secret) (db_tokens (ap_db s)) = Some t"
  shows "find (\<lambda>r. t_sha r = digest_of cr secret) (db_tokens (ap_db s')) = None"
proof -
  have "ap_db s' = drop_tokens (\<lambda>u. t_id u = t_id t) (ap_db s)"
  proof (rule revokedD [OF assms(2) [unfolded revoke_token_def]])
    fix e s1
    assume "bindi (ask ap_db) (\<lambda>d. bindi (require (http 404 ''Token not found'') (find (\<lambda>u. t_id u = t_id t \<and> t_user u = s_user e) (db_tokens d)))
      (\<lambda>t. commit (drop_tokens (\<lambda>u. t_id u = t_id t) d))) s1 = (Inr (), s')" and "ap_db s1 = ap_db s"
    then show ?thesis
      by (cases "find (\<lambda>u. t_id u = t_id t \<and> t_user u = s_user e) (db_tokens (ap_db s))") (auto dest: found_in)
  qed
  then show ?thesis using find_removed [OF assms(1,3), of "\<lambda>u. t_id u = t_id t"] by (simp add: drop_tokens_def)
qed

lemma revoked_share:
  assumes "distinct (map sh_sha (db_shares (ap_db s)))" and "revoke_share e (sh_id r) s = (Inr (), s')"
    and "find (\<lambda>q. sh_sha q = digest_of cr secret) (db_shares (ap_db s)) = Some r"
  shows "find (\<lambda>q. sh_sha q = digest_of cr secret) (db_shares (ap_db s')) = None"
proof -
  have "ap_db s' = drop_shares (\<lambda>u. sh_id u = sh_id r) (ap_db s)"
    using assms(2) by (cases "find (\<lambda>u. sh_id u = sh_id r \<and> sh_user u = s_user e) (db_shares (ap_db s))") (auto simp: revoke_share_def dest: found_in)
  then show ?thesis using find_removed [OF assms(1,3), of "\<lambda>u. sh_id u = sh_id r"] by (simp add: drop_shares_def)
qed

text \<open>C20: Revoking ends it: once its owner has revoked a token, the secret opens nothing any more, at
  whatever time and with whatever label it is presented, and the same holds for a share; the digests of
  the secrets are unique.\<close>

theorem revoked_grants_end:
  assumes "distinct (map t_sha (db_tokens (ap_db s)))" and "distinct (map sh_sha (db_shares (ap_db s)))"
  shows "(revoke_token now cookie (t_id t) s = (Inr (), s') \<and> find (\<lambda>r. t_sha r = digest_of cr secret) (db_tokens (ap_db s)) = Some t
        \<and> map_of modes mode = Some label \<and> secret \<noteq> [] \<longrightarrow>
      resolve_token cr tz later (token_prefix @ label @ secret) (ap_db s') = (Inr None, ap_db s'))
    \<and> (revoke_share e (sh_id r) s = (Inr (), s') \<and> find (\<lambda>q. sh_sha q = digest_of cr secret) (db_shares (ap_db s)) = Some r \<longrightarrow>
      resolve_share cr tz later secret (ap_db s') = (Inr None, ap_db s'))"
proof (intro conjI impI; elim conjE)
  assume r: "revoke_token now cookie (t_id t) s = (Inr (), s')"
    "find (\<lambda>r. t_sha r = digest_of cr secret) (db_tokens (ap_db s)) = Some t" and m: "map_of modes mode = Some label" "secret \<noteq> []"
  show "resolve_token cr tz later (token_prefix @ label @ secret) (ap_db s') = (Inr None, ap_db s')"
    using revoked_token [OF assms(1) r] by (simp add: resolve_token_def parse_token_minted [OF m])
next
  assume "revoke_share e (sh_id r) s = (Inr (), s')" "find (\<lambda>q. sh_sha q = digest_of cr secret) (db_shares (ap_db s)) = Some r"
  then show "resolve_share cr tz later secret (ap_db s') = (Inr None, ap_db s')"
    using revoked_share [OF assms(2), of e r s' cr secret] by (simp add: resolve_share_def)
qed

section \<open>Account credentials\<close>

text \<open>C21: A stored account connects as it was tried: where adding an account succeeds, the account row of
  the session's user opens, under that session's key, to the very URL, user name and password the
  discovery was made with, and its calendars are those discovered, all shown and none the default, or
  the URL itself where none was.\<close>

theorem account_credentials_roundtrip:
  assumes "crypto_ok cr" and "get_unrestricted_session now cookie s = (Inr e, s1)"
    and "create_account cr tz g dav dns exn_text now nonce cookie raw_url username password s = (Inr view, s')"
  shows "\<exists>a infos w cs. let cn = \<lparr>cn_url = rstrip_char (CHR ''/'') raw_url, cn_user = username, cn_password = password\<rparr> in
    discover_calendars dav cn (ap_world s1) = (Inr infos, w)
    \<and> db_accounts (ap_db s') = db_accounts (ap_db s) @ [a] \<and> a_id a = ao_id view \<and> a_user a = s_user e
    \<and> bindr (password_of cr (s_dek e) a) (\<lambda>pw. Inr (conn_of a pw)) = Inr cn
    \<and> db_calendars (ap_db s') = db_calendars (ap_db s) @ cs
    \<and> map c_caldav_id cs = (if infos = [] then [a_url a] else map ci_id infos)
    \<and> (\<forall>c \<in> set cs. c_account c = a_id a \<and> c_enabled c \<and> \<not> c_default c)"
proof -
  let ?url = "rstrip_char (CHR ''/'') raw_url"
  let ?cn = "\<lparr>cn_url = ?url, cn_user = username, cn_password = password\<rparr>"
  have d: "ap_db s1 = ap_db s"
    using silent_same [of "get_unrestricted_session now cookie" s] assms(2) by (metis keeps_db_sessions(2) silentI snd_conv)
  obtain infos w ct n where i: "discover_calendars dav ?cn (ap_world s1) = (Inr infos, w)"
    and c: "encrypt_bytes cr nonce (encode_text password) (s_dek e) = Inr (ct, n)"
    and s': "ap_db s' = add_account \<lparr>a_id = ao_id view, a_user = s_user e, a_url = ?url, a_username = username, a_password = ct, a_nonce = n,
        a_created = stored (utc now)\<rparr> infos (ap_db s)"
    using assms(2,3) d
    by (auto simp: create_account_def bindi_def Let_def liftr_def on_world_def account_view_def split: if_split_asm sum.split_asm prod.split_asm)
  let ?a = "\<lparr>a_id = ao_id view, a_user = s_user e, a_url = ?url, a_username = username, a_password = ct, a_nonce = n, a_created = stored (utc now)\<rparr>"
  let ?infos = "if infos \<noteq> [] then infos else [\<lparr>ci_id = ?url, ci_name = username, ci_color = ''#3788d8''\<rparr>]"
  obtain cs where cs: "fold (add_calendar (ao_id view)) ?infos (ap_db s\<lparr>db_accounts := db_accounts (ap_db s) @ [?a]\<rparr>)
      = (ap_db s\<lparr>db_accounts := db_accounts (ap_db s) @ [?a]\<rparr>)\<lparr>db_calendars := db_calendars (ap_db s) @ cs\<rparr>"
    "\<forall>c \<in> set cs. c_account c = ao_id view \<and> c_enabled c \<and> \<not> c_default c" "map c_caldav_id cs = map ci_id ?infos"
    using add_calendars [of "ao_id view" ?infos "ap_db s\<lparr>db_accounts := db_accounts (ap_db s) @ [?a]\<rparr>"] by auto
  have "password_of cr (s_dek e) ?a = Inr password"
    using c open_what_was_sealed(2) [OF assms(1)] by (simp add: password_of_def)
  moreover have "ap_db s' = (ap_db s\<lparr>db_accounts := db_accounts (ap_db s) @ [?a]\<rparr>)\<lparr>db_calendars := db_calendars (ap_db s) @ cs\<rparr>"
    using s' cs(1) by (simp only: add_account_def account.simps)
  ultimately show ?thesis
    using i cs(2,3) by (intro exI [of _ ?a] exI [of _ infos] exI [of _ w] exI [of _ cs]) (simp add: conn_of_def)
qed

section \<open>Witnesses\<close>

definition mcp_on :: config where "mcp_on = default_config\<lparr>g_mcp := True\<rparr>"

definition sample_form :: token_in where
  "sample_form = \<lparr>ti_name = ''phone'', ti_mode = ''ro'', ti_all = False, ti_calendars = Some [11, 10, 11], ti_expires = None\<rparr>"

lemma owner_session:
  "\<exists>s1. get_unrestricted_session SEC (Some ''sid'') (routes_app d) = (Inr (owner_entry\<lparr>s_last_seen := SEC\<rparr>), s1)"
  by (auto simp: get_unrestricted_session_def get_current_session_def bindi_def on_store_def get_session_def routes_app_def
      idled_out_def effective_timeout_def owner_entry_def SEC_def)

lemma owner_dek: "bytes_ok (s_dek (owner_entry\<lparr>s_last_seen := SEC\<rparr>))"
  by code_simp

theorem created_token_resolves_witness:
  "\<exists>full view s' x d. create_token sample_crypto sample_tz mcp_on SEC ''s3cret'' (replicate 12 5) (Some ''sid'') sample_form (routes_app sample_routes_db) = (Inr (full, view), s')
     \<and> resolve_token sample_crypto sample_tz DAY full (ap_db s') = (Inr (Some x), d) \<and> tx_user x = 7 \<and> tx_dek x = sample_dek \<and> in_scope x 10 \<and> \<not> in_scope x 20"
proof -
  let ?run = "create_token sample_crypto sample_tz mcp_on SEC ''s3cret'' (replicate 12 5) (Some ''sid'') sample_form (routes_app sample_routes_db)"
  have "case fst ?run of Inl x \<Rightarrow> False | Inr p \<Rightarrow> True" by code_simp
  then obtain full view where "fst ?run = Inr (full, view)" by (cases "fst ?run") auto
  then have run: "?run = (Inr (full, view), snd ?run)" by (metis prod.collapse)
  obtain s1 where s1: "get_unrestricted_session SEC (Some ''sid'') (routes_app sample_routes_db) = (Inr (owner_entry\<lparr>s_last_seen := SEC\<rparr>), s1)"
    using owner_session by blast
  have none: "\<forall>r \<in> set (db_tokens (ap_db (routes_app sample_routes_db))). t_sha r \<noteq> digest_of sample_crypto ''s3cret''"
    by (simp add: routes_app_def sample_routes_db_def no_db_def)
  have f: "ti_all sample_form = False" "ti_calendars sample_form = Some [11, 10, 11]" "parse_expiry sample_tz SEC (ti_expires sample_form) = Inr None"
    by (simp_all add: sample_form_def parse_expiry_def)
  obtain x d where x: "resolve_token sample_crypto sample_tz DAY full (ap_db (snd ?run)) = (Inr (Some x), d)"
    "tx_user x = s_user (owner_entry\<lparr>s_last_seen := SEC\<rparr>)" "tx_dek x = s_dek (owner_entry\<lparr>s_last_seen := SEC\<rparr>)"
    "\<forall>c. in_scope x c \<longleftrightarrow> c \<in> set [11, 10, 11]"
    using created_token_resolves [OF sample_crypto_ok _ owner_dek none s1 run, of DAY] unfolding f by (auto simp: expired_def)
  show ?thesis
    by (intro exI [of _ full] exI [of _ view] exI [of _ "snd ?run"] exI [of _ x] exI [of _ d] conjI run x(1))
      (simp_all add: x(2-4) owner_entry_def)
qed

definition sample_link_form :: share_in where
  "sample_link_form = \<lparr>si_name = ''standup'', si_kind = ''item'', si_mode = ''rw'', si_expires = None, si_item = Some (''u1'', ''event'', 10),
     si_grid = None, si_agenda = None, si_calendars = None, si_default = None\<rparr>"

definition sample_req :: http_req where
  "sample_req = \<lparr>hr_scheme = ''https'', hr_netloc = ''dav.example'', hr_header = Map.empty\<rparr>"

theorem created_share_resolves_witness:
  "\<exists>url view s' x. create_share sample_crypto sample_tz default_config SEC ''s3cret'' (replicate 12 5) sample_req owner_entry sample_link_form (routes_app sample_routes_db) = (Inr (url, view), s')
     \<and> fst (resolve_share sample_crypto sample_tz DAY ''s3cret'' (ap_db s')) = Inr (Some x) \<and> x_user x = 7 \<and> x_dek x = sample_dek
     \<and> x_mode x = ''rw'' \<and> has_id 10 (x_writable x) \<and> \<not> has_id 11 (x_readable x)"
proof -
  let ?run = "create_share sample_crypto sample_tz default_config SEC ''s3cret'' (replicate 12 5) sample_req owner_entry sample_link_form (routes_app sample_routes_db)"
  have "case fst ?run of Inl x \<Rightarrow> False | Inr p \<Rightarrow> True" by code_simp
  then obtain url view where "fst ?run = Inr (url, view)" by (cases "fst ?run") auto
  then have run: "?run = (Inr (url, view), snd ?run)" by (metis prod.collapse)
  have none: "\<forall>r \<in> set (db_shares (ap_db (routes_app sample_routes_db))). sh_sha r \<noteq> digest_of sample_crypto ''s3cret''"
    by (simp add: routes_app_def sample_routes_db_def no_db_def)
  have valid: "share_valid sample_link_form" and dek: "bytes_ok (s_dek owner_entry)" by code_simp+
  have f: "si_kind sample_link_form = ''item''" "si_mode sample_link_form = ''rw''" "set (asked sample_link_form) = {(10, True)}"
    "parse_expiry sample_tz SEC (si_expires sample_link_form) = Inr None"
    by (simp_all add: sample_link_form_def parse_expiry_def asked_def)
  have e: "s_user owner_entry = 7" "s_dek owner_entry = sample_dek" by (simp_all add: owner_entry_def)
  note res = created_share_resolves [OF sample_crypto_ok _ dek valid none run, of DAY, unfolded f e]
  define r where "r = fst (resolve_share sample_crypto sample_tz DAY ''s3cret'' (ap_db (snd ?run)))"
  obtain x where x: "r = Inr (Some x)"
    "x_user x = 7" "x_dek x = sample_dek" "x_mode x = ''rw''" "\<forall>c. has_id c (x_readable x) \<longleftrightarrow> c = 10" "\<forall>c. has_id c (x_writable x) \<longleftrightarrow> c = 10"
  proof (cases r)
    case (Inr o1)
    then show thesis using res that by (cases o1) (simp_all add: expired_def flip: r_def)
  qed (use res in \<open>simp flip: r_def\<close>)
  show ?thesis
    by (intro exI [of _ url] exI [of _ view] exI [of _ "snd ?run"] exI [of _ x] conjI run x(1) [unfolded r_def]) (simp_all add: x(2-6))
qed

definition granted_db :: db where   \<comment> \<open>a token of user 7 and a link, their secrets known\<close>
  "granted_db = sample_routes_db\<lparr>db_tokens := [rw_token_row (digest_of sample_crypto ''k3y'') [] []],
     db_shares := [sample_share_row (digest_of sample_crypto ''l1nk'') [] []]\<rparr>"

theorem revoked_grants_end_witness:
  "resolve_token sample_crypto sample_tz DAY (token_prefix @ ''RW'' @ ''k3y'') (ap_db (snd (revoke_token SEC (Some ''sid'') 1 (routes_app granted_db))))
     = (Inr None, ap_db (snd (revoke_token SEC (Some ''sid'') 1 (routes_app granted_db))))
   \<and> resolve_share sample_crypto sample_tz DAY ''l1nk'' (ap_db (snd (revoke_share owner_entry 3 (routes_app granted_db))))
     = (Inr None, ap_db (snd (revoke_share owner_entry 3 (routes_app granted_db))))"
proof -
  let ?s = "routes_app granted_db"
  let ?t = "rw_token_row (digest_of sample_crypto ''k3y'') [] []" and ?r = "sample_share_row (digest_of sample_crypto ''l1nk'') [] []"
  have u: "distinct (map t_sha (db_tokens (ap_db ?s)))" "distinct (map sh_sha (db_shares (ap_db ?s)))" by code_simp+
  have id: "t_id ?t = 1" "sh_id ?r = 3" by (simp_all add: rw_token_row_def sample_share_row_def)
  have "fst (revoke_token SEC (Some ''sid'') (t_id ?t) ?s) = Inr ()" "fst (revoke_share owner_entry (sh_id ?r) ?s) = Inr ()" by code_simp+
  then have run: "revoke_token SEC (Some ''sid'') (t_id ?t) ?s = (Inr (), snd (revoke_token SEC (Some ''sid'') (t_id ?t) ?s))"
    "revoke_share owner_entry (sh_id ?r) ?s = (Inr (), snd (revoke_share owner_entry (sh_id ?r) ?s))" by (metis prod.collapse)+
  have found: "find (\<lambda>r. t_sha r = digest_of sample_crypto ''k3y'') (db_tokens (ap_db ?s)) = Some ?t"
    "find (\<lambda>q. sh_sha q = digest_of sample_crypto ''l1nk'') (db_shares (ap_db ?s)) = Some ?r"
    by (simp_all add: routes_app_def granted_db_def rw_token_row_def sample_share_row_def)
  have label: "map_of modes ''rw'' = Some ''RW''" by code_simp
  have "resolve_token sample_crypto sample_tz DAY (token_prefix @ ''RW'' @ ''k3y'') (ap_db (snd (revoke_token SEC (Some ''sid'') (t_id ?t) ?s)))
     = (Inr None, ap_db (snd (revoke_token SEC (Some ''sid'') (t_id ?t) ?s)))"
    by (rule revoked_grants_end [where t = ?t and now = SEC and cookie = "Some ''sid''" and mode = "''rw''", OF u, THEN conjunct1, THEN mp]) (intro conjI run(1) found(1) label, simp)
  moreover have "resolve_share sample_crypto sample_tz DAY ''l1nk'' (ap_db (snd (revoke_share owner_entry (sh_id ?r) ?s)))
     = (Inr None, ap_db (snd (revoke_share owner_entry (sh_id ?r) ?s)))"
    by (rule revoked_grants_end [where r = ?r and e = owner_entry, OF u, THEN conjunct2, THEN mp]) (intro conjI run(2) found(2))
  ultimately show ?thesis unfolding id by (rule conjI)
qed

theorem account_credentials_roundtrip_witness:
  "\<exists>view s' a. create_account sample_crypto sample_tz default_config (sample_dav True) (\<lambda>h p. Unresolved) (\<lambda>x. []) SEC (replicate 12 5) (Some ''sid'') ''https://dav/'' ''ann'' ''pw''
       (routes_app sample_routes_db) = (Inr view, s')
     \<and> a \<in> set (db_accounts (ap_db s')) \<and> a_id a = ao_id view
     \<and> bindr (password_of sample_crypto sample_dek a) (\<lambda>pw. Inr (conn_of a pw)) = Inr \<lparr>cn_url = ''https://dav'', cn_user = ''ann'', cn_password = ''pw''\<rparr>"
proof -
  let ?run = "create_account sample_crypto sample_tz default_config (sample_dav True) (\<lambda>h p. Unresolved) (\<lambda>x. []) SEC (replicate 12 5) (Some ''sid'') ''https://dav/'' ''ann'' ''pw''
       (routes_app sample_routes_db)"
  have "case fst ?run of Inl x \<Rightarrow> False | Inr p \<Rightarrow> True" by code_simp
  then obtain view where "fst ?run = Inr view" by (cases "fst ?run") auto
  then have run: "?run = (Inr view, snd ?run)" by (metis prod.collapse)
  obtain s1 where s1: "get_unrestricted_session SEC (Some ''sid'') (routes_app sample_routes_db) = (Inr (owner_entry\<lparr>s_last_seen := SEC\<rparr>), s1)"
    using owner_session by blast
  have e: "s_dek (owner_entry\<lparr>s_last_seen := SEC\<rparr>) = sample_dek" by (simp add: owner_entry_def)
  have url: "rstrip_char (CHR ''/'') ''https://dav/'' = ''https://dav''" by code_simp
  from account_credentials_roundtrip [OF sample_crypto_ok s1 run, unfolded e url Let_def]
  obtain a where "db_accounts (ap_db (snd ?run)) = db_accounts (ap_db (routes_app sample_routes_db)) @ [a]" "a_id a = ao_id view"
    "bindr (password_of sample_crypto sample_dek a) (\<lambda>pw. Inr (conn_of a pw)) = Inr \<lparr>cn_url = ''https://dav'', cn_user = ''ann'', cn_password = ''pw''\<rparr>"
    by blast
  then show ?thesis
    by (intro exI [of _ view] exI [of _ "snd ?run"] exI [of _ a] conjI run) simp_all
qed

end
