(* ===== verification/Schema.thy ===== *)
theory Schema
  imports PyStr
begin

text \<open>
  The database schema and its migration (\<open>db.py\<close>): the tables and columns \<open>models.py\<close> declares, the
  columns added since the first release with the defaults rows of an older database get, and
  \<open>create_tables\<close>, which a start of the server and \<open>create-user\<close> run. The database engine is no
  part of the repository: it is a parameter, and what the code relies on of SQLite and of SQLAlchemy's
  \<open>create_all\<close> is the hypothesis \<open>engine_ok\<close>.
\<close>

section \<open>Tables and columns\<close>

definition metadata :: "(string \<times> string list) list" where
  "metadata = [
     (''users'', [''id'', ''email'', ''kdf_salt'', ''kdf_time_cost'', ''kdf_memory_cost'', ''kdf_parallelism'', ''wrapped_dek'',
        ''dek_nonce'', ''password_verifier'', ''must_change_password'', ''created_at'']),
     (''caldav_accounts'', [''id'', ''user_id'', ''url'', ''username'', ''encrypted_password'', ''nonce'', ''created_at'']),
     (''calendars'', [''id'', ''caldav_account_id'', ''caldav_id'', ''display_name'', ''color'', ''enabled'', ''is_default'']),
     (''api_tokens'', [''id'', ''user_id'', ''name'', ''token_sha256'', ''sealed_blob'', ''blob_nonce'', ''mode'', ''all_calendars'',
        ''expires_at'', ''created_at'', ''last_used_at'']),
     (''api_token_calendars'', [''id'', ''api_token_id'', ''calendar_id'']),
     (''shares'', [''id'', ''user_id'', ''name'', ''token_sha256'', ''sealed_blob'', ''blob_nonce'', ''kind'', ''mode'', ''expires_at'',
        ''item_uid'', ''item_kind'', ''item_calendar_id'', ''grid_view'', ''grid_anchor'', ''agenda_from'', ''agenda_to'',
        ''default_calendar_id'', ''created_at'', ''last_used_at'']),
     (''share_calendars'', [''id'', ''share_id'', ''calendar_id'', ''writable'']),
     (''user_settings'', [''user_id'', ''timezone'', ''first_day_of_week'', ''time_format'', ''date_format'', ''default_view'',
        ''auto_logout_enabled'', ''auto_logout_timeout_seconds'', ''notifications_enabled'', ''completed_task_display'',
        ''undated_task_display'', ''theme'', ''language'', ''double_click_to_create_events'', ''agenda_search_from_days'',
        ''agenda_search_to_days'', ''holidays_enabled'', ''holidays_country''])]"

text \<open>The added columns: name, SQL type, and the default as it is put into the statement.\<close>

definition users_kdf_migration :: "(string \<times> int) list" where
  "users_kdf_migration = [(''kdf_time_cost'', 3), (''kdf_memory_cost'', 65536), (''kdf_parallelism'', 1)]"

datatype sql_default = Number int | Literal string

fun interpolated :: "sql_default \<Rightarrow> string" where
  "interpolated (Number i) = str_int i"
| "interpolated (Literal s) = s"

definition user_settings_migration :: "(string \<times> string \<times> sql_default) list" where
  "user_settings_migration = [
     (''notifications_enabled'', ''BOOLEAN'', Number 0),
     (''completed_task_display'', ''TEXT'', Literal (CHR 0x27 # ''hidden'' @ [CHR 0x27])),
     (''undated_task_display'', ''TEXT'', Literal (CHR 0x27 # ''agenda'' @ [CHR 0x27])),
     (''theme'', ''TEXT'', Literal (CHR 0x27 # ''system'' @ [CHR 0x27])),
     (''language'', ''TEXT'', Literal (CHR 0x27 # ''autodetect'' @ [CHR 0x27])),
     (''double_click_to_create_events'', ''BOOLEAN'', Number 0),
     (''agenda_search_from_days'', ''INTEGER'', Number 0),
     (''agenda_search_to_days'', ''INTEGER'', Number 365),
     (''holidays_enabled'', ''BOOLEAN'', Number 0),
     (''holidays_country'', ''TEXT'', Literal (CHR 0x27 # ''none'' @ [CHR 0x27]))]"

section \<open>Migration\<close>

text \<open>The engine: \<open>Base.metadata.create_all\<close>, the rows of a query (index and name of the columns), a
  statement, and what a transaction that failed leaves of the state before it and the state it reached.\<close>

record 'd engine =
  en_create_all :: "(string \<times> string list) list \<Rightarrow> ('d, unit) io"
  en_query :: "string \<Rightarrow> ('d, (int \<times> string) list) io"
  en_run :: "string \<Rightarrow> ('d, unit) io"
  en_rollback :: "'d \<Rightarrow> 'd \<Rightarrow> 'd"

definition table_info :: "string \<Rightarrow> string" where
  "table_info t = ''PRAGMA table_info('' @ t @ '')''"

definition alter_table :: "string \<Rightarrow> string \<times> string \<times> string \<Rightarrow> string" where
  "alter_table t = (\<lambda>(c, ty, v). ''ALTER TABLE '' @ t @ '' ADD COLUMN '' @ c @ '' '' @ ty @ '' NOT NULL DEFAULT '' @ v)"

fun add_missing :: "'d engine \<Rightarrow> string \<Rightarrow> string list \<Rightarrow> (string \<times> string \<times> string) list \<Rightarrow> ('d, unit) io" where
  "add_missing q t existing [] = reti ()"
| "add_missing q t existing (m # ms) =
     bindi (if fst m \<in> set existing then reti () else en_run q (alter_table t m)) (\<lambda>_. add_missing q t existing ms)"

definition migrate :: "'d engine \<Rightarrow> string \<Rightarrow> (string \<times> string \<times> string) list \<Rightarrow> ('d, unit) io" where
  "migrate q t ms = bindi (en_query q (table_info t)) (\<lambda>rows. add_missing q t (map snd rows) ms)"

definition users_columns :: "(string \<times> string \<times> string) list" where
  "users_columns = map (\<lambda>(c, v). (c, ''INTEGER'', str_int v)) users_kdf_migration"

definition settings_columns :: "(string \<times> string \<times> string) list" where
  "settings_columns = map (\<lambda>(c, ty, v). (c, ty, interpolated v)) user_settings_migration"

definition create_tables :: "'d engine \<Rightarrow> ('d, unit) io" where
  "create_tables q = (\<lambda>d.
     case bindi (en_create_all q metadata) (\<lambda>_.
          bindi (migrate q ''users'' users_columns) (\<lambda>_. migrate q ''user_settings'' settings_columns)) d of
       (Inl e, d') \<Rightarrow> (Inl e, en_rollback q d d')
     | r \<Rightarrow> r)"

section \<open>What the engine promises\<close>

text \<open>The columns of a table, its number of rows, and the values of a column in the order of the rows, as
  SQL literals, are read off the database. \<open>create_all\<close> creates the tables that are missing and leaves
  the others; the query lists the columns of an existing table; the statements the code issues add a
  column that is missing, with the default in every row.\<close>

text \<open>The columns added since the first release, with their types and the value old rows get (the
  comments of \<open>db.py\<close> and \<open>docs/changelog.md\<close>), written out: what a migration has to know.\<close>

definition columns_added :: "string \<Rightarrow> (string \<times> string \<times> string) list" where
  "columns_added t =
     (if t = ''users'' then
        [(''kdf_time_cost'', ''INTEGER'', ''3''), (''kdf_memory_cost'', ''INTEGER'', ''65536''), (''kdf_parallelism'', ''INTEGER'', ''1'')]
      else if t = ''user_settings'' then
        [(''notifications_enabled'', ''BOOLEAN'', ''0''), (''completed_task_display'', ''TEXT'', CHR 0x27 # ''hidden'' @ [CHR 0x27]),
         (''undated_task_display'', ''TEXT'', CHR 0x27 # ''agenda'' @ [CHR 0x27]), (''theme'', ''TEXT'', CHR 0x27 # ''system'' @ [CHR 0x27]),
         (''language'', ''TEXT'', CHR 0x27 # ''autodetect'' @ [CHR 0x27]), (''double_click_to_create_events'', ''BOOLEAN'', ''0''),
         (''agenda_search_from_days'', ''INTEGER'', ''0''), (''agenda_search_to_days'', ''INTEGER'', ''365''),
         (''holidays_enabled'', ''BOOLEAN'', ''0''), (''holidays_country'', ''TEXT'', CHR 0x27 # ''none'' @ [CHR 0x27])]
      else [])"

definition migrations :: "(string \<times> string \<times> string \<times> string) set" where
  "migrations = {(t, m). m \<in> set (columns_added t)}"

definition engine_ok :: "'d engine \<Rightarrow> ('d \<Rightarrow> string \<Rightarrow> string list option) \<Rightarrow> ('d \<Rightarrow> string \<Rightarrow> nat) \<Rightarrow> ('d \<Rightarrow> string \<Rightarrow> string \<Rightarrow> string list) \<Rightarrow> bool" where
  "engine_ok q cols rows cell \<longleftrightarrow>
     (\<forall>d. \<exists>d'. en_create_all q metadata d = (Inr (), d')
        \<and> (\<forall>t. cols d' t = (case cols d t of Some cs \<Rightarrow> Some cs | None \<Rightarrow> map_of metadata t))
        \<and> (\<forall>t. cols d t \<noteq> None \<longrightarrow> rows d' t = rows d t \<and> cell d' t = cell d t)
        \<and> ((\<forall>t \<in> fst ` set metadata. cols d t \<noteq> None) \<longrightarrow> d' = d))
     \<and> (\<forall>t \<in> {''users'', ''user_settings''}. \<forall>d cs. cols d t = Some cs \<longrightarrow> (\<exists>rs. en_query q (table_info t) d = (Inr rs, d) \<and> map snd rs = cs))
     \<and> (\<forall>(t, c, ty, v) \<in> migrations. \<forall>d cs. cols d t = Some cs \<and> c \<notin> set cs \<longrightarrow>
         (\<exists>d'. en_run q (alter_table t (c, ty, v)) d = (Inr (), d') \<and> cols d' = (cols d)(t \<mapsto> cs @ [c]) \<and> rows d' = rows d
           \<and> cell d' t c = replicate (rows d t) v \<and> (\<forall>t' c'. (t', c') \<noteq> (t, c) \<longrightarrow> cell d' t' c' = cell d t' c')))"

section \<open>The schema is complete\<close>

lemma add_missing_ok:
  assumes "engine_ok q cols rows cell"
  shows "cols d t = Some have \<Longrightarrow> distinct (map fst ms) \<Longrightarrow> Pair t ` set ms \<subseteq> migrations
    \<Longrightarrow> \<forall>c \<in> fst ` set ms. c \<in> set have \<longleftrightarrow> c \<in> set existing \<Longrightarrow>
    \<exists>d'. add_missing q t existing ms d = (Inr (), d')
      \<and> cols d' = (cols d)(t \<mapsto> have @ filter (\<lambda>c. c \<notin> set existing) (map fst ms)) \<and> rows d' = rows d
      \<and> (\<forall>(c, ty, v) \<in> set ms. c \<notin> set existing \<longrightarrow> cell d' t c = replicate (rows d t) v)
      \<and> (\<forall>t' c'. t' \<noteq> t \<or> c' \<in> set existing \<or> c' \<notin> fst ` set ms \<longrightarrow> cell d' t' c' = cell d t' c')"
proof (induction ms arbitrary: d "have")
  case Nil
  then show ?case by (simp add: fun_upd_idem)
next
  case (Cons m ms)
  obtain c ty v where m: "m = (c, ty, v)" by (cases m)
  have rest: "distinct (map fst ms)" "Pair t ` set ms \<subseteq> migrations" using Cons.prems(2,3) by auto
  show ?case
  proof (cases "c \<in> set existing")
    case True
    obtain d' where d': "add_missing q t existing ms d = (Inr (), d')"
      "cols d' = (cols d)(t \<mapsto> have @ filter (\<lambda>c. c \<notin> set existing) (map fst ms))" "rows d' = rows d"
      "\<forall>(c, ty, v) \<in> set ms. c \<notin> set existing \<longrightarrow> cell d' t c = replicate (rows d t) v"
      "\<forall>t' c'. t' \<noteq> t \<or> c' \<in> set existing \<or> c' \<notin> fst ` set ms \<longrightarrow> cell d' t' c' = cell d t' c'"
      using Cons.IH [OF Cons.prems(1) rest] Cons.prems(4) by fastforce
    then show ?thesis using True by (auto simp: m)
  next
    case False
    have "(t, c, ty, v) \<in> migrations" "c \<notin> set have" using Cons.prems(3,4) False by (auto simp: m)
    then obtain d1 where d1: "en_run q (alter_table t m) d = (Inr (), d1)" "cols d1 = (cols d)(t \<mapsto> have @ [c])" "rows d1 = rows d"
      "cell d1 t c = replicate (rows d t) v" "\<forall>t' c'. (t', c') \<noteq> (t, c) \<longrightarrow> cell d1 t' c' = cell d t' c'"
      using assms Cons.prems(1) unfolding engine_ok_def m by blast
    have "cols d1 t = Some (have @ [c])" "\<forall>c' \<in> fst ` set ms. c' \<in> set (have @ [c]) \<longleftrightarrow> c' \<in> set existing"
      using d1(2) Cons.prems(2,4) by (auto simp: m)
    from Cons.IH [OF this(1) rest this(2)]
    obtain d' where d': "add_missing q t existing ms d1 = (Inr (), d')"
      "cols d' = (cols d1)(t \<mapsto> (have @ [c]) @ filter (\<lambda>c. c \<notin> set existing) (map fst ms))" "rows d' = rows d1"
      "\<forall>(c, ty, v) \<in> set ms. c \<notin> set existing \<longrightarrow> cell d' t c = replicate (rows d1 t) v"
      "\<forall>t' c'. t' \<noteq> t \<or> c' \<in> set existing \<or> c' \<notin> fst ` set ms \<longrightarrow> cell d' t' c' = cell d1 t' c'"
      by blast
    have c: "c \<notin> fst ` set ms" using Cons.prems(2) by (simp add: m)
    have "cell d' t c = replicate (rows d t) v" using d'(5) d1(4) c by simp
    moreover have "cell d' t' c' = cell d t' c'" if "t' \<noteq> t \<or> c' \<in> set existing \<or> c' \<notin> fst ` set (m # ms)" for t' c'
      using that d'(5) d1(5) False m by (metis fst_conv image_insert insertCI list.simps(15) prod.inject)
    ultimately show ?thesis using False d'(1-4) d1(1-3) by (intro exI [of _ d']) (auto simp: m)
  qed
qed

lemma migrate_ok:
  assumes "engine_ok q cols rows cell" and "t \<in> {''users'', ''user_settings''}" and "cols d t = Some have"
    and "distinct (map fst ms)" and "Pair t ` set ms \<subseteq> migrations"
  obtains d' where "migrate q t ms d = (Inr (), d')"
    "cols d' = (cols d)(t \<mapsto> have @ filter (\<lambda>c. c \<notin> set have) (map fst ms))" "rows d' = rows d"
    "\<forall>(c, ty, v) \<in> set ms. c \<notin> set have \<longrightarrow> cell d' t c = replicate (rows d t) v"
    "\<forall>t' c'. t' \<noteq> t \<or> c' \<in> set have \<or> c' \<notin> fst ` set ms \<longrightarrow> cell d' t' c' = cell d t' c'"
proof -
  obtain rs where "en_query q (table_info t) d = (Inr rs, d)" "map snd rs = have"
    using assms(1-3) unfolding engine_ok_def by blast
  then show ?thesis using add_missing_ok [OF assms(1,3,4,5), of "have"] that by (auto simp: migrate_def)
qed

lemma migration_columns:
  "map fst users_columns = [''kdf_time_cost'', ''kdf_memory_cost'', ''kdf_parallelism'']"
  "map fst settings_columns = [''notifications_enabled'', ''completed_task_display'', ''undated_task_display'', ''theme'', ''language'',
     ''double_click_to_create_events'', ''agenda_search_from_days'', ''agenda_search_to_days'', ''holidays_enabled'', ''holidays_country'']"
  by (simp_all add: users_columns_def users_kdf_migration_def settings_columns_def user_settings_migration_def)

lemma migration_distinct: "distinct (map fst users_columns)" "distinct (map fst settings_columns)"
  by (simp_all add: migration_columns)

lemma tables_declared: "map_of metadata ''users'' \<noteq> None" "map_of metadata ''user_settings'' \<noteq> None"
  by (simp_all add: metadata_def)

lemma metadata_distinct: "(t, cs) \<in> set metadata \<Longrightarrow> map_of metadata t = Some cs"
  by (rule map_of_is_SomeI) (simp_all add: metadata_def)

lemma add_missing_none: "fst ` set ms \<subseteq> set existing \<Longrightarrow> add_missing q t existing ms = reti ()"
  by (induction ms) auto

lemma migrate_none:
  assumes "engine_ok q cols rows cell" and "t \<in> {''users'', ''user_settings''}" and "cols d t = Some have" and "fst ` set ms \<subseteq> set have"
  shows "migrate q t ms d = (Inr (), d)"
proof -
  obtain rs where "en_query q (table_info t) d = (Inr rs, d)" "map snd rs = have"
    using assms(1-3) unfolding engine_ok_def by blast
  then show ?thesis by (simp add: migrate_def add_missing_none [OF assms(4)])
qed

lemma create_tables_steps:
  "en_create_all q metadata d = (Inr (), d1) \<Longrightarrow> migrate q ''users'' users_columns d1 = (Inr (), d2)
    \<Longrightarrow> migrate q ''user_settings'' settings_columns d2 = (Inr (), d3) \<Longrightarrow> create_tables q d = (Inr (), d3)"
  by (simp add: create_tables_def)

text \<open>The code's own lists are those columns.\<close>

lemma code_columns: "columns_added ''users'' = users_columns" "columns_added ''user_settings'' = settings_columns"
proof -
  have n: "str_int 0 = ''0''" "str_int 1 = ''1''" "str_int 3 = ''3''" "str_int 365 = ''365''" "str_int 65536 = ''65536''"
    by (simp_all add: str_int_def str_nat.simps digit_char_def char_of_def bit_Suc_0_iff)
  show "columns_added ''users'' = users_columns"
    by (simp add: columns_added_def users_columns_def users_kdf_migration_def n)
  show "columns_added ''user_settings'' = settings_columns"
    by (simp add: columns_added_def settings_columns_def user_settings_migration_def n)
qed

lemma columns_added_other: "t \<noteq> ''users'' \<Longrightarrow> t \<noteq> ''user_settings'' \<Longrightarrow> columns_added t = []"
  by (simp add: columns_added_def)

lemma columns_added_cases:
  "columns_added t = (if t = ''users'' then users_columns else if t = ''user_settings'' then settings_columns else [])"
  by (simp add: code_columns columns_added_other)

lemma migrations_of:
  "Pair ''users'' ` set users_columns \<subseteq> migrations" "Pair ''user_settings'' ` set settings_columns \<subseteq> migrations"
  "(t, c, ty, v) \<in> migrations \<longleftrightarrow> t = ''users'' \<and> (c, ty, v) \<in> set users_columns \<or> t = ''user_settings'' \<and> (c, ty, v) \<in> set settings_columns"
  by (auto simp: migrations_def columns_added_cases)

lemma migrations_added: "(t, c, ty, v) \<in> migrations \<longleftrightarrow> (c, ty, v) \<in> set (columns_added t)"
  by (simp add: migrations_def)

text \<open>What starting the server makes of a database: a table that was there keeps its columns, its rows
  and their values, a declared one that was not is created, and the two tables changed since the first
  release end with the columns they lacked.\<close>

lemma create_tables_runs:
  assumes "engine_ok q cols rows cell"
  obtains d' where "create_tables q d = (Inr (), d')"
    "\<And>t. cols d' t = map_option (\<lambda>have. have @ filter (\<lambda>c. c \<notin> set have) (map fst (columns_added t)))
       (case cols d t of Some have \<Rightarrow> Some have | None \<Rightarrow> map_of metadata t)"
    "\<And>t have. cols d t = Some have \<Longrightarrow> rows d' t = rows d t \<and> (\<forall>c \<in> set have. cell d' t c = cell d t c)"
    "\<And>t c ty v have. (t, c, ty, v) \<in> migrations \<Longrightarrow> cols d t = Some have \<Longrightarrow> c \<notin> set have \<Longrightarrow> cell d' t c = replicate (rows d t) v"
proof -
  let ?u = "''users''" and ?s = "''user_settings''"
  have su: "?u \<noteq> ?s" by simp
  have tables: "?u \<in> {?u, ?s}" "?s \<in> {?u, ?s}" by simp_all
  obtain d1 where d1: "en_create_all q metadata d = (Inr (), d1)" "\<forall>t. cols d1 t = (case cols d t of Some cs \<Rightarrow> Some cs | None \<Rightarrow> map_of metadata t)"
    "\<forall>t. cols d t \<noteq> None \<longrightarrow> rows d1 t = rows d t \<and> cell d1 t = cell d t"
    using assms(1) unfolding engine_ok_def by meson
  have there: "cols d1 t \<noteq> None" if "map_of metadata t \<noteq> None" for t
    using that d1(2) by (cases "cols d t") simp_all
  obtain hu hs where h: "cols d1 ?u = Some hu" "cols d1 ?s = Some hs"
    using there [OF tables_declared(1)] there [OF tables_declared(2)] by blast
  obtain d2 where d2: "migrate q ?u users_columns d1 = (Inr (), d2)" "cols d2 = (cols d1)(?u \<mapsto> hu @ filter (\<lambda>c. c \<notin> set hu) (map fst users_columns))" "rows d2 = rows d1"
    "\<forall>(c, ty, v) \<in> set users_columns. c \<notin> set hu \<longrightarrow> cell d2 ?u c = replicate (rows d1 ?u) v"
    "\<forall>t' c'. t' \<noteq> ?u \<or> c' \<in> set hu \<or> c' \<notin> fst ` set users_columns \<longrightarrow> cell d2 t' c' = cell d1 t' c'"
    by (rule migrate_ok [OF assms(1), OF tables(1) h(1) migration_distinct(1) migrations_of(1)])
  have hs2: "cols d2 ?s = Some hs" using d2(2) h(2) by simp
  obtain d3 where d3: "migrate q ?s settings_columns d2 = (Inr (), d3)" "cols d3 = (cols d2)(?s \<mapsto> hs @ filter (\<lambda>c. c \<notin> set hs) (map fst settings_columns))" "rows d3 = rows d2"
    "\<forall>(c, ty, v) \<in> set settings_columns. c \<notin> set hs \<longrightarrow> cell d3 ?s c = replicate (rows d2 ?s) v"
    "\<forall>t' c'. t' \<noteq> ?s \<or> c' \<in> set hs \<or> c' \<notin> fst ` set settings_columns \<longrightarrow> cell d3 t' c' = cell d2 t' c'"
    by (rule migrate_ok [OF assms(1), OF tables(2) hs2 migration_distinct(2) migrations_of(2)])
  have cols3: "cols d3 t = map_option (\<lambda>have. have @ filter (\<lambda>c. c \<notin> set have) (map fst (columns_added t)))
      (case cols d t of Some have \<Rightarrow> Some have | None \<Rightarrow> map_of metadata t)" for t
    unfolding d1(2) [rule_format, of t, symmetric]
    using h by (auto simp: d3(2) d2(2) columns_added_cases option.map_ident)
  have kept: "rows d3 t = rows d t \<and> (\<forall>c \<in> set have. cell d3 t c = cell d t c)" if "cols d t = Some have" for t "have"
  proof -
    have "cols d1 t = Some have" "rows d1 t = rows d t" "cell d1 t = cell d t" using that d1(2,3) by simp_all
    then show ?thesis using d3(3,5) d2(3,5) h by (metis option.inject)
  qed
  have filled: "cell d3 t c = replicate (rows d t) v" if "(t, c, ty, v) \<in> migrations" "cols d t = Some have" "c \<notin> set have" for t c ty v "have"
  proof -
    have "cols d1 t = Some have" "rows d1 t = rows d t" using that(2) d1(2,3) by simp_all
    then show ?thesis
      using that(1,3) h d2(3,4) d3(4,5) su unfolding migrations_of(3) by (elim disjE conjE) fastforce+
  qed
  show ?thesis by (rule that [OF create_tables_steps [OF d1(1) d2(1) d3(1)] cols3 kept filled]) assumption+
qed

text \<open>Nothing is left to do on a database with every declared table and every added column.\<close>

lemma create_tables_idle:
  assumes "engine_ok q cols rows cell" and "\<And>t. t \<in> fst ` set metadata \<Longrightarrow> cols d t \<noteq> None"
    and "\<And>t have. cols d t = Some have \<Longrightarrow> fst ` set (columns_added t) \<subseteq> set have"
  shows "create_tables q d = (Inr (), d)"
proof -
  have m: "migrate q t (columns_added t) d = (Inr (), d)" if t: "t \<in> {''users'', ''user_settings''}" for t
  proof -
    have "t \<in> fst ` set metadata" using t tables_declared by (auto simp: map_of_eq_None_iff)
    then obtain "have" where "cols d t = Some have" using assms(2) by fastforce
    then show ?thesis using migrate_none [OF assms(1) t] assms(3) by blast
  qed
  have "en_create_all q metadata d = (Inr (), d)" using assms(1,2) unfolding engine_ok_def by metis
  then show ?thesis
    by (rule create_tables_steps) (use m [of "''users''"] m [of "''user_settings''"] in \<open>simp_all add: columns_added_cases\<close>)
qed

text \<open>C23: Starting the server brings a database of any age forward and loses nothing: \<open>create_tables\<close>
  succeeds, every declared table is there afterwards, one that was missing with every declared
  column; a table that was there keeps its columns, its rows and their values and ends with each of
  the columns added since the first release (\<open>columns_added\<close>: three of \<open>users\<close>, ten of
  \<open>user_settings\<close>), with the legacy default in every row where it was new; and running it again
  changes nothing. A declared column that is missing stays missing exactly when it is none of
  those: \<open>default_view\<close>, \<open>auto_logout_enabled\<close> and \<open>auto_logout_timeout_seconds\<close>, which came without a
  migration, are never added to an older \<open>user_settings\<close>.\<close>

theorem schema_migrated:
  assumes "engine_ok q cols rows cell"
  shows "\<exists>d'. create_tables q d = (Inr (), d')
    \<and> (\<forall>(t, cs) \<in> set metadata. \<exists>after. cols d' t = Some after
         \<and> (\<forall>c \<in> set cs. c \<in> set after \<longleftrightarrow> (case cols d t of None \<Rightarrow> True
              | Some have \<Rightarrow> c \<in> set have \<or> c \<in> fst ` set (columns_added t))))
    \<and> (\<forall>t have. cols d t = Some have \<longrightarrow> rows d' t = rows d t \<and> (\<forall>c \<in> set have. cell d' t c = cell d t c)
         \<and> (\<exists>after. cols d' t = Some (have @ after)))
    \<and> (\<forall>t have c ty v. cols d t = Some have \<and> (c, ty, v) \<in> set (columns_added t) \<and> c \<notin> set have \<longrightarrow>
         cell d' t c = replicate (rows d t) v)
    \<and> (\<forall>have c. cols d ''user_settings'' = Some have \<and> c \<notin> set have
         \<and> c \<in> {''default_view'', ''auto_logout_enabled'', ''auto_logout_timeout_seconds''} \<longrightarrow>
         (\<exists>after. cols d' ''user_settings'' = Some after \<and> c \<notin> set after))
    \<and> create_tables q d' = (Inr (), d')"
proof (rule create_tables_runs [OF assms(1), where d = d])
  fix d' assume r: "create_tables q d = (Inr (), d')"
    and c: "\<And>t. cols d' t = map_option (\<lambda>have. have @ filter (\<lambda>c. c \<notin> set have) (map fst (columns_added t)))
       (case cols d t of Some have \<Rightarrow> Some have | None \<Rightarrow> map_of metadata t)"
    and k: "\<And>t have. cols d t = Some have \<Longrightarrow> rows d' t = rows d t \<and> (\<forall>c \<in> set have. cell d' t c = cell d t c)"
    and a: "\<And>t c ty v have. (t, c, ty, v) \<in> migrations \<Longrightarrow> cols d t = Some have \<Longrightarrow> c \<notin> set have \<Longrightarrow> cell d' t c = replicate (rows d t) v"
  have full: "\<exists>after. cols d' t = Some after
         \<and> (\<forall>c \<in> set cs. c \<in> set after \<longleftrightarrow> (case cols d t of None \<Rightarrow> True
              | Some have \<Rightarrow> c \<in> set have \<or> c \<in> fst ` set (columns_added t)))" if m: "(t, cs) \<in> set metadata" for t cs
    using metadata_distinct [OF m] by (cases "cols d t") (auto simp: c)
  have kept: "\<exists>after. cols d' t = Some (have @ after)" if "cols d t = Some have" for t "have"
    using that by (simp add: c)
  have late: "\<exists>after. cols d' ''user_settings'' = Some after \<and> c1 \<notin> set after"
    if "cols d ''user_settings'' = Some have" "c1 \<notin> set have"
      "c1 \<in> {''default_view'', ''auto_logout_enabled'', ''auto_logout_timeout_seconds''}" for "have" c1
  proof -
    have "c1 \<notin> set (map fst (columns_added ''user_settings''))"
      using that(3) unfolding code_columns migration_columns by auto
    then show ?thesis using that(1,2) by (simp add: c)
  qed
  have "create_tables q d' = (Inr (), d')"
  proof (rule create_tables_idle [OF assms(1)])
    show "cols d' t \<noteq> None" if t: "t \<in> fst ` set metadata" for t
    proof -
      obtain cs where "(t, cs) \<in> set metadata" using t by auto
      then show ?thesis using full by blast
    qed
    show "fst ` set (columns_added t) \<subseteq> set have" if "cols d' t = Some have" for t "have"
      using that by (force simp: c)
  qed
  note again = this
  have filled: "\<forall>t have c ty v. cols d t = Some have \<and> (c, ty, v) \<in> set (columns_added t) \<and> c \<notin> set have \<longrightarrow>
      cell d' t c = replicate (rows d t) v"
    using a unfolding migrations_added by blast
  show ?thesis
  proof (intro exI [of _ d'] conjI)
    show "\<forall>(t, cs) \<in> set metadata. \<exists>after. cols d' t = Some after
         \<and> (\<forall>c \<in> set cs. c \<in> set after \<longleftrightarrow> (case cols d t of None \<Rightarrow> True
              | Some have \<Rightarrow> c \<in> set have \<or> c \<in> fst ` set (columns_added t)))"
      using full by blast
    show "\<forall>t have. cols d t = Some have \<longrightarrow> rows d' t = rows d t \<and> (\<forall>c \<in> set have. cell d' t c = cell d t c)
         \<and> (\<exists>after. cols d' t = Some (have @ after))"
      using k kept by simp
  qed (fact r filled again | use late in blast)+
qed

section \<open>Witness\<close>

text \<open>A small engine: every table with its number of rows and the values of each column.\<close>

type_synonym tables = "(string \<times> nat \<times> (string \<times> string list) list) list"

definition added_columns :: "(string \<times> string \<times> string \<times> string) list" where
  "added_columns = map (Pair ''users'') users_columns @ map (Pair ''user_settings'') settings_columns"

definition statement :: "string \<times> string \<times> string \<times> string \<Rightarrow> string" where
  "statement = (\<lambda>(t, m). alter_table t m)"

definition small_engine :: "tables engine" where
  "small_engine = \<lparr>
     en_create_all = (\<lambda>meta d. (Inr (), d @ map (\<lambda>(t, cs). (t, 0, map (\<lambda>c. (c, [])) cs)) (filter (\<lambda>(t, cs). map_of d t = None) meta))),
     en_query = (\<lambda>sql d. (Inr (case find (\<lambda>(t, r). table_info t = sql) d of None \<Rightarrow> [] | Some (t, n, cs) \<Rightarrow> map (\<lambda>c. (0, fst c)) cs), d)),
     en_run = (\<lambda>sql d. case find (\<lambda>m. statement m = sql) added_columns of
        None \<Rightarrow> (Inl ValueError, d)
      | Some (t, c, ty, v) \<Rightarrow> (Inr (), map (\<lambda>(t', n, cs). (t', n, if t' = t then cs @ [(c, replicate n v)] else cs)) d)),
     en_rollback = (\<lambda>d d'. d)\<rparr>"

definition small_cols :: "tables \<Rightarrow> string \<Rightarrow> string list option" where
  "small_cols d t = map_option (map fst \<circ> snd) (map_of d t)"

definition small_rows :: "tables \<Rightarrow> string \<Rightarrow> nat" where
  "small_rows d t = (case map_of d t of None \<Rightarrow> 0 | Some (n, cs) \<Rightarrow> n)"

definition small_cell :: "tables \<Rightarrow> string \<Rightarrow> string \<Rightarrow> string list" where
  "small_cell d t c = (case map_of d t of None \<Rightarrow> [] | Some (n, cs) \<Rightarrow> (case map_of cs c of None \<Rightarrow> [] | Some vs \<Rightarrow> vs))"

lemma map_of_missing: "map_of (map (\<lambda>(t, cs). (t, f cs)) (filter (\<lambda>(t, cs). P t) xs)) t = (if P t then map_of (map (\<lambda>(t, cs). (t, f cs)) xs) t else None)"
  by (induction xs) auto

lemma find_table: "find (\<lambda>(t', r). table_info t' = table_info t) d = map_option (Pair t) (map_of d t)"
  by (induction d) (auto simp: table_info_def)

lemma map_of_added: "map_of (map (\<lambda>(t', n, cs). (t', n, if t' = t then f n cs else cs)) d) t1
    = map_option (\<lambda>(n, cs). (n, if t1 = t then f n cs else cs)) (map_of d t1)"
  by (induction d) auto

lemma find_distinct: "distinct (map f xs) \<Longrightarrow> m \<in> set xs \<Longrightarrow> find (\<lambda>x. f x = f m) xs = Some m"
  by (induction xs) (auto simp: image_iff)

lemma first_word: "CHR '' '' \<notin> set a \<Longrightarrow> CHR '' '' \<notin> set b \<Longrightarrow> a @ CHR '' '' # r = b @ CHR '' '' # r' \<longleftrightarrow> a = b \<and> r = r'"
proof (induction a arbitrary: b)
  case Nil
  then show ?case by (cases b) auto
next
  case (Cons x a)
  then show ?case by (cases b) auto
qed

lemma added_words: "(t, c, ty, v) \<in> set added_columns \<Longrightarrow> CHR '' '' \<notin> set t \<and> CHR '' '' \<notin> set c"
  unfolding added_columns_def users_columns_def users_kdf_migration_def settings_columns_def user_settings_migration_def by auto

lemma added_keys: "distinct (map (\<lambda>(t, c, ty, v). (t, c)) added_columns)"
  by (simp add: added_columns_def users_columns_def users_kdf_migration_def settings_columns_def user_settings_migration_def)

lemma statements_distinct: "distinct (map statement added_columns)"
  unfolding distinct_map
proof (intro conjI inj_onI)
  show "distinct added_columns" using added_keys by (simp add: distinct_map)
  fix m m' assume m: "m \<in> set added_columns" "m' \<in> set added_columns" "statement m = statement m'"
  obtain t c ty v t' c' ty' v' where e: "m = (t, c, ty, v)" "m' = (t', c', ty', v')" by (cases m, cases m')
  have "t = t' \<and> c = c'"
    using m added_words [of t c ty v] added_words [of t' c' ty' v'] by (simp add: e statement_def alter_table_def first_word)
  then show "m = m'" using added_keys m(1,2) by (force simp: distinct_map inj_on_def e)
qed

lemmas statements_found = find_distinct [OF statements_distinct]

lemma small_engine_ok: "engine_ok small_engine small_cols small_rows small_cell"
proof -
  have 1: "\<exists>d'. en_create_all small_engine metadata d = (Inr (), d')
        \<and> (\<forall>t. small_cols d' t = (case small_cols d t of Some cs \<Rightarrow> Some cs | None \<Rightarrow> map_of metadata t))
        \<and> (\<forall>t. small_cols d t \<noteq> None \<longrightarrow> small_rows d' t = small_rows d t \<and> small_cell d' t = small_cell d t)
        \<and> ((\<forall>t \<in> fst ` set metadata. small_cols d t \<noteq> None) \<longrightarrow> d' = d)" for d
  proof -
    let ?n = "map (\<lambda>(t, cs). (t, 0, map (\<lambda>c. (c, [])) cs)) (filter (\<lambda>(t, cs). map_of d t = None) metadata) :: tables"
    have n: "map_of ?n t = (if map_of d t = None then map_option (\<lambda>cs. (0, map (\<lambda>c. (c, [])) cs)) (map_of metadata t) else None)" for t
      by (subst map_of_missing) (simp add: map_of_map)
    show ?thesis
    proof (intro exI [of _ "d @ ?n"] conjI allI impI)
      show "en_create_all small_engine metadata d = (Inr (), d @ ?n)" by (simp add: small_engine_def)
      show "small_cols (d @ ?n) t = (case small_cols d t of Some cs \<Rightarrow> Some cs | None \<Rightarrow> map_of metadata t)" for t
        by (cases "map_of d t"; cases "map_of metadata t") (auto simp: small_cols_def n map_add_def comp_def)
      show "small_rows (d @ ?n) t = small_rows d t" "small_cell (d @ ?n) t = small_cell d t" if "small_cols d t \<noteq> None" for t
        using that by (auto simp: small_cols_def small_rows_def small_cell_def n map_add_def fun_eq_iff)
      show "d @ ?n = d" if "\<forall>t \<in> fst ` set metadata. small_cols d t \<noteq> None"
        using that by (force simp: small_cols_def filter_empty_conv)
    qed
  qed
  have 2: "\<exists>rs. en_query small_engine (table_info t) d = (Inr rs, d) \<and> map snd rs = cs" if "small_cols d t = Some cs" for t d cs
    using that by (auto simp: small_engine_def small_cols_def find_table comp_def)
  have 3: "\<exists>d'. en_run small_engine (alter_table t (c, ty, v)) d = (Inr (), d') \<and> small_cols d' = (small_cols d)(t \<mapsto> cs @ [c]) \<and> small_rows d' = small_rows d
           \<and> small_cell d' t c = replicate (small_rows d t) v \<and> (\<forall>t' c'. (t', c') \<noteq> (t, c) \<longrightarrow> small_cell d' t' c' = small_cell d t' c')"
    if m: "(t, c, ty, v) \<in> migrations" and cs: "small_cols d t = Some cs" "c \<notin> set cs" for t c ty v d cs
  proof -
    have f: "find (\<lambda>m. statement m = alter_table t (c, ty, v)) added_columns = Some (t, c, ty, v)"
      using m statements_found [of "(t, c, ty, v)"] by (auto simp: migrations_of(3) added_columns_def statement_def image_Un)
    obtain n xs where t: "map_of d t = Some (n, xs)" "map fst xs = cs" using cs(1) by (auto simp: small_cols_def)
    have x: "map_of xs c = None" using cs(2) unfolding t(2) [symmetric] by (simp add: map_of_eq_None_iff)
    let ?d = "map (\<lambda>(t', n, cs). (t', n, if t' = t then cs @ [(c, replicate n v)] else cs)) d"
    show ?thesis
    proof (intro exI [of _ ?d] conjI allI impI)
      show "en_run small_engine (alter_table t (c, ty, v)) d = (Inr (), ?d)" by (simp add: small_engine_def f)
      show "small_cols ?d = (small_cols d)(t \<mapsto> cs @ [c])"
        using t by (auto simp: small_cols_def map_of_added fun_eq_iff option.map_comp comp_def split: option.split)
      show "small_rows ?d = small_rows d" by (auto simp: small_rows_def map_of_added fun_eq_iff split: option.split)
      show "small_cell ?d t c = replicate (small_rows d t) v" using t x by (simp add: small_cell_def small_rows_def map_of_added map_add_def)
      show "small_cell ?d t' c' = small_cell d t' c'" if "(t', c') \<noteq> (t, c)" for t' c'
        using that by (auto simp: small_cell_def map_of_added map_add_def split: option.split)
    qed
  qed
  show ?thesis
    unfolding engine_ok_def by (intro conjI allI ballI impI; (rule 1 | erule 2 | (clarify, rule 3; assumption)))
qed

definition old_database :: tables where   \<comment> \<open>of the first release, with one user\<close>
  "old_database = [(''users'', 1, map (\<lambda>c. (c, [''7''])) (filter (\<lambda>c. c \<notin> set (map fst users_columns)) (the (map_of metadata ''users''))))]"

theorem schema_migrated_witness:
  "\<exists>d'. create_tables small_engine old_database = (Inr (), d') \<and> small_cell d' ''users'' ''email'' = [''7'']
    \<and> small_cell d' ''users'' ''kdf_time_cost'' = [''3''] \<and> create_tables small_engine d' = (Inr (), d')"
proof -
  let ?have = "filter (\<lambda>c. c \<notin> set (map fst users_columns)) (the (map_of metadata ''users''))"
  have cols: "small_cols old_database ''users'' = Some ?have" by (simp add: small_cols_def old_database_def comp_def)
  have cells: "small_cell old_database ''users'' ''email'' = [''7'']" "small_rows old_database ''users'' = 1" "''email'' \<in> set ?have" "''kdf_time_cost'' \<notin> set ?have"
    by (simp_all add: small_cell_def small_rows_def old_database_def metadata_def migration_columns)
  have m: "(''kdf_time_cost'', ''INTEGER'', ''3'') \<in> set (columns_added ''users'')" by (simp add: columns_added_def)
  obtain d' where d': "create_tables small_engine old_database = (Inr (), d')" "create_tables small_engine d' = (Inr (), d')"
    and k: "\<forall>t have. small_cols old_database t = Some have \<longrightarrow> small_rows d' t = small_rows old_database t \<and> (\<forall>c \<in> set have. small_cell d' t c = small_cell old_database t c)
       \<and> (\<exists>after. small_cols d' t = Some (have @ after))"
    and a: "\<forall>t have c ty v. small_cols old_database t = Some have \<and> (c, ty, v) \<in> set (columns_added t) \<and> c \<notin> set have \<longrightarrow>
       small_cell d' t c = replicate (small_rows old_database t) v"
    using schema_migrated [OF small_engine_ok, of old_database] by blast
  have "small_cell d' ''users'' ''email'' = [''7'']" using k [rule_format, OF cols] cells(1,3) by simp
  moreover have "small_cell d' ''users'' ''kdf_time_cost'' = [''3'']" using a [rule_format, OF conjI [OF cols conjI [OF m cells(4)]]] cells(2) by simp
  ultimately show ?thesis using d' by blast
qed

end
