(* ===== verification/Spec2Isabelle.thy ===== *)
theory Spec2Isabelle
  imports Admin Forgery Spans Moves Grants Settings Journals Manage Holidays Schema
begin

text \<open>
  WebCalDav is a web front end to CalDAV servers: it keeps users, their CalDAV accounts, settings, API
  tokens and share links in a SQLite database, and reads and writes the calendars themselves on the
  CalDAV server at every request. This development models its server side, the Python package
  \<open>webcaldav\<close>, function by function, and proves what makes it correct.

  How the program is put together. \<open>app.py\<close> dispatches a request, after the check of the anti-forgery
  header, to a route under \<open>routers/\<close>, or to the MCP server of \<open>mcp_server.py\<close>. A route runs under a session
  (\<open>deps.py\<close>, \<open>session.py\<close>), a share secret (\<open>shares.py\<close>) or an API token (\<open>tokens.py\<close>); each of them yields the
  user's data key, which opens the CalDAV passwords (\<open>crypto.py\<close>). The item routes, the share routes and the
  MCP tools end in the operations of \<open>caldav_client.py\<close>, which fetch a calendar object, decide what becomes
  of it, and write it back.

  How it is modelled. A Python exception is a value of \<open>exn\<close>, a fallible function returns \<open>exn + 'a\<close>, and a
  computation with effects is a function from a state to a result and the state it leaves, the state
  surviving the exception. The state of the process, \<open>'s app\<close>, holds the CalDAV server's state (of any
  type \<open>'s\<close>) with the error counters, the database as lists of rows, the session store, the login
  limiter and the gauge of sessions. Times are microseconds, dates are ordinals, integers are unbounded as
  Python's are; the bounds of \<open>date\<close> and \<open>datetime\<close> are checked where Python checks them and raise
  \<open>OverflowError\<close> or \<open>ValueError\<close>. Every definition that models code computes.

  What is outside the repository is a parameter, with the documented behaviour the code relies on as a
  named hypothesis: the CalDAV server (\<open>dav\<close>; \<open>read_only\<close> and \<open>observing\<close> say that a search changes nothing), the
  time zone database (\<open>tzdb\<close>, \<open>tzdb_ok\<close>), the rule engine of dateutil (\<open>rrule_eng\<close>; \<open>rules_ok\<close> says that
  \<open>before\<close> and \<open>between\<close> answer by the occurrences of the rule), the cryptographic
  primitives (\<open>crypto\<close>; \<open>crypto_ok\<close> says that what was sealed opens to the same bytes under the same key and
  nonce and to nothing else), the name resolver, the SQL engine of the migration (\<open>engine\<close>, \<open>engine_ok\<close>), and
  random values and clock readings, which are arguments. The parts of the standard library the code leans
  on are modelled as CPython has them, among them ISO 8601 parsing and printing, \<open>urlsplit\<close>, \<open>ipaddress\<close>,
  \<open>json\<close> and \<open>base64\<close>.
\<close>

section \<open>The theories\<close>

text \<open>
  Prelude. \<open>PyBase\<close> has the exceptions, the two kinds of computation and their sequencing; \<open>PyStr\<close>, \<open>PyTime\<close>,
  \<open>PyIso\<close> and \<open>PyCal\<close> the strings, dates, time zones and ISO texts of Python; \<open>Json\<close> the serialisation of
  sealed payloads with its round trip. \<open>Ical\<close> has calendar objects, components and property bags, with the
  interface \<open>component\<close> that events, tasks, journals and alarms share.

  The CalDAV client (\<open>caldav_client.py\<close>). \<open>Urls\<close>: the guard against server-side request forgery, colours and
  discovery, and the public address of \<open>baseurl.py\<close>. \<open>Dav\<close>: the server's interface, the counting of errors
  (\<open>measured\<close>). \<open>Rrule\<close>: rules, their text, truncation, pivots. \<open>Reminders\<close>: alarms. \<open>Overrides\<close>: the fields of
  an item, detached overrides, new series. \<open>Series\<close>: rebasing, splitting and deleting a series, with the
  contract \<open>master_edit\<close> of an edit of the master. \<open>Events\<close>, \<open>Tasks\<close>, \<open>Journals\<close>: the operations. \<open>Fetch\<close> and
  \<open>Account\<close>: listing, single items, combined loads and exports.

  Keys, sessions and grants. \<open>Crypto\<close>, \<open>Session\<close> (the store refines a map whose entries expire), \<open>Ratelimit\<close>,
  \<open>Db\<close> (the tables of \<open>models.py\<close>, \<open>config.py\<close>, the process state), \<open>Schema\<close> (\<open>db.py\<close>), \<open>Login\<close> (\<open>auth.py\<close>, \<open>deps.py\<close>,
  \<open>admin.py\<close>), \<open>Tickets\<close> with the interface \<open>ticket\<close> that \<open>Tokens\<close> and \<open>Shares\<close> interpret for what is sealed in
  an API token and in a share link.

  Routes. \<open>Manage\<close>: accounts, calendars, tokens. \<open>Routes\<close>: events, tasks, journals and the combined load;
  \<open>RouteFacts\<close> what holds of them. \<open>ShareRoutes\<close>, \<open>Mcp\<close>, \<open>Settings\<close>, \<open>Holidays\<close>, \<open>Pages\<close> (with the languages of
  \<open>i18n.py\<close>). \<open>Samples\<close> and \<open>RouteSamples\<close> hold values for the witnesses alone.

  The whole. \<open>Consistency\<close>: the invariant of the database, one lemma for every commit. \<open>Server\<close>: every route
  with its method and path, every administration command, restarts, and the states they can reach.
  \<open>Forgery\<close>, \<open>Grants\<close>, \<open>Spans\<close>, \<open>Moves\<close> and \<open>Admin\<close>: properties that follow a request, a grant, an event or a
  user through several components.
\<close>

section \<open>What is shown\<close>

text \<open>
  The system. From a consistent database every sequence of requests, commands and restarts leads to
  consistent ones; a request made with a session changes rows of its user alone; a request that another
  site forged changes nothing; a new user gets in with the printed password, and further with a new
  one only, and keeps the data key; but the sessions of a deleted user survive it, and its id may be
  given out again.

  Authority. What a share link or an API token was asked to grant is what it grants, until it expires or is
  revoked; a write under either reaches only what it grants, of calendars its owner still has, except
  that the link of a single item may create others in the item's calendar; an item request
  reaches the CalDAV side through calendars of its user alone. The password of an account is
  opened to what its calendars were discovered with. Logging in takes the credentials, the failed
  guesses of an address between two of its successes are bounded, a password change keeps the data key, an
  administrative reset replaces it.

  Series. Edits and deletions of one occurrence, of the following ones and of a whole series do exactly
  that, with overrides, exclusions and the end of the rule moved by one delta, or divided at the pivot, where
  the old rule ends with the last occurrence before it and the new one has what is left; completing an occurrence
  and taking it back is the identity; decisions precede the first write; a move creates before it deletes.

  Reading. Overrides are shown and win over generated occurrences of the same slot text,
  the combined load shows what the three listings
  show, an export holds every component once, the inclusive ends of the MCP tools resolve back to the stored
  span, the span of an accepted event is well-typed.

  The rest. The session store refines its specification, the migration of the schema adds exactly
  the columns it knows of (three declared ones are not among them), loses nothing
  and is idempotent, the settings keep their bounds and reach the running session, the guard admits
  no address it means to refuse, the window of a grid covers what the grid shows, the start page tells the
  truth about its session, the language is the best one supported, the loops over the years and the days of
  the holidays end.

  Loops. The two \<open>while\<close> loops of the program, over years and over days (\<open>holidays.py\<close>, \<open>routers/holidays.py\<close>), are
  written as they stand, as \<open>partial_function (option)\<close> whose value is \<open>None\<close> where the loop would not end, and are proved
  to return for every range of dates; all other recursion is structural or
  has its termination proved, the JSON parser on the length of its input.
\<close>

section \<open>Not modelled\<close>

text \<open>
  The browser side (\<open>static/\<close>, \<open>templates/\<close>) and the translation files (\<open>locales/\<close>; a page carries the language that
  selects one, \<open>load_catalog\<close> only reads the file). The declaration of metrics (\<open>metrics.py\<close>), their exposition
  and the health check (\<open>routers/ops.py\<close>), the counter of requests (\<open>metrics_middleware\<close>) and logging; the error
  counters and the gauge of sessions, which the code updates at the operations, are part of the state. The
  creation of the SQL engine and the globals that hold the engine, the store and the limiter
  (\<open>init_engine\<close>, \<open>init_session_store\<close>); the hash of the static files. Reading the environment into the
  configuration and the fields of it that no modelled function reads. The protocol of MCP itself, and the
  schemas and documentation strings of its tools: a tool is the function behind it. Concurrency: a handler
  runs to its end before the next one, the jobs of a gathered load run in their order, and one clock
  reading stands for those a request makes. A weight of an \<open>Accept-Language\<close> header that is not a number is left aside.
  Text is eight-bit: a character beyond that has no value here. SQLite is not modelled beyond what the queries
  ask of it: foreign keys are not enforced, an id is one more than the largest present, and an insertion
  never fails (the code looks for an e-mail address before it inserts one; digests of secrets are assumed
  not to collide where that matters).
\<close>

end
